(* ===== verification/RustStr.thy ===== *)
theory RustStr
  imports Prelude
begin

text \<open>
  Rust strings. A \<open>str\<close> is the list of its UTF-8 bytes (\<open>string\<close>, one \<open>char\<close> per byte),
  so \<open>len()\<close> is \<open>length\<close> and a slice at ASCII delimiters is a list operation. Functions of
  the standard library that look at code points are written on the bytes: white space
  (\<open>char::is_whitespace\<close>) by its UTF-8 encodings, ASCII case mapping byte by byte. Full
  Unicode case mapping and \<open>is_alphanumeric\<close> come from the Unicode tables: they are fields of
  the record \<open>unicode\<close> that the operations take, and are consulted only on strings that are
  not ASCII.
\<close>

section \<open>Bytes and ASCII\<close>

abbreviation byte_of :: "char \<Rightarrow> nat" where
  "byte_of c \<equiv> of_char c"

definition is_ascii :: "string \<Rightarrow> bool" where
  "is_ascii s = list_all (\<lambda>c. byte_of c < 128) s"

definition ascii_upper_char :: "char \<Rightarrow> char" where
  "ascii_upper_char c =
     (if 97 \<le> byte_of c \<and> byte_of c \<le> 122 then char_of (byte_of c - 32) else c)"

definition ascii_lower_char :: "char \<Rightarrow> char" where
  "ascii_lower_char c =
     (if 65 \<le> byte_of c \<and> byte_of c \<le> 90 then char_of (byte_of c + 32) else c)"

definition to_ascii_uppercase :: "string \<Rightarrow> string" where
  "to_ascii_uppercase s = map ascii_upper_char s"

definition to_ascii_lowercase :: "string \<Rightarrow> string" where
  "to_ascii_lowercase s = map ascii_lower_char s"

definition eq_ignore_ascii_case :: "string \<Rightarrow> string \<Rightarrow> bool" where
  "eq_ignore_ascii_case a b = (to_ascii_lowercase a = to_ascii_lowercase b)"

record unicode =
  uni_upper :: "string \<Rightarrow> string"
  uni_lower :: "string \<Rightarrow> string"
  uni_alnum :: "nat \<Rightarrow> bool"

definition to_uppercase :: "unicode \<Rightarrow> string \<Rightarrow> string" where
  "to_uppercase u s = (if is_ascii s then to_ascii_uppercase s else uni_upper u s)"

definition to_lowercase :: "unicode \<Rightarrow> string \<Rightarrow> string" where
  "to_lowercase u s = (if is_ascii s then to_ascii_lowercase s else uni_lower u s)"

definition ascii_alnum :: "char \<Rightarrow> bool" where
  "ascii_alnum c = (let b = byte_of c in
     (48 \<le> b \<and> b \<le> 57) \<or> (65 \<le> b \<and> b \<le> 90) \<or> (97 \<le> b \<and> b \<le> 122))"

definition CRLF :: string where
  "CRLF = [CHR 0x0D, CHR 0x0A]"

section \<open>White space\<close>

text \<open>
  \<open>ws_len s\<close> is the number of bytes of the white-space character \<open>s\<close> begins with, 0 when
  it begins with none. The code points are those of Unicode's \<open>White_Space\<close>: U+0009..U+000D,
  U+0020, U+0085, U+00A0, U+1680, U+2000..U+200A, U+2028, U+2029, U+202F, U+205F, U+3000.
\<close>

definition ascii_ws :: "char \<Rightarrow> bool" where
  "ascii_ws c = (byte_of c = 32 \<or> (9 \<le> byte_of c \<and> byte_of c \<le> 13))"

definition ws2 :: "nat \<Rightarrow> nat \<Rightarrow> bool" where
  "ws2 a b = (a = 0xC2 \<and> (b = 0x85 \<or> b = 0xA0))"

definition ws3 :: "nat \<Rightarrow> nat \<Rightarrow> nat \<Rightarrow> bool" where
  "ws3 a b c = ((a = 0xE1 \<and> b = 0x9A \<and> c = 0x80)
     \<or> (a = 0xE2 \<and> b = 0x80 \<and> ((0x80 \<le> c \<and> c \<le> 0x8A) \<or> c = 0xA8 \<or> c = 0xA9 \<or> c = 0xAF))
     \<or> (a = 0xE2 \<and> b = 0x81 \<and> c = 0x9F)
     \<or> (a = 0xE3 \<and> b = 0x80 \<and> c = 0x80))"

definition ws_len :: "string \<Rightarrow> nat" where
  "ws_len s = (case s of [] \<Rightarrow> 0 | a # s1 \<Rightarrow> if ascii_ws a then 1 else
     (case s1 of [] \<Rightarrow> 0 | b # s2 \<Rightarrow> if ws2 (byte_of a) (byte_of b) then 2 else
     (case s2 of [] \<Rightarrow> 0 | c # _ \<Rightarrow> if ws3 (byte_of a) (byte_of b) (byte_of c) then 3 else 0)))"

text \<open>The same, read from the end of a reversed string.\<close>

definition ws_len_rev :: "string \<Rightarrow> nat" where
  "ws_len_rev s = (case s of [] \<Rightarrow> 0 | a # s1 \<Rightarrow> if ascii_ws a then 1 else
     (case s1 of [] \<Rightarrow> 0 | b # s2 \<Rightarrow> if ws2 (byte_of b) (byte_of a) then 2 else
     (case s2 of [] \<Rightarrow> 0 | c # _ \<Rightarrow> if ws3 (byte_of c) (byte_of b) (byte_of a) then 3 else 0)))"

lemma ws_len_Nil [simp]: "ws_len [] = 0" "ws_len_rev [] = 0"
  by (simp_all add: ws_len_def ws_len_rev_def)

lemma ws_len_le: "ws_len s \<le> length s" "ws_len_rev s \<le> length s"
  by (auto simp: ws_len_def ws_len_rev_def split: list.splits)

lemma ws_len_drop:
  "0 < ws_len s \<Longrightarrow> length s - ws_len s < length s"
  "0 < ws_len_rev s \<Longrightarrow> length s - ws_len_rev s < length s"
  using ws_len_le [of s] by (cases s, simp, simp)+

function trim_start :: "string \<Rightarrow> string" where
  "trim_start s = (if ws_len s = 0 then s else trim_start (drop (ws_len s) s))"
  by pat_completeness auto
termination
  by (relation "measure length") (auto simp: ws_len_drop)

function trim_start_rev :: "string \<Rightarrow> string" where
  "trim_start_rev s = (if ws_len_rev s = 0 then s else trim_start_rev (drop (ws_len_rev s) s))"
  by pat_completeness auto
termination
  by (relation "measure length") (auto simp: ws_len_drop)

declare trim_start.simps [simp del] trim_start_rev.simps [simp del]

definition trim_end :: "string \<Rightarrow> string" where
  "trim_end s = rev (trim_start_rev (rev s))"

definition trim :: "string \<Rightarrow> string" where
  "trim s = trim_end (trim_start s)"

text \<open>\<open>s.find(char::is_whitespace)\<close>: the part before the first white space and the rest.\<close>

fun span_nonws :: "string \<Rightarrow> string \<times> string" where
  "span_nonws [] = ([], [])"
| "span_nonws (c # s) = (if ws_len (c # s) > 0 then ([], c # s)
     else (let (w, r) = span_nonws s in (c # w, r)))"

lemma span_nonws_append: "fst (span_nonws s) @ snd (span_nonws s) = s"
  by (induction s) (auto simp: Let_def split: prod.splits)

lemma span_nonws_len: "length (snd (span_nonws s)) \<le> length s"
  by (induction s) (auto simp: Let_def split: prod.splits)

lemma trim_start_len: "length (trim_start s) \<le> length s"
proof (induction s rule: trim_start.induct)
  case (1 s)
  then show ?case by (subst trim_start.simps) auto
qed

text \<open>\<open>s.split_whitespace()\<close>\<close>

function split_whitespace :: "string \<Rightarrow> string list" where
  "split_whitespace s = (case trim_start s of [] \<Rightarrow> []
     | c # t \<Rightarrow> (c # fst (span_nonws t)) # split_whitespace (snd (span_nonws t)))"
  by pat_completeness auto
termination
proof (relation "measure length")
  fix s c t
  assume h: "trim_start s = c # t"
  have "length (snd (span_nonws t)) \<le> length t" by (rule span_nonws_len)
  moreover have "length (c # t) \<le> length s" using trim_start_len [of s] h by simp
  ultimately show "(snd (span_nonws t), s) \<in> measure length" by simp
qed simp

declare split_whitespace.simps [simp del]

section \<open>Splitting and searching\<close>

text \<open>\<open>s.split(c)\<close>, \<open>s.splitn(n, c)\<close>, \<open>s.split_once(c)\<close>\<close>

fun split_on :: "char \<Rightarrow> string \<Rightarrow> string list" where
  "split_on d [] = [[]]"
| "split_on d (c # s) = (if c = d then [] # split_on d s
     else (case split_on d s of [] \<Rightarrow> [[c]] | w # ws \<Rightarrow> (c # w) # ws))"

fun split_once :: "char \<Rightarrow> string \<Rightarrow> (string \<times> string) option" where
  "split_once d [] = None"
| "split_once d (c # s) = (if c = d then Some ([], s)
     else map_option (\<lambda>(a, b). (c # a, b)) (split_once d s))"

fun splitn :: "nat \<Rightarrow> char \<Rightarrow> string \<Rightarrow> string list" where
  "splitn 0 d s = []"
| "splitn (Suc 0) d s = [s]"
| "splitn (Suc (Suc n)) d s = (case split_once d s of None \<Rightarrow> [s]
     | Some (a, b) \<Rightarrow> a # splitn (Suc n) d b)"

lemma split_on_ne [simp]: "split_on d s \<noteq> []"
  by (induction s) (auto split: list.splits)

lemma split_once_Some: "split_once d s = Some (a, b) \<Longrightarrow> s = a @ d # b \<and> d \<notin> set a"
  by (induction s arbitrary: a) (auto split: if_splits)

lemma split_once_None: "split_once d s = None \<longleftrightarrow> d \<notin> set s"
  by (induction s) auto

lemma split_once_append: "d \<notin> set a \<Longrightarrow> split_once d (a @ d # b) = Some (a, b)"
  by (induction a) auto

text \<open>\<open>s.starts_with(p)\<close>, \<open>s.find(p)\<close> and \<open>s.contains(p)\<close> for a string pattern\<close>

fun starts_with :: "string \<Rightarrow> string \<Rightarrow> bool" where
  "starts_with [] s = True"
| "starts_with (p # ps) [] = False"
| "starts_with (p # ps) (c # s) = (p = c \<and> starts_with ps s)"

fun find_sub :: "string \<Rightarrow> string \<Rightarrow> nat option" where
  "find_sub p [] = (if p = [] then Some 0 else None)"
| "find_sub p (c # s) = (if starts_with p (c # s) then Some 0 else map_option Suc (find_sub p s))"

definition contains_sub :: "string \<Rightarrow> string \<Rightarrow> bool" where
  "contains_sub s p = (find_sub p s \<noteq> None)"

lemma starts_with_prefix: "starts_with p s \<longleftrightarrow> prefix p s"
  by (induction p s rule: starts_with.induct) auto

lemma contains_sub_sublist: "contains_sub s p \<longleftrightarrow> sublist p s"
  unfolding contains_sub_def
  by (induction s) (auto simp: starts_with_prefix sublist_Cons_right)

text \<open>\<open>s.trim_matches(c)\<close>\<close>

definition trim_matches :: "char \<Rightarrow> string \<Rightarrow> string" where
  "trim_matches d s = rev (dropWhile (\<lambda>c. c = d) (rev (dropWhile (\<lambda>c. c = d) s)))"

text \<open>\<open>parts.join(sep)\<close>\<close>

fun join :: "string \<Rightarrow> string list \<Rightarrow> string" where
  "join sep [] = []"
| "join sep [x] = x"
| "join sep (x # y # ys) = x @ sep @ join sep (y # ys)"

lemma split_on_join: "(\<And>x. x \<in> set xs \<Longrightarrow> d \<notin> set x) \<Longrightarrow> xs \<noteq> [] \<Longrightarrow> split_on d (join [d] xs) = xs"
proof (induction "[d]" xs rule: join.induct)
  case (2 x)
  then show ?case by (induction x) auto
next
  case (3 x y ys)
  then have "split_on d (join [d] (y # ys)) = y # ys" "d \<notin> set x" by auto
  then show ?case by (induction x) auto
qed simp

text \<open>\<open>s.replace(c, r)\<close> for a one-byte pattern\<close>

definition replace_char :: "char \<Rightarrow> string \<Rightarrow> string \<Rightarrow> string" where
  "replace_char d r s = concat (map (\<lambda>c. if c = d then r else [c]) s)"

text \<open>\<open>s.replace(p, r)\<close> for a non-empty string pattern: matches from left to right, without overlap\<close>

function replace_sub :: "string \<Rightarrow> string \<Rightarrow> string \<Rightarrow> string" where
  "replace_sub p r s = (if p = [] then s else case s of [] \<Rightarrow> []
     | c # t \<Rightarrow> if starts_with p s then r @ replace_sub p r (drop (length p) s) else c # replace_sub p r t)"
  by pat_completeness auto
termination
  by (relation "measure (\<lambda>(p, r, s). length s)") (auto simp: Suc_le_eq)

declare replace_sub.simps [simp del]

lemma replace_sub_Nil [simp]: "replace_sub p r [] = []"
  by (subst replace_sub.simps) simp

lemma starts_with_append [simp]: "starts_with p (p @ s)"
  by (simp add: starts_with_prefix)

lemma replace_sub_match: "p \<noteq> [] \<Longrightarrow> replace_sub p r (p @ s) = r @ replace_sub p r s"
  by (subst replace_sub.simps, cases p) auto

lemma replace_sub_skip1: "p \<noteq> [] \<Longrightarrow> \<not> starts_with p (c # s) \<Longrightarrow> replace_sub p r (c # s) = c # replace_sub p r s"
  by (subst replace_sub.simps) simp

text \<open>No match of \<open>p\<close> starts inside \<open>w\<close>, whatever follows it.\<close>

fun unmatched :: "string \<Rightarrow> string \<Rightarrow> bool" where
  "unmatched p [] = True"
| "unmatched p (c # w) = ((\<forall>rest. \<not> starts_with p (c # w @ rest)) \<and> unmatched p w)"

lemma unmatched_hd: "p \<noteq> [] \<Longrightarrow> hd p \<notin> set w \<Longrightarrow> unmatched p w"
  by (induction w) (auto simp: neq_Nil_conv)

lemma replace_sub_skip:
  "p \<noteq> [] \<Longrightarrow> unmatched p w \<Longrightarrow> replace_sub p r (w @ rest) = w @ replace_sub p r rest"
  by (induction w) (simp_all add: replace_sub_skip1)

text \<open>Replacing in a text made of blocks, where a match is exactly one block.\<close>

lemma replace_sub_blocks:
  assumes "p \<noteq> []" "\<And>c. (b c = p \<and> b' c = r)
      \<or> (b' c = b c \<and> unmatched p (b c))"
  shows "replace_sub p r (concat (map b s)) = concat (map b' s)"
proof (induction s)
  case (Cons c s)
  show ?case using assms(2)[of c]
  proof
    assume "b c = p \<and> b' c = r"
    then show ?thesis using Cons by (simp add: replace_sub_match assms(1))
  next
    assume h: "b' c = b c \<and> unmatched p (b c)"
    then show ?thesis using replace_sub_skip[OF assms(1), of "b c" r "concat (map b s)"] Cons by simp
  qed
qed simp

lemma replace_char_concat: "replace_char d r (concat (map b s)) = concat (map (\<lambda>c. replace_char d r (b c)) s)"
  by (induction s) (simp_all add: replace_char_def)

section \<open>Decimal numbers\<close>

definition digit_char :: "nat \<Rightarrow> char" where
  "digit_char d = char_of (48 + d)"

definition is_digit :: "char \<Rightarrow> bool" where
  "is_digit c = (48 \<le> byte_of c \<and> byte_of c \<le> 57)"

definition digit_val :: "char \<Rightarrow> nat" where
  "digit_val c = byte_of c - 48"

fun show_nat :: "nat \<Rightarrow> string" where
  "show_nat n = (if n < 10 then [digit_char n] else show_nat (n div 10) @ [digit_char (n mod 10)])"

declare show_nat.simps [simp del]

definition digits_val :: "string \<Rightarrow> nat" where
  "digits_val s = foldl (\<lambda>a c. 10 * a + digit_val c) 0 s"

definition parse_digits :: "string \<Rightarrow> nat option" where
  "parse_digits s = (if s \<noteq> [] \<and> list_all is_digit s then Some (digits_val s) else None)"

text \<open>
  \<open>s.parse::<uN>().ok()\<close>: an optional \<open>+\<close>, at least one digit, no overflow past \<open>mx\<close>.
\<close>

definition parse_unsigned :: "nat \<Rightarrow> string \<Rightarrow> nat option" where
  "parse_unsigned mx s =
     (case parse_digits (case s of [] \<Rightarrow> [] | c # t \<Rightarrow> if c = CHR ''+'' then t else s) of
        None \<Rightarrow> None | Some v \<Rightarrow> if v \<le> mx then Some v else None)"

abbreviation "u32_max \<equiv> 2 ^ 32 - 1 :: nat"
abbreviation "u64_max \<equiv> 2 ^ 64 - 1 :: nat"

definition parse_u32 :: "string \<Rightarrow> nat option" where
  "parse_u32 s = parse_unsigned u32_max s"

definition parse_u64 :: "string \<Rightarrow> nat option" where
  "parse_u64 s = parse_unsigned u64_max s"

text \<open>\<open>s.parse::<i64>().ok()\<close>\<close>

definition parse_i64 :: "string \<Rightarrow> int option" where
  "parse_i64 s = (case s of [] \<Rightarrow> None | c # t \<Rightarrow>
     if c = CHR ''-'' then
       (case parse_digits t of None \<Rightarrow> None
         | Some v \<Rightarrow> if v \<le> 2 ^ 63 then Some (- int v) else None)
     else
       (case parse_digits (if c = CHR ''+'' then t else s) of None \<Rightarrow> None
         | Some v \<Rightarrow> if v \<le> 2 ^ 63 - 1 then Some (int v) else None))"

lemma digit_char_props:
  assumes "d < 10"
  shows "is_digit (digit_char d)" "digit_val (digit_char d) = d"
  using assms by (simp_all add: is_digit_def digit_char_def digit_val_def)

lemma digits_val_snoc: "digits_val (s @ [c]) = 10 * digits_val s + digit_val c"
  by (simp add: digits_val_def)

lemma show_nat_digits: "list_all is_digit (show_nat n) \<and> show_nat n \<noteq> [] \<and> digits_val (show_nat n) = n"
proof (induction n rule: show_nat.induct)
  case (1 n)
  show ?case
  proof (cases "n < 10")
    case True
    then show ?thesis by (simp add: show_nat.simps [of n] digit_char_props digits_val_def)
  next
    case False
    with 1 show ?thesis
      by (simp add: show_nat.simps [of n] digits_val_snoc digit_char_props)
  qed
qed

lemma parse_digits_show_nat: "parse_digits (show_nat n) = Some n"
  using show_nat_digits [of n] by (simp add: parse_digits_def)

lemma not_digit_plus: "\<not> is_digit (CHR ''+'')"
  by (simp add: is_digit_def)

lemma parse_unsigned_show_nat: "n \<le> mx \<Longrightarrow> parse_unsigned mx (show_nat n) = Some n"
proof -
  assume le: "n \<le> mx"
  have "(case show_nat n of [] \<Rightarrow> [] | c # t \<Rightarrow> if c = CHR ''+'' then t else show_nat n) = show_nat n"
    using show_nat_digits [of n] not_digit_plus by (auto split: list.split)
  with le show ?thesis by (simp add: parse_unsigned_def parse_digits_show_nat)
qed

section \<open>UTF-8\<close>

definition cont_byte :: "nat \<Rightarrow> bool" where
  "cont_byte b = (0x80 \<le> b \<and> b \<le> 0xBF)"

text \<open>The second byte allowed after a lead byte of a 2-, 3- or 4-byte sequence.\<close>

definition second_ok :: "nat \<Rightarrow> nat \<Rightarrow> bool" where
  "second_ok a b = (if a = 0xE0 then 0xA0 \<le> b \<and> b \<le> 0xBF
     else if a = 0xED then 0x80 \<le> b \<and> b \<le> 0x9F
     else if a = 0xF0 then 0x90 \<le> b \<and> b \<le> 0xBF
     else if a = 0xF4 then 0x80 \<le> b \<and> b \<le> 0x8F
     else cont_byte b)"

text \<open>What \<open>String::from_utf8\<close> accepts.\<close>

fun utf8_valid :: "string \<Rightarrow> bool" where
  "utf8_valid [] = True"
| "utf8_valid (c # s) = (let a = byte_of c in
     if a < 0x80 then utf8_valid s
     else if 0xC2 \<le> a \<and> a \<le> 0xDF then
       (case s of c1 # s1 \<Rightarrow> second_ok a (byte_of c1) \<and> utf8_valid s1 | _ \<Rightarrow> False)
     else if 0xE0 \<le> a \<and> a \<le> 0xEF then
       (case s of c1 # c2 # s2 \<Rightarrow>
          second_ok a (byte_of c1) \<and> cont_byte (byte_of c2) \<and> utf8_valid s2 | _ \<Rightarrow> False)
     else if 0xF0 \<le> a \<and> a \<le> 0xF4 then
       (case s of c1 # c2 # c3 # s3 \<Rightarrow>
          second_ok a (byte_of c1) \<and> cont_byte (byte_of c2) \<and> cont_byte (byte_of c3)
          \<and> utf8_valid s3 | _ \<Rightarrow> False)
     else False)"

text \<open>\<open>String::from_utf8_lossy\<close>: each maximal ill-formed prefix becomes U+FFFD.\<close>

definition REPLACEMENT :: string where
  "REPLACEMENT = [CHR 0xEF, CHR 0xBF, CHR 0xBD]"

fun from_utf8_lossy :: "string \<Rightarrow> string" where
  "from_utf8_lossy [] = []"
| "from_utf8_lossy (c # s) = (let a = byte_of c in
     if a < 0x80 then c # from_utf8_lossy s
     else if 0xC2 \<le> a \<and> a \<le> 0xDF then
       (case s of c1 # s1 \<Rightarrow> if second_ok a (byte_of c1) then c # c1 # from_utf8_lossy s1
          else REPLACEMENT @ from_utf8_lossy s
        | [] \<Rightarrow> REPLACEMENT)
     else if 0xE0 \<le> a \<and> a \<le> 0xEF then
       (case s of [] \<Rightarrow> REPLACEMENT
        | c1 # s1 \<Rightarrow> if \<not> second_ok a (byte_of c1) then REPLACEMENT @ from_utf8_lossy s else
          (case s1 of [] \<Rightarrow> REPLACEMENT
           | c2 # s2 \<Rightarrow> if cont_byte (byte_of c2) then c # c1 # c2 # from_utf8_lossy s2
               else REPLACEMENT @ from_utf8_lossy s1))
     else if 0xF0 \<le> a \<and> a \<le> 0xF4 then
       (case s of [] \<Rightarrow> REPLACEMENT
        | c1 # s1 \<Rightarrow> if \<not> second_ok a (byte_of c1) then REPLACEMENT @ from_utf8_lossy s else
          (case s1 of [] \<Rightarrow> REPLACEMENT
           | c2 # s2 \<Rightarrow> if \<not> cont_byte (byte_of c2) then REPLACEMENT @ from_utf8_lossy s1 else
             (case s2 of [] \<Rightarrow> REPLACEMENT
              | c3 # s3 \<Rightarrow> if cont_byte (byte_of c3) then c # c1 # c2 # c3 # from_utf8_lossy s3
                  else REPLACEMENT @ from_utf8_lossy s2)))
     else REPLACEMENT @ from_utf8_lossy s)"

declare from_utf8_lossy.simps(2) [simp del]

lemma from_utf8_lossy_ascii: "is_ascii s \<Longrightarrow> from_utf8_lossy s = s"
  by (induction s) (auto simp: from_utf8_lossy.simps(2) is_ascii_def)

text \<open>\<open>s.chars()\<close>, each character kept as its bytes.\<close>

definition utf8_width :: "char \<Rightarrow> nat" where
  "utf8_width c = (let a = byte_of c in
     if a < 0xC0 then 1 else if a < 0xE0 then 2 else if a < 0xF0 then 3 else 4)"

lemma utf8_width_pos [simp]: "0 < utf8_width c"
  by (simp add: utf8_width_def Let_def)

function chars_of :: "string \<Rightarrow> string list" where
  "chars_of [] = []"
| "chars_of (c # s) = take (utf8_width c) (c # s) # chars_of (drop (utf8_width c) (c # s))"
  by pat_completeness auto
termination
  by (relation "measure length") auto

lemma concat_chars_of: "concat (chars_of s) = s"
  by (induction s rule: chars_of.induct) (simp_all del: take_Cons' drop_Cons')

lemma utf8_width_ascii: "byte_of c < 128 \<Longrightarrow> utf8_width c = 1"
  by (simp add: utf8_width_def Let_def)

lemma chars_of_ascii: "is_ascii s \<Longrightarrow> chars_of s = map (\<lambda>c. [c]) s"
  by (induction s) (auto simp: is_ascii_def utf8_width_ascii)

declare chars_of.simps(2) [simp del]

fun code_point :: "string \<Rightarrow> nat" where
  "code_point [a] = byte_of a"
| "code_point [a, b] = (byte_of a mod 32) * 64 + byte_of b mod 64"
| "code_point [a, b, c] = (byte_of a mod 16) * 4096 + (byte_of b mod 64) * 64 + byte_of c mod 64"
| "code_point [a, b, c, d] = (byte_of a mod 8) * 262144 + (byte_of b mod 64) * 4096
     + (byte_of c mod 64) * 64 + byte_of d mod 64"
| "code_point _ = 0"

definition is_alphanumeric :: "unicode \<Rightarrow> string \<Rightarrow> bool" where
  "is_alphanumeric u ch = (case ch of [c] \<Rightarrow> ascii_alnum c | _ \<Rightarrow> uni_alnum u (code_point ch))"

text \<open>An instance for concrete inputs, which changes no character outside ASCII.\<close>

definition ascii_unicode :: unicode where
  "ascii_unicode = \<lparr>uni_upper = id, uni_lower = id, uni_alnum = (\<lambda>_. True)\<rparr>"

end
