(* ===== verification/Entities.thy ===== *)
theory Entities
  imports RustStr
begin

text \<open>
  The data the components exchange. \<open>Mail\<close>, \<open>MailDetails\<close>, \<open>MailAddress\<close>, \<open>TutanotaFile\<close> and
  \<open>IdTupleGenerated\<close> are generated by Tuta's SDK; their records hold the fields the bridge reads.
  \<open>MailSetKind\<close> and \<open>FolderInfo\<close> are the bridge's own. \<open>StoredMail\<close> and \<open>BodyEntry\<close> are the
  in-memory forms of a mail's metadata and of its rendered body.
\<close>

record id_tuple =
  list_id :: string
  element_id :: string

record mail_address =
  addr_name :: string
  addr_address :: string

record mail =
  mail_id :: "id_tuple option"
  subject :: string
  sender :: mail_address
  received_ms :: nat
  unread :: bool
  first_recipient :: "mail_address option"
  attachments :: "id_tuple list"

record mail_details =
  to_recipients :: "mail_address list"
  cc_recipients :: "mail_address list"
  bcc_recipients :: "mail_address list"
  reply_tos :: "mail_address list"
  body_compressed :: "string option"
  body_text :: "string option"
  sent_ms :: nat

record tutanota_file =
  file_name :: string
  file_mime :: "string option"
  file_cid :: "string option"

datatype mail_set_kind =
  KCustom | KInbox | KSent | KTrash | KArchive | KSpam | KDraft | KAll | KLabel
  | KImported | KScheduled | KUnknown

record folder_info =
  fi_id :: string
  fi_list_id :: string
  fi_entries_list_id :: string
  fi_kind :: mail_set_kind
  fi_imap_path :: string
  fi_special_use :: "string option"

record stored_mail =
  sm_mail :: mail
  sm_body_loaded :: bool
  sm_uid :: nat
  sm_attachments_pending :: bool

record body_entry =
  be_details :: "mail_details option"
  be_rfc2822 :: string

text \<open>\<open>mail._id.as_ref().map(|id| id.element_id.to_string())\<close>\<close>

definition eid_of :: "mail \<Rightarrow> string option" where
  "eid_of m = map_option element_id (mail_id m)"

definition has_eid :: "string \<Rightarrow> stored_mail \<Rightarrow> bool" where
  "has_eid e sm = (eid_of (sm_mail sm) = Some e)"

end
