(* ===== verification/FolderSystem.thy ===== *)
theory FolderSystem
  imports RustStr Entities "HOL-Library.Char_ord" "HOL-Library.List_Lexorder" "HOL-Library.Multiset"
begin

text \<open>
  The folder tree of a mailbox (\<open>crates/tuta/src/folder_system.rs\<close>) and the IMAP folder list built from it
  (\<open>list_folders\<close> in \<open>crates/bridge/src/tuta.rs\<close>). The recursion of \<open>make_subtree\<close> follows the parent links
  the server sent, which nothing forces to be acyclic: it carries fuel, and \<open>None\<close> stands for a recursion that
  does not return. Names are ordered by their bytes.
\<close>

section \<open>Mail sets\<close>

record mail_set =
  set_id :: "id_tuple option"
  folder_type :: int
  set_name :: string
  parent_folder :: "id_tuple option"
  set_entries :: string

definition kind_of_code :: "nat \<Rightarrow> mail_set_kind" where
  "kind_of_code n = (if n = 0 then KCustom else if n = 1 then KInbox else if n = 2 then KSent else if n = 3 then KTrash
     else if n = 4 then KArchive else if n = 5 then KSpam else if n = 6 then KDraft else if n = 7 then KAll
     else if n = 8 then KLabel else if n = 9 then KImported else if n = 10 then KScheduled else KUnknown)"

text \<open>\<open>self.folderType as u64\<close>: a negative type wraps to a large number and is unknown.\<close>

definition kind_of :: "mail_set \<Rightarrow> mail_set_kind" where
  "kind_of f = kind_of_code (nat (folder_type f mod 2 ^ 64))"

definition set_element_id :: "mail_set \<Rightarrow> string option" where
  "set_element_id f = map_option element_id (set_id f)"

definition is_visible_system :: "mail_set \<Rightarrow> bool" where
  "is_visible_system f = (kind_of f \<in> {KInbox, KSent, KTrash, KArchive, KSpam, KDraft, KScheduled})"

definition parent_id :: "mail_set \<Rightarrow> string option" where
  "parent_id f = map_option element_id (parent_folder f)"

section \<open>Trees\<close>

datatype folder_subtree = FolderSubtree (st_folder: mail_set) (st_children: "folder_subtree list")

record folder_system =
  system_subtrees :: "folder_subtree list"
  custom_subtrees :: "folder_subtree list"
  imported_mail_set :: "mail_set option"

definition system_order :: "mail_set_kind \<Rightarrow> nat" where
  "system_order k = (case k of KInbox \<Rightarrow> 0 | KDraft \<Rightarrow> 1 | KScheduled \<Rightarrow> 2 | KSent \<Rightarrow> 3 | KTrash \<Rightarrow> 4
     | KArchive \<Rightarrow> 5 | KSpam \<Rightarrow> 6 | _ \<Rightarrow> 7)"

definition sort_system :: "mail_set list \<Rightarrow> mail_set list" where
  "sort_system fs = sort_key (\<lambda>f. system_order (kind_of f)) fs"

definition sort_custom :: "mail_set list \<Rightarrow> mail_set list" where
  "sort_custom fs = sort_key set_name fs"

text \<open>The map from a parent's id to its children, in the order of the folder list.\<close>

definition children_by_parent :: "mail_set list \<Rightarrow> string \<Rightarrow> mail_set list" where
  "children_by_parent folders i = filter (\<lambda>f. parent_id f = Some i) folders"

definition kids_of :: "mail_set list \<Rightarrow> mail_set \<Rightarrow> mail_set list" where
  "kids_of folders p = (case set_element_id p of None \<Rightarrow> [] | Some i \<Rightarrow> sort_custom (children_by_parent folders i))"

fun make_subtree :: "nat \<Rightarrow> mail_set list \<Rightarrow> mail_set \<Rightarrow> folder_subtree option" where
  "make_subtree 0 folders parent = None"
| "make_subtree (Suc n) folders parent =
     map_option (FolderSubtree parent) (those (map (make_subtree n folders) (kids_of folders parent)))"

definition is_top_custom :: "mail_set \<Rightarrow> bool" where
  "is_top_custom f = (\<not> is_visible_system f \<and> kind_of f = KCustom \<and> parent_folder f = None)"

definition folder_system_new :: "nat \<Rightarrow> mail_set list \<Rightarrow> folder_system option" where
  "folder_system_new n folders =
     (let system = sort_system (filter is_visible_system folders);
          top_level_custom = sort_custom (filter is_top_custom folders);
          imported = List.find (\<lambda>f. \<not> is_visible_system f \<and> \<not> is_top_custom f \<and> kind_of f = KImported) folders
      in case (those (map (make_subtree n folders) system), those (map (make_subtree n folders) top_level_custom)) of
           (Some s, Some c) \<Rightarrow> Some \<lparr>system_subtrees = s, custom_subtrees = c, imported_mail_set = imported\<rparr>
         | _ \<Rightarrow> None)"

section \<open>Queries\<close>

fun collect_indented :: "folder_subtree list \<Rightarrow> nat \<Rightarrow> (nat \<times> mail_set) list" where
  "collect_indented [] level = []"
| "collect_indented (FolderSubtree f ch # ts) level = (level, f) # collect_indented ch (Suc level) @ collect_indented ts level"

fun subtree_by_id :: "folder_subtree list \<Rightarrow> string \<Rightarrow> folder_subtree option" where
  "subtree_by_id [] i = None"
| "subtree_by_id (FolderSubtree f ch # ts) i = (if set_element_id f = Some i then Some (FolderSubtree f ch)
     else case subtree_by_id ch i of Some t \<Rightarrow> Some t | None \<Rightarrow> subtree_by_id ts i)"

fun path_in_subtrees :: "folder_subtree list \<Rightarrow> string \<Rightarrow> mail_set list option" where
  "path_in_subtrees [] i = None"
| "path_in_subtrees (FolderSubtree f ch # ts) i = (if set_element_id f = Some i then Some [f]
     else case path_in_subtrees ch i of Some p \<Rightarrow> Some (f # p) | None \<Rightarrow> path_in_subtrees ts i)"

definition system_folder_by_type :: "mail_set_kind \<Rightarrow> folder_system \<Rightarrow> mail_set option" where
  "system_folder_by_type k t = map_option st_folder (List.find (\<lambda>s. kind_of (st_folder s) = k) (system_subtrees t))"

definition indented_list :: "folder_system \<Rightarrow> (nat \<times> mail_set) list" where
  "indented_list t = collect_indented (system_subtrees t) 0 @ collect_indented (custom_subtrees t) 0"

definition find_subtree :: "folder_system \<Rightarrow> string \<Rightarrow> folder_subtree option" where
  "find_subtree t i = (case subtree_by_id (system_subtrees t) i of Some s \<Rightarrow> Some s | None \<Rightarrow> subtree_by_id (custom_subtrees t) i)"

definition folder_by_id :: "folder_system \<Rightarrow> string \<Rightarrow> mail_set option" where
  "folder_by_id t i = map_option st_folder (find_subtree t i)"

text \<open>The argument is \<open>Mail.sets\<close>.\<close>

fun folder_by_mail :: "folder_system \<Rightarrow> id_tuple list \<Rightarrow> mail_set option" where
  "folder_by_mail t [] = None"
| "folder_by_mail t (s # sets) = (case folder_by_id t (element_id s) of Some f \<Rightarrow> Some f | None \<Rightarrow> folder_by_mail t sets)"

definition custom_folders_of_parent :: "folder_system \<Rightarrow> id_tuple option \<Rightarrow> mail_set list" where
  "custom_folders_of_parent t p = (case p of
     Some q \<Rightarrow> (case find_subtree t (element_id q) of None \<Rightarrow> [] | Some s \<Rightarrow> map st_folder (st_children s))
   | None \<Rightarrow> map st_folder (custom_subtrees t))"

definition path_to_folder :: "folder_system \<Rightarrow> string \<Rightarrow> mail_set list" where
  "path_to_folder t i = (case path_in_subtrees (system_subtrees t) i of Some p \<Rightarrow> p
     | None \<Rightarrow> (case path_in_subtrees (custom_subtrees t) i of Some p \<Rightarrow> p | None \<Rightarrow> []))"

section \<open>The IMAP folder list\<close>

definition IMAP_DELIMITER :: char where "IMAP_DELIMITER = CHR ''/''"

definition system_imap_name :: "mail_set_kind \<Rightarrow> string option" where
  "system_imap_name k = (case k of KInbox \<Rightarrow> Some ''INBOX'' | KSent \<Rightarrow> Some ''Sent'' | KDraft \<Rightarrow> Some ''Drafts''
     | KTrash \<Rightarrow> Some ''Trash'' | KArchive \<Rightarrow> Some ''Archive'' | KSpam \<Rightarrow> Some ''Spam'' | _ \<Rightarrow> None)"

definition system_special_use :: "mail_set_kind \<Rightarrow> string option" where
  "system_special_use k = (case k of KSent \<Rightarrow> Some (CHR 0x5C # ''Sent'') | KDraft \<Rightarrow> Some (CHR 0x5C # ''Drafts'')
     | KTrash \<Rightarrow> Some (CHR 0x5C # ''Trash'') | KArchive \<Rightarrow> Some (CHR 0x5C # ''Archive'')
     | KSpam \<Rightarrow> Some (CHR 0x5C # ''Junk'') | _ \<Rightarrow> None)"

definition path_segment :: "mail_set \<Rightarrow> string" where
  "path_segment f = (case system_imap_name (kind_of f) of Some n \<Rightarrow> n | None \<Rightarrow> replace_char IMAP_DELIMITER ''_'' (set_name f))"

definition folder_entry :: "folder_system \<Rightarrow> mail_set \<Rightarrow> folder_info option" where
  "folder_entry t f = (if kind_of f \<noteq> KCustom \<and> system_imap_name (kind_of f) = None then None
     else case set_id f of None \<Rightarrow> None
       | Some i \<Rightarrow> let p = join [IMAP_DELIMITER] (map path_segment (path_to_folder t (element_id i)))
           in if p = [] then None
              else Some \<lparr>fi_id = element_id i, fi_list_id = list_id i, fi_entries_list_id = set_entries f, fi_kind = kind_of f,
                fi_imap_path = p, fi_special_use = system_special_use (kind_of f)\<rparr>)"

definition list_folders :: "folder_system \<Rightarrow> folder_info list" where
  "list_folders t = List.map_filter (\<lambda>(_, f). folder_entry t f) (indented_list t)"

section \<open>Parent links\<close>

text \<open>
  What the server promises: every folder has its own element id, and the visible system folders are roots.
  Nothing is said about the parent links of the other folders.
\<close>

definition wf_folders :: "mail_set list \<Rightarrow> bool" where
  "wf_folders fs = (distinct (List.map_filter set_element_id fs) \<and> list_all (\<lambda>f. is_visible_system f \<longrightarrow> parent_folder f = None) fs)"

text \<open>A folder, its parent, the parent of that, and so on up to a folder without one.\<close>

definition is_child :: "mail_set \<Rightarrow> mail_set \<Rightarrow> bool" where
  "is_child c p = (case set_element_id p of None \<Rightarrow> False | Some i \<Rightarrow> parent_id c = Some i)"

fun ancestry :: "mail_set list \<Rightarrow> bool" where
  "ancestry [] = False"
| "ancestry [r] = (parent_id r = None)"
| "ancestry (c # p # ps) = (is_child c p \<and> ancestry (p # ps))"

lemma those_eq_Some: "those xs = Some ys \<longleftrightarrow> xs = map Some ys"
  by (induction xs arbitrary: ys) (auto split: option.splits)

lemma those_eq_None: "those xs = None \<longleftrightarrow> None \<in> set xs"
  by (induction xs) (auto split: option.splits)

lemma those_map_Some: "(\<And>x. x \<in> set xs \<Longrightarrow> f x = Some (g x)) \<Longrightarrow> those (map f xs) = Some (map g xs)"
  by (simp add: those_eq_Some)

lemma map_filter_inj:
  assumes "distinct (List.map_filter k xs)" "a \<in> set xs" "b \<in> set xs" "k a = Some i" "k b = Some i"
  shows "a = b"
proof -
  have "inj_on (the \<circ> k) {x \<in> set xs. k x \<noteq> None}"
    using assms(1) by (simp only: List.map_filter_def distinct_map set_filter)
  then show ?thesis by (rule inj_onD) (use assms in simp_all)
qed

lemma same_folder:
  "wf_folders fs \<Longrightarrow> a \<in> set fs \<Longrightarrow> b \<in> set fs \<Longrightarrow> set_element_id a = Some i \<Longrightarrow> set_element_id b = Some i \<Longrightarrow> a = b"
  using map_filter_inj [of set_element_id fs a b i] by (simp add: wf_folders_def)

lemma kids_iff: "c \<in> set (kids_of fs p) \<longleftrightarrow> c \<in> set fs \<and> is_child c p"
  by (auto simp: kids_of_def children_by_parent_def sort_custom_def is_child_def split: option.split)

lemma is_child_unique: "wf_folders fs \<Longrightarrow> a \<in> set fs \<Longrightarrow> b \<in> set fs \<Longrightarrow> is_child c a \<Longrightarrow> is_child c b \<Longrightarrow> a = b"
  by (auto simp: is_child_def split: option.splits intro: same_folder)

lemma is_child_parent: "is_child c p \<Longrightarrow> parent_id c \<noteq> None"
  by (auto simp: is_child_def split: option.splits)

lemma root_parent: "wf_folders fs \<Longrightarrow> f \<in> set fs \<Longrightarrow> is_visible_system f \<or> is_top_custom f \<Longrightarrow> parent_id f = None"
  by (auto simp: wf_folders_def list_all_iff is_top_custom_def parent_id_def)

text \<open>A folder has one ancestry, and it repeats no folder.\<close>

lemma ancestry_unique:
  "wf_folders fs \<Longrightarrow> set p \<subseteq> set fs \<Longrightarrow> set q \<subseteq> set fs \<Longrightarrow> ancestry p \<Longrightarrow> ancestry q \<Longrightarrow> hd p = hd q \<Longrightarrow> p = q"
proof (induction p arbitrary: q rule: ancestry.induct)
  case (2 r)
  then show ?case by (cases q rule: ancestry.cases) (auto dest: is_child_parent)
next
  case (3 c a as)
  then obtain b bs where q: "q = c # b # bs" by (cases q rule: ancestry.cases) (auto dest: is_child_parent)
  then have "a = b" using 3 by (auto intro: is_child_unique)
  moreover have "a # as = b # bs" by (rule "3.IH") (use 3 q \<open>a = b\<close> in auto)
  ultimately show ?case using q by simp
qed simp

lemma ancestry_nth:
  "ancestry p \<Longrightarrow> i < length p \<Longrightarrow> if Suc i < length p then is_child (p ! i) (p ! Suc i) else parent_id (p ! i) = None"
proof (induction p arbitrary: i rule: ancestry.induct)
  case (3 c a as)
  then show ?case using "3.IH" [of "i - 1"] by (cases i) (auto split: if_splits)
qed auto

lemma new_kid:
  assumes wf: "wf_folders fs" and p: "ancestry p" "set p \<subseteq> set fs" "distinct p" and c: "c \<in> set (kids_of fs (hd p))"
  shows "c \<notin> set p"
proof
  assume "c \<in> set p"
  then obtain i where i: "i < length p" "p ! i = c" by (auto simp: in_set_conv_nth)
  have ne: "p \<noteq> []" using p by auto
  have pc: "is_child c (hd p)" using c by (simp add: kids_iff)
  from ancestry_nth [OF p(1) i(1)] i(2) is_child_parent [OF pc] have j: "Suc i < length p" "is_child c (p ! Suc i)"
    by (auto split: if_splits)
  then have "p ! Suc i = hd p" using pc p(2) ne by (intro is_child_unique [OF wf]) auto
  then show False using j(1) p(3) ne by (metis hd_conv_nth nat.distinct(1) nth_eq_iff_index_eq length_greater_0_conv)
qed

section \<open>The recursion returns\<close>

lemma make_subtree_total:
  "wf_folders fs \<Longrightarrow> ancestry p \<Longrightarrow> set p \<subseteq> set fs \<Longrightarrow> distinct p \<Longrightarrow> length fs < n + length p \<Longrightarrow> make_subtree n fs (hd p) \<noteq> None"
proof (induction n arbitrary: p)
  case 0
  have "length p \<le> length fs" using 0 by (metis card_length card_mono distinct_card finite_set order_trans)
  then show ?case using 0 by simp
next
  case (Suc n)
  have "make_subtree n fs c \<noteq> None" if c: "c \<in> set (kids_of fs (hd p))" for c
  proof -
    obtain x xs where x: "p = x # xs" using Suc.prems(2) by (cases p) auto
    have "ancestry (c # p)" using c Suc.prems(2) x by (auto simp: kids_iff)
    then show ?thesis using Suc.IH [of "c # p"] Suc.prems c new_kid [OF Suc.prems(1-4) c]
      by (auto simp: kids_iff)
  qed
  then show ?case by (auto simp: those_eq_None image_iff) (metis option.distinct(1))
qed

lemma make_subtree_mono: "make_subtree n fs p = Some t \<Longrightarrow> n \<le> m \<Longrightarrow> make_subtree m fs p = Some t"
proof (induction n arbitrary: m p t)
  case (Suc n)
  then obtain k where m: "m = Suc k" "n \<le> k" by (cases m) auto
  obtain ts where ts: "those (map (make_subtree n fs) (kids_of fs p)) = Some ts" "t = FolderSubtree p ts" using Suc.prems by auto
  then have "map (make_subtree k fs) (kids_of fs p) = map Some ts"
    using Suc.IH [OF _ m(2)] unfolding those_eq_Some by (auto simp: list_eq_iff_nth_eq)
  then show ?case using m ts by (simp add: those_eq_Some)
qed simp

lemma sort_sets [simp]: "set (sort_system fs) = set fs" "set (sort_custom fs) = set fs"
  by (simp_all add: sort_system_def sort_custom_def)

lemma root_total:
  assumes "wf_folders fs" "f \<in> set fs" "is_visible_system f \<or> is_top_custom f" "length fs < n"
  shows "make_subtree n fs f = Some (the (make_subtree (Suc (length fs)) fs f))"
proof -
  have "make_subtree (Suc (length fs)) fs (hd [f]) \<noteq> None"
    using assms by (intro make_subtree_total) (auto dest: root_parent)
  then obtain t where "make_subtree (Suc (length fs)) fs f = Some t" by auto
  moreover have "make_subtree n fs f = Some t" using make_subtree_mono [OF calculation] assms(4) by simp
  ultimately show ?thesis by (simp only: option.sel)
qed

definition roots :: "mail_set list \<Rightarrow> mail_set list" where
  "roots fs = sort_system (filter is_visible_system fs) @ sort_custom (filter is_top_custom fs)"

lemma folder_system_new_eq:
  assumes "wf_folders fs" "length fs < n"
  shows "folder_system_new n fs = Some
    \<lparr>system_subtrees = map (\<lambda>f. the (make_subtree (Suc (length fs)) fs f)) (sort_system (filter is_visible_system fs)),
     custom_subtrees = map (\<lambda>f. the (make_subtree (Suc (length fs)) fs f)) (sort_custom (filter is_top_custom fs)),
     imported_mail_set = List.find (\<lambda>f. \<not> is_visible_system f \<and> \<not> is_top_custom f \<and> kind_of f = KImported) fs\<rparr>"
proof -
  have "those (map (make_subtree n fs) (sort_system (filter is_visible_system fs)))
      = Some (map (\<lambda>f. the (make_subtree (Suc (length fs)) fs f)) (sort_system (filter is_visible_system fs)))"
    by (rule those_map_Some) (use assms in \<open>auto simp del: make_subtree.simps intro: root_total\<close>)
  moreover have "those (map (make_subtree n fs) (sort_custom (filter is_top_custom fs)))
      = Some (map (\<lambda>f. the (make_subtree (Suc (length fs)) fs f)) (sort_custom (filter is_top_custom fs)))"
    by (rule those_map_Some) (use assms in \<open>auto simp del: make_subtree.simps intro: root_total\<close>)
  ultimately show ?thesis by (simp only: folder_system_new_def Let_def prod.case option.case)
qed

section \<open>What the trees hold\<close>

abbreviation kid :: "mail_set list \<Rightarrow> mail_set \<Rightarrow> mail_set \<Rightarrow> bool" where
  "kid fs p c \<equiv> c \<in> set (kids_of fs p)"

lemma collect_append: "collect_indented (ts @ us) l = collect_indented ts l @ collect_indented us l"
  by (induction ts l rule: collect_indented.induct) auto

lemma collect_mem: "x \<in> set (collect_indented ts l) \<longleftrightarrow> (\<exists>t \<in> set ts. x \<in> set (collect_indented [t] l))"
proof (induction ts)
  case (Cons t ts)
  have "collect_indented (t # ts) l = collect_indented [t] l @ collect_indented ts l" using collect_append [of "[t]" ts l] by simp
  then show ?case using Cons by simp
qed simp

lemma make_subtree_kids:
  "make_subtree (Suc n) fs p = Some t \<Longrightarrow> \<exists>ts. t = FolderSubtree p ts \<and> map (make_subtree n fs) (kids_of fs p) = map Some ts"
  by (auto simp: those_eq_Some)

lemma kids_subtrees:
  assumes "map (make_subtree n fs) ks = map Some ts"
  shows "(\<exists>t \<in> set ts. P t) \<longleftrightarrow> (\<exists>k \<in> set ks. \<exists>t. make_subtree n fs k = Some t \<and> P t)"
    and "k \<in> set ks \<Longrightarrow> \<exists>t \<in> set ts. make_subtree n fs k = Some t"
proof -
  have l: "length ks = length ts" and e: "i < length ts \<Longrightarrow> make_subtree n fs (ks ! i) = Some (ts ! i)" for i
    using assms by (metis length_map) (metis assms length_map nth_map)
  show "(\<exists>t \<in> set ts. P t) \<longleftrightarrow> (\<exists>k \<in> set ks. \<exists>t. make_subtree n fs k = Some t \<and> P t)"
    using l e by (fastforce simp: in_set_conv_nth)
  show "k \<in> set ks \<Longrightarrow> \<exists>t \<in> set ts. make_subtree n fs k = Some t"
    using l e by (fastforce simp: in_set_conv_nth)
qed

text \<open>A folder of a subtree, with the way up from it to the root of the subtree.\<close>

lemma subtree_paths:
  "make_subtree n fs p = Some t \<Longrightarrow> (lvl, f) \<in> set (collect_indented [t] l) \<Longrightarrow> ancestry (p # up) \<Longrightarrow>
    \<exists>q. ancestry (q @ p # up) \<and> hd (q @ [p]) = f \<and> lvl = l + length q \<and> set q \<subseteq> set fs"
proof (induction n arbitrary: p t l up)
  case (Suc n)
  obtain ts where ts: "t = FolderSubtree p ts" "map (make_subtree n fs) (kids_of fs p) = map Some ts"
    using make_subtree_kids [OF Suc.prems(1)] by blast
  consider "lvl = l" "f = p" | "(lvl, f) \<in> set (collect_indented ts (Suc l))" using Suc.prems(2) ts(1) by auto
  then show ?case
  proof cases
    case 1
    then show ?thesis using Suc.prems(3) by (intro exI [of _ "[]"]) simp
  next
    case 2
    then obtain u where u: "u \<in> set ts" "(lvl, f) \<in> set (collect_indented [u] (Suc l))" using collect_mem by blast
    then obtain k where k: "k \<in> set (kids_of fs p)" "make_subtree n fs k = Some u"
      using kids_subtrees(1) [OF ts(2), of "\<lambda>t. t = u"] by blast
    have "ancestry (k # p # up)" using k(1) Suc.prems(3) by (simp add: kids_iff)
    from Suc.IH [OF k(2) u(2) this] obtain q where "ancestry (q @ k # p # up)" "hd (q @ [k]) = f" "lvl = Suc l + length q" "set q \<subseteq> set fs"
      by blast
    then show ?thesis using k(1) by (intro exI [of _ "q @ [k]"]) (auto simp: kids_iff hd_append)
  qed
qed simp

lemma subtree_reach:
  "make_subtree n fs p = Some t \<Longrightarrow> (\<exists>lvl. (lvl, f) \<in> set (collect_indented [t] l)) \<longleftrightarrow> (kid fs)\<^sup>*\<^sup>* p f"
proof (induction n arbitrary: p t l)
  case (Suc n)
  obtain ts where ts: "t = FolderSubtree p ts" "map (make_subtree n fs) (kids_of fs p) = map Some ts"
    using make_subtree_kids [OF Suc.prems(1)] by blast
  have "(\<exists>lvl. (lvl, f) \<in> set (collect_indented ts (Suc l))) \<longleftrightarrow> (\<exists>u \<in> set ts. \<exists>lvl. (lvl, f) \<in> set (collect_indented [u] (Suc l)))"
    using collect_mem by blast
  also have "\<dots> \<longleftrightarrow> (\<exists>k \<in> set (kids_of fs p). \<exists>u. make_subtree n fs k = Some u \<and> (\<exists>lvl. (lvl, f) \<in> set (collect_indented [u] (Suc l))))"
    by (rule kids_subtrees(1) [OF ts(2)])
  also have "\<dots> \<longleftrightarrow> (\<exists>k \<in> set (kids_of fs p). (kid fs)\<^sup>*\<^sup>* k f)"
    using Suc.IH kids_subtrees(2) [OF ts(2)] by blast
  finally have s: "(\<exists>lvl. (lvl, f) \<in> set (collect_indented ts (Suc l))) \<longleftrightarrow> (\<exists>k \<in> set (kids_of fs p). (kid fs)\<^sup>*\<^sup>* k f)" .
  have "(\<exists>lvl. (lvl, f) \<in> set (collect_indented [t] l)) \<longleftrightarrow> f = p \<or> (\<exists>lvl. (lvl, f) \<in> set (collect_indented ts (Suc l)))"
    by (auto simp: ts(1))
  moreover have "(kid fs)\<^sup>*\<^sup>* p f \<longleftrightarrow> f = p \<or> (\<exists>k \<in> set (kids_of fs p). (kid fs)\<^sup>*\<^sup>* k f)"
    by (auto intro: converse_rtranclp_into_rtranclp elim: converse_rtranclpE)
  ultimately show ?case unfolding s by blast
qed simp

lemma path_found: "(lvl, f) \<in> set (collect_indented ts l) \<Longrightarrow> set_element_id f = Some i \<Longrightarrow> path_in_subtrees ts i \<noteq> None"
  by (induction ts l rule: collect_indented.induct) (auto split: option.splits)

lemma path_is_listed:
  "path_in_subtrees ts i = Some q \<Longrightarrow> q \<noteq> [] \<and> set_element_id (last q) = Some i \<and> (\<forall>l. (l + length q - 1, last q) \<in> set (collect_indented ts l))"
proof (induction ts i arbitrary: q rule: path_in_subtrees.induct)
  case (2 f ch ts i)
  consider "set_element_id f = Some i" "q = [f]"
    | r where "set_element_id f \<noteq> Some i" "path_in_subtrees ch i = Some r" "q = f # r"
    | "set_element_id f \<noteq> Some i" "path_in_subtrees ch i = None" "path_in_subtrees ts i = Some q"
    using "2.prems" by (auto split: if_splits option.splits)
  then show ?case
  proof cases
    case 2
    with "2.IH"(1) [OF 2(1,2)] have r: "r \<noteq> []" "set_element_id (last r) = Some i" "(Suc l + length r - 1, last r) \<in> set (collect_indented ch (Suc l))" for l
      by blast+
    then have "(l + length q - 1, last q) \<in> set (collect_indented ch (Suc l))" for l using 2(3) by simp
    then show ?thesis using r 2(3) by auto
  next
    case 3
    then show ?thesis using "2.IH"(2) by auto
  qed auto
qed simp

lemma subtree_agrees: "map_option st_folder (subtree_by_id ts i) = map_option last (path_in_subtrees ts i)"
proof (induction ts i rule: subtree_by_id.induct)
  case (2 f ch ts i)
  then show ?case by (auto split: option.splits dest: path_is_listed)
qed simp

lemma path_in_one: "path_in_subtrees ts i = Some q \<Longrightarrow> \<exists>t \<in> set ts. path_in_subtrees [t] i = Some q"
proof (induction ts)
  case (Cons t ts)
  then show ?case by (cases t) (auto split: if_splits option.splits)
qed simp

lemma path_chain:
  "make_subtree n fs p = Some t \<Longrightarrow> path_in_subtrees [t] i = Some q \<Longrightarrow> ancestry (p # up) \<Longrightarrow>
    ancestry (rev q @ up) \<and> set q \<subseteq> insert p (set fs)"
proof (induction n arbitrary: p t q up)
  case (Suc n)
  obtain ts where ts: "t = FolderSubtree p ts" "map (make_subtree n fs) (kids_of fs p) = map Some ts"
    using make_subtree_kids [OF Suc.prems(1)] by blast
  consider "q = [p]" | r where "q = p # r" "path_in_subtrees ts i = Some r"
    using Suc.prems(2) ts(1) by (auto split: if_splits option.splits)
  then show ?case
  proof cases
    case 2
    then obtain u where u: "u \<in> set ts" "path_in_subtrees [u] i = Some r" using path_in_one by blast
    then obtain k where k: "k \<in> set (kids_of fs p)" "make_subtree n fs k = Some u"
      using kids_subtrees(1) [OF ts(2), of "\<lambda>t. t = u"] by blast
    have "ancestry (k # p # up)" using k(1) Suc.prems(3) by (simp add: kids_iff)
    from Suc.IH [OF k(2) u(2) this] show ?thesis using 2(1) k(1) by (auto simp: kids_iff)
  qed (use Suc.prems(3) in simp)
qed simp

text \<open>Both lists of trees as one list of roots.\<close>

lemma trees_of_roots:
  assumes "wf_folders fs" "folder_system_new n fs = Some t" "length fs < n"
  shows "system_subtrees t @ custom_subtrees t = map (\<lambda>f. the (make_subtree (Suc (length fs)) fs f)) (roots fs)"
    and "r \<in> set (roots fs) \<Longrightarrow> r \<in> set fs \<and> parent_id r = None
      \<and> make_subtree (Suc (length fs)) fs r = Some (the (make_subtree (Suc (length fs)) fs r))"
  using assms folder_system_new_eq [OF assms(1,3)] root_total [OF assms(1), of r "Suc (length fs)"] root_parent [OF assms(1), of r]
  by (auto simp: roots_def simp del: make_subtree.simps)

lemma roots_iff: "r \<in> set (roots fs) \<longleftrightarrow> r \<in> set fs \<and> (is_visible_system r \<or> is_top_custom r)"
  by (auto simp: roots_def)

lemma path_append: "path_in_subtrees (ts @ us) i = (case path_in_subtrees ts i of Some p \<Rightarrow> Some p | None \<Rightarrow> path_in_subtrees us i)"
  by (induction ts i rule: path_in_subtrees.induct) (auto split: option.splits)

lemma subtree_append: "subtree_by_id (ts @ us) i = (case subtree_by_id ts i of Some p \<Rightarrow> Some p | None \<Rightarrow> subtree_by_id us i)"
  by (induction ts i rule: subtree_by_id.induct) (auto split: option.splits)

lemma queries_all_trees:
  "indented_list t = collect_indented (system_subtrees t @ custom_subtrees t) 0"
  "path_to_folder t i = (case path_in_subtrees (system_subtrees t @ custom_subtrees t) i of Some p \<Rightarrow> p | None \<Rightarrow> [])"
  "folder_by_id t i = map_option last (path_in_subtrees (system_subtrees t @ custom_subtrees t) i)"
proof -
  have "folder_by_id t i = map_option st_folder (subtree_by_id (system_subtrees t @ custom_subtrees t) i)"
    by (simp add: folder_by_id_def find_subtree_def subtree_append split: option.split)
  then show "folder_by_id t i = map_option last (path_in_subtrees (system_subtrees t @ custom_subtrees t) i)"
    by (simp only: subtree_agrees)
qed (simp_all add: indented_list_def collect_append path_to_folder_def path_append split: option.split)

section \<open>Properties\<close>

text \<open>
  C25: Building the folder tree returns, whatever the parent links of the folders are, cycles and dangling links
  included, once the visible system folders are roots and the ids distinct: fuel for one more level than
  there are folders is enough, and more does not change the result.
\<close>

theorem folder_tree_terminates:
  assumes "wf_folders fs"
  shows "\<exists>t. \<forall>n > length fs. folder_system_new n fs = Some t"
  using folder_system_new_eq [OF assms] by blast

definition sample_set :: "string \<Rightarrow> int \<Rightarrow> string \<Rightarrow> string option \<Rightarrow> mail_set" where
  "sample_set i k n p = \<lparr>set_id = Some \<lparr>list_id = ''l'', element_id = i\<rparr>, folder_type = k, set_name = n,
     parent_folder = map_option (\<lambda>e. \<lparr>list_id = ''l'', element_id = e\<rparr>) p, set_entries = i\<rparr>"

text \<open>An inbox with a folder, and two folders that are each other's parent.\<close>

definition sample_sets_cyclic :: "mail_set list" where
  "sample_sets_cyclic = [sample_set ''c'' 0 ''work'' (Some ''i''), sample_set ''x'' 0 ''a'' (Some ''y''),
     sample_set ''y'' 0 ''b'' (Some ''x''), sample_set ''i'' 1 ''Inbox'' None]"

lemma wf_sample_sets: "wf_folders sample_sets_cyclic"
  by (simp add: wf_folders_def sample_sets_cyclic_def sample_set_def set_element_id_def is_visible_system_def kind_of_def kind_of_code_def
      List.map_filter_simps)

theorem folder_tree_terminates_witness: "\<exists>t. \<forall>n > 4. folder_system_new n sample_sets_cyclic = Some t"
proof -
  have "length sample_sets_cyclic = 4" by (simp add: sample_sets_cyclic_def)
  then show ?thesis using folder_tree_terminates [OF wf_sample_sets] by simp
qed

lemma indented_reach:
  assumes "wf_folders fs" "folder_system_new n fs = Some t" "length fs < n"
  shows "(\<exists>lvl. (lvl, f) \<in> set (indented_list t)) \<longleftrightarrow> (\<exists>r \<in> set (roots fs). (kid fs)\<^sup>*\<^sup>* r f)"
proof -
  let ?T = "\<lambda>f. the (make_subtree (Suc (length fs)) fs f)"
  note tr = trees_of_roots [OF assms]
  have "(\<exists>lvl. (lvl, f) \<in> set (indented_list t)) \<longleftrightarrow> (\<exists>r \<in> set (roots fs). \<exists>lvl. (lvl, f) \<in> set (collect_indented [?T r] 0))"
    unfolding queries_all_trees tr(1) using collect_mem [of _ "map ?T (roots fs)" 0] by (auto simp del: make_subtree.simps)
  also have "\<dots> \<longleftrightarrow> (\<exists>r \<in> set (roots fs). (kid fs)\<^sup>*\<^sup>* r f)"
    using subtree_reach [of "Suc (length fs)" fs _ _ f 0] tr(2) by (intro bex_cong refl) blast
  finally show ?thesis .
qed

lemma listed_path:
  assumes "wf_folders fs" "folder_system_new n fs = Some t" "length fs < n"
    and l: "(lvl, f) \<in> set (indented_list t)" and i: "set_element_id f = Some i"
  shows "\<exists>q. path_in_subtrees (system_subtrees t @ custom_subtrees t) i = Some q \<and> ancestry (rev q) \<and> set q \<subseteq> set fs
    \<and> last q = f \<and> length q = Suc lvl"
proof -
  let ?T = "\<lambda>f. the (make_subtree (Suc (length fs)) fs f)"
  note tr = trees_of_roots [OF assms(1-3)]
  from path_found [OF l [unfolded queries_all_trees] i] obtain q
    where q: "path_in_subtrees (system_subtrees t @ custom_subtrees t) i = Some q" by blast
  then obtain r where r: "r \<in> set (roots fs)" "path_in_subtrees [?T r] i = Some q"
    unfolding tr(1) using path_in_one by fastforce
  have c: "ancestry (rev q)" "set q \<subseteq> set fs"
    using path_chain [of "Suc (length fs)" fs r "?T r" i q "[]"] tr(2) [OF r(1)] r(2) by auto
  from path_is_listed [OF q] have lq: "q \<noteq> []" "set_element_id (last q) = Some i" by auto
  obtain r' where r': "r' \<in> set (roots fs)" "(lvl, f) \<in> set (collect_indented [?T r'] 0)"
    using l unfolding queries_all_trees tr(1) using collect_mem [of "(lvl, f)" "map ?T (roots fs)" 0] by (auto simp del: make_subtree.simps)
  from subtree_paths [of "Suc (length fs)" fs r' "?T r'" lvl f 0 "[]"] tr(2) [OF r'(1)] r'(2)
  obtain q' where q': "ancestry (q' @ [r'])" "hd (q' @ [r']) = f" "lvl = length q'" "set (q' @ [r']) \<subseteq> set fs" by auto
  then have "f \<in> set fs" by (metis hd_in_set snoc_eq_iff_butlast subsetD)
  moreover have "last q \<in> set fs" using lq(1) c(2) by auto
  ultimately have "last q = f" using same_folder [OF assms(1)] lq(2) i by blast
  then have "rev q = q' @ [r']"
    using ancestry_unique [OF assms(1), of "rev q" "q' @ [r']"] c q' lq(1) by (simp add: hd_rev)
  then have "length q = Suc lvl" using q'(3) by (metis length_append_singleton length_rev)
  then show ?thesis using q c \<open>last q = f\<close> by blast
qed

text \<open>
  C26: The folder listing is exact: it holds precisely the folders that a chain of parent links connects to a
  visible system folder or a top-level custom folder. For a listed folder, \<open>path_to_folder\<close> is the chain of its
  ancestors from the root down, as long as the indentation says, and \<open>folder_by_id\<close> finds the folder.
\<close>

theorem folder_tree_exact:
  assumes "wf_folders fs" "folder_system_new n fs = Some t" "length fs < n"
  shows "((\<exists>lvl. (lvl, f) \<in> set (indented_list t)) \<longleftrightarrow> (\<exists>r \<in> set fs. (is_visible_system r \<or> is_top_custom r) \<and> (kid fs)\<^sup>*\<^sup>* r f))
    \<and> ((lvl, f) \<in> set (indented_list t) \<and> set_element_id f = Some i \<longrightarrow>
        (let p = path_to_folder t i in ancestry (rev p) \<and> set p \<subseteq> set fs \<and> last p = f \<and> length p = Suc lvl \<and> folder_by_id t i = Some f))"
  using indented_reach [OF assms, of f] listed_path [OF assms, of lvl f i]
  by (auto simp: roots_iff Let_def queries_all_trees(2,3)) blast+

definition sample_tree :: folder_system where
  "sample_tree = \<lparr>system_subtrees = [FolderSubtree (sample_set ''i'' 1 ''Inbox'' None) [FolderSubtree (sample_set ''c'' 0 ''work'' (Some ''i'')) []]],
     custom_subtrees = [], imported_mail_set = None\<rparr>"

lemma length_sample_sets: "length sample_sets_cyclic < 9"
  by (simp add: sample_sets_cyclic_def)

lemma sample_tree_built: "folder_system_new 9 sample_sets_cyclic = Some sample_tree"
  using folder_system_new_eq [OF wf_sample_sets length_sample_sets]
  by (simp add: sample_tree_def sample_sets_cyclic_def sample_set_def kids_of_def children_by_parent_def sort_system_def sort_custom_def
      is_visible_system_def is_top_custom_def kind_of_def kind_of_code_def set_element_id_def parent_id_def)

theorem folder_tree_exact_witness:
  "path_to_folder sample_tree ''c'' = [sample_set ''i'' 1 ''Inbox'' None, sample_set ''c'' 0 ''work'' (Some ''i'')]
    \<and> folder_by_id sample_tree ''c'' = Some (sample_set ''c'' 0 ''work'' (Some ''i''))"
  using folder_tree_exact [OF wf_sample_sets sample_tree_built length_sample_sets,
      of "sample_set ''c'' 0 ''work'' (Some ''i'')" 1 "''c''"]
  by (simp add: indented_list_def sample_tree_def Let_def) (simp add: path_to_folder_def sample_set_def set_element_id_def)

lemma segment_no_delimiter: "IMAP_DELIMITER \<notin> set (path_segment f)"
  by (cases "kind_of f") (auto simp: path_segment_def system_imap_name_def replace_char_def IMAP_DELIMITER_def)

text \<open>
  Every folder of the IMAP list stands for one listed folder: its id, list and entries ids and special use are
  that folder's, and its path, split at the delimiter, is the names of the folder's ancestors from the root
  down, one segment per level. No name, whatever it contains, adds a level.
\<close>

theorem imap_paths:
  assumes "wf_folders fs" "folder_system_new n fs = Some t" "length fs < n" "fi \<in> set (list_folders t)"
  shows "\<exists>lvl f. (lvl, f) \<in> set (indented_list t) \<and> set_id f = Some \<lparr>list_id = fi_list_id fi, element_id = fi_id fi\<rparr>
    \<and> fi_kind fi = kind_of f \<and> fi_entries_list_id fi = set_entries f \<and> fi_special_use fi = system_special_use (kind_of f)
    \<and> split_on IMAP_DELIMITER (fi_imap_path fi) = map path_segment (path_to_folder t (fi_id fi))
    \<and> length (split_on IMAP_DELIMITER (fi_imap_path fi)) = Suc lvl"
proof -
  obtain lvl f where f: "(lvl, f) \<in> set (indented_list t)" "folder_entry t f = Some fi"
    using assms(4) by (force simp: list_folders_def List.map_filter_def)
  then obtain i where i: "set_id f = Some i" "fi_id fi = element_id i" "fi_list_id fi = list_id i" "fi_kind fi = kind_of f"
      "fi_entries_list_id fi = set_entries f" "fi_special_use fi = system_special_use (kind_of f)"
      "fi_imap_path fi = join [IMAP_DELIMITER] (map path_segment (path_to_folder t (element_id i)))"
    by (auto simp: folder_entry_def Let_def split: if_splits option.splits)
  have "length (path_to_folder t (element_id i)) = Suc lvl"
    using listed_path [OF assms(1-3) f(1), of "element_id i"] i(1) by (auto simp: queries_all_trees(2) set_element_id_def)
  moreover from this have "split_on IMAP_DELIMITER (fi_imap_path fi) = map path_segment (path_to_folder t (element_id i))"
    unfolding i(7) by (intro split_on_join) (auto simp: segment_no_delimiter)
  ultimately show ?thesis using f(1) i by (intro exI [of _ lvl] exI [of _ f]) simp
qed

theorem imap_paths_witness:
  "\<exists>lvl f. (lvl, f) \<in> set (indented_list sample_tree) \<and> kind_of f = KCustom
    \<and> split_on IMAP_DELIMITER ''INBOX/work'' = map path_segment (path_to_folder sample_tree ''c'') \<and> lvl = 1"
proof -
  let ?fi = "\<lparr>fi_id = ''c'', fi_list_id = ''l'', fi_entries_list_id = ''c'', fi_kind = KCustom, fi_imap_path = ''INBOX/work'', fi_special_use = None\<rparr>"
  have "?fi \<in> set (list_folders sample_tree)"
    by (simp add: list_folders_def indented_list_def sample_tree_def sample_set_def folder_entry_def kind_of_def kind_of_code_def
        system_imap_name_def system_special_use_def path_to_folder_def set_element_id_def path_segment_def IMAP_DELIMITER_def
        replace_char_def List.map_filter_simps)
  from imap_paths [OF wf_sample_sets sample_tree_built length_sample_sets this] show ?thesis
    by (auto simp: IMAP_DELIMITER_def)
qed

lemma sample_set_simps:
  "set_id (sample_set i k n p) = Some \<lparr>list_id = ''l'', element_id = i\<rparr>" "set_element_id (sample_set i k n p) = Some i"
  "set_name (sample_set i k n p) = n" "set_entries (sample_set i k n p) = i"
  "kind_of (sample_set i 0 n p) = KCustom" "kind_of (sample_set i 2 n p) = KSent"
  by (simp_all add: sample_set_def set_element_id_def kind_of_def kind_of_code_def)

text \<open>Two folders can share a path: a top-level folder that carries the name of a system folder.\<close>

theorem imap_paths_collide:
  "\<exists>t. folder_system_new 9 [sample_set ''s'' 2 ''Sent'' None, sample_set ''c'' 0 ''Sent'' None] = Some t
    \<and> map fi_imap_path (list_folders t) = [''Sent'', ''Sent''] \<and> map fi_id (list_folders t) = [''s'', ''c'']"
proof -
  have wf: "wf_folders [sample_set ''s'' 2 ''Sent'' None, sample_set ''c'' 0 ''Sent'' None]"
    by (simp add: wf_folders_def sample_set_def set_element_id_def is_visible_system_def kind_of_def kind_of_code_def List.map_filter_simps)
  let ?t = "\<lparr>system_subtrees = [FolderSubtree (sample_set ''s'' 2 ''Sent'' None) []],
    custom_subtrees = [FolderSubtree (sample_set ''c'' 0 ''Sent'' None) []], imported_mail_set = None\<rparr>"
  have f1: "folder_system_new 9 [sample_set ''s'' 2 ''Sent'' None, sample_set ''c'' 0 ''Sent'' None] = Some ?t"
    using folder_system_new_eq [OF wf, of 9]
    by (simp add: sample_set_def kids_of_def children_by_parent_def sort_system_def sort_custom_def
        is_visible_system_def is_top_custom_def kind_of_def kind_of_code_def set_element_id_def parent_id_def)
  have f2: "map fi_imap_path (list_folders ?t) = [''Sent'', ''Sent''] \<and> map fi_id (list_folders ?t) = [''s'', ''c'']"
    by (simp add: list_folders_def indented_list_def folder_entry_def path_to_folder_def path_segment_def sample_set_simps
        system_imap_name_def system_special_use_def IMAP_DELIMITER_def replace_char_def Let_def List.map_filter_simps)
  show ?thesis by (rule exI [of _ ?t]) (rule conjI [OF f1 f2])
qed

end
