(* ===== verification/LocalStore.thy ===== *)
theory LocalStore
  imports Entities "HOL-Library.Multiset"
begin

text \<open>
  The on-disk store (\<open>crates/bridge/src/store.rs\<close>): the SQLCipher tables \<open>mails\<close>,
  \<open>sync_state\<close>, \<open>event_bus_state\<close>, \<open>store_meta\<close> and \<open>mail_fts\<close> as lists of rows, and the
  directory of encrypted \<open>.eml.enc\<close> files as an association list from file names to contents.
  Every operation takes the store and returns its \<open>Result\<close> and the new store. \<open>db_ok\<close> and
  \<open>fs_ok\<close> say whether SQLite and the file system answer; when they do not, the statement
  fails with the error the source propagates and changes nothing. The SDK's AES encryption and
  SQLite's FTS5 matcher are parameters.
\<close>

section \<open>Rows and state\<close>

datatype store_error = ErrDb | ErrIo | ErrCrypto | ErrSerde

record mail_metadata =
  md_list_id :: string
  md_element_id :: string
  md_folder_id :: string
  md_subject :: string
  md_sender_name :: string
  md_sender_address :: string
  md_received_ms :: int
  md_unread :: bool
  md_has_details :: bool
  md_uid :: int
  md_json :: string

record local_store =
  db_ok :: bool
  fs_ok :: bool
  t_mails :: "mail_metadata list"
  t_sync :: "(string \<times> int) list"
  t_bus :: "(string \<times> (string \<times> int)) list"
  t_meta :: "(string \<times> string) list"
  t_fts :: "(string \<times> string) list"
  ls_files :: "(string \<times> string) list"

type_synonym 'a store_res = "(store_error + 'a) \<times> local_store"

record crypto =
  cr_encrypt :: "string \<Rightarrow> string \<Rightarrow> string option"
  cr_decrypt :: "string \<Rightarrow> string option"

definition SCHEMA_VERSION :: string where
  "SCHEMA_VERSION = ''4''"

definition KEY_SCHEMA :: string where
  "KEY_SCHEMA = ''schema_version''"

text \<open>A statement on the database, one on the file system.\<close>

definition on_db :: "(local_store \<Rightarrow> 'a \<times> local_store) \<Rightarrow> local_store \<Rightarrow> 'a store_res" where
  "on_db f s = (if db_ok s then (case f s of (a, s') \<Rightarrow> (Inr a, s')) else (Inl ErrDb, s))"

definition on_fs :: "(local_store \<Rightarrow> 'a \<times> local_store) \<Rightarrow> local_store \<Rightarrow> 'a store_res" where
  "on_fs f s = (if fs_ok s then (case f s of (a, s') \<Rightarrow> (Inr a, s')) else (Inl ErrIo, s))"

section \<open>Opening and resetting\<close>

text \<open>
  \<open>LocalStore::open\<close> on the tables found in the database file: a stored schema version other
  than the current one drops the cache tables; the \<open>.eml.enc\<close> files stay.
\<close>

definition open_store :: "local_store \<Rightarrow> unit store_res" where
  "open_store s = (if \<not> fs_ok s then (Inl ErrIo, s) else on_db (\<lambda>s.
     let s1 = (if map_of (t_meta s) KEY_SCHEMA \<noteq> Some SCHEMA_VERSION
               then s\<lparr>t_mails := [], t_sync := [], t_bus := [], t_fts := []\<rparr> else s)
     in ((), s1\<lparr>t_meta := AList.update KEY_SCHEMA SCHEMA_VERSION (t_meta s1)\<rparr>)) s)"

definition verify_key :: "local_store \<Rightarrow> bool" where
  "verify_key s = (db_ok s \<and> map_of (t_meta s) KEY_SCHEMA \<noteq> None)"

definition get_meta :: "string \<Rightarrow> local_store \<Rightarrow> string option" where
  "get_meta k s = (if db_ok s then map_of (t_meta s) k else None)"

definition set_meta :: "string \<Rightarrow> string \<Rightarrow> local_store \<Rightarrow> unit store_res" where
  "set_meta k v = on_db (\<lambda>s. ((), s\<lparr>t_meta := AList.update k v (t_meta s)\<rparr>))"

text \<open>\<open>path.extension() == Some("enc")\<close>\<close>

definition has_enc_ext :: "string \<Rightarrow> bool" where
  "has_enc_ext n = (suffix ''.enc'' n \<and> length n > 4)"

definition reset :: "local_store \<Rightarrow> unit store_res" where
  "reset s = (case on_db (\<lambda>s. ((), s\<lparr>t_mails := [], t_sync := [], t_fts := [],
        t_meta := [(KEY_SCHEMA, SCHEMA_VERSION)]\<rparr>)) s of
     (Inl e, s1) \<Rightarrow> (Inl e, s1)
   | (Inr _, s1) \<Rightarrow> on_fs (\<lambda>s. ((), s\<lparr>ls_files :=
        filter (\<lambda>(n, _). \<not> has_enc_ext n) (ls_files s)\<rparr>)) s1)"

section \<open>Mail rows\<close>

definition load_folder_metadata :: "string \<Rightarrow> local_store \<Rightarrow> store_error + mail_metadata list" where
  "load_folder_metadata fid s = (if db_ok s
     then Inr (sort_key (\<lambda>r. - md_received_ms r) (filter (\<lambda>r. md_folder_id r = fid) (t_mails s)))
     else Inl ErrDb)"

text \<open>\<open>INSERT .. ON CONFLICT(element_id) DO UPDATE\<close>: the primary key decides.\<close>

definition upsert_row ::
    "(mail_metadata \<Rightarrow> mail_metadata \<Rightarrow> mail_metadata) \<Rightarrow> mail_metadata \<Rightarrow> mail_metadata list
      \<Rightarrow> mail_metadata list" where
  "upsert_row f r rows = (if \<exists>x \<in> set rows. md_element_id x = md_element_id r
     then upd_first (\<lambda>x. md_element_id x = md_element_id r) (\<lambda>x. f x r) rows
     else rows @ [r])"

text \<open>
  The columns the single upsert overwrites: \<open>list_id\<close> and \<open>uid\<close> are not among them.
\<close>

definition conflict_set :: "mail_metadata \<Rightarrow> mail_metadata \<Rightarrow> mail_metadata" where
  "conflict_set old new = old\<lparr>md_folder_id := md_folder_id new, md_subject := md_subject new,
     md_sender_name := md_sender_name new, md_sender_address := md_sender_address new,
     md_received_ms := md_received_ms new, md_unread := md_unread new,
     md_has_details := md_has_details new, md_json := md_json new\<rparr>"

definition conflict_set_batch :: "mail_metadata \<Rightarrow> mail_metadata \<Rightarrow> mail_metadata" where
  "conflict_set_batch old new = (conflict_set old new)
     \<lparr>md_has_details := (if md_has_details new then True else md_has_details old)\<rparr>"

definition upsert_mail_metadata :: "mail_metadata \<Rightarrow> local_store \<Rightarrow> unit store_res" where
  "upsert_mail_metadata r = on_db (\<lambda>s. ((), s\<lparr>t_mails := upsert_row conflict_set r (t_mails s)\<rparr>))"

definition upsert_mail_metadata_batch :: "mail_metadata list \<Rightarrow> local_store \<Rightarrow> unit store_res" where
  "upsert_mail_metadata_batch rs = on_db (\<lambda>s. ((),
     s\<lparr>t_mails := fold (upsert_row conflict_set_batch) rs (t_mails s)\<rparr>))"

text \<open>The allocation loop of \<open>allocate_folder_uids\<close>: the map built and the counter left.\<close>

fun alloc_loop :: "int \<Rightarrow> string list \<Rightarrow> (string \<times> nat) list \<Rightarrow> (string \<times> nat) list \<times> int" where
  "alloc_loop next [] m = (m, next)"
| "alloc_loop next (e # es) m = alloc_loop (next + 1) es (AList.update e (as_u32 next) m)"

definition next_uid :: "string \<Rightarrow> local_store \<Rightarrow> int" where
  "next_uid fid s = (case map_of (t_sync s) fid of None \<Rightarrow> 1 | Some n \<Rightarrow> n)"

definition allocate_folder_uids ::
    "string \<Rightarrow> string list \<Rightarrow> local_store \<Rightarrow> (string \<times> nat) list store_res" where
  "allocate_folder_uids fid es = on_db (\<lambda>s.
     let (m, n) = alloc_loop (next_uid fid s) es []
     in (m, s\<lparr>t_sync := AList.update fid n (t_sync s)\<rparr>))"

definition delete_mails_not_in :: "string \<Rightarrow> string list \<Rightarrow> local_store \<Rightarrow> string list store_res" where
  "delete_mails_not_in fid keep = on_db (\<lambda>s.
     let gone = filter (\<lambda>e. e \<notin> set keep)
                  (map md_element_id (filter (\<lambda>r. md_folder_id r = fid) (t_mails s)))
     in (gone, if gone = [] then s
               else s\<lparr>t_mails := filter (\<lambda>r. md_element_id r \<notin> set gone) (t_mails s)\<rparr>))"

definition mark_has_details :: "string \<Rightarrow> local_store \<Rightarrow> unit store_res" where
  "mark_has_details e = on_db (\<lambda>s. ((), s\<lparr>t_mails :=
     map (\<lambda>r. if md_element_id r = e then r\<lparr>md_has_details := True\<rparr> else r) (t_mails s)\<rparr>))"

definition refresh_mail_fields ::
    "string \<Rightarrow> string \<Rightarrow> string \<Rightarrow> string \<Rightarrow> bool \<Rightarrow> string \<Rightarrow> local_store \<Rightarrow> unit store_res" where
  "refresh_mail_fields e subj sname saddr unr json = on_db (\<lambda>s. ((), s\<lparr>t_mails :=
     map (\<lambda>r. if md_element_id r = e
       then r\<lparr>md_subject := subj, md_sender_name := sname, md_sender_address := saddr,
              md_unread := unr, md_json := json\<rparr> else r) (t_mails s)\<rparr>))"

definition delete_folder_mails :: "string \<Rightarrow> local_store \<Rightarrow> string list store_res" where
  "delete_folder_mails fid = on_db (\<lambda>s.
     let ids = map md_element_id (filter (\<lambda>r. md_folder_id r = fid) (t_mails s))
     in (ids, if ids = [] then s
              else s\<lparr>t_mails := filter (\<lambda>r. md_folder_id r \<noteq> fid) (t_mails s)\<rparr>))"

definition mail_count :: "string \<Rightarrow> local_store \<Rightarrow> store_error + nat" where
  "mail_count fid s = (if db_ok s
     then Inr (length (filter (\<lambda>r. md_folder_id r = fid) (t_mails s))) else Inl ErrDb)"

definition total_count :: "local_store \<Rightarrow> store_error + nat" where
  "total_count s = (if db_ok s then Inr (length (t_mails s)) else Inl ErrDb)"

section \<open>Encrypted bodies\<close>

definition eml_name :: "string \<Rightarrow> string" where
  "eml_name e = e @ ''.eml.enc''"

definition write_eml :: "crypto \<Rightarrow> string \<Rightarrow> string \<Rightarrow> string \<Rightarrow> local_store \<Rightarrow> unit store_res" where
  "write_eml cr iv e rfc s = (case cr_encrypt cr iv rfc of
     None \<Rightarrow> (Inl ErrCrypto, s)
   | Some enc \<Rightarrow> on_fs (\<lambda>s.
       let tmp = eml_name e @ ''.tmp'';
           written = AList.update tmp enc (ls_files s);
           renamed = AList.update (eml_name e) enc (AList.delete tmp written)
       in ((), s\<lparr>ls_files := renamed\<rparr>)) s)"

definition has_eml :: "string \<Rightarrow> local_store \<Rightarrow> bool" where
  "has_eml e s = (map_of (ls_files s) (eml_name e) \<noteq> None)"

definition read_eml :: "crypto \<Rightarrow> string \<Rightarrow> local_store \<Rightarrow> store_error + string option" where
  "read_eml cr e s = (case map_of (ls_files s) (eml_name e) of
     None \<Rightarrow> Inr None
   | Some enc \<Rightarrow> if \<not> fs_ok s then Inl ErrIo else
       (case cr_decrypt cr enc of
          None \<Rightarrow> Inl ErrCrypto
        | Some txt \<Rightarrow> if utf8_valid txt then Inr (Some txt) else Inl ErrCrypto))"

definition delete_eml :: "string \<Rightarrow> local_store \<Rightarrow> unit store_res" where
  "delete_eml e s = (if has_eml e s
     then on_fs (\<lambda>s. ((), s\<lparr>ls_files := AList.delete (eml_name e) (ls_files s)\<rparr>)) s
     else (Inr (), s))"

section \<open>Full-text index\<close>

text \<open>\<open>term.split(|c| !c.is_alphanumeric())\<close> without the empty pieces.\<close>

fun alnum_runs :: "unicode \<Rightarrow> string list \<Rightarrow> string \<Rightarrow> string list" where
  "alnum_runs u [] acc = (if acc = [] then [] else [acc])"
| "alnum_runs u (ch # cs) acc = (if is_alphanumeric u ch then alnum_runs u cs (acc @ ch)
     else (if acc = [] then alnum_runs u cs [] else acc # alnum_runs u cs []))"

definition fts_match_expr :: "unicode \<Rightarrow> string \<Rightarrow> string" where
  "fts_match_expr u t = join '' '' (map (\<lambda>w. w @ ''*'') (alnum_runs u (chars_of t) []))"

definition unindex_body :: "string \<Rightarrow> local_store \<Rightarrow> unit store_res" where
  "unindex_body e = on_db (\<lambda>s. ((), s\<lparr>t_fts := filter (\<lambda>(k, _). k \<noteq> e) (t_fts s)\<rparr>))"

definition index_body :: "string \<Rightarrow> string \<Rightarrow> local_store \<Rightarrow> unit store_res" where
  "index_body e txt = on_db (\<lambda>s. ((), s\<lparr>t_fts :=
     filter (\<lambda>(k, _). k \<noteq> e) (t_fts s) @ [(e, txt)]\<rparr>))"

text \<open>SQLite's FTS5 engine: which \<open>MATCH\<close> expressions parse, and which bodies they match.\<close>

record fts_engine =
  fts_wf :: "string \<Rightarrow> bool"
  fts_matches :: "string \<Rightarrow> string \<Rightarrow> bool"

definition search_body ::
    "unicode \<Rightarrow> fts_engine \<Rightarrow> string \<Rightarrow> local_store \<Rightarrow> store_error + string list" where
  "search_body u fe t s = (let ex = fts_match_expr u t in
     if ex = [] then Inr []
     else if \<not> db_ok s \<or> \<not> fts_wf fe ex then Inl ErrDb
     else Inr (map fst (filter (\<lambda>r. fts_matches fe ex (snd r)) (t_fts s))))"

definition fts_count :: "local_store \<Rightarrow> store_error + nat" where
  "fts_count s = (if db_ok s then Inr (length (t_fts s)) else Inl ErrDb)"

section \<open>Event-bus cursors\<close>

definition load_event_bus_state :: "local_store \<Rightarrow> store_error + (string \<times> string) list" where
  "load_event_bus_state s = (if db_ok s then Inr (map (\<lambda>(g, b, _). (g, b)) (t_bus s)) else Inl ErrDb)"

definition event_bus_state_min_updated_at_ms :: "local_store \<Rightarrow> store_error + int option" where
  "event_bus_state_min_updated_at_ms s = (if db_ok s
     then Inr (if t_bus s = [] then None else Some (Min (set (map (\<lambda>(_, _, t). t) (t_bus s)))))
     else Inl ErrDb)"

definition clear_event_bus_state :: "local_store \<Rightarrow> unit store_res" where
  "clear_event_bus_state = on_db (\<lambda>s. ((), s\<lparr>t_bus := []\<rparr>))"

definition set_event_bus_batch_id :: "int \<Rightarrow> string \<Rightarrow> string \<Rightarrow> local_store \<Rightarrow> unit store_res" where
  "set_event_bus_batch_id now g b = on_db (\<lambda>s. ((), s\<lparr>t_bus := AList.update g (b, now) (t_bus s)\<rparr>))"

section \<open>Dropping a mail\<close>

text \<open>Row, then file, then index; the first failure returns early.\<close>

definition delete_mail :: "string \<Rightarrow> local_store \<Rightarrow> unit store_res" where
  "delete_mail e s =
     (case on_db (\<lambda>s. ((), s\<lparr>t_mails := filter (\<lambda>r. md_element_id r \<noteq> e) (t_mails s)\<rparr>)) s of
        (Inl er, s1) \<Rightarrow> (Inl er, s1)
      | (Inr _, s1) \<Rightarrow> (case delete_eml e s1 of
            (Inl er, s2) \<Rightarrow> (Inl er, s2)
          | (Inr _, s2) \<Rightarrow> unindex_body e s2))"

section \<open>What each operation changes\<close>

lemma on_db_simps [simp]:
  "db_ok s \<Longrightarrow> on_db f s = (Inr (fst (f s)), snd (f s))"
  "\<not> db_ok s \<Longrightarrow> on_db f s = (Inl ErrDb, s)"
  by (simp_all add: on_db_def split: prod.split)

lemma on_fs_simps [simp]:
  "fs_ok s \<Longrightarrow> on_fs f s = (Inr (fst (f s)), snd (f s))"
  "\<not> fs_ok s \<Longrightarrow> on_fs f s = (Inl ErrIo, s)"
  by (simp_all add: on_fs_def split: prod.split)

lemmas table_op_defs = set_meta_def upsert_mail_metadata_def upsert_mail_metadata_batch_def
  allocate_folder_uids_def delete_mails_not_in_def mark_has_details_def refresh_mail_fields_def
  delete_folder_mails_def unindex_body_def index_body_def clear_event_bus_state_def
  set_event_bus_batch_id_def

text \<open>The mutating operations of a running bridge, one rule each; \<open>open\<close> and \<open>reset\<close> are apart.\<close>

inductive ls_step :: "local_store \<Rightarrow> local_store \<Rightarrow> bool" where
  "ls_step s (snd (set_meta k v s))"
| "ls_step s (snd (upsert_mail_metadata r s))"
| "ls_step s (snd (upsert_mail_metadata_batch rs s))"
| "ls_step s (snd (allocate_folder_uids f es s))"
| "ls_step s (snd (delete_mails_not_in f keep s))"
| "ls_step s (snd (mark_has_details e s))"
| "ls_step s (snd (refresh_mail_fields e a b c d j s))"
| "ls_step s (snd (delete_folder_mails f s))"
| "ls_step s (snd (write_eml cr iv e t s))"
| "ls_step s (snd (delete_eml e s))"
| "ls_step s (snd (index_body e t s))"
| "ls_step s (snd (unindex_body e s))"
| "ls_step s (snd (clear_event_bus_state s))"
| "ls_step s (snd (set_event_bus_batch_id now g b s))"
| "ls_step s (snd (delete_mail e s))"
| "ls_step s (s\<lparr>db_ok := ok, fs_ok := ok'\<rparr>)"

lemma snd_on_db: "snd (on_db f s) = (if db_ok s then snd (f s) else s)"
  by simp

lemma snd_on_fs: "snd (on_fs f s) = (if fs_ok s then snd (f s) else s)"
  by simp

lemma t_sync_fs_ops [simp]:
  "t_sync (snd (write_eml cr iv e t s)) = t_sync s"
  "t_sync (snd (delete_eml e s)) = t_sync s"
  by (auto simp: write_eml_def delete_eml_def snd_on_fs Let_def split: option.splits)

lemma t_sync_db_ops [simp]:
  "t_sync (snd (set_meta k v s)) = t_sync s"
  "t_sync (snd (upsert_mail_metadata r s)) = t_sync s"
  "t_sync (snd (upsert_mail_metadata_batch rs s)) = t_sync s"
  "t_sync (snd (delete_mails_not_in f keep s)) = t_sync s"
  "t_sync (snd (mark_has_details e s)) = t_sync s"
  "t_sync (snd (refresh_mail_fields e a b c d j s)) = t_sync s"
  "t_sync (snd (delete_folder_mails f s)) = t_sync s"
  "t_sync (snd (index_body e t s)) = t_sync s"
  "t_sync (snd (unindex_body e s)) = t_sync s"
  "t_sync (snd (clear_event_bus_state s)) = t_sync s"
  "t_sync (snd (set_event_bus_batch_id now g bt s)) = t_sync s"
  by (simp_all add: table_op_defs snd_on_db Let_def)

lemma t_sync_delete_mail [simp]: "t_sync (snd (delete_mail e s)) = t_sync s"
proof -
  let ?s1 = "s\<lparr>t_mails := filter (\<lambda>r. md_element_id r \<noteq> e) (t_mails s)\<rparr>"
  have "t_sync (snd (delete_eml e ?s1)) = t_sync s" by simp
  then show ?thesis
    by (cases "db_ok s"; cases "delete_eml e ?s1"; cases "fst (delete_eml e ?s1)")
       (auto simp: delete_mail_def)
qed

section \<open>UID allocation\<close>

lemma alloc_loop_next [simp]: "snd (alloc_loop n es m) = n + int (length es)"
  by (induction es arbitrary: n m) auto

lemma alloc_loop_notin: "e \<notin> set es \<Longrightarrow> map_of (fst (alloc_loop n es m)) e = map_of m e"
  by (induction es arbitrary: n m) auto

lemma alloc_loop_nth:
  "distinct es \<Longrightarrow> i < length es \<Longrightarrow>
     map_of (fst (alloc_loop n es m)) (es ! i) = Some (as_u32 (n + int i))"
proof (induction es arbitrary: n m i)
  case Nil
  then show ?case by simp
next
  case (Cons e es)
  show ?case
  proof (cases i)
    case 0
    with Cons.prems show ?thesis by (simp add: alloc_loop_notin)
  next
    case (Suc j)
    with Cons.prems have "map_of (fst (alloc_loop (n + 1) es (AList.update e (as_u32 n) m))) (es ! j)
        = Some (as_u32 (n + 1 + int j))"
      by (intro Cons.IH) auto
    then show ?thesis using Suc by (simp add: algebra_simps)
  qed
qed

text \<open>What the synchroniser and the event handler rely on.\<close>

locale uid_source =
  fixes nxt :: "'s \<Rightarrow> string \<Rightarrow> int"
    and alloc :: "string \<Rightarrow> string list \<Rightarrow> 's \<Rightarrow> (string \<times> nat) list \<times> 's"
    and ready :: "'s \<Rightarrow> bool"
  assumes alloc_nth: "ready s \<Longrightarrow> distinct es \<Longrightarrow> i < length es \<Longrightarrow>
      map_of (fst (alloc f es s)) (es ! i) = Some (as_u32 (nxt s f + int i))"
    and alloc_next: "ready s \<Longrightarrow> nxt (snd (alloc f es s)) f = nxt s f + int (length es)"
    and alloc_other: "g \<noteq> f \<Longrightarrow> nxt (snd (alloc f es s)) g = nxt s g"
    and alloc_ready: "ready s \<Longrightarrow> ready (snd (alloc f es s))"
begin

lemma alloc_range:
  assumes "ready s" "distinct es" "e \<in> set es" "1 \<le> nxt s f"
    and "nxt (snd (alloc f es s)) f \<le> 2 ^ 32"
  shows "\<exists>u. map_of (fst (alloc f es s)) e = Some u \<and> nxt s f \<le> int u
           \<and> int u < nxt (snd (alloc f es s)) f"
proof -
  from assms(3) obtain i where i: "i < length es" "es ! i = e"
    by (auto simp: in_set_conv_nth)
  have nx: "nxt s f + int (length es) \<le> 2 ^ 32" using assms alloc_next by simp
  have "as_u32 (nxt s f + int i) = nat (nxt s f + int i)"
    using nx i assms(4) by (intro as_u32_small) auto
  with alloc_nth [OF assms(1,2) i(1), of f] i nx assms(1,4) alloc_next show ?thesis
    by auto
qed

lemma alloc_mono:
  assumes "ready s"
  shows "nxt s g \<le> nxt (snd (alloc f es s)) g"
  using assms alloc_next [of s f es] alloc_other [of g f es s] by (cases "g = f") auto

lemma alloc_inj:
  assumes "ready s" "distinct es" "1 \<le> nxt s f" "nxt (snd (alloc f es s)) f \<le> 2 ^ 32"
    and "d \<in> set es" "e \<in> set es"
    and "map_of (fst (alloc f es s)) d = map_of (fst (alloc f es s)) e"
  shows "d = e"
proof -
  from assms(5,6) obtain i j where i: "i < length es" "es ! i = d" and j: "j < length es" "es ! j = e"
    by (auto simp: in_set_conv_nth)
  have nx: "nxt s f + int (length es) \<le> 2 ^ 32" using assms alloc_next by simp
  have "as_u32 (nxt s f + int i) = nat (nxt s f + int i)" "as_u32 (nxt s f + int j) = nat (nxt s f + int j)"
    using nx i j assms(3) by (auto intro!: as_u32_small)
  moreover have "as_u32 (nxt s f + int i) = as_u32 (nxt s f + int j)"
    using alloc_nth [OF assms(1,2) i(1), of f] alloc_nth [OF assms(1,2) j(1), of f] i j assms(7) by simp
  ultimately have "i = j" using assms(3) by auto
  with i j show ?thesis by simp
qed

end

definition alloc_uids :: "string \<Rightarrow> string list \<Rightarrow> local_store \<Rightarrow> (string \<times> nat) list \<times> local_store" where
  "alloc_uids f es s = (ok_or [] (fst (allocate_folder_uids f es s)), snd (allocate_folder_uids f es s))"

lemma next_uid_upd [simp]:
  "next_uid g (s\<lparr>t_sync := AList.update f n (t_sync s)\<rparr>) = (if g = f then n else next_uid g s)"
  by (simp add: next_uid_def)

lemma allocate_folder_uids_ok:
  "db_ok s \<Longrightarrow> allocate_folder_uids f es s =
     (Inr (fst (alloc_loop (next_uid f s) es [])),
      s\<lparr>t_sync := AList.update f (next_uid f s + int (length es)) (t_sync s)\<rparr>)"
  by (simp add: allocate_folder_uids_def Let_def case_prod_beta)

lemma allocate_folder_uids_err: "\<not> db_ok s \<Longrightarrow> allocate_folder_uids f es s = (Inl ErrDb, s)"
  by (simp add: allocate_folder_uids_def)

lemma next_uid_allocate:
  "next_uid g (snd (allocate_folder_uids f es s)) =
     (if db_ok s \<and> g = f then next_uid f s + int (length es) else next_uid g s)"
  by (cases "db_ok s")
     (simp_all add: allocate_folder_uids_ok allocate_folder_uids_err next_uid_def)

interpretation uids: uid_source "\<lambda>s f. next_uid f s" alloc_uids db_ok
  by unfold_locales
     (simp_all add: alloc_uids_def next_uid_allocate allocate_folder_uids_ok alloc_loop_nth)

lemma ls_step_next_uid: "ls_step s s' \<Longrightarrow> next_uid f s \<le> next_uid f s'"
proof (induction rule: ls_step.induct)
  case (4 s g es)
  show ?case by (simp add: next_uid_allocate)
qed (simp_all add: next_uid_def)

lemma ls_steps_next_uid: "ls_step\<^sup>*\<^sup>* s s' \<Longrightarrow> next_uid f s \<le> next_uid f s'"
  by (induction rule: rtranclp_induct) (auto dest: ls_step_next_uid intro: order_trans)

section \<open>Keys\<close>

text \<open>
  The primary keys the schema declares, and the one row per mail that \<open>index_body\<close> keeps in the
  full-text table.
\<close>

definition wf_store :: "local_store \<Rightarrow> bool" where
  "wf_store s = (distinct (map md_element_id (t_mails s)) \<and> distinct (map fst (t_sync s))
     \<and> distinct (map fst (t_bus s)) \<and> distinct (map fst (t_meta s))
     \<and> distinct (map fst (t_fts s)) \<and> distinct (map fst (ls_files s)))"

lemma conflict_set_key [simp]:
  "md_element_id (conflict_set x r) = md_element_id x" "md_uid (conflict_set x r) = md_uid x"
  "md_element_id (conflict_set_batch x r) = md_element_id x" "md_uid (conflict_set_batch x r) = md_uid x"
  "md_folder_id (conflict_set x r) = md_folder_id r"
  "md_folder_id (conflict_set_batch x r) = md_folder_id r"
  by (simp_all add: conflict_set_def conflict_set_batch_def)

lemma map_key_upsert_row:
  assumes "\<And>x. md_element_id (f x r) = md_element_id x"
  shows "map md_element_id (upsert_row f r rows) =
    (if md_element_id r \<in> md_element_id ` set rows then map md_element_id rows
     else map md_element_id rows @ [md_element_id r])"
proof (cases "\<exists>x \<in> set rows. md_element_id x = md_element_id r")
  case True
  then have "md_element_id r \<in> md_element_id ` set rows" by (metis image_eqI)
  with True assms show ?thesis by (simp add: upsert_row_def map_upd_first_key)
next
  case False
  then have "md_element_id r \<notin> md_element_id ` set rows" by force
  with False show ?thesis by (simp add: upsert_row_def)
qed

lemma distinct_upsert_row:
  assumes "\<And>x. md_element_id (f x r) = md_element_id x" "distinct (map md_element_id rows)"
  shows "distinct (map md_element_id (upsert_row f r rows))"
  using assms by (auto simp: map_key_upsert_row)

lemma distinct_fold_upsert:
  assumes "\<And>x r. md_element_id (f x r) = md_element_id x" "distinct (map md_element_id rows)"
  shows "distinct (map md_element_id (fold (upsert_row f) rs rows))"
  using assms(2) by (induction rs arbitrary: rows) (auto simp: distinct_upsert_row assms(1))

lemma map_key_map_if:
  "(\<And>r. md_element_id (g r) = md_element_id r) \<Longrightarrow>
     map md_element_id (map (\<lambda>r. if P r then g r else r) rows) = map md_element_id rows"
  by (induction rows) auto

lemma distinct_key_filter: "distinct (map f m) \<Longrightarrow> distinct (map f (filter P m))"
  by (induction m) auto

lemma delete_mail_cases:
  "delete_mail e s = (if \<not> db_ok s then (Inl ErrDb, s)
     else let s1 = s\<lparr>t_mails := filter (\<lambda>r. md_element_id r \<noteq> e) (t_mails s)\<rparr> in
       if has_eml e s \<and> \<not> fs_ok s then (Inl ErrIo, s1)
       else (Inr (), s1\<lparr>ls_files := AList.delete (eml_name e) (ls_files s),
                        t_fts := filter (\<lambda>(k, _). k \<noteq> e) (t_fts s)\<rparr>))"
  by (auto simp: delete_mail_def delete_eml_def has_eml_def unindex_body_def Let_def
      map_of_eq_None_iff delete_id)

lemma wf_store_ls_step:
  assumes "ls_step s s'" "wf_store s"
  shows "wf_store s'"
  using assms
proof (induction rule: ls_step.induct)
  case (9 s cr iv e t)
  then show ?case
    by (simp add: wf_store_def write_eml_def snd_on_fs Let_def split: option.split)
next
  case (10 s e)
  then show ?case by (simp add: wf_store_def delete_eml_def snd_on_fs)
next
  case (11 s e t)
  then show ?case
    by (auto simp: wf_store_def table_op_defs snd_on_db distinct_fst_filter)
next
  case (15 s e)
  then show ?case
    by (auto simp: wf_store_def delete_mail_cases Let_def distinct_fst_filter distinct_key_filter)
qed (simp_all add: wf_store_def table_op_defs snd_on_db Let_def case_prod_beta distinct_upsert_row
      distinct_fold_upsert distinct_key_filter distinct_fst_filter map_key_map_if
      del: map_map)

lemma wf_store_open: "wf_store s \<Longrightarrow> wf_store (snd (open_store s))"
  by (auto simp: wf_store_def open_store_def snd_on_db Let_def)

lemma wf_store_reset: "wf_store s \<Longrightarrow> wf_store (snd (reset s))"
  by (cases "db_ok s"; cases "fs_ok s") (auto simp: wf_store_def reset_def distinct_fst_filter)

section \<open>Lookups after updates\<close>

definition row_of :: "string \<Rightarrow> local_store \<Rightarrow> mail_metadata option" where
  "row_of e s = List.find (\<lambda>r. md_element_id r = e) (t_mails s)"

lemma find_key_upsert_row:
  assumes "\<And>x. md_element_id (f x r) = md_element_id x"
  shows "List.find (\<lambda>x. md_element_id x = e) (upsert_row f r rows) =
    (if e = md_element_id r
     then Some (case List.find (\<lambda>x. md_element_id x = e) rows of None \<Rightarrow> r | Some x \<Rightarrow> f x r)
     else List.find (\<lambda>x. md_element_id x = e) rows)"
proof (cases "\<exists>x \<in> set rows. md_element_id x = md_element_id r")
  case True
  then obtain y where "List.find (\<lambda>x. md_element_id x = md_element_id r) rows = Some y"
    using find_None_conv [of "\<lambda>x. md_element_id x = md_element_id r" rows] by fastforce
  with True assms show ?thesis
    by (auto simp: upsert_row_def find_upd_first_same find_upd_first_other)
next
  case False
  then have "List.find (\<lambda>x. md_element_id x = md_element_id r) rows = None"
    by (simp add: find_None_conv)
  with False show ?thesis by (auto simp: upsert_row_def find_append split: option.split)
qed

lemma row_of_upsert:
  "db_ok s \<Longrightarrow> row_of e (snd (upsert_mail_metadata r s)) =
    (if e = md_element_id r
     then Some (case row_of e s of None \<Rightarrow> r | Some x \<Rightarrow> conflict_set x r) else row_of e s)"
  by (simp add: row_of_def upsert_mail_metadata_def find_key_upsert_row)

lemma eml_name_inj [simp]: "eml_name a = eml_name b \<longleftrightarrow> a = b"
  by (simp add: eml_name_def)

lemma tmp_not_eml [simp]: "eml_name a \<noteq> eml_name b @ ''.tmp''"
proof
  assume "eml_name a = eml_name b @ ''.tmp''"
  then have "rev (eml_name a) = rev (eml_name b @ ''.tmp'')" by simp
  then show False by (simp add: eml_name_def)
qed

lemma files_write_eml:
  assumes "cr_encrypt cr iv t = Some enc" "fs_ok s"
  shows "map_of (ls_files (snd (write_eml cr iv e t s))) (eml_name a)
    = (if a = e then Some enc else map_of (ls_files s) (eml_name a))"
  using assms tmp_not_eml [of e e] tmp_not_eml [of a e] by (auto simp: write_eml_def Let_def)

lemma ls_frame_write_eml [simp]:
  "t_mails (snd (write_eml cr iv e t s)) = t_mails s"
  "t_fts (snd (write_eml cr iv e t s)) = t_fts s"
  "t_bus (snd (write_eml cr iv e t s)) = t_bus s"
  "t_meta (snd (write_eml cr iv e t s)) = t_meta s"
  "db_ok (snd (write_eml cr iv e t s)) = db_ok s"
  "fs_ok (snd (write_eml cr iv e t s)) = fs_ok s"
  by (simp_all add: write_eml_def snd_on_fs Let_def split: option.split)

lemma ls_frame_upsert [simp]:
  "ls_files (snd (upsert_mail_metadata r s)) = ls_files s"
  "t_fts (snd (upsert_mail_metadata r s)) = t_fts s"
  "t_bus (snd (upsert_mail_metadata r s)) = t_bus s"
  "t_meta (snd (upsert_mail_metadata r s)) = t_meta s"
  "db_ok (snd (upsert_mail_metadata r s)) = db_ok s"
  "fs_ok (snd (upsert_mail_metadata r s)) = fs_ok s"
  by (simp_all add: upsert_mail_metadata_def snd_on_db)

lemma ls_frame_allocate [simp]:
  "t_mails (snd (allocate_folder_uids f es s)) = t_mails s"
  "ls_files (snd (allocate_folder_uids f es s)) = ls_files s"
  "t_fts (snd (allocate_folder_uids f es s)) = t_fts s"
  "t_bus (snd (allocate_folder_uids f es s)) = t_bus s"
  "t_meta (snd (allocate_folder_uids f es s)) = t_meta s"
  "db_ok (snd (allocate_folder_uids f es s)) = db_ok s"
  "fs_ok (snd (allocate_folder_uids f es s)) = fs_ok s"
  by (cases "db_ok s"; simp add: allocate_folder_uids_ok allocate_folder_uids_err)+

lemma ls_frame_mark [simp]:
  "ls_files (snd (mark_has_details e s)) = ls_files s"
  "t_fts (snd (mark_has_details e s)) = t_fts s"
  "t_bus (snd (mark_has_details e s)) = t_bus s"
  "t_meta (snd (mark_has_details e s)) = t_meta s"
  "db_ok (snd (mark_has_details e s)) = db_ok s"
  "fs_ok (snd (mark_has_details e s)) = fs_ok s"
  by (simp_all add: mark_has_details_def snd_on_db)

lemma ls_frame_delete_mail [simp]:
  "t_bus (snd (delete_mail e s)) = t_bus s"
  "t_meta (snd (delete_mail e s)) = t_meta s"
  "db_ok (snd (delete_mail e s)) = db_ok s"
  "fs_ok (snd (delete_mail e s)) = fs_ok s"
  by (simp_all add: delete_mail_cases Let_def)

lemma ls_frame_index [simp]:
  "t_mails (snd (index_body e x s)) = t_mails s" "ls_files (snd (index_body e x s)) = ls_files s"
  "db_ok (snd (index_body e x s)) = db_ok s" "fs_ok (snd (index_body e x s)) = fs_ok s"
  "t_mails (snd (unindex_body e s)) = t_mails s" "ls_files (snd (unindex_body e s)) = ls_files s"
  "db_ok (snd (unindex_body e s)) = db_ok s" "fs_ok (snd (unindex_body e s)) = fs_ok s"
  by (simp_all add: index_body_def unindex_body_def snd_on_db)

lemma ls_frame_delete_eml [simp]:
  "t_mails (snd (delete_eml e s)) = t_mails s" "t_fts (snd (delete_eml e s)) = t_fts s"
  "db_ok (snd (delete_eml e s)) = db_ok s" "fs_ok (snd (delete_eml e s)) = fs_ok s"
  by (simp_all add: delete_eml_def snd_on_fs)

text \<open>A store as \<open>open\<close> leaves it on an empty directory.\<close>

definition fresh_store :: local_store where
  "fresh_store = \<lparr>db_ok = True, fs_ok = True, t_mails = [], t_sync = [], t_bus = [],
     t_meta = [(KEY_SCHEMA, SCHEMA_VERSION)], t_fts = [], ls_files = []\<rparr>"

lemma fresh_store_simps [simp]:
  "db_ok fresh_store" "fs_ok fresh_store" "t_mails fresh_store = []" "t_sync fresh_store = []"
  "t_bus fresh_store = []" "t_fts fresh_store = []" "ls_files fresh_store = []"
  by (simp_all add: fresh_store_def)

lemma wf_fresh_store: "wf_store fresh_store"
  by (simp add: wf_store_def fresh_store_def)

lemma open_empty:
  "snd (open_store \<lparr>db_ok = True, fs_ok = True, t_mails = [], t_sync = [], t_bus = [],
     t_meta = [], t_fts = [], ls_files = []\<rparr>) = fresh_store"
  by (simp add: open_store_def fresh_store_def Let_def)

text \<open>The full-text expression: every token is a non-empty alphanumeric run and a star.\<close>

definition alnum_word :: "unicode \<Rightarrow> string \<Rightarrow> bool" where
  "alnum_word u w = (\<exists>cs. cs \<noteq> [] \<and> [] \<notin> set cs \<and> w = concat cs \<and> (\<forall>ch \<in> set cs. is_alphanumeric u ch))"

lemma alnum_word_snoc:
  "acc = [] \<or> alnum_word u acc \<Longrightarrow> ch \<noteq> [] \<Longrightarrow> is_alphanumeric u ch \<Longrightarrow> alnum_word u (acc @ ch)"
proof -
  assume a: "acc = [] \<or> alnum_word u acc" and c: "ch \<noteq> []" "is_alphanumeric u ch"
  from a obtain cs where "acc = concat cs" "[] \<notin> set cs" "\<forall>x \<in> set cs. is_alphanumeric u x"
    by (auto simp: alnum_word_def intro: that [of "[]"])
  then show ?thesis using c
    unfolding alnum_word_def by (intro exI [of _ "cs @ [ch]"]) auto
qed

lemma alnum_runs_words:
  "[] \<notin> set cs \<Longrightarrow> acc = [] \<or> alnum_word u acc \<Longrightarrow> w \<in> set (alnum_runs u cs acc) \<Longrightarrow> alnum_word u w"
proof (induction u cs acc rule: alnum_runs.induct)
  case (1 u acc)
  then show ?case by (auto split: if_splits)
next
  case (2 u ch cs acc)
  then show ?case by (auto split: if_splits intro: alnum_word_snoc)
qed

lemma chars_of_ne: "[] \<notin> set (chars_of s)"
proof (induction s rule: chars_of.induct)
  case (2 c s)
  have "take (utf8_width c) (c # s) \<noteq> []" using utf8_width_pos [of c] by (cases "utf8_width c") auto
  with 2 show ?case by (simp add: chars_of.simps)
qed simp

section \<open>Properties\<close>

lemma alloc_uids_eq: "allocate_folder_uids f es s = (Inr m, s1) \<Longrightarrow> db_ok s \<and> alloc_uids f es s = (m, s1)"
  by (cases "db_ok s") (auto simp: alloc_uids_def allocate_folder_uids_err)

lemma allocated_range:
  assumes "allocate_folder_uids f es s = (Inr m, s1)" "distinct es" "1 \<le> next_uid f s"
    and "e \<in> set es" "map_of m e = Some u" "next_uid f s1 \<le> 2 ^ 32"
  shows "next_uid f s \<le> int u" "int u < next_uid f s1"
  using alloc_uids_eq [OF assms(1)] uids.alloc_range [of s es e f] assms(2-) by auto

text \<open>
  C5: UIDs are never reused. If a folder's counter hands \<open>u\<close> to a mail and, after any sequence
  of store operations other than \<open>open\<close> and \<open>reset\<close>, hands \<open>u'\<close> to another, then \<open>u < u'\<close>,
  as long as the counter has not left the \<open>u32\<close> range.
\<close>

theorem uids_never_reused:
  assumes "allocate_folder_uids f es s = (Inr m, s1)" "distinct es" "1 \<le> next_uid f s"
    and "e \<in> set es" "map_of m e = Some u"
    and "ls_step\<^sup>*\<^sup>* s1 s2"
    and "allocate_folder_uids f es' s2 = (Inr m', s3)" "distinct es'"
    and "e' \<in> set es'" "map_of m' e' = Some u'"
    and "next_uid f s3 \<le> 2 ^ 32"
  shows "u < u'"
proof -
  have "next_uid f s1 = next_uid f s + int (length es)" "next_uid f s3 = next_uid f s2 + int (length es')"
    using next_uid_allocate [of f f es s] next_uid_allocate [of f f es' s2] assms(1,7)
      alloc_uids_eq by auto
  moreover have "next_uid f s1 \<le> next_uid f s2" using assms(6) by (rule ls_steps_next_uid)
  ultimately have "int u < next_uid f s2" "next_uid f s2 \<le> int u'"
    using allocated_range [OF assms(1,2,3,4,5)] allocated_range [OF assms(7,8) _ assms(9,10,11)]
      assms(3,11) by auto
  then show ?thesis by simp
qed

theorem uids_never_reused_witness:
  "\<exists>s1 s2 s3 m m' u u'. allocate_folder_uids ''inbox'' [''a''] fresh_store = (Inr m, s1)
     \<and> ls_step\<^sup>*\<^sup>* s1 s2 \<and> allocate_folder_uids ''inbox'' [''b''] s2 = (Inr m', s3)
     \<and> map_of m ''a'' = Some u \<and> map_of m' ''b'' = Some u' \<and> u < u'"
proof -
  let ?s1 = "snd (allocate_folder_uids ''inbox'' [''a''] fresh_store)"
  let ?s2 = "snd (mark_has_details ''a'' ?s1)"
  let ?s3 = "snd (allocate_folder_uids ''inbox'' [''b''] ?s2)"
  have ok: "db_ok fresh_store" "db_ok ?s1" "db_ok ?s2" by simp_all
  have n: "next_uid ''inbox'' fresh_store = 1" by (simp add: next_uid_def)
  have n2: "next_uid ''inbox'' ?s2 = 2" by (simp add: next_uid_def allocate_folder_uids_ok)
  have a1: "allocate_folder_uids ''inbox'' [''a''] fresh_store = (Inr [(''a'', 1)], ?s1)"
    using ok by (simp add: allocate_folder_uids_ok n as_u32_def)
  have a2: "allocate_folder_uids ''inbox'' [''b''] ?s2 = (Inr [(''b'', 2)], ?s3)"
    by (simp only: allocate_folder_uids_ok [OF ok(3)] n2) (simp add: as_u32_def)
  have st: "ls_step\<^sup>*\<^sup>* ?s1 ?s2" by (rule r_into_rtranclp, rule ls_step.intros)
  have n3: "next_uid ''inbox'' ?s3 \<le> 2 ^ 32" using ok(3) by (simp add: next_uid_allocate n2)
  have "(1::nat) < 2"
    by (rule uids_never_reused [OF a1 _ _ _ _ st a2 _ _ _ n3]) (simp_all add: n)
  with a1 a2 st show ?thesis by (intro exI) (auto intro!: exI)
qed

text \<open>
  Primary keys. Every operation of a running bridge keeps the row keys, the cursor keys, the
  full-text rows and the file names free of duplicates.
\<close>

theorem store_keys_invariant:
  assumes "wf_store s" "ls_step\<^sup>*\<^sup>* s s'"
  shows "wf_store s' \<and> wf_store (snd (open_store s')) \<and> wf_store (snd (reset s'))"
proof -
  have "wf_store s'" using assms(2,1)
    by (induction rule: rtranclp_induct) (auto intro: wf_store_ls_step)
  then show ?thesis by (simp add: wf_store_open wf_store_reset)
qed

theorem store_keys_invariant_witness:
  "wf_store (snd (index_body ''a'' ''hello'' fresh_store))"
proof -
  have "ls_step\<^sup>*\<^sup>* fresh_store (snd (index_body ''a'' ''hello'' fresh_store))"
    by (rule r_into_rtranclp, rule ls_step.intros)
  with wf_fresh_store show ?thesis using store_keys_invariant by blast
qed

text \<open>
  A body written to the encrypted cache reads back unchanged and leaves every other mail's
  file as it was, provided the cipher decrypts what it encrypted.
\<close>

theorem eml_roundtrip:
  assumes "cr_encrypt cr iv rfc = Some enc" "cr_decrypt cr enc = Some rfc"
    and "utf8_valid rfc" "fs_ok s"
  shows "\<exists>s'. write_eml cr iv e rfc s = (Inr (), s') \<and> has_eml e s'
     \<and> read_eml cr e s' = Inr (Some rfc)
     \<and> (\<forall>a. a \<noteq> e \<longrightarrow> read_eml cr a s' = read_eml cr a s)"
proof -
  let ?s' = "snd (write_eml cr iv e rfc s)"
  have "write_eml cr iv e rfc s = (Inr (), ?s')"
    using assms by (simp add: write_eml_def Let_def)
  moreover have "has_eml e ?s'" "read_eml cr e ?s' = Inr (Some rfc)"
    using assms by (simp_all add: has_eml_def read_eml_def files_write_eml)
  moreover have "\<forall>a. a \<noteq> e \<longrightarrow> read_eml cr a ?s' = read_eml cr a s"
    using assms by (simp add: read_eml_def files_write_eml split: option.split)
  ultimately show ?thesis by blast
qed

theorem eml_roundtrip_witness:
  "\<exists>s'. write_eml \<lparr>cr_encrypt = (\<lambda>iv t. Some (iv @ rev t)), cr_decrypt = (\<lambda>c. Some (rev (drop 2 c)))\<rparr>
      ''iv'' ''m1'' ''Subject: x'' fresh_store = (Inr (), s') \<and> has_eml ''m1'' s'"
proof -
  let ?cr = "\<lparr>cr_encrypt = (\<lambda>iv t. Some (iv @ rev t)), cr_decrypt = (\<lambda>c. Some (rev (drop 2 c)))\<rparr>"
  have "\<exists>s'. write_eml ?cr ''iv'' ''m1'' ''Subject: x'' fresh_store = (Inr (), s') \<and> has_eml ''m1'' s'
     \<and> read_eml ?cr ''m1'' s' = Inr (Some ''Subject: x'')
     \<and> (\<forall>a. a \<noteq> ''m1'' \<longrightarrow> read_eml ?cr a s' = read_eml ?cr a fresh_store)"
    by (rule eml_roundtrip [of _ _ _ "''iv'' @ rev ''Subject: x''"]) (simp_all add: fresh_store_def)
  then show ?thesis by blast
qed

text \<open>
  \<open>delete_mail\<close> leaves no trace of the mail (row, encrypted file, full-text row) and touches
  no other mail. When the file cannot be removed it returns the error with the row already gone
  and the full-text row still there.
\<close>

theorem delete_mail_complete:
  assumes "delete_mail e s = (r, s')" "db_ok s"
  shows "row_of e s' = None
    \<and> (r = Inr () \<longrightarrow> \<not> has_eml e s' \<and> e \<notin> fst ` set (t_fts s'))
    \<and> (r = Inl ErrIo \<longleftrightarrow> has_eml e s \<and> \<not> fs_ok s)
    \<and> (r \<noteq> Inr () \<longrightarrow> t_fts s' = t_fts s \<and> ls_files s' = ls_files s)
    \<and> (\<forall>a. a \<noteq> e \<longrightarrow> row_of a s' = row_of a s \<and> has_eml a s' = has_eml a s)"
proof -
  have row: "row_of a s' = (if a = e then None else row_of a s)" for a
    using assms find_key_filter [of md_element_id a "\<lambda>k. k \<noteq> e" "t_mails s"]
    by (auto simp: delete_mail_cases Let_def row_of_def split: if_splits)
  have rest: "(r = Inr () \<longrightarrow> \<not> has_eml e s' \<and> e \<notin> fst ` set (t_fts s'))
    \<and> (r = Inl ErrIo \<longleftrightarrow> has_eml e s \<and> \<not> fs_ok s)
    \<and> (r \<noteq> Inr () \<longrightarrow> t_fts s' = t_fts s \<and> ls_files s' = ls_files s)
    \<and> (\<forall>a. a \<noteq> e \<longrightarrow> has_eml a s' = has_eml a s)"
    using assms by (auto simp: delete_mail_cases Let_def has_eml_def split: if_splits)
  with row show ?thesis by simp
qed

theorem delete_mail_complete_witness:
  "row_of ''a'' (snd (delete_mail ''a'' fresh_store)) = None"
proof -
  have "delete_mail ''a'' fresh_store
      = (fst (delete_mail ''a'' fresh_store), snd (delete_mail ''a'' fresh_store))" by simp
  then show ?thesis by (rule delete_mail_complete [THEN conjunct1]) simp
qed

text \<open>
  \<open>delete_mails_not_in\<close> removes exactly the rows of that folder whose id is not to be kept,
  and reports exactly those ids.
\<close>

theorem delete_mails_not_in_exact:
  assumes "wf_store s" "delete_mails_not_in f keep s = (Inr gone, s')"
  shows "set gone = {e. \<exists>r. row_of e s = Some r \<and> md_folder_id r = f \<and> e \<notin> set keep}
    \<and> (\<forall>e. row_of e s' = (case row_of e s of None \<Rightarrow> None
           | Some r \<Rightarrow> if md_folder_id r = f \<and> e \<notin> set keep then None else Some r))"
proof -
  have ok: "db_ok s" using assms(2) by (cases "db_ok s") (auto simp: delete_mails_not_in_def)
  have key: "row_of e s = Some r \<longleftrightarrow> r \<in> set (t_mails s) \<and> md_element_id r = e" for e r
    using assms(1) by (simp add: row_of_def wf_store_def find_key_iff)
  have set_gone: "set gone = {e. \<exists>r \<in> set (t_mails s). md_element_id r = e \<and> md_folder_id r = f \<and> e \<notin> set keep}"
    using assms(2) ok by (auto simp: delete_mails_not_in_def Let_def)
  have "t_mails s' = (if gone = [] then t_mails s
      else filter (\<lambda>r. md_element_id r \<notin> set gone) (t_mails s))"
    using assms(2) ok by (auto simp: delete_mails_not_in_def Let_def)
  then have mails: "t_mails s' = filter (\<lambda>r. md_element_id r \<notin> set gone) (t_mails s)"
    by simp
  have g: "set gone = {e. \<exists>r. row_of e s = Some r \<and> md_folder_id r = f \<and> e \<notin> set keep}"
    using set_gone key by blast
  have "row_of e s' = (if e \<notin> set gone then row_of e s else None)" for e
    unfolding row_of_def mails by (rule find_key_filter)
  with g show ?thesis by (auto split: option.split)
qed

theorem delete_mails_not_in_exact_witness:
  "delete_mails_not_in ''inbox'' [''b''] fresh_store = (Inr [], fresh_store)
     \<and> row_of ''a'' fresh_store = None"
proof -
  have e: "delete_mails_not_in ''inbox'' [''b''] fresh_store = (Inr [], fresh_store)"
    by (simp add: delete_mails_not_in_def)
  from delete_mails_not_in_exact [OF wf_fresh_store e] e show ?thesis by (auto simp: row_of_def)
qed

text \<open>
  Opening the store. A schema version other than the current one empties the cache tables,
  the current one keeps them; the encrypted bodies survive both, and opening again changes nothing.
\<close>

theorem open_store_migration:
  assumes "db_ok s" "fs_ok s"
  shows "\<exists>s'. open_store s = (Inr (), s') \<and> open_store s' = (Inr (), s') \<and> verify_key s'
    \<and> ls_files s' = ls_files s
    \<and> (if get_meta KEY_SCHEMA s = Some SCHEMA_VERSION
       then t_mails s' = t_mails s \<and> t_sync s' = t_sync s \<and> t_bus s' = t_bus s \<and> t_fts s' = t_fts s
       else t_mails s' = [] \<and> t_sync s' = [] \<and> t_bus s' = [] \<and> t_fts s' = [])"
  using assms
  by (auto simp: open_store_def Let_def verify_key_def get_meta_def AList.update_triv)

theorem open_store_migration_witness:
  "t_mails (snd (open_store (fresh_store\<lparr>t_meta := [(KEY_SCHEMA, ''3'')], ls_files := [(''a.eml.enc'', ''x'')]\<rparr>))) = []"
  using open_store_migration [of "fresh_store\<lparr>t_meta := [(KEY_SCHEMA, ''3'')], ls_files := [(''a.eml.enc'', ''x'')]\<rparr>"]
  by (auto simp: get_meta_def SCHEMA_VERSION_def)

text \<open>
  After \<open>reset\<close> every folder hands out UIDs from 1 again, while the \<open>UIDVALIDITY\<close> the IMAP
  server announces is the constant 1: the counter does not only advance.
\<close>

theorem reset_restarts_uids:
  assumes "db_ok s"
  shows "next_uid f (snd (reset s)) = 1
    \<and> map_of (fst (alloc_uids f [e] (snd (reset s)))) e = Some 1"
proof -
  have ok: "db_ok (snd (reset s))" and n: "next_uid f (snd (reset s)) = 1"
    using assms by (cases "fs_ok s"; simp add: reset_def next_uid_def)+
  show ?thesis using uids.alloc_nth [OF ok, of "[e]" 0 f] n by (simp add: as_u32_def)
qed

theorem reset_restarts_uids_witness:
  "next_uid ''inbox'' (snd (reset (fresh_store\<lparr>t_sync := [(''inbox'', 42)]\<rparr>))) = 1"
  using reset_restarts_uids [of "fresh_store\<lparr>t_sync := [(''inbox'', 42)]\<rparr>"] by simp

text \<open>
  A body search answers from the latest text indexed for each mail: after \<open>index_body\<close> the
  mail is a hit exactly when SQLite matches the expression against that text, and no other mail's
  answer changes.
\<close>

theorem index_then_search:
  assumes "db_ok s" "fts_wf fe (fts_match_expr u t)" "fts_match_expr u t \<noteq> []"
  shows "\<exists>ids ids'. search_body u fe t s = Inr ids
     \<and> search_body u fe t (snd (index_body e txt s)) = Inr ids'
     \<and> (e \<in> set ids' \<longleftrightarrow> fts_matches fe (fts_match_expr u t) txt)
     \<and> (\<forall>a. a \<noteq> e \<longrightarrow> (a \<in> set ids' \<longleftrightarrow> a \<in> set ids))"
  using assms by (auto simp: search_body_def index_body_def Let_def)

theorem index_then_search_witness:
  "\<exists>ids. search_body \<lparr>uni_upper = id, uni_lower = id, uni_alnum = (\<lambda>_. False)\<rparr>
      \<lparr>fts_wf = (\<lambda>_. True), fts_matches = (\<lambda>ex b. ex = b @ ''*'')\<rparr> ''hello''
      (snd (index_body ''m'' ''hello'' fresh_store)) = Inr ids \<and> ''m'' \<in> set ids"
proof -
  let ?u = "\<lparr>uni_upper = id, uni_lower = id, uni_alnum = (\<lambda>_. False)\<rparr>"
  let ?fe = "\<lparr>fts_wf = (\<lambda>_::string. True), fts_matches = (\<lambda>ex b. ex = b @ ''*'')\<rparr>"
  have ex: "fts_match_expr ?u ''hello'' = ''hello*''" by code_simp
  show ?thesis
    using index_then_search [of fresh_store ?fe ?u "''hello''" "''m''" "''hello''"] ex by auto
qed

text \<open>
  The full-text expression is built of alphanumeric words followed by a star, joined by
  spaces, whatever the search term holds.
\<close>

theorem fts_expr_tokens:
  "\<exists>ws. fts_match_expr u t = join '' '' (map (\<lambda>w. w @ ''*'') ws) \<and> list_all (alnum_word u) ws"
  using alnum_runs_words [OF chars_of_ne, of "[]" u _ t]
  by (auto simp: fts_match_expr_def list_all_iff)

text \<open>
  A search term holding one of FTS5's case-sensitive operator words passes it through as a
  bare word: the expression is not free of FTS5 syntax.
\<close>

theorem fts_expr_keeps_operators:
  "fts_match_expr u ''cats OR (dogs)'' = ''cats* OR* dogs*''"
  by (simp add: fts_match_expr_def chars_of_ascii is_ascii_def is_alphanumeric_def ascii_alnum_def)

end
