(* ===== verification/BodyCache.thy ===== *)
theory BodyCache
  imports LocalStore
begin

text \<open>
  The bounded in-memory cache of rendered bodies (\<open>crates/bridge/src/body_cache.rs\<close>): a hash map
  from element ids to entries stamped with their last use, a B-tree from those stamps to ids, and
  the number of bytes held. The reference is a list of bodies in order of last use, coldest
  first; every operation of the cache is an operation of that list.
\<close>

section \<open>The cache as written\<close>

text \<open>\<open>BTreeMap<u64, _>\<close>: an association list in increasing key order.\<close>

fun bt_insert :: "nat \<Rightarrow> 'v \<Rightarrow> (nat \<times> 'v) list \<Rightarrow> (nat \<times> 'v) list" where
  "bt_insert k v [] = [(k, v)]"
| "bt_insert k v ((k', v') # m) = (if k < k' then (k, v) # (k', v') # m
     else if k = k' then (k, v) # m else (k', v') # bt_insert k v m)"

record cache_state =
  bc_entries :: "(string \<times> (body_entry \<times> nat)) list"
  bc_order :: "(nat \<times> string) list"
  bc_total :: nat
  bc_tick :: nat

record body_cache =
  bc_state :: cache_state
  bc_max :: nat
  bc_has_store :: bool

definition MAX_CACHE_BYTES :: nat where
  "MAX_CACHE_BYTES = 256 * 1024 * 1024"

definition with_capacity :: "nat \<Rightarrow> body_cache" where
  "with_capacity n = \<lparr>bc_state = \<lparr>bc_entries = [], bc_order = [], bc_total = 0, bc_tick = 0\<rparr>,
     bc_max = n, bc_has_store = False\<rparr>"

definition new_body_cache :: body_cache where
  "new_body_cache = with_capacity MAX_CACHE_BYTES"

definition bc_set_local_store :: "body_cache \<Rightarrow> body_cache" where
  "bc_set_local_store c = c\<lparr>bc_has_store := True\<rparr>"

definition body_size :: "body_entry \<Rightarrow> nat" where
  "body_size b = length (be_rfc2822 b)"

text \<open>The eviction loop of \<open>insert\<close>; \<open>tick\<close> is the stamp of the entry just inserted.\<close>

definition evict_one :: "nat \<Rightarrow> string \<Rightarrow> cache_state \<Rightarrow> cache_state" where
  "evict_one cold eid st = (case map_of (bc_entries st) eid of
       None \<Rightarrow> st\<lparr>bc_order := AList.delete cold (bc_order st)\<rparr>
     | Some (old, _) \<Rightarrow> st\<lparr>bc_order := AList.delete cold (bc_order st),
          bc_entries := AList.delete eid (bc_entries st),
          bc_total := bc_total st - body_size old\<rparr>)"

lemma bc_order_evict_one [simp]: "bc_order (evict_one cold eid st) = AList.delete cold (bc_order st)"
  by (simp add: evict_one_def split: option.split)

function evict_loop :: "nat \<Rightarrow> nat \<Rightarrow> cache_state \<Rightarrow> cache_state" where
  "evict_loop mx tick st =
     (if mx < bc_total st \<and> 1 < length (bc_entries st) then
        (case bc_order st of [] \<Rightarrow> st
         | (cold, eid) # _ \<Rightarrow> if cold = tick then st else evict_loop mx tick (evict_one cold eid st))
      else st)"
  by pat_completeness auto
termination
  by (relation "measure (\<lambda>(_, _, st). length (bc_order st))")
     (auto intro: le_less_trans [OF length_delete_le])

declare evict_loop.simps [simp del]

definition bc_insert_state :: "nat \<Rightarrow> string \<Rightarrow> body_entry \<Rightarrow> cache_state \<Rightarrow> cache_state" where
  "bc_insert_state mx e b st =
     (let tick = bc_tick st + 1;
          old = map_of (bc_entries st) e;
          order1 = (case old of None \<Rightarrow> bc_order st | Some (_, t) \<Rightarrow> AList.delete t (bc_order st));
          total1 = (case old of None \<Rightarrow> bc_total st | Some (ob, _) \<Rightarrow> bc_total st - body_size ob)
      in evict_loop mx tick \<lparr>bc_entries = AList.update e (b, tick) (bc_entries st),
           bc_order = bt_insert tick e order1, bc_total = total1 + body_size b, bc_tick = tick\<rparr>)"

definition bc_insert :: "string \<Rightarrow> body_entry \<Rightarrow> body_cache \<Rightarrow> body_cache" where
  "bc_insert e b c = c\<lparr>bc_state := bc_insert_state (bc_max c) e b (bc_state c)\<rparr>"

definition bc_update_rfc2822 :: "string \<Rightarrow> string \<Rightarrow> body_cache \<Rightarrow> body_cache" where
  "bc_update_rfc2822 e rfc c = (case map_of (bc_entries (bc_state c)) e of None \<Rightarrow> c
     | Some (b, _) \<Rightarrow> bc_insert e \<lparr>be_details = be_details b, be_rfc2822 = rfc\<rparr> c)"

definition bc_cached_state :: "string \<Rightarrow> cache_state \<Rightarrow> body_entry option \<times> cache_state" where
  "bc_cached_state e st = (let tick = bc_tick st + 1 in
     case map_of (bc_entries st) e of
       None \<Rightarrow> (None, st\<lparr>bc_tick := tick\<rparr>)
     | Some (b, prev) \<Rightarrow> (Some b, st\<lparr>bc_tick := tick,
          bc_entries := AList.update e (b, tick) (bc_entries st),
          bc_order := bt_insert tick e (AList.delete prev (bc_order st))\<rparr>))"

definition bc_cached :: "string \<Rightarrow> body_cache \<Rightarrow> body_entry option \<times> body_cache" where
  "bc_cached e c = (case bc_cached_state e (bc_state c) of (r, st) \<Rightarrow> (r, c\<lparr>bc_state := st\<rparr>))"

definition bc_get :: "crypto \<Rightarrow> local_store \<Rightarrow> string \<Rightarrow> body_cache \<Rightarrow> body_entry option \<times> body_cache" where
  "bc_get cr ls e c = (case bc_cached e c of
       (Some hit, c1) \<Rightarrow> (Some hit, c1)
     | (None, c1) \<Rightarrow> if \<not> bc_has_store c1 then (None, c1) else
         (case read_eml cr e ls of
            Inr (Some rfc) \<Rightarrow> bc_cached e (bc_insert e \<lparr>be_details = None, be_rfc2822 = rfc\<rparr> c1)
          | _ \<Rightarrow> (None, c1)))"

section \<open>The reference: bodies in order of last use\<close>

type_synonym lru = "(string \<times> body_entry) list"

definition lru_bytes :: "lru \<Rightarrow> nat" where
  "lru_bytes l = sum_list (map (\<lambda>(_, b). body_size b) l)"

fun lru_evict :: "nat \<Rightarrow> lru \<Rightarrow> lru" where
  "lru_evict mx [] = []"
| "lru_evict mx (x # l) = (if mx < lru_bytes (x # l) \<and> l \<noteq> [] then lru_evict mx l else x # l)"

definition lru_insert :: "nat \<Rightarrow> string \<Rightarrow> body_entry \<Rightarrow> lru \<Rightarrow> lru" where
  "lru_insert mx e b l = lru_evict mx (AList.delete e l @ [(e, b)])"

definition lru_touch :: "string \<Rightarrow> lru \<Rightarrow> lru" where
  "lru_touch e l = (case map_of l e of None \<Rightarrow> l | Some b \<Rightarrow> AList.delete e l @ [(e, b)])"

definition lru_of :: "cache_state \<Rightarrow> lru" where
  "lru_of st = map (\<lambda>(_, e). (e, fst (the (map_of (bc_entries st) e)))) (bc_order st)"

section \<open>Invariant\<close>

text \<open>
  \<open>rep st L\<close>: the hash map, the B-tree and the byte count of \<open>st\<close> all describe the list \<open>L\<close> of
  stamped bodies.
\<close>

definition rep :: "cache_state \<Rightarrow> (nat \<times> string \<times> body_entry) list \<Rightarrow> bool" where
  "rep st L = (distinct (map fst (bc_entries st))
     \<and> map_of (bc_entries st) = map_of (map (\<lambda>x. (fst (snd x), (snd (snd x), fst x))) L)
     \<and> bc_order st = map (\<lambda>x. (fst x, fst (snd x))) L
     \<and> sorted_wrt (<) (map fst L) \<and> distinct (map (\<lambda>x. fst (snd x)) L)
     \<and> (\<forall>x \<in> set L. fst x \<le> bc_tick st)
     \<and> bc_total st = sum_list (map (\<lambda>x. body_size (snd (snd x))) L))"

definition cache_inv :: "cache_state \<Rightarrow> bool" where
  "cache_inv st = (\<exists>L. rep st L)"

section \<open>Each operation refines the reference\<close>

lemma bt_insert_append: "\<forall>x \<in> set m. fst x < k \<Longrightarrow> bt_insert k v m = m @ [(k, v)]"
  by (induction m) auto

definition drop_eid :: "string \<Rightarrow> (nat \<times> string \<times> body_entry) list \<Rightarrow> (nat \<times> string \<times> body_entry) list" where
  "drop_eid e L = filter (\<lambda>x. fst (snd x) \<noteq> e) L"

lemma map_of_stamped:
  "distinct (map (\<lambda>x. fst (snd x)) L) \<Longrightarrow>
     map_of (map (\<lambda>x. (fst (snd x), (snd (snd x), fst x))) L) e = Some (b, t) \<longleftrightarrow> (t, e, b) \<in> set L"
  by (induction L) (auto simp: rev_image_eqI split: prod.splits)

lemma map_of_stamped_drop:
  "map_of (map (\<lambda>x. (fst (snd x), (snd (snd x), fst x))) (drop_eid e L)) a =
     (if a = e then None else map_of (map (\<lambda>x. (fst (snd x), (snd (snd x), fst x))) L) a)"
  by (induction L) (auto simp: drop_eid_def)

lemma drop_eid_absent: "e \<notin> set (map (\<lambda>x. fst (snd x)) L) \<Longrightarrow> drop_eid e L = L"
  by (induction L) (auto simp: drop_eid_def)

lemma drop_eid_order:
  assumes "sorted_wrt (<) (map fst L)" "distinct (map (\<lambda>x. fst (snd x)) L)" "(t, e, b) \<in> set L"
  shows "AList.delete t (map (\<lambda>x. (fst x, fst (snd x))) L) = map (\<lambda>x. (fst x, fst (snd x))) (drop_eid e L)"
  using assms
proof (induction L)
  case (Cons x L)
  obtain t' e' b' where x: "x = (t', e', b')" by (metis prod_cases3)
  show ?case
  proof (cases "t' = t")
    case True
    then have "(t, e, b) \<notin> set L" using Cons.prems(1) x by auto
    with Cons.prems(3) x have "e' = e" by auto
    moreover have "t \<notin> fst ` set (map (\<lambda>x. (fst x, fst (snd x))) L)"
      using Cons.prems(1) x True by (auto split: prod.splits)
    moreover have "drop_eid e L = L"
      using Cons.prems(2) x \<open>e' = e\<close> by (intro drop_eid_absent) auto
    ultimately show ?thesis using x True by (simp add: drop_eid_def)
  next
    case False
    then have m: "(t, e, b) \<in> set L" using Cons.prems(3) x by auto
    then have "e' \<noteq> e" using Cons.prems(2) x by force
    with Cons.IH Cons.prems m x False show ?thesis by (simp add: drop_eid_def)
  qed
qed simp

lemma drop_eid_bytes:
  assumes "distinct (map (\<lambda>x. fst (snd x)) L)" "(t, e, b) \<in> set L"
  shows "sum_list (map (\<lambda>x. body_size (snd (snd x))) L)
    = body_size b + sum_list (map (\<lambda>x. body_size (snd (snd x))) (drop_eid e L))"
  using assms
proof (induction L)
  case (Cons x L)
  obtain t' e' b' where x: "x = (t', e', b')" by (metis prod_cases3)
  show ?case
  proof (cases "e' = e")
    case True
    then have "drop_eid e L = L" using Cons.prems(1) x by (intro drop_eid_absent) auto
    moreover have "b' = b" using Cons.prems x True by force
    ultimately show ?thesis using x True by (simp add: drop_eid_def)
  next
    case False
    with Cons x show ?thesis by (auto simp: drop_eid_def)
  qed
qed simp

lemma drop_eid_props:
  "sorted_wrt (<) (map fst L) \<Longrightarrow> sorted_wrt (<) (map fst (drop_eid e L))"
  "distinct (map (\<lambda>x. fst (snd x)) L) \<Longrightarrow> distinct (map (\<lambda>x. fst (snd x)) (drop_eid e L))"
  "set (drop_eid e L) \<subseteq> set L"
  "e \<notin> set (map (\<lambda>x. fst (snd x)) (drop_eid e L))"
  by (induction L) (auto simp: drop_eid_def)

lemma rep_cases:
  assumes "rep st L"
  shows "map_of (bc_entries st) e = None \<Longrightarrow> drop_eid e L = L"
    and "map_of (bc_entries st) e = Some (b, t) \<Longrightarrow> (t, e, b) \<in> set L"
proof -
  have d: "distinct (map (\<lambda>x. fst (snd x)) L)"
    and m: "map_of (bc_entries st) = map_of (map (\<lambda>x. (fst (snd x), (snd (snd x), fst x))) L)"
    using assms by (auto simp: rep_def)
  show "map_of (bc_entries st) e = None \<Longrightarrow> drop_eid e L = L"
    by (rule drop_eid_absent) (auto simp: m map_of_eq_None_iff image_iff split: prod.splits)
  show "map_of (bc_entries st) e = Some (b, t) \<Longrightarrow> (t, e, b) \<in> set L"
    using map_of_stamped [OF d] m by simp
qed

text \<open>Restamping \<open>e\<close>: the step \<open>insert\<close> and \<open>cached\<close> share.\<close>

lemma rep_restamp:
  assumes r: "rep st L"
    and o1: "order1 = (case map_of (bc_entries st) e of None \<Rightarrow> bc_order st
               | Some (_, t) \<Rightarrow> AList.delete t (bc_order st))"
    and t1: "total1 = (case map_of (bc_entries st) e of None \<Rightarrow> bc_total st
               | Some (ob, _) \<Rightarrow> bc_total st - body_size ob)"
  shows "rep \<lparr>bc_entries = AList.update e (b, bc_tick st + 1) (bc_entries st),
               bc_order = bt_insert (bc_tick st + 1) e order1,
               bc_total = total1 + body_size b, bc_tick = bc_tick st + 1\<rparr>
             (drop_eid e L @ [(bc_tick st + 1, e, b)])"
proof -
  let ?T = "bc_tick st + 1"
  have s: "sorted_wrt (<) (map fst L)" and d: "distinct (map (\<lambda>x. fst (snd x)) L)"
    and le: "\<forall>x \<in> set L. fst x \<le> bc_tick st" using r by (auto simp: rep_def)
  have "order1 = map (\<lambda>x. (fst x, fst (snd x))) (drop_eid e L)
    \<and> total1 = sum_list (map (\<lambda>x. body_size (snd (snd x))) (drop_eid e L))"
  proof (cases "map_of (bc_entries st) e")
    case None
    with rep_cases(1) [OF r None] r show ?thesis by (simp add: o1 t1 rep_def)
  next
    case (Some bt)
    then obtain ob t where bt: "map_of (bc_entries st) e = Some (ob, t)" by (cases bt) auto
    then have m: "(t, e, ob) \<in> set L" by (rule rep_cases(2) [OF r])
    have "bc_order st = map (\<lambda>x. (fst x, fst (snd x))) L"
      "bc_total st = sum_list (map (\<lambda>x. body_size (snd (snd x))) L)" using r by (auto simp: rep_def)
    then show ?thesis
      using drop_eid_order [OF s d m] drop_eid_bytes [OF d m] bt by (simp add: o1 t1)
  qed
  then have ord: "order1 = map (\<lambda>x. (fst x, fst (snd x))) (drop_eid e L)"
    and tot: "total1 = sum_list (map (\<lambda>x. body_size (snd (snd x))) (drop_eid e L))" by auto
  have lt: "\<forall>x \<in> set (drop_eid e L). fst x < ?T" using le drop_eid_props(3) [of e L] by force
  then have "bt_insert ?T e order1 = map (\<lambda>x. (fst x, fst (snd x))) (drop_eid e L @ [(?T, e, b)])"
    unfolding ord by (subst bt_insert_append) (auto split: prod.splits)
  moreover have "map_of (AList.update e (b, ?T) (bc_entries st))
      = map_of (map (\<lambda>x. (fst (snd x), (snd (snd x), fst x))) (drop_eid e L @ [(?T, e, b)]))"
    using r map_of_stamped_drop [of e L]
    by (auto simp: fun_eq_iff rep_def map_add_def split: option.splits)
  ultimately show ?thesis
    using r lt drop_eid_props(1) [OF s, of e] drop_eid_props(2) [OF d, of e] drop_eid_props(4) [of e L] tot
    by (auto simp: rep_def sorted_wrt_append less_Suc_eq_le)
qed

lemma rep_lru: "rep st L \<Longrightarrow> lru_of st = map snd L"
proof -
  assume r: "rep st L"
  have d: "distinct (map (\<lambda>x. fst (snd x)) L)" using r by (simp add: rep_def)
  have "map_of (bc_entries st) (fst (snd x)) = Some (snd (snd x), fst x)" if "x \<in> set L" for x
    using that r map_of_stamped [OF d, of "fst (snd x)" "snd (snd x)" "fst x"] by (simp add: rep_def)
  then show ?thesis using r by (simp add: lru_of_def rep_def)
qed

lemma rep_length: "rep st L \<Longrightarrow> length (bc_entries st) = length L"
proof -
  assume r: "rep st L"
  have "dom (map_of (bc_entries st)) = fst ` set (bc_entries st)" by (rule dom_map_of_conv_image_fst)
  moreover have "dom (map_of (bc_entries st)) = (\<lambda>x. fst (snd x)) ` set L"
    using r by (auto simp: rep_def dom_map_of_conv_image_fst image_image)
  moreover have "card (fst ` set (bc_entries st)) = length (bc_entries st)"
    using r distinct_card [of "map fst (bc_entries st)"] by (simp add: rep_def)
  moreover have "card ((\<lambda>x. fst (snd x)) ` set L) = length L"
    using r distinct_card [of "map (\<lambda>x. fst (snd x)) L"] by (simp add: rep_def)
  ultimately show ?thesis by simp
qed

lemma rep_evict_one:
  assumes "rep st ((t, e, b) # L)"
  shows "rep (evict_one t e st) L"
proof -
  have m: "map_of (bc_entries st) e = Some (b, t)" using assms by (simp add: rep_def)
  have "e \<notin> (\<lambda>x. fst (snd x)) ` set L" "t \<notin> fst ` set L" using assms by (auto simp: rep_def)
  then have "map_of (map (\<lambda>x. (fst (snd x), (snd (snd x), fst x))) L) e = None"
    by (simp add: map_of_eq_None_iff image_image)
  then have "map_of (AList.delete e (bc_entries st)) = map_of (map (\<lambda>x. (fst (snd x), (snd (snd x), fst x))) L)"
    using assms by (auto simp: rep_def fun_eq_iff)
  moreover have "AList.delete t (bc_order st) = map (\<lambda>x. (fst x, fst (snd x))) L"
    using assms \<open>t \<notin> fst ` set L\<close> by (auto simp: rep_def image_image)
  ultimately show ?thesis using assms m by (auto simp: evict_one_def rep_def)
qed

fun evict_stamped :: "nat \<Rightarrow> (nat \<times> string \<times> body_entry) list \<Rightarrow> (nat \<times> string \<times> body_entry) list" where
  "evict_stamped mx [] = []"
| "evict_stamped mx (x # L) = (if mx < lru_bytes (map snd (x # L)) \<and> L \<noteq> [] then evict_stamped mx L else x # L)"

lemma evict_stamped_lru: "map snd (evict_stamped mx L) = lru_evict mx (map snd L)"
  by (induction L) auto

lemma rep_total: "rep st L \<Longrightarrow> bc_total st = lru_bytes (map snd L)"
  by (simp add: rep_def lru_bytes_def comp_def case_prod_beta)

lemma rep_evict_loop:
  assumes "rep st L" "L \<noteq> []" "fst (last L) = tick"
  shows "rep (evict_loop mx tick st) (evict_stamped mx L)"
  using assms
proof (induction L arbitrary: st)
  case (Cons x L)
  obtain t e b where x: "x = (t, e, b)" by (metis prod_cases3)
  have ord: "bc_order st = (t, e) # map (\<lambda>x. (fst x, fst (snd x))) L"
    using Cons.prems(1) x by (simp add: rep_def)
  have guard: "(mx < bc_total st \<and> 1 < length (bc_entries st))
      \<longleftrightarrow> (mx < lru_bytes (map snd (x # L)) \<and> L \<noteq> [])"
    using rep_total [OF Cons.prems(1)] rep_length [OF Cons.prems(1)] by simp
  show ?case
  proof (cases "mx < lru_bytes (map snd (x # L)) \<and> L \<noteq> []")
    case True
    then have ne: "L \<noteq> []" by simp
    then have "t < fst (last L)" using Cons.prems(1) x by (auto simp: rep_def)
    with Cons.prems(3) ne have "t \<noteq> tick" by simp
    then have "evict_loop mx tick st = evict_loop mx tick (evict_one t e st)"
      using ord guard True by (simp add: evict_loop.simps [of mx tick st])
    moreover have "rep (evict_loop mx tick (evict_one t e st)) (evict_stamped mx L)"
      using Cons.prems ne x by (intro Cons.IH rep_evict_one) auto
    ultimately show ?thesis using True by simp
  next
    case False
    then have "evict_loop mx tick st = st" using guard by (subst evict_loop.simps) auto
    with Cons.prems(1) False show ?thesis by auto
  qed
qed simp

lemma map_snd_drop_eid: "map snd (drop_eid e L) = AList.delete e (map snd L)"
  by (induction L) (auto simp: drop_eid_def AList.delete_eq case_prod_beta)

lemma rep_insert:
  "rep st L \<Longrightarrow> rep (bc_insert_state mx e b st) (evict_stamped mx (drop_eid e L @ [(bc_tick st + 1, e, b)]))"
  unfolding bc_insert_state_def Let_def
  by (rule rep_evict_loop) (rule rep_restamp [OF _ refl refl], simp_all)

lemma rep_cached_hit:
  assumes "rep st L" "map_of (bc_entries st) e = Some (b, t)"
  shows "rep (snd (bc_cached_state e st)) (drop_eid e L @ [(bc_tick st + 1, e, b)])"
proof -
  have "(t, e, b) \<in> set L" using rep_cases(2) [OF assms] .
  then have "body_size b \<le> bc_total st"
    using assms(1) drop_eid_bytes [of L t e b] by (simp add: rep_def)
  then have "snd (bc_cached_state e st) = \<lparr>bc_entries = AList.update e (b, bc_tick st + 1) (bc_entries st),
      bc_order = bt_insert (bc_tick st + 1) e (AList.delete t (bc_order st)),
      bc_total = bc_total st - body_size b + body_size b, bc_tick = bc_tick st + 1\<rparr>"
    using assms(2) by (simp add: bc_cached_state_def Let_def)
  then show ?thesis
    using rep_restamp [OF assms(1) refl refl, of e b] assms(2) by simp
qed

lemma rep_cached_miss:
  assumes "rep st L" "map_of (bc_entries st) e = None"
  shows "rep (snd (bc_cached_state e st)) L"
  using assms by (auto simp: bc_cached_state_def rep_def Let_def intro: le_SucI)

lemma map_of_lru:
  assumes "rep st L"
  shows "map_of (lru_of st) e = map_option fst (map_of (bc_entries st) e)"
proof -
  have "map_of (map snd L) e = map_option fst (map_of (map (\<lambda>x. (fst (snd x), (snd (snd x), fst x))) L) e)"
    by (induction L) auto
  then show ?thesis using assms rep_lru [OF assms] by (simp add: rep_def)
qed

lemma cache_inv_insert [simp]: "cache_inv st \<Longrightarrow> cache_inv (bc_insert_state mx e b st)"
  unfolding cache_inv_def using rep_insert by blast

lemma cache_inv_cached [simp]: "cache_inv st \<Longrightarrow> cache_inv (snd (bc_cached_state e st))"
  unfolding cache_inv_def
  by (cases "map_of (bc_entries st) e") (auto intro: rep_cached_miss rep_cached_hit)

lemma lru_of_insert:
  assumes "cache_inv st"
  shows "lru_of (bc_insert_state mx e b st) = lru_insert mx e b (lru_of st)"
proof -
  from assms obtain L where r: "rep st L" by (auto simp: cache_inv_def)
  show ?thesis
    using rep_lru [OF rep_insert [OF r]] rep_lru [OF r]
    by (simp add: evict_stamped_lru lru_insert_def map_snd_drop_eid)
qed

lemma lru_of_cached:
  assumes "cache_inv st"
  shows "fst (bc_cached_state e st) = map_of (lru_of st) e"
    and "lru_of (snd (bc_cached_state e st)) = lru_touch e (lru_of st)"
proof -
  from assms obtain L where r: "rep st L" by (auto simp: cache_inv_def)
  have m: "map_of (lru_of st) e = map_option fst (map_of (bc_entries st) e)" by (rule map_of_lru [OF r])
  show "fst (bc_cached_state e st) = map_of (lru_of st) e"
    unfolding m by (auto simp: bc_cached_state_def Let_def split: option.split)
  show "lru_of (snd (bc_cached_state e st)) = lru_touch e (lru_of st)"
  proof (cases "map_of (bc_entries st) e")
    case None
    with rep_lru [OF rep_cached_miss [OF r None]] m rep_lru [OF r] show ?thesis
      by (simp add: lru_touch_def)
  next
    case (Some bt)
    then obtain b t where bt: "map_of (bc_entries st) e = Some (b, t)" by (cases bt) auto
    with rep_lru [OF rep_cached_hit [OF r bt]] m rep_lru [OF r] show ?thesis
      by (simp add: lru_touch_def map_snd_drop_eid)
  qed
qed

section \<open>The contract the mail store relies on\<close>

text \<open>
  A bounded cache may forget, but never answers with anything other than the last body inserted.
\<close>

locale bounded_cache =
  fixes inv :: "'c \<Rightarrow> bool"
    and ins :: "string \<Rightarrow> body_entry \<Rightarrow> 'c \<Rightarrow> 'c"
    and look :: "string \<Rightarrow> 'c \<Rightarrow> body_entry option \<times> 'c"
    and content :: "'c \<Rightarrow> string \<Rightarrow> body_entry option"
  assumes inv_ins: "inv c \<Longrightarrow> inv (ins e b c)"
    and inv_look: "inv c \<Longrightarrow> inv (snd (look e c))"
    and ins_same: "inv c \<Longrightarrow> content (ins e b c) e = Some b"
    and ins_other: "inv c \<Longrightarrow> a \<noteq> e \<Longrightarrow> content (ins e b c) a = Some x \<Longrightarrow> content c a = Some x"
    and look_val: "inv c \<Longrightarrow> fst (look e c) = content c e"
    and look_content: "inv c \<Longrightarrow> content (snd (look e c)) = content c"
begin

lemma look_after_ins: "inv c \<Longrightarrow> fst (look e (ins e b c)) = Some b"
  by (simp add: look_val inv_ins ins_same)

lemma fold_ins_inv: "inv c \<Longrightarrow> inv (fold (\<lambda>(e, b). ins e b) xs c)"
  by (induction xs arbitrary: c) (auto simp: inv_ins)

lemma fold_ins_last:
  assumes "inv c" "content (fold (\<lambda>(e, b). ins e b) xs c) a = Some x"
  shows "(if a \<in> fst ` set xs then map_of (rev xs) a else content c a) = Some x"
  using assms
proof (induction xs arbitrary: c rule: rev_induct)
  case Nil
  then show ?case by simp
next
  case (snoc y ys)
  obtain e b where y: "y = (e, b)" by (cases y)
  let ?c = "fold (\<lambda>(e, b). ins e b) ys c"
  have inv: "inv ?c" using snoc.prems(1) by (rule fold_ins_inv)
  show ?case
  proof (cases "a = e")
    case True
    then show ?thesis using snoc.prems(2) y ins_same [OF inv] by simp
  next
    case False
    then have "content ?c a = Some x" using snoc.prems(2) y ins_other [OF inv] by simp
    with snoc.IH [OF snoc.prems(1)] False y show ?thesis by (auto split: if_splits)
  qed
qed

end

lemma map_of_lru_evict: "distinct (map fst l) \<Longrightarrow> map_of (lru_evict mx l) a = Some x \<Longrightarrow> map_of l a = Some x"
proof (induction l)
  case (Cons y l)
  obtain e b where y: "y = (e, b)" by (cases y)
  show ?case
  proof (cases "mx < lru_bytes (y # l) \<and> l \<noteq> []")
    case True
    with Cons.prems(2) have "map_of (lru_evict mx l) a = Some x" by simp
    with Cons.IH Cons.prems(1) have "map_of l a = Some x" by simp
    moreover from this have "a \<in> fst ` set l" by (metis domI dom_map_of_conv_image_fst)
    ultimately show ?thesis using Cons.prems(1) y by auto
  next
    case False
    with Cons.prems(2) show ?thesis by (simp only: lru_evict.simps if_False)
  qed
qed simp

lemma map_of_lru_evict_last: "distinct (map fst (l @ [(e, b)])) \<Longrightarrow> map_of (lru_evict mx (l @ [(e, b)])) e = Some b"
  by (induction l) (auto simp: map_add_def rev_image_eqI split: option.splits)

lemma distinct_lru: "rep st L \<Longrightarrow> distinct (map fst (lru_of st))"
  by (simp add: rep_lru comp_def) (simp add: rep_def)

lemma distinct_lru_inv: "cache_inv st \<Longrightarrow> distinct (map fst (lru_of st))"
  by (auto simp: cache_inv_def dest: distinct_lru)

lemma distinct_delete_snoc:
  "distinct (map fst l) \<Longrightarrow> distinct (map fst (AList.delete e l @ [(e, b)]))"
  using delete_notin_dom [of e l] by simp

lemma map_of_lru_touch [simp]: "map_of (lru_touch e l) = map_of l"
  by (auto simp: lru_touch_def fun_eq_iff map_add_def split: option.splits)

definition cache_content :: "body_cache \<Rightarrow> string \<Rightarrow> body_entry option" where
  "cache_content c = map_of (lru_of (bc_state c))"

lemma bc_cached_conv:
  "fst (bc_cached e c) = fst (bc_cached_state e (bc_state c))"
  "bc_state (snd (bc_cached e c)) = snd (bc_cached_state e (bc_state c))"
  "bc_max (snd (bc_cached e c)) = bc_max c" "bc_has_store (snd (bc_cached e c)) = bc_has_store c"
  by (simp_all add: bc_cached_def case_prod_beta)

interpretation cache: bounded_cache "\<lambda>c. cache_inv (bc_state c)" bc_insert bc_cached cache_content
proof unfold_locales
  fix c :: body_cache and e b
  assume i: "cache_inv (bc_state c)"
  show "cache_inv (bc_state (bc_insert e b c))" using i by (simp add: bc_insert_def)
  show "cache_inv (bc_state (snd (bc_cached e c)))" using i by (simp add: bc_cached_conv)
  show "cache_content (bc_insert e b c) e = Some b"
    using i distinct_lru_inv [OF i]
    by (simp add: cache_content_def bc_insert_def lru_of_insert lru_insert_def map_of_lru_evict_last
        distinct_delete_snoc del: map_append)
  show "fst (bc_cached e c) = cache_content c e"
    using i by (simp add: cache_content_def bc_cached_conv lru_of_cached)
  show "cache_content (snd (bc_cached e c)) = cache_content c"
    using i by (simp add: cache_content_def bc_cached_conv lru_of_cached)
next
  fix c :: body_cache and a e b x
  assume i: "cache_inv (bc_state c)" and a: "a \<noteq> e" and s: "cache_content (bc_insert e b c) a = Some x"
  have "map_of (lru_evict (bc_max c) (AList.delete e (lru_of (bc_state c)) @ [(e, b)])) a = Some x"
    using s by (simp add: cache_content_def bc_insert_def lru_of_insert [OF i] lru_insert_def)
  then have "map_of (AList.delete e (lru_of (bc_state c)) @ [(e, b)]) a = Some x"
    by (rule map_of_lru_evict [OF distinct_delete_snoc [OF distinct_lru_inv [OF i]]])
  then show "cache_content c a = Some x" using a by (simp add: cache_content_def map_add_def split: option.splits)
qed

section \<open>Properties\<close>

lemma lru_bytes_evict: "l \<noteq> [] \<Longrightarrow> lru_bytes (lru_evict mx l) \<le> mx \<or> length (lru_evict mx l) = 1"
  by (induction l) auto

lemma lru_evict_suffix: "\<exists>pre. l = pre @ lru_evict mx l"
proof (induction l)
  case (Cons x l)
  then obtain pre where "l = pre @ lru_evict mx l" by blast
  then show ?case by (auto intro: exI [of _ "x # pre"] exI [of _ "[]"])
qed simp

lemma cache_inv_empty: "cache_inv (bc_state (with_capacity n))"
proof -
  have "rep (bc_state (with_capacity n)) []" by (simp add: rep_def with_capacity_def)
  then show ?thesis by (auto simp: cache_inv_def)
qed

lemma cache_inv_total: "cache_inv st \<Longrightarrow> bc_total st = lru_bytes (lru_of st)"
  by (auto simp: cache_inv_def rep_lru dest: rep_total)

text \<open>
  C21: The cache is an LRU list. Inserting a body moves it to the warm end and then drops bodies
  from the cold end; a lookup returns the body held and moves it to the warm end; the hash map, the
  B-tree and the byte count stay consistent with that list.
\<close>

theorem cache_refines_lru:
  assumes "cache_inv st"
  shows "cache_inv (bc_insert_state mx e b st)
    \<and> lru_of (bc_insert_state mx e b st) = lru_insert mx e b (lru_of st)
    \<and> cache_inv (snd (bc_cached_state e st))
    \<and> fst (bc_cached_state e st) = map_of (lru_of st) e
    \<and> lru_of (snd (bc_cached_state e st)) = lru_touch e (lru_of st)
    \<and> bc_total st = lru_bytes (lru_of st)"
  using assms by (simp add: lru_of_insert lru_of_cached cache_inv_total)

theorem cache_refines_lru_witness:
  "lru_of (bc_insert_state 3 ''b'' \<lparr>be_details = None, be_rfc2822 = ''yy''\<rparr>
     (bc_insert_state 3 ''a'' \<lparr>be_details = None, be_rfc2822 = ''xx''\<rparr> (bc_state (with_capacity 3))))
   = [(''b'', \<lparr>be_details = None, be_rfc2822 = ''yy''\<rparr>)]"
proof -
  let ?a = "\<lparr>be_details = None, be_rfc2822 = ''xx''\<rparr>" and ?b = "\<lparr>be_details = None, be_rfc2822 = ''yy''\<rparr>"
  have e: "lru_of (bc_state (with_capacity 3)) = []" by (simp add: lru_of_def with_capacity_def)
  have a: "lru_of (bc_insert_state 3 ''a'' ?a (bc_state (with_capacity 3))) = [(''a'', ?a)]"
    using cache_refines_lru [OF cache_inv_empty, of 3 "''a''" ?a 3 for e]
    by (simp add: e lru_insert_def lru_bytes_def body_size_def)
  show ?thesis
    using cache_refines_lru [of "bc_insert_state 3 ''a'' ?a (bc_state (with_capacity 3))" 3 "''b''" ?b]
    by (simp add: cache_inv_empty a lru_insert_def lru_bytes_def body_size_def)
qed

text \<open>
  Memory is bounded. After every insert the bytes held are within the capacity, or the cache
  holds the body just inserted alone; that body can be served; and what was dropped is colder than
  everything kept.
\<close>

theorem cache_bounded:
  assumes "cache_inv (bc_state c)"
  shows "(bc_total (bc_state (bc_insert e b c)) \<le> bc_max c
          \<or> lru_of (bc_state (bc_insert e b c)) = [(e, b)])
    \<and> fst (bc_cached e (bc_insert e b c)) = Some b
    \<and> (\<exists>dropped. AList.delete e (lru_of (bc_state c)) @ [(e, b)]
          = dropped @ lru_of (bc_state (bc_insert e b c)))"
proof -
  let ?l = "AList.delete e (lru_of (bc_state c)) @ [(e, b)]"
  let ?r = "lru_of (bc_state (bc_insert e b c))"
  have r: "?r = lru_evict (bc_max c) ?l"
    using assms by (simp add: bc_insert_def lru_of_insert lru_insert_def)
  have t: "bc_total (bc_state (bc_insert e b c)) = lru_bytes ?r"
    using cache.inv_ins [OF assms] by (rule cache_inv_total)
  obtain pre where pre: "?l = pre @ ?r" using lru_evict_suffix r by metis
  have "?r = [(e, b)]" if "length ?r = 1"
  proof -
    from that obtain y where y: "?r = [y]" by (metis One_nat_def length_0_conv length_Suc_conv)
    with pre have "last ?l = y" by simp
    with y show ?thesis by simp
  qed
  then have "lru_bytes ?r \<le> bc_max c \<or> ?r = [(e, b)]"
    using lru_bytes_evict [of ?l "bc_max c"] r by auto
  with t pre cache.look_after_ins [OF assms] show ?thesis by auto
qed

theorem cache_bounded_witness:
  "fst (bc_cached ''a'' (bc_insert ''a'' \<lparr>be_details = None, be_rfc2822 = ''too long''\<rparr> (with_capacity 2)))
     = Some \<lparr>be_details = None, be_rfc2822 = ''too long''\<rparr>"
  using cache_bounded [OF cache_inv_empty] by blast

text \<open>
  The cache never serves a stale body. After any sequence of inserts, what a lookup returns for
  a mail is the body inserted for it last.
\<close>

theorem cache_never_stale:
  assumes "fst (bc_cached a (fold (\<lambda>(e, b). bc_insert e b) xs (with_capacity n))) = Some x"
  shows "map_of (rev xs) a = Some x"
proof -
  let ?c = "fold (\<lambda>(e, b). bc_insert e b) xs (with_capacity n)"
  have inv: "cache_inv (bc_state ?c)" by (rule cache.fold_ins_inv [OF cache_inv_empty])
  have "cache_content ?c a = Some x" using assms cache.look_val [OF inv] by simp
  moreover have "cache_content (with_capacity n) a = None"
    by (simp add: cache_content_def lru_of_def with_capacity_def)
  ultimately show ?thesis
    using cache.fold_ins_last [OF cache_inv_empty, of xs n a x] by (auto split: if_splits)
qed

theorem cache_never_stale_witness:
  "map_of (rev [(''a'', \<lparr>be_details = None, be_rfc2822 = ''1''\<rparr>), (''a'', \<lparr>be_details = None, be_rfc2822 = ''2''\<rparr>)]) ''a''
     = Some \<lparr>be_details = None, be_rfc2822 = ''2''\<rparr>"
proof (rule cache_never_stale [of _ _ 9])
  let ?c = "bc_insert ''a'' \<lparr>be_details = None, be_rfc2822 = ''1''\<rparr> (with_capacity 9)"
  have "cache_inv (bc_state ?c)" by (rule cache.inv_ins [OF cache_inv_empty])
  then show "fst (bc_cached ''a'' (fold (\<lambda>(e, b). bc_insert e b)
      [(''a'', \<lparr>be_details = None, be_rfc2822 = ''1''\<rparr>), (''a'', \<lparr>be_details = None, be_rfc2822 = ''2''\<rparr>)]
      (with_capacity 9))) = Some \<lparr>be_details = None, be_rfc2822 = ''2''\<rparr>"
    by (simp add: cache.look_after_ins)
qed

text \<open>
  A body request falls back to the disk. With the local store attached, a body that is not in
  memory but was persisted is returned as it is on disk, and is in memory afterwards; without a
  persisted copy nothing is returned.
\<close>

theorem get_falls_back_to_disk:
  assumes "cache_inv (bc_state c)" "bc_has_store c" "cache_content c e = None"
  shows "fst (bc_get cr ls e c) = (case read_eml cr e ls of
      Inr (Some rfc) \<Rightarrow> Some \<lparr>be_details = None, be_rfc2822 = rfc\<rparr> | _ \<Rightarrow> None)
    \<and> cache_inv (bc_state (snd (bc_get cr ls e c)))
    \<and> cache_content (snd (bc_get cr ls e c)) e = fst (bc_get cr ls e c)"
proof -
  let ?c1 = "snd (bc_cached e c)"
  have c: "bc_cached e c = (None, ?c1)"
    using cache.look_val [OF assms(1), of e] assms(3) by (metis prod.collapse)
  have i1: "cache_inv (bc_state ?c1)" by (rule cache.inv_look [OF assms(1)])
  have n1: "cache_content ?c1 e = None" using cache.look_content [OF assms(1)] assms(3) by simp
  have get: "bc_get cr ls e c = (case read_eml cr e ls of
      Inr (Some rfc) \<Rightarrow> bc_cached e (bc_insert e \<lparr>be_details = None, be_rfc2822 = rfc\<rparr> ?c1) | _ \<Rightarrow> (None, ?c1))"
    by (subst bc_get_def, subst c) (use assms(2) in \<open>simp add: bc_cached_conv\<close>)
  show ?thesis
  proof (cases "\<exists>rfc. read_eml cr e ls = Inr (Some rfc)")
    case True
    then obtain rfc where rfc: "read_eml cr e ls = Inr (Some rfc)" by blast
    let ?b = "\<lparr>be_details = None, be_rfc2822 = rfc\<rparr>"
    have i2: "cache_inv (bc_state (bc_insert e ?b ?c1))" by (rule cache.inv_ins [OF i1])
    show ?thesis
      using get rfc cache.look_after_ins [OF i1] cache.inv_look [OF i2] cache.look_content [OF i2]
        cache.ins_same [OF i1] by simp
  next
    case False
    then have "bc_get cr ls e c = (None, ?c1)"
      unfolding get by (auto split: sum.split option.split)
    with False i1 n1 show ?thesis by (auto split: sum.split option.split)
  qed
qed

theorem get_falls_back_to_disk_witness:
  "fst (bc_get \<lparr>cr_encrypt = (\<lambda>iv t. Some t), cr_decrypt = Some\<rparr>
      (fresh_store\<lparr>ls_files := [(''m.eml.enc'', ''hello'')]\<rparr>) ''m'' (bc_set_local_store (with_capacity 100)))
    = Some \<lparr>be_details = None, be_rfc2822 = ''hello''\<rparr>"
  using get_falls_back_to_disk [of "bc_set_local_store (with_capacity 100)" "''m''"
      "\<lparr>cr_encrypt = (\<lambda>iv t. Some t), cr_decrypt = Some\<rparr>" "fresh_store\<lparr>ls_files := [(''m.eml.enc'', ''hello'')]\<rparr>"]
    cache_inv_empty [of 100]
  by (simp add: bc_set_local_store_def cache_content_def lru_of_def with_capacity_def read_eml_def eml_name_def)

end
