(* ===== verification/MailStore.thy ===== *)
theory MailStore
  imports BodyCache
begin

text \<open>
  The in-memory store the IMAP server reads (\<open>MailStore\<close> in \<open>crates/bridge/src/sync.rs\<close>): the
  mails of each folder, the folder list, two change counters (one that wakes IMAP sessions, one for
  body-only updates), the cooldowns of failed body fetches and the body cache. The hash map of
  folders is an association list; its order is the iteration order of the map, so statements about
  every store cover every order. Instants are milliseconds.
\<close>

section \<open>State and operations\<close>

record mail_store =
  ms_folders :: "(string \<times> stored_mail list) list"
  ms_folder_list :: "folder_info list"
  ms_generation :: nat
  ms_details_generation :: nat
  ms_gen_counter :: nat
  ms_cooldown :: "(string \<times> nat) list"
  ms_bodies :: body_cache

definition new_mail_store :: mail_store where
  "new_mail_store = \<lparr>ms_folders = [], ms_folder_list = [], ms_generation = 0,
     ms_details_generation = 0, ms_gen_counter = 0, ms_cooldown = [], ms_bodies = new_body_cache\<rparr>"

definition BODY_FETCH_COOLDOWN :: nat where
  "BODY_FETCH_COOLDOWN = 30000"

definition bump_generation :: "mail_store \<Rightarrow> mail_store" where
  "bump_generation st = st\<lparr>ms_gen_counter := ms_gen_counter st + 1,
     ms_generation := ms_gen_counter st + 1\<rparr>"

definition bump_details_generation :: "mail_store \<Rightarrow> mail_store" where
  "bump_details_generation st = st\<lparr>ms_gen_counter := ms_gen_counter st + 1,
     ms_details_generation := ms_gen_counter st + 1\<rparr>"

definition body_fetch_on_cooldown :: "nat \<Rightarrow> string \<Rightarrow> mail_store \<Rightarrow> bool \<times> mail_store" where
  "body_fetch_on_cooldown now e st = (case map_of (ms_cooldown st) e of
     None \<Rightarrow> (False, st)
   | Some until \<Rightarrow> if until > now then (True, st)
       else (False, st\<lparr>ms_cooldown := AList.delete e (ms_cooldown st)\<rparr>))"

definition mark_body_fetch_failed :: "nat \<Rightarrow> string \<Rightarrow> mail_store \<Rightarrow> mail_store" where
  "mark_body_fetch_failed now e st = st\<lparr>ms_cooldown :=
     AList.update e (now + BODY_FETCH_COOLDOWN) (filter (\<lambda>(_, until). until > now) (ms_cooldown st))\<rparr>"

definition total_mail_count :: "mail_store \<Rightarrow> nat" where
  "total_mail_count st = sum_list (map (\<lambda>(_, ms). length ms) (ms_folders st))"

definition get_folder :: "string \<Rightarrow> mail_store \<Rightarrow> stored_mail list" where
  "get_folder fid st = (case map_of (ms_folders st) fid of None \<Rightarrow> [] | Some ms \<Rightarrow> ms)"

definition folder_count :: "string \<Rightarrow> mail_store \<Rightarrow> nat" where
  "folder_count fid st = (case map_of (ms_folders st) fid of None \<Rightarrow> 0 | Some ms \<Rightarrow> length ms)"

definition mail_in_folder :: "string \<Rightarrow> string \<Rightarrow> mail_store \<Rightarrow> stored_mail option" where
  "mail_in_folder fid e st = (case map_of (ms_folders st) fid of None \<Rightarrow> None
     | Some ms \<Rightarrow> List.find (has_eid e) ms)"

definition get_body :: "crypto \<Rightarrow> local_store \<Rightarrow> string \<Rightarrow> mail_store \<Rightarrow> body_entry option \<times> mail_store" where
  "get_body cr ls e st = (case bc_get cr ls e (ms_bodies st) of (r, c) \<Rightarrow> (r, st\<lparr>ms_bodies := c\<rparr>))"

definition folder_by_imap_path :: "string \<Rightarrow> mail_store \<Rightarrow> folder_info option" where
  "folder_by_imap_path path st = List.find
     (\<lambda>f. fi_imap_path f = path \<or> eq_ignore_ascii_case (fi_imap_path f) path) (ms_folder_list st)"

definition set_folder_list :: "folder_info list \<Rightarrow> mail_store \<Rightarrow> mail_store" where
  "set_folder_list fs st = bump_generation (st\<lparr>ms_folder_list := fs\<rparr>)"

definition set_folder :: "string \<Rightarrow> stored_mail list \<Rightarrow> mail_store \<Rightarrow> mail_store" where
  "set_folder fid ms st = bump_generation (st\<lparr>ms_folders := AList.update fid ms (ms_folders st)\<rparr>)"

definition refresh_mail_in_place :: "mail \<Rightarrow> mail_store \<Rightarrow> mail_store" where
  "refresh_mail_in_place m st = (case eid_of m of None \<Rightarrow> st
     | Some e \<Rightarrow>
        let fs = map (\<lambda>(fid, ms). (fid, upd_first (has_eid e) (\<lambda>sm. sm\<lparr>sm_mail := m\<rparr>) ms)) (ms_folders st);
            changed = (\<exists>(_, ms) \<in> set (ms_folders st). \<exists>sm \<in> set ms. has_eid e sm);
            st1 = st\<lparr>ms_folders := fs\<rparr>
        in if changed then bump_generation st1 else st1)"

fun find_in_folders :: "string \<Rightarrow> (string \<times> stored_mail list) list \<Rightarrow> (string \<times> stored_mail) option" where
  "find_in_folders e [] = None"
| "find_in_folders e ((fid, ms) # fs) = (case List.find (has_eid e) ms of
      Some m \<Rightarrow> Some (fid, m) | None \<Rightarrow> find_in_folders e fs)"

definition find_mail_anywhere :: "string \<Rightarrow> mail_store \<Rightarrow> (string \<times> stored_mail) option" where
  "find_mail_anywhere e st = find_in_folders e (ms_folders st)"

definition is_mail_anywhere :: "string \<Rightarrow> mail_store \<Rightarrow> bool" where
  "is_mail_anywhere e st = (\<exists>(_, ms) \<in> set (ms_folders st). \<exists>m \<in> set ms. has_eid e m)"

definition remove_mail_from_folder :: "string \<Rightarrow> string \<Rightarrow> mail_store \<Rightarrow> bool \<times> mail_store" where
  "remove_mail_from_folder fid e st = (case map_of (ms_folders st) fid of None \<Rightarrow> (False, st)
     | Some ms \<Rightarrow>
        let kept = filter (\<lambda>m. \<not> has_eid e m) ms;
            changed = (length kept \<noteq> length ms);
            st1 = st\<lparr>ms_folders := AList.update fid kept (ms_folders st)\<rparr>
        in (changed, if changed then bump_generation st1 else st1))"

definition upsert_mail_in_folder :: "string \<Rightarrow> stored_mail \<Rightarrow> mail_store \<Rightarrow> mail_store" where
  "upsert_mail_in_folder fid m st = (case eid_of (sm_mail m) of None \<Rightarrow> st
     | Some e \<Rightarrow>
        let entries = get_folder fid st;
            entries' = (if \<exists>x \<in> set entries. has_eid e x
                        then upd_first (has_eid e) (\<lambda>_. m) entries else entries @ [m])
        in bump_generation (st\<lparr>ms_folders := AList.update fid entries' (ms_folders st)\<rparr>))"

definition prune_unknown_folders :: "string list \<Rightarrow> mail_store \<Rightarrow> string list \<times> mail_store" where
  "prune_unknown_folders known st =
     (let removed = map fst (filter (\<lambda>(fid, _). fid \<notin> set known) (ms_folders st));
          st1 = st\<lparr>ms_folders := filter (\<lambda>(fid, _). fid \<in> set known) (ms_folders st)\<rparr>
      in (removed, if removed = [] then st1 else bump_generation st1))"

definition remove_mail_everywhere :: "string \<Rightarrow> mail_store \<Rightarrow> mail_store" where
  "remove_mail_everywhere e st =
     (let st1 = st\<lparr>ms_folders := map (\<lambda>(fid, ms). (fid, filter (\<lambda>m. \<not> has_eid e m) ms)) (ms_folders st)\<rparr>
      in if is_mail_anywhere e st then bump_generation st1 else st1)"

definition update_complete_mail ::
    "string \<Rightarrow> string \<Rightarrow> mail_details option \<Rightarrow> string \<Rightarrow> mail_store \<Rightarrow> mail_store" where
  "update_complete_mail fid e details rfc st =
     (let st1 = (case map_of (ms_folders st) fid of None \<Rightarrow> st
          | Some ms \<Rightarrow> st\<lparr>ms_folders := AList.update fid
              (upd_first (has_eid e) (\<lambda>m. m\<lparr>sm_body_loaded := True, sm_attachments_pending := False\<rparr>) ms)
              (ms_folders st)\<rparr>)
      in bump_details_generation (st1\<lparr>ms_bodies :=
           bc_insert e \<lparr>be_details = details, be_rfc2822 = rfc\<rparr> (ms_bodies st1)\<rparr>))"

section \<open>Placements\<close>

text \<open>
  A store is well formed when a folder id occurs once, every mail in it has an id, a mail occurs
  at most once per folder, and the body cache is consistent.
\<close>

definition folder_wf :: "stored_mail list \<Rightarrow> bool" where
  "folder_wf ms = (distinct (map (\<lambda>m. eid_of (sm_mail m)) ms) \<and> None \<notin> set (map (\<lambda>m. eid_of (sm_mail m)) ms))"

definition ms_wf :: "mail_store \<Rightarrow> bool" where
  "ms_wf st = (distinct (map fst (ms_folders st)) \<and> list_all (\<lambda>(_, ms). folder_wf ms) (ms_folders st)
     \<and> cache_inv (bc_state (ms_bodies st)))"

lemma bump_simps [simp]:
  "ms_folders (bump_generation st) = ms_folders st"
  "ms_folder_list (bump_generation st) = ms_folder_list st"
  "ms_bodies (bump_generation st) = ms_bodies st"
  "ms_cooldown (bump_generation st) = ms_cooldown st"
  "ms_details_generation (bump_generation st) = ms_details_generation st"
  "ms_generation (bump_generation st) = ms_gen_counter st + 1"
  "ms_folders (bump_details_generation st) = ms_folders st"
  "ms_folder_list (bump_details_generation st) = ms_folder_list st"
  "ms_bodies (bump_details_generation st) = ms_bodies st"
  "ms_generation (bump_details_generation st) = ms_generation st"
  by (simp_all add: bump_generation_def bump_details_generation_def)

lemma get_folder_bump [simp]:
  "get_folder g (bump_generation st) = get_folder g st"
  "get_folder g (bump_details_generation st) = get_folder g st"
  by (simp_all add: get_folder_def)

lemma mail_in_folder_get: "mail_in_folder fid e st = List.find (has_eid e) (get_folder fid st)"
  by (simp add: mail_in_folder_def get_folder_def split: option.split)

lemma get_folder_upd [simp]:
  "get_folder g (st\<lparr>ms_folders := AList.update f x (ms_folders st)\<rparr>) = (if g = f then x else get_folder g st)"
  by (simp add: get_folder_def)

lemma get_folder_map_val [simp]:
  "h [] = [] \<Longrightarrow> get_folder g (st\<lparr>ms_folders := map (\<lambda>(fid, ms). (fid, h ms)) (ms_folders st)\<rparr>)
     = h (get_folder g st)"
  by (simp add: get_folder_def map_of_map_val split: option.split)

lemma folder_wf_Nil [simp]: "folder_wf []"
  by (simp add: folder_wf_def)

lemma folder_wf_entries:
  assumes d: "distinct (map fst (ms_folders st))"
  shows "list_all (\<lambda>(_, ms). folder_wf ms) (ms_folders st) \<longleftrightarrow> (\<forall>g. folder_wf (get_folder g st))"
proof
  assume "list_all (\<lambda>(_, ms). folder_wf ms) (ms_folders st)"
  then show "\<forall>g. folder_wf (get_folder g st)"
    by (auto simp: get_folder_def list_all_iff split: option.split dest!: map_of_SomeD)
next
  assume a: "\<forall>g. folder_wf (get_folder g st)"
  have "folder_wf ms" if "(g, ms) \<in> set (ms_folders st)" for g ms
    using a[rule_format, of g] that d by (simp add: get_folder_def)
  then show "list_all (\<lambda>(_, ms). folder_wf ms) (ms_folders st)"
    by (auto simp: list_all_iff)
qed

lemma ms_wf_iff: "ms_wf st \<longleftrightarrow> distinct (map fst (ms_folders st))
    \<and> (\<forall>g. folder_wf (get_folder g st)) \<and> cache_inv (bc_state (ms_bodies st))"
  unfolding ms_wf_def using folder_wf_entries by blast

lemma ms_wf_upd_folder:
  "ms_wf st \<Longrightarrow> folder_wf x \<Longrightarrow> ms_wf (st\<lparr>ms_folders := AList.update f x (ms_folders st)\<rparr>)"
  by (simp add: ms_wf_iff)

lemma ms_wf_bump [simp]: "ms_wf (bump_generation st) = ms_wf st" "ms_wf (bump_details_generation st) = ms_wf st"
  by (simp_all add: ms_wf_def)

lemma folder_wf_filter: "folder_wf ms \<Longrightarrow> folder_wf (filter P ms)"
  by (auto simp: folder_wf_def distinct_map_filter)

lemma folder_wf_upd_first:
  "(\<And>x. p x \<Longrightarrow> eid_of (sm_mail (f x)) = eid_of (sm_mail x)) \<Longrightarrow> folder_wf (upd_first p f ms) = folder_wf ms"
  by (simp add: folder_wf_def map_upd_first_key del: set_map)

lemma folder_wf_append:
  "folder_wf ms \<Longrightarrow> eid_of (sm_mail m) = Some e \<Longrightarrow> \<not> (\<exists>x \<in> set ms. has_eid e x) \<Longrightarrow> folder_wf (ms @ [m])"
  by (auto simp: folder_wf_def has_eid_def)

lemma ms_wf_get_folder: "ms_wf st \<Longrightarrow> folder_wf (get_folder g st)"
  by (simp add: ms_wf_iff)

subsection \<open>What each operation does to each folder\<close>

lemma get_folder_set_folder [simp]: "get_folder g (set_folder f ms st) = (if g = f then ms else get_folder g st)"
  by (simp add: set_folder_def)

lemma get_folder_refresh: "get_folder g (refresh_mail_in_place m st) = (case eid_of m of None \<Rightarrow> get_folder g st
    | Some e \<Rightarrow> upd_first (has_eid e) (\<lambda>sm. sm\<lparr>sm_mail := m\<rparr>) (get_folder g st))"
  by (simp add: refresh_mail_in_place_def Let_def split: option.split)

lemma get_folder_remove_from:
  "get_folder g (snd (remove_mail_from_folder f e st))
     = (if g = f then filter (\<lambda>m. \<not> has_eid e m) (get_folder g st) else get_folder g st)"
  by (auto simp: remove_mail_from_folder_def Let_def get_folder_def split: option.split)

lemma get_folder_upsert: "eid_of (sm_mail m) = Some e \<Longrightarrow> get_folder g (upsert_mail_in_folder f m st)
    = (if g = f then (if \<exists>x \<in> set (get_folder g st). has_eid e x
                      then upd_first (has_eid e) (\<lambda>_. m) (get_folder g st) else get_folder g st @ [m])
       else get_folder g st)"
  by (simp add: upsert_mail_in_folder_def Let_def)

lemma get_folder_prune:
  "get_folder g (snd (prune_unknown_folders known st)) = (if g \<in> set known then get_folder g st else [])"
  by (simp add: prune_unknown_folders_def Let_def get_folder_def)

lemma get_folder_remove_everywhere:
  "get_folder g (remove_mail_everywhere e st) = filter (\<lambda>m. \<not> has_eid e m) (get_folder g st)"
  by (simp add: remove_mail_everywhere_def Let_def)

lemma get_folder_update_complete:
  "get_folder g (update_complete_mail f e d rfc st) = (if g = f
     then upd_first (has_eid e) (\<lambda>m. m\<lparr>sm_body_loaded := True, sm_attachments_pending := False\<rparr>) (get_folder g st)
     else get_folder g st)"
  by (auto simp: update_complete_mail_def Let_def get_folder_def split: option.split)

lemmas get_folder_ops = get_folder_refresh get_folder_remove_from get_folder_upsert
  get_folder_prune get_folder_remove_everywhere get_folder_update_complete

lemma has_eid_eid: "has_eid e x \<Longrightarrow> eid_of (sm_mail x) = Some e"
  by (simp add: has_eid_def)

lemma mail_in_folder_iff: "mail_in_folder g e st \<noteq> None \<longleftrightarrow> (\<exists>m \<in> set (get_folder g st). has_eid e m)"
  by (simp add: mail_in_folder_get find_None_conv)

lemma is_mail_anywhere_iff:
  assumes d: "distinct (map fst (ms_folders st))"
  shows "is_mail_anywhere e st \<longleftrightarrow> (\<exists>g. mail_in_folder g e st \<noteq> None)"
proof
  assume "is_mail_anywhere e st"
  then obtain g ms where "(g, ms) \<in> set (ms_folders st)" "\<exists>m \<in> set ms. has_eid e m"
    by (auto simp: is_mail_anywhere_def)
  then have "\<exists>m \<in> set (get_folder g st). has_eid e m" using d by (simp add: get_folder_def)
  then show "\<exists>g. mail_in_folder g e st \<noteq> None" unfolding mail_in_folder_iff by blast
next
  assume "\<exists>g. mail_in_folder g e st \<noteq> None"
  then obtain g m where "m \<in> set (get_folder g st)" "has_eid e m" unfolding mail_in_folder_iff by blast
  moreover from this obtain ms where "map_of (ms_folders st) g = Some ms" "get_folder g st = ms"
    by (cases "map_of (ms_folders st) g") (auto simp: get_folder_def)
  ultimately show "is_mail_anywhere e st"
    unfolding is_mail_anywhere_def using map_of_SomeD by fastforce
qed

lemma find_in_folders_Some:
  "find_in_folders e fs = Some (f, m) \<Longrightarrow> \<exists>ms. (f, ms) \<in> set fs \<and> List.find (has_eid e) ms = Some m"
  by (induction fs) (auto split: option.splits)

lemma find_in_folders_None:
  "find_in_folders e fs = None \<longleftrightarrow> \<not> (\<exists>(_, ms) \<in> set fs. \<exists>m \<in> set ms. has_eid e m)"
  by (induction fs) (auto simp: find_None_conv split: option.splits dest: find_SomeD)

lemma find_anywhere_in_folder:
  "distinct (map fst (ms_folders st)) \<Longrightarrow> find_mail_anywhere e st = Some (f, m) \<Longrightarrow> mail_in_folder f e st = Some m"
  unfolding find_mail_anywhere_def by (drule find_in_folders_Some) (auto simp: mail_in_folder_def)

lemma find_anywhere_None: "find_mail_anywhere e st = None \<longleftrightarrow> \<not> is_mail_anywhere e st"
  by (simp add: find_mail_anywhere_def is_mail_anywhere_def find_in_folders_None)

section \<open>The store as a set of placements\<close>

text \<open>
  What the event handler relies on: a client sees, for each folder and mail id, at most one stored
  mail; inserting and removing act on exactly one such placement.
\<close>

locale placement =
  fixes inv :: "'s \<Rightarrow> bool"
    and lookup :: "'f \<Rightarrow> 'e \<Rightarrow> 's \<Rightarrow> 'm option"
    and put :: "'f \<Rightarrow> 'm \<Rightarrow> 's \<Rightarrow> 's"
    and remove :: "'f \<Rightarrow> 'e \<Rightarrow> 's \<Rightarrow> 's"
    and key :: "'m \<Rightarrow> 'e option"
  assumes put_inv: "inv s \<Longrightarrow> inv (put f m s)"
    and remove_inv: "inv s \<Longrightarrow> inv (remove f e s)"
    and lookup_put: "key m = Some e \<Longrightarrow> lookup g d (put f m s) = (if g = f \<and> d = e then Some m else lookup g d s)"
    and lookup_remove: "lookup g d (remove f e s) = (if g = f \<and> d = e then None else lookup g d s)"
begin

lemma put_then_remove: "key m = Some e \<Longrightarrow> src \<noteq> dst \<Longrightarrow>
  lookup g d (remove src e (put dst m s))
    = (if d = e \<and> g = dst then Some m else if d = e \<and> g = src then None else lookup g d s)"
  by (auto simp: lookup_put lookup_remove)

lemma remove_then_put: "key m = Some e \<Longrightarrow> src \<noteq> dst \<Longrightarrow>
  lookup g d (put dst m (remove src e s)) = lookup g d (remove src e (put dst m s))"
  by (auto simp: lookup_put lookup_remove)

lemma put_again: "key m = Some e \<Longrightarrow> lookup g d (put f m (put f m s)) = lookup g d (put f m s)"
  by (auto simp: lookup_put)

lemma remove_again: "lookup g d (remove f e (remove f e s)) = lookup g d (remove f e s)"
  by (auto simp: lookup_remove)

lemma move_inv: "inv s \<Longrightarrow> inv (remove src e (put dst m s))"
  by (simp add: put_inv remove_inv)

end

definition drop_from :: "string \<Rightarrow> string \<Rightarrow> mail_store \<Rightarrow> mail_store" where
  "drop_from f e st = snd (remove_mail_from_folder f e st)"

abbreviation key_of :: "stored_mail \<Rightarrow> string option" where
  "key_of m \<equiv> eid_of (sm_mail m)"

lemma has_eid_other: "has_eid d x \<Longrightarrow> has_eid e x \<longleftrightarrow> d = e"
  by (simp add: has_eid_def)

lemma find_has_eid_filter: "List.find (has_eid d) (filter (\<lambda>m. \<not> has_eid e m) ms)
    = (if d = e then None else List.find (has_eid d) ms)"
  by (induction ms) (auto simp: has_eid_other)

lemma mail_in_folder_remove [simp]:
  "mail_in_folder g d (drop_from f e st) = (if g = f \<and> d = e then None else mail_in_folder g d st)"
  by (simp add: mail_in_folder_get drop_from_def get_folder_remove_from find_has_eid_filter)

lemma mail_in_folder_upsert [simp]:
  assumes "key_of m = Some e"
  shows "mail_in_folder g d (upsert_mail_in_folder f m st)
    = (if g = f \<and> d = e then Some m else mail_in_folder g d st)"
proof -
  have key: "has_eid c m \<longleftrightarrow> c = e" for c using assms by (auto simp: has_eid_def)
  have "List.find (has_eid d) (upd_first (has_eid e) (\<lambda>_. m) ms) = (if d = e then Some m else List.find (has_eid d) ms)"
    if "\<exists>x \<in> set ms. has_eid e x" for ms d
    using that find_None_conv[of "has_eid e" ms]
    by (auto simp: key find_upd_first_same find_upd_first_other has_eid_other)
  moreover have "List.find (has_eid d) (ms @ [m]) = (if d = e then Some m else List.find (has_eid d) ms)"
    if "\<not> (\<exists>x \<in> set ms. has_eid e x)" for ms d
    using that by (induction ms) (auto simp: key has_eid_other)
  ultimately show ?thesis using assms by (simp add: mail_in_folder_get get_folder_upsert)
qed

lemma ms_wf_upsert: "ms_wf st \<Longrightarrow> ms_wf (upsert_mail_in_folder f m st)"
  using ms_wf_get_folder[of st f] folder_wf_append[of "get_folder f st" m] 
  by (auto simp: upsert_mail_in_folder_def Let_def folder_wf_upd_first has_eid_eid
      intro!: ms_wf_upd_folder split: option.split)

lemma ms_wf_drop_from: "ms_wf st \<Longrightarrow> ms_wf (drop_from f e st)"
  using ms_wf_get_folder[of st f]
  by (auto simp: drop_from_def remove_mail_from_folder_def Let_def get_folder_def
      intro!: ms_wf_upd_folder folder_wf_filter split: option.split)

interpretation store: placement ms_wf mail_in_folder upsert_mail_in_folder drop_from key_of
  by unfold_locales (simp_all add: ms_wf_upsert ms_wf_drop_from)

section \<open>Steps of the store\<close>

lemma cache_inv_bc_insert [simp]: "cache_inv (bc_state c) \<Longrightarrow> cache_inv (bc_state (bc_insert e b c))"
  by (rule cache.inv_ins)

lemma cache_inv_bc_get: "cache_inv (bc_state c) \<Longrightarrow> cache_inv (bc_state (snd (bc_get cr ls e c)))"
  by (cases "bc_cached e c", use cache.inv_look [of c e] in simp)
     (auto simp: bc_get_def cache.inv_look cache.inv_ins split: option.splits sum.splits)

lemma ms_wf_bodies: "ms_wf st \<Longrightarrow> cache_inv (bc_state c) \<Longrightarrow> ms_wf (st\<lparr>ms_bodies := c\<rparr>)"
  by (simp add: ms_wf_def)

lemma ms_wf_set_folder: "ms_wf st \<Longrightarrow> folder_wf ms \<Longrightarrow> ms_wf (set_folder f ms st)"
  by (simp add: set_folder_def ms_wf_upd_folder)

lemma ms_wf_get_body: "ms_wf st \<Longrightarrow> ms_wf (snd (get_body cr ls e st))"
  by (auto simp: get_body_def ms_wf_def split: prod.split dest: cache_inv_bc_get)
     (metis cache_inv_bc_get snd_conv)

lemma ms_wf_refresh: "ms_wf st \<Longrightarrow> ms_wf (refresh_mail_in_place m st)"
  by (auto simp: ms_wf_iff get_folder_refresh folder_wf_upd_first has_eid_eid split: option.split)
     (auto simp: refresh_mail_in_place_def Let_def split: option.split)

lemma ms_wf_prune: "ms_wf st \<Longrightarrow> ms_wf (snd (prune_unknown_folders k st))"
  by (auto simp: ms_wf_iff get_folder_prune)
     (auto simp: prune_unknown_folders_def Let_def)

lemma ms_wf_remove_everywhere: "ms_wf st \<Longrightarrow> ms_wf (remove_mail_everywhere e st)"
  by (auto simp: ms_wf_iff get_folder_remove_everywhere folder_wf_filter)
     (auto simp: remove_mail_everywhere_def Let_def)

lemma ms_wf_update_complete: "ms_wf st \<Longrightarrow> ms_wf (update_complete_mail f e d rfc st)"
  by (auto simp: ms_wf_iff get_folder_update_complete folder_wf_upd_first)
     (auto simp: update_complete_mail_def Let_def split: option.split)

lemma ms_wf_frame [simp]: "ms_wf (st\<lparr>ms_cooldown := c\<rparr>) = ms_wf st" "ms_wf (st\<lparr>ms_folder_list := l\<rparr>) = ms_wf st"
  by (simp_all add: ms_wf_def)

lemma ms_wf_new: "ms_wf new_mail_store"
  by (simp add: ms_wf_def new_mail_store_def new_body_cache_def cache_inv_empty)

inductive ms_step :: "mail_store \<Rightarrow> mail_store \<Rightarrow> bool" where
  folder_list: "ms_step st (set_folder_list fs st)"
| folder: "folder_wf ms \<Longrightarrow> ms_step st (set_folder f ms st)"
| refresh: "ms_step st (refresh_mail_in_place m st)"
| upsert: "ms_step st (upsert_mail_in_folder f m st)"
| remove_from: "ms_step st (snd (remove_mail_from_folder f e st))"
| remove_all: "ms_step st (remove_mail_everywhere e st)"
| prune: "ms_step st (snd (prune_unknown_folders k st))"
| complete: "ms_step st (update_complete_mail f e d rfc st)"
| body: "ms_step st (snd (get_body cr ls e st))"
| cooldown: "ms_step st (snd (body_fetch_on_cooldown now e st))"
| failed: "ms_step st (mark_body_fetch_failed now e st)"

inductive_cases ms_stepE: "ms_step st st'"

lemma ms_step_wf: "ms_step st st' \<Longrightarrow> ms_wf st \<Longrightarrow> ms_wf st'"
  by (induction rule: ms_step.induct)
     (auto simp: set_folder_list_def ms_wf_set_folder ms_wf_refresh ms_wf_upsert ms_wf_drop_from [unfolded drop_from_def]
        ms_wf_remove_everywhere ms_wf_prune ms_wf_update_complete ms_wf_get_body body_fetch_on_cooldown_def
        mark_body_fetch_failed_def split: option.split)

text \<open>The counter behind both generations never falls behind them.\<close>

definition gen_inv :: "mail_store \<Rightarrow> bool" where
  "gen_inv st = (ms_generation st \<le> ms_gen_counter st \<and> ms_details_generation st \<le> ms_gen_counter st)"

lemma gen_inv_bump [simp]: "gen_inv st \<Longrightarrow> gen_inv (bump_generation st)"
  "gen_inv st \<Longrightarrow> gen_inv (bump_details_generation st)"
  by (simp_all add: gen_inv_def bump_generation_def bump_details_generation_def)

lemma gen_inv_frame [simp]: "gen_inv (st\<lparr>ms_folders := x\<rparr>) = gen_inv st" "gen_inv (st\<lparr>ms_cooldown := c\<rparr>) = gen_inv st"
  "gen_inv (st\<lparr>ms_folder_list := l\<rparr>) = gen_inv st" "gen_inv (st\<lparr>ms_bodies := b\<rparr>) = gen_inv st"
  by (simp_all add: gen_inv_def)

lemmas ms_op_defs = set_folder_list_def set_folder_def refresh_mail_in_place_def upsert_mail_in_folder_def
  remove_mail_from_folder_def remove_mail_everywhere_def prune_unknown_folders_def update_complete_mail_def
  get_body_def body_fetch_on_cooldown_def mark_body_fetch_failed_def

lemma ms_step_gen_inv: "ms_step st st' \<Longrightarrow> gen_inv st \<Longrightarrow> gen_inv st'"
  by (induction rule: ms_step.induct) (auto simp: ms_op_defs Let_def split: option.split prod.split)

lemma ms_steps_inv: "ms_step\<^sup>*\<^sup>* st st' \<Longrightarrow> ms_wf st \<and> gen_inv st \<Longrightarrow> ms_wf st' \<and> gen_inv st'"
  by (induction rule: rtranclp_induct) (auto simp: ms_step_wf ms_step_gen_inv)

text \<open>What an idle IMAP session sees of a folder: the mails and their UIDs.\<close>

definition visible :: "mail_store \<Rightarrow> string \<Rightarrow> (mail \<times> nat) list" where
  "visible st f = map (\<lambda>m. (sm_mail m, sm_uid m)) (get_folder f st)"

lemma filter_eid_id: "\<not> (\<exists>m \<in> set ms. has_eid e m) \<Longrightarrow> filter (\<lambda>m. \<not> has_eid e m) ms = ms"
  by (simp add: filter_id_conv)

lemma not_anywhere_folder:
  assumes "distinct (map fst (ms_folders st))" "\<not> is_mail_anywhere e st"
  shows "\<not> (\<exists>m \<in> set (get_folder g st). has_eid e m)"
  using assms is_mail_anywhere_iff mail_in_folder_iff by blast

lemma gen_lt_bump: "gen_inv st \<Longrightarrow> ms_generation st < Suc (ms_gen_counter st)"
  by (simp add: gen_inv_def)

lemma wake_upsert: "gen_inv st \<Longrightarrow> visible (upsert_mail_in_folder f m st) g \<noteq> visible st g
    \<Longrightarrow> ms_generation st < ms_generation (upsert_mail_in_folder f m st)"
  by (cases "key_of m") (auto simp: upsert_mail_in_folder_def Let_def gen_lt_bump)

lemma wake_remove_from: "gen_inv st \<Longrightarrow> visible (snd (remove_mail_from_folder f e st)) g \<noteq> visible st g
    \<Longrightarrow> ms_generation st < ms_generation (snd (remove_mail_from_folder f e st))"
proof (cases "map_of (ms_folders st) f")
  case (Some ms)
  assume inv: "gen_inv st" and ne: "visible (snd (remove_mail_from_folder f e st)) g \<noteq> visible st g"
  have "get_folder f st = ms" using Some by (simp add: get_folder_def)
  then have "filter (\<lambda>m. \<not> has_eid e m) ms \<noteq> ms"
    using ne by (auto simp: visible_def get_folder_remove_from split: if_splits)
  then have "length (filter (\<lambda>m. \<not> has_eid e m) ms) \<noteq> length ms"
    by (metis filter_id_conv length_filter_less less_irrefl)
  then show ?thesis using Some inv gen_lt_bump by (simp add: remove_mail_from_folder_def Let_def)
qed (simp add: remove_mail_from_folder_def)

lemma wake_remove_everywhere: "ms_wf st \<Longrightarrow> gen_inv st \<Longrightarrow> visible (remove_mail_everywhere e st) g \<noteq> visible st g
    \<Longrightarrow> ms_generation st < ms_generation (remove_mail_everywhere e st)"
  using not_anywhere_folder [of st e g] filter_eid_id [of "get_folder g st" e]
  by (cases "is_mail_anywhere e st")
     (auto simp: visible_def get_folder_remove_everywhere ms_wf_def remove_mail_everywhere_def Let_def gen_lt_bump)

lemma wake_refresh:
  assumes inv: "gen_inv st" and ne: "visible (refresh_mail_in_place m st) g \<noteq> visible st g" and wf: "ms_wf st"
  shows "ms_generation st < ms_generation (refresh_mail_in_place m st)"
proof (cases "eid_of m")
  case None
  then show ?thesis using ne by (simp add: visible_def get_folder_refresh)
next
  case (Some e)
  have "is_mail_anywhere e st"
  proof (rule ccontr)
    assume "\<not> is_mail_anywhere e st"
    then have "\<not> (\<exists>m \<in> set (get_folder g st). has_eid e m)"
      using wf by (simp add: not_anywhere_folder ms_wf_def)
    then show False using ne Some by (simp add: visible_def get_folder_refresh)
  qed
  then show ?thesis using Some inv gen_lt_bump
    by (simp add: refresh_mail_in_place_def is_mail_anywhere_def Let_def)
qed

lemma wake_prune:
  assumes inv: "gen_inv st" and ne: "visible (snd (prune_unknown_folders k st)) g \<noteq> visible st g"
  shows "ms_generation st < ms_generation (snd (prune_unknown_folders k st))"
proof -
  from ne have "g \<notin> set k" "get_folder g st \<noteq> []"
    by (auto simp: visible_def get_folder_prune split: if_splits)
  then obtain ms where "(g, ms) \<in> set (ms_folders st)" "g \<notin> set k"
    by (cases "map_of (ms_folders st) g") (auto simp: get_folder_def dest: map_of_SomeD)
  then have "filter (\<lambda>(fid, _). fid \<notin> set k) (ms_folders st) \<noteq> []"
    by (auto simp: filter_empty_conv)
  then show ?thesis using inv gen_lt_bump by (simp add: prune_unknown_folders_def Let_def)
qed

lemma visible_update_complete [simp]: "visible (update_complete_mail f e d rfc st) g = visible st g"
  by (simp add: visible_def get_folder_update_complete map_upd_first_cong)

lemma visible_frame [simp]: "visible (st\<lparr>ms_cooldown := c\<rparr>) g = visible st g"
    "visible (st\<lparr>ms_bodies := b\<rparr>) g = visible st g"
  by (simp_all add: visible_def get_folder_def)

lemma folder_list_kept: "ms_folder_list (update_complete_mail f e d rfc st) = ms_folder_list st"
    "ms_folder_list (snd (get_body cr ls e st)) = ms_folder_list st"
    "ms_folder_list (snd (body_fetch_on_cooldown now e st)) = ms_folder_list st"
    "ms_folder_list (mark_body_fetch_failed now e st) = ms_folder_list st"
    "ms_folder_list (upsert_mail_in_folder fid m st) = ms_folder_list st"
    "ms_folder_list (refresh_mail_in_place ml st) = ms_folder_list st"
    "ms_folder_list (snd (remove_mail_from_folder fid e st)) = ms_folder_list st"
    "ms_folder_list (remove_mail_everywhere e st) = ms_folder_list st"
    "ms_folder_list (snd (prune_unknown_folders k st)) = ms_folder_list st"
  by (auto simp: ms_op_defs Let_def split: option.split prod.split)

lemma visible_kept: "visible (snd (get_body cr ls e st)) g = visible st g"
    "visible (snd (body_fetch_on_cooldown now e st)) g = visible st g"
    "visible (mark_body_fetch_failed now e st) g = visible st g"
  by (auto simp: ms_op_defs split: option.split prod.split)

section \<open>Properties\<close>



text \<open>
  No IMAP session misses a change. Whenever an operation changes the mails or UIDs of some folder, or the
  folder list, the generation the sessions watch strictly grows; a body that lands changes nothing a session
  lists and wakes only the watchers of the details generation.
\<close>

theorem sessions_are_woken:
  assumes "ms_wf st" "gen_inv st" "ms_step st st'"
  shows "(visible st' \<noteq> visible st \<or> ms_folder_list st' \<noteq> ms_folder_list st \<longrightarrow> ms_generation st < ms_generation st')
    \<and> visible (update_complete_mail f e d rfc st) = visible st
    \<and> ms_generation (update_complete_mail f e d rfc st) = ms_generation st
    \<and> ms_details_generation st < ms_details_generation (update_complete_mail f e d rfc st)"
proof -
  have "ms_generation st < ms_generation st'" if "visible st' g \<noteq> visible st g \<or> ms_folder_list st' \<noteq> ms_folder_list st" for g
    using assms(3) that assms(1,2)
    by (cases rule: ms_step.cases)
       (auto simp: folder_list_kept visible_kept set_folder_list_def set_folder_def gen_lt_bump
          intro: wake_upsert wake_remove_from wake_remove_everywhere wake_refresh wake_prune)
  moreover have "visible (update_complete_mail f e d rfc st) = visible st" by (rule ext) simp
  moreover have "ms_generation (update_complete_mail f e d rfc st) = ms_generation st"
    "ms_details_generation st < ms_details_generation (update_complete_mail f e d rfc st)"
    using assms(2) by (auto simp: update_complete_mail_def Let_def bump_details_generation_def gen_inv_def
        split: option.split)
  ultimately show ?thesis by (auto simp: fun_eq_iff)
qed

theorem sessions_are_woken_witness:
  "ms_generation new_mail_store < ms_generation (set_folder_list [\<lparr>fi_id = ''i'', fi_list_id = ''l'',
      fi_entries_list_id = ''x'', fi_kind = KInbox, fi_imap_path = ''INBOX'', fi_special_use = None\<rparr>] new_mail_store)"
  using sessions_are_woken [OF ms_wf_new, of "set_folder_list [\<lparr>fi_id = ''i'', fi_list_id = ''l'',
      fi_entries_list_id = ''x'', fi_kind = KInbox, fi_imap_path = ''INBOX'', fi_special_use = None\<rparr>] new_mail_store"
      "''f''" "''e''" None "''r''"] ms_step.folder_list
  by (simp add: gen_inv_def new_mail_store_def set_folder_list_def)

text \<open>
  Moving a mail, the insertion into the target folder and the removal from the source in either order, puts
  it in the target once, takes it out of the source, keeps every other placement and the store's
  invariant; and \<open>find_mail_anywhere\<close> returns a placement exactly when there is one.
\<close>

theorem move_mail_placements:
  assumes "ms_wf st" "eid_of (sm_mail m) = Some e" "src \<noteq> dst"
  shows "(let st' = snd (remove_mail_from_folder src e (upsert_mail_in_folder dst m st)) in
      ms_wf st'
    \<and> mail_in_folder g d st' = (if d = e \<and> g = dst then Some m else if d = e \<and> g = src then None else mail_in_folder g d st)
    \<and> mail_in_folder g d (upsert_mail_in_folder dst m (snd (remove_mail_from_folder src e st))) = mail_in_folder g d st'
    \<and> (case find_mail_anywhere d st' of Some (h, x) \<Rightarrow> mail_in_folder h d st' = Some x
       | None \<Rightarrow> mail_in_folder g d st' = None))"
proof -
  let ?st = "snd (remove_mail_from_folder src e (upsert_mail_in_folder dst m st))"
  have wf: "ms_wf ?st" using store.move_inv [OF assms(1)] by (simp add: drop_from_def)
  then have dist: "distinct (map fst (ms_folders ?st))" by (simp add: ms_wf_def)
  have f: "case find_mail_anywhere d ?st of Some (h, x) \<Rightarrow> mail_in_folder h d ?st = Some x
       | None \<Rightarrow> mail_in_folder g d ?st = None"
    using find_anywhere_in_folder [OF dist] find_anywhere_None is_mail_anywhere_iff [OF dist]
    by (auto split: option.split)
  show ?thesis
    using wf f store.put_then_remove [OF assms(2,3)] store.remove_then_put [OF assms(2,3)]
    by (simp add: drop_from_def Let_def)
qed

theorem move_mail_placements_witness:
  "let m = \<lparr>sm_mail = \<lparr>mail_id = Some \<lparr>list_id = ''l'', element_id = ''e''\<rparr>,
      subject = [], sender = \<lparr>addr_name = [], addr_address = []\<rparr>, received_ms = 0, unread = True,
      first_recipient = None, attachments = []\<rparr>, sm_body_loaded = False, sm_uid = 1, sm_attachments_pending = False\<rparr>;
      st = upsert_mail_in_folder ''a'' m new_mail_store
   in mail_in_folder ''b'' ''e'' (snd (remove_mail_from_folder ''a'' ''e'' (upsert_mail_in_folder ''b'' m st))) = Some m"
  using move_mail_placements [OF ms_wf_upsert [OF ms_wf_new], where m = "\<lparr>sm_mail = \<lparr>mail_id = Some \<lparr>list_id = ''l'', element_id = ''e''\<rparr>,
      subject = [], sender = \<lparr>addr_name = [], addr_address = []\<rparr>, received_ms = 0, unread = True,
      first_recipient = None, attachments = []\<rparr>, sm_body_loaded = False, sm_uid = 1, sm_attachments_pending = False\<rparr>"
      and e = "''e''" and src = "''a''" and dst = "''b''" and g = "''b''" and d = "''e''"]
  by (simp add: eid_of_def Let_def)

text \<open>
  The cooldown of a failed body fetch: after a failure at \<open>t\<close> the mail is on cooldown exactly until
  \<open>t + 30\<close> seconds, the answer for every other mail is what it was, and the table holds only running cooldowns.
\<close>

theorem body_fetch_cooldown:
  assumes "t \<le> now"
  shows "(fst (body_fetch_on_cooldown now e (mark_body_fetch_failed t e st)) \<longleftrightarrow> now < t + 30000)
    \<and> (d \<noteq> e \<longrightarrow> distinct (map fst (ms_cooldown st)) \<longrightarrow>
         fst (body_fetch_on_cooldown now d (mark_body_fetch_failed t e st)) = fst (body_fetch_on_cooldown now d st))
    \<and> list_all (\<lambda>x. t < snd x) (ms_cooldown (mark_body_fetch_failed t e st))"
proof -
  have m: "map_of (filter (\<lambda>(_, until). t < until) c) d = (case map_of c d of None \<Rightarrow> None
      | Some u \<Rightarrow> if t < u then Some u else None)" if "distinct (map fst c)" for c :: "(string \<times> nat) list"
    using that by (induction c) (auto split: option.split simp: map_of_eq_None_iff image_iff)
  have "set (AList.update e (t + BODY_FETCH_COOLDOWN) c) \<subseteq> insert (e, t + BODY_FETCH_COOLDOWN) (set c)" for c
    by (induction c) auto
  then have "list_all (\<lambda>x. t < snd x) (ms_cooldown (mark_body_fetch_failed t e st))"
    by (fastforce simp: mark_body_fetch_failed_def list_all_iff BODY_FETCH_COOLDOWN_def)
  then show ?thesis using assms m [of "ms_cooldown st"]
    by (auto simp: body_fetch_on_cooldown_def mark_body_fetch_failed_def BODY_FETCH_COOLDOWN_def split: option.split)
qed

theorem body_fetch_cooldown_witness:
  "fst (body_fetch_on_cooldown 29999 ''e'' (mark_body_fetch_failed 0 ''e'' new_mail_store))
   \<and> \<not> fst (body_fetch_on_cooldown 30000 ''e'' (mark_body_fetch_failed 0 ''e'' new_mail_store))"
  using body_fetch_cooldown [of 0 29999 "''e''" new_mail_store] body_fetch_cooldown [of 0 30000 "''e''" new_mail_store]
  by simp

end
