(* ===== verification/Base64.thy ===== *)
theory Base64
  imports RustStr
begin

text \<open>
  The \<open>base64\<close> crate is third-party code: an engine is a record of its two functions, and what the
  bridge relies on (decoding inverts encoding, the output stays in the alphabet) are the predicates
  \<open>b64_inverse\<close> and \<open>b64_laws\<close>, hypotheses of the theorems that need it. The reference engine \<open>rfc4648\<close>, RFC 4648
  base64 with padding, satisfies it; witnesses use it.
\<close>

record base64 =
  b64_encode :: "string \<Rightarrow> string"
  b64_decode :: "string \<Rightarrow> string option"

definition b64_char :: "char \<Rightarrow> bool" where
  "b64_char c = (ascii_alnum c \<or> c = CHR ''+'' \<or> c = CHR ''/'' \<or> c = CHR ''='')"

definition b64_inverse :: "base64 \<Rightarrow> bool" where
  "b64_inverse b = (\<forall>s. b64_decode b (b64_encode b s) = Some s)"

definition b64_laws :: "base64 \<Rightarrow> bool" where
  "b64_laws b = (b64_inverse b \<and> (\<forall>s. list_all b64_char (b64_encode b s)))"

section \<open>The reference engine\<close>

definition b64_alphabet :: string where
  "b64_alphabet = ''ABCDEFGHIJKLMNOPQRSTUVWXYZabcdefghijklmnopqrstuvwxyz0123456789+/''"

definition b64_sym :: "nat \<Rightarrow> char" where
  "b64_sym n = b64_alphabet ! (n mod 64)"

definition b64_val :: "char \<Rightarrow> nat option" where
  "b64_val c = position (\<lambda>x. x = c) b64_alphabet"

abbreviation PAD :: char where "PAD \<equiv> CHR ''=''"

fun enc64 :: "string \<Rightarrow> string" where
  "enc64 (a # b # c # s) = (let n = byte_of a * 65536 + byte_of b * 256 + byte_of c in
     b64_sym (n div 262144) # b64_sym (n div 4096) # b64_sym (n div 64) # b64_sym n # enc64 s)"
| "enc64 [a, b] = (let n = byte_of a * 65536 + byte_of b * 256 in
     [b64_sym (n div 262144), b64_sym (n div 4096), b64_sym (n div 64), PAD])"
| "enc64 [a] = (let n = byte_of a * 65536 in [b64_sym (n div 262144), b64_sym (n div 4096), PAD, PAD])"
| "enc64 [] = []"

definition quad :: "nat \<Rightarrow> nat \<Rightarrow> nat \<Rightarrow> nat \<Rightarrow> nat" where
  "quad w x y z = w * 262144 + x * 4096 + y * 64 + z"

definition bytes_of :: "nat \<Rightarrow> string" where
  "bytes_of n = [char_of (n div 65536), char_of (n div 256), char_of n]"

fun dec64 :: "string \<Rightarrow> string option" where
  "dec64 [] = Some []"
| "dec64 (p # q # r # t # s) = (case (b64_val p, b64_val q) of
     (Some w, Some x) \<Rightarrow>
       if r = PAD then (if t = PAD \<and> s = [] \<and> quad w x 0 0 mod 65536 = 0 then Some (take 1 (bytes_of (quad w x 0 0))) else None)
       else (case b64_val r of None \<Rightarrow> None | Some y \<Rightarrow>
         if t = PAD then (if s = [] \<and> quad w x y 0 mod 256 = 0 then Some (take 2 (bytes_of (quad w x y 0))) else None)
         else (case b64_val t of None \<Rightarrow> None | Some z \<Rightarrow>
           map_option (\<lambda>rest. bytes_of (quad w x y z) @ rest) (dec64 s)))
   | _ \<Rightarrow> None)"
| "dec64 _ = None"

definition rfc4648 :: base64 where
  "rfc4648 = \<lparr>b64_encode = enc64, b64_decode = dec64\<rparr>"

lemma alphabet_facts: "length b64_alphabet = 64" "distinct b64_alphabet"
    "list_all (\<lambda>c. b64_char c \<and> c \<noteq> PAD) b64_alphabet"
  by (simp_all add: b64_alphabet_def b64_char_def ascii_alnum_def)

lemma b64_sym_char: "b64_char (b64_sym n)" "b64_sym n \<noteq> PAD"
  using alphabet_facts(3) [unfolded list_all_length, rule_format, of "n mod 64"]
  by (simp_all add: b64_sym_def alphabet_facts(1))

lemma b64_val_sym: "b64_val (b64_sym n) = Some (n mod 64)"
  unfolding b64_val_def b64_sym_def position_Some
  using alphabet_facts by (auto simp: nth_eq_iff_index_eq)

lemma six_bits:
  assumes "n < 16777216"
  shows "quad (n div 262144 mod 64) (n div 4096 mod 64) (n div 64 mod 64) (n mod 64) = n"
proof -
  define n1 n2 n3 where "n1 = n div 64" and "n2 = n1 div 64" and "n3 = n2 div 64"
  have d: "n div 4096 = n2" "n div 262144 = n3" by (simp_all add: n1_def n2_def n3_def div_mult2_eq [symmetric])
  have "n3 < 64" using assms d(2) by (simp add: div_less_iff_less_mult less_mult_imp_div_less flip: d(2))
  moreover have "n = 64 * n1 + n mod 64" "n1 = 64 * n2 + n1 mod 64" "n2 = 64 * n3 + n2 mod 64"
    by (simp_all add: n1_def n2_def n3_def)
  ultimately show ?thesis unfolding quad_def d n1_def [symmetric] by simp
qed

lemma byte_lt: "byte_of c < 256"
  by simp

lemma char_of_low: "char_of (k * 256 + byte_of c) = c"
  by (metis char_of_mod_256 char_of_char mod_mult_self3)

lemma char_of_bytes: "bytes_of (byte_of a * 65536 + byte_of b * 256 + byte_of c) = [a, b, c]"
proof -
  let ?n = "byte_of a * 65536 + byte_of b * 256 + byte_of c"
  have "byte_of b * 256 + byte_of c < 65536" using byte_lt [of b] byte_lt [of c] by linarith
  then have "?n div 65536 = byte_of a" by (intro div_nat_eqI) auto
  moreover have "?n div 256 = byte_of a * 256 + byte_of b" using byte_lt [of c] by (intro div_nat_eqI) auto
  moreover have "?n = (byte_of a * 256 + byte_of b) * 256 + byte_of c" by simp
  ultimately show ?thesis unfolding bytes_of_def by (metis char_of_char char_of_low)
qed

lemma triple_lt: "byte_of a * 65536 + byte_of b * 256 + byte_of c < 16777216"
  using byte_lt [of a] byte_lt [of b] byte_lt [of c] by linarith

lemma dec64_enc64: "dec64 (enc64 s) = Some s"
proof (induction s rule: enc64.induct)
  case (1 a b c s)
  then show ?case
    using six_bits [OF triple_lt [of a b c]] char_of_bytes [of a b c]
    by (simp add: Let_def b64_val_sym b64_sym_char)
next
  case (2 a b)
  let ?n = "byte_of a * 65536 + byte_of b * 256"
  have "quad (?n div 262144 mod 64) (?n div 4096 mod 64) (?n div 64 mod 64) 0 = ?n"
    using six_bits [OF triple_lt [of a b "CHR 0x00"]] by simp
  moreover have "bytes_of ?n = [a, b, CHR 0x00]" using char_of_bytes [of a b "CHR 0x00"] by simp
  moreover have "?n mod 256 = 0" by (simp add: mod_add_eq [symmetric] mod_mult_eq [symmetric])
  ultimately show ?case by (simp add: Let_def b64_val_sym b64_sym_char)
next
  case (3 a)
  let ?n = "byte_of a * 65536"
  have "quad (?n div 262144 mod 64) (?n div 4096 mod 64) 0 0 = ?n"
    using six_bits [OF triple_lt [of a "CHR 0x00" "CHR 0x00"]] by simp
  moreover have "bytes_of ?n = [a, CHR 0x00, CHR 0x00]" using char_of_bytes [of a "CHR 0x00" "CHR 0x00"] by simp
  ultimately show ?case by (simp add: Let_def b64_val_sym b64_sym_char)
qed simp

lemma enc64_chars: "list_all b64_char (enc64 s)"
proof -
  have "b64_char PAD" by (simp add: b64_char_def)
  then show ?thesis by (induction s rule: enc64.induct) (simp_all add: Let_def b64_sym_char)
qed

lemma rfc4648_inverse: "b64_inverse rfc4648"
  by (simp add: b64_inverse_def rfc4648_def dec64_enc64)

lemma rfc4648_laws: "b64_laws rfc4648"
  using rfc4648_inverse by (simp add: b64_laws_def rfc4648_def enc64_chars)

end
