(* ===== verification/Dates.thy ===== *)
theory Dates
  imports RustStr
begin

text \<open>
  Calendar arithmetic of the bridge: the two directions of Hinnant's algorithm
  (\<open>days_to_ymd\<close> in \<open>mail/rfc2822.rs\<close>, \<open>days_from_civil\<close> in \<open>imap/search.rs\<close>), the date strings
  rendered into messages and INTERNALDATE, and the parser of dates in SEARCH. Unsigned quantities are
  \<open>nat\<close> (none of the sums comes near \<open>2 ^ 64\<close>, since a day count is at most \<open>2 ^ 64 div 86400000\<close>),
  signed ones \<open>int\<close>. Rust's division truncates towards zero: \<open>tdiv\<close>.
\<close>

section \<open>Definitions\<close>

definition days_to_ymd :: "nat \<Rightarrow> nat \<times> nat \<times> nat" where
  "days_to_ymd days =
     (let z = days + 719468;
          era = z div 146097;
          doe = z - era * 146097;
          yoe = (doe - doe div 1460 + doe div 36524 - doe div 146096) div 365;
          y = yoe + era * 400;
          doy = doe - (365 * yoe + yoe div 4 - yoe div 100);
          mp = (5 * doy + 2) div 153;
          d = doy - (153 * mp + 2) div 5 + 1;
          m = (if mp < 10 then mp + 3 else mp - 9);
          y' = (if m \<le> 2 then y + 1 else y)
      in (y', m, d))"

definition tdiv :: "int \<Rightarrow> int \<Rightarrow> int" where
  "tdiv a b = (if 0 \<le> a then a div b else - ((- a) div b))"

definition days_from_civil :: "int \<Rightarrow> int \<Rightarrow> int \<Rightarrow> int" where
  "days_from_civil y0 m d =
     (let y = (if m \<le> 2 then y0 - 1 else y0);
          era = tdiv (if y \<ge> 0 then y else y - 399) 400;
          yoe = y - era * 400;
          doy = tdiv (153 * (if m > 2 then m - 3 else m + 9) + 2) 5 + d - 1;
          doe = yoe * 365 + tdiv yoe 4 - tdiv yoe 100 + doy
      in era * 146097 + doe - 719468)"

definition weekdays :: "string list" where
  "weekdays = [''Sun'', ''Mon'', ''Tue'', ''Wed'', ''Thu'', ''Fri'', ''Sat'']"

definition months :: "string list" where
  "months = [''Jan'', ''Feb'', ''Mar'', ''Apr'', ''May'', ''Jun'',
     ''Jul'', ''Aug'', ''Sep'', ''Oct'', ''Nov'', ''Dec'']"

text \<open>\<open>format!("{:0w}", n)\<close>\<close>

definition pad_nat :: "nat \<Rightarrow> nat \<Rightarrow> string" where
  "pad_nat w n = (let s = show_nat n in replicate (w - length s) (CHR ''0'') @ s)"

definition month_idx :: "nat \<Rightarrow> nat" where
  "month_idx month = min (month - 1) 11"

definition hms :: "nat \<Rightarrow> string" where
  "hms tod = pad_nat 2 (tod div 3600) @ '':'' @ pad_nat 2 ((tod mod 3600) div 60) @ '':''
     @ pad_nat 2 (tod mod 60)"

definition format_rfc2822_date :: "nat \<Rightarrow> string" where
  "format_rfc2822_date millis =
     (let secs = millis div 1000; days = secs div 86400; time_of_day = secs mod 86400;
          weekday = (days + 4) mod 7
      in case days_to_ymd days of (year, month, day) \<Rightarrow>
        weekdays ! weekday @ '', '' @ pad_nat 2 day @ '' '' @ months ! month_idx month @ '' ''
        @ pad_nat 4 year @ '' '' @ hms time_of_day @ '' +0000'')"

definition format_internal_date :: "nat \<Rightarrow> string" where
  "format_internal_date millis =
     (let secs = millis div 1000; days = secs div 86400; tod = secs mod 86400
      in case days_to_ymd days of (year, month, day) \<Rightarrow>
        pad_nat 2 day @ ''-'' @ months ! month_idx month @ ''-'' @ pad_nat 4 year @ '' ''
        @ hms tod @ '' +0000'')"

text \<open>The month names \<open>parse_imap_date\<close> knows, after \<open>to_lowercase\<close>.\<close>

definition month_of_name :: "string \<Rightarrow> int option" where
  "month_of_name s = (if s = ''jan'' then Some 1 else if s = ''feb'' then Some 2
     else if s = ''mar'' then Some 3 else if s = ''apr'' then Some 4 else if s = ''may'' then Some 5
     else if s = ''jun'' then Some 6 else if s = ''jul'' then Some 7 else if s = ''aug'' then Some 8
     else if s = ''sep'' then Some 9 else if s = ''oct'' then Some 10 else if s = ''nov'' then Some 11
     else if s = ''dec'' then Some 12 else None)"

definition parse_imap_date :: "unicode \<Rightarrow> string \<Rightarrow> int option" where
  "parse_imap_date u s = (case split_on (CHR ''-'') s of
     [a, b, c] \<Rightarrow>
       (case parse_i64 a of None \<Rightarrow> None | Some day \<Rightarrow>
       (case month_of_name (to_lowercase u b) of None \<Rightarrow> None | Some month \<Rightarrow>
       (case parse_i64 c of None \<Rightarrow> None | Some year \<Rightarrow> Some (days_from_civil year month day))))
   | _ \<Rightarrow> None)"

section \<open>The calendar\<close>

text \<open>Every day of a 400-year era, as century, four-year group, year and day of the year.\<close>

lemma era_split:
  assumes "doe < (146097::nat)"
  obtains c q t r where "doe = 36524 * c + 1461 * q + 365 * t + r" "c \<le> 3" "q \<le> 24" "t \<le> 3"
    "r \<le> 364 \<or> (t = 3 \<and> r = 365)" "q = 24 \<and> t = 3 \<and> r = 365 \<longrightarrow> c = 3"
proof -
  define c where "c = min (doe div 36524) 3"
  define r1 where "r1 = doe - 36524 * c"
  define q where "q = r1 div 1461"
  define r2 where "r2 = r1 mod 1461"
  define t where "t = min (r2 div 365) 3"
  define r where "r = r2 - 365 * t"
  have c: "c \<le> 3" by (simp add: c_def)
  have d1: "doe = 36524 * c + r1" unfolding r1_def c_def by (simp add: min_def)
  have r1: "r1 \<le> 36523 \<or> (c = 3 \<and> r1 = 36524)"
    using assms unfolding r1_def c_def by (auto simp: min_def)
  have q: "q \<le> 24" using r1 unfolding q_def by auto
  have d2: "r1 = 1461 * q + r2" unfolding q_def r2_def by simp
  have r2: "r2 < 1461" unfolding r2_def by simp
  have t: "t \<le> 3" by (simp add: t_def)
  have d3: "r2 = 365 * t + r" unfolding r_def t_def by (simp add: min_def)
  have r: "r \<le> 364 \<or> (t = 3 \<and> r = 365)"
    using r2 unfolding r_def t_def by (auto simp: min_def)
  have l: "c = 3" if "q = 24" "t = 3" "r = 365" using r1 d2 d3 that c by auto
  show thesis
  proof (rule that)
    show "doe = 36524 * c + 1461 * q + 365 * t + r" using d1 d2 d3 by simp
  qed (use c q t r l in auto)
qed

lemma yoe_formula:
  assumes doe: "doe = 36524 * c + 1461 * q + 365 * t + (r::nat)" and c: "c \<le> 3" and q: "q \<le> 24" and t: "t \<le> 3"
    and r: "r \<le> 364 \<or> (t = 3 \<and> r = 365)" and l: "q = 24 \<and> t = 3 \<and> r = 365 \<longrightarrow> c = 3"
  shows "(doe - doe div 1460 + doe div 36524 - doe div 146096) div 365 = 100 * c + 4 * q + t"
proof -
  define x where "x = 24 * c + q + 365 * t + r"
  define e where "e = x div 1460"
  have "doe = x + (25 * c + q) * 1460" using doe by (simp add: x_def algebra_simps)
  then have d1: "doe div 1460 = 25 * c + q + e" by (simp add: e_def)
  have small: "36524 * c + (1461 * q + 365 * t + r) < 36524 * (c + 1) \<or> (c = 3 \<and> doe = 146096)"
    using assms by auto
  have d2: "doe div 36524 = doe div 146096 + c"
  proof (cases "doe = 146096")
    case True
    then show ?thesis using small c doe by auto
  next
    case False
    then have a: "1461 * q + 365 * t + r < 36524" using small by auto
    then have "doe div 36524 = c" using doe by (simp add: add.assoc)
    moreover have "doe div 146096 = 0" using False a c doe by simp
    ultimately show ?thesis using c by simp
  qed
  have x_le: "x \<le> 1556" using c q t r unfolding x_def by auto
  have "e < 2" using x_le unfolding e_def by (simp add: div_less_iff_less_mult)
  have "e \<le> r \<and> r - e \<le> 364"
  proof (cases "x < 1460")
    case True
    then have "e = 0" by (simp add: e_def)
    moreover have "r \<noteq> 365" using True r unfolding x_def by auto
    ultimately show ?thesis using r by auto
  next
    case False
    then have "e = 1" using x_le unfolding e_def by (intro div_nat_eqI) auto
    moreover have "1 \<le> r" using False c q t r unfolding x_def by auto
    ultimately show ?thesis using r by auto
  qed
  then obtain k where k: "r = e + k" "k \<le> 364" by (metis le_add_diff_inverse)
  have "doe = doe div 1460 + (36499 * c + 1460 * q + 365 * t + k)"
    unfolding d1 using doe k(1) by linarith
  then have "doe - doe div 1460 = 36499 * c + 1460 * q + 365 * t + k" by (metis add_diff_cancel_left')
  then have "doe - doe div 1460 + doe div 36524 - doe div 146096 = k + (100 * c + 4 * q + t) * 365"
    unfolding d2 by simp
  moreover have "(k + Y * 365) div 365 = Y" for Y using k(2) by (intro div_nat_eqI) auto
  ultimately show ?thesis by simp
qed

text \<open>The day of the year and the year of the era, back from the day of the era.\<close>

lemma day_of_era:
  assumes "doe < (146097::nat)"
    and yoe: "yoe = (doe - doe div 1460 + doe div 36524 - doe div 146096) div 365"
  shows "yoe \<le> 399 \<and> 365 * yoe + yoe div 4 - yoe div 100 \<le> doe
    \<and> doe - (365 * yoe + yoe div 4 - yoe div 100) \<le> 365"
proof -
  obtain c q t r where h: "doe = 36524 * c + 1461 * q + 365 * t + r" "c \<le> 3" "q \<le> 24" "t \<le> 3"
    "r \<le> 364 \<or> (t = 3 \<and> r = 365)" "q = 24 \<and> t = 3 \<and> r = 365 \<longrightarrow> c = 3"
    by (rule era_split [OF assms(1)])
  have y: "yoe = 100 * c + 4 * q + t" using yoe_formula [OF h] yoe by simp
  have "yoe div 4 = 25 * c + q" using y h(4) by (intro div_nat_eqI) auto
  moreover have "yoe div 100 = c" using y h(3,4) by (intro div_nat_eqI) auto
  ultimately have "365 * yoe + yoe div 4 - yoe div 100 = 36524 * c + 1461 * q + 365 * t"
    using y by simp
  then show ?thesis using y h by auto
qed

lemma month_day:
  assumes "doy \<le> (365::nat)" and mp: "mp = (5 * doy + 2) div 153"
  shows "mp \<le> 11 \<and> (153 * mp + 2) div 5 \<le> doy \<and> doy - (153 * mp + 2) div 5 + 1 \<le> 31"
proof -
  have a: "153 * mp \<le> 5 * doy + 2" "5 * doy + 2 < 153 * mp + 153" unfolding mp by (simp_all add: dividend_less_times_div)
  have "mp \<le> 11" using a assms(1) by linarith
  moreover have b: "(153 * mp + 2) div 5 * 5 \<le> 153 * mp + 2" "153 * mp + 2 < (153 * mp + 2) div 5 * 5 + 5"
    by (simp_all add: dividend_less_div_times)
  ultimately show ?thesis using a by linarith
qed

lemma ymd_inverse:
  assumes "days_to_ymd days = (y, m, d)"
  shows "days_from_civil (int y) (int m) (int d) = int days \<and> 1 \<le> m \<and> m \<le> 12 \<and> 1 \<le> d \<and> d \<le> 31
    \<and> y \<le> days + 719869"
proof -
  define z where "z = days + 719468"
  define era where "era = z div 146097"
  define doe where "doe = z - era * 146097"
  define yoe where "yoe = (doe - doe div 1460 + doe div 36524 - doe div 146096) div 365"
  define doy where "doy = doe - (365 * yoe + yoe div 4 - yoe div 100)"
  define mp where "mp = (5 * doy + 2) div 153"
  have m: "m = (if mp < 10 then mp + 3 else mp - 9)" and d: "d = doy - (153 * mp + 2) div 5 + 1"
    and y: "y = (if m \<le> 2 then yoe + era * 400 + 1 else yoe + era * 400)"
    using assms unfolding days_to_ymd_def Let_def z_def [symmetric] era_def [symmetric] doe_def [symmetric]
      yoe_def [symmetric] doy_def [symmetric] mp_def [symmetric] by auto
  have doe: "doe = z mod 146097" unfolding doe_def era_def by (simp add: minus_div_mult_eq_mod)
  then have "doe < 146097" by simp
  from day_of_era [OF this yoe_def]
  have yoe: "yoe \<le> 399" "365 * yoe + yoe div 4 - yoe div 100 \<le> doe" "doy \<le> 365" by (simp_all add: doy_def)
  from month_day [OF yoe(3) mp_def]
  have mp: "mp \<le> 11" "(153 * mp + 2) div 5 \<le> doy" "doy - (153 * mp + 2) div 5 + 1 \<le> 31" by simp_all
  have z: "z = era * 146097 + doe" unfolding doe era_def by simp
  have yy: "(if int m \<le> 2 then int y - 1 else int y) = int yoe + int era * 400"
    unfolding y by simp
  have mm: "(if 2 < int m then int m - 3 else int m + 9) = int mp" using m mp(1) by auto
  have e: "tdiv (int yoe + int era * 400) 400 = int era" using yoe(1) by (simp add: tdiv_def)
  have td: "tdiv (int a) (int b) = int (a div b)" for a b by (simp add: tdiv_def zdiv_int)
  have "tdiv (153 * int mp + 2) 5 = int ((153 * mp + 2) div 5)"
    using td [of "153 * mp + 2" 5] by (simp add: add.commute)
  then have dy: "tdiv (153 * int mp + 2) 5 + int d - 1 = int doy"
    unfolding d using mp(2) by (simp add: of_nat_diff)
  have yo: "int yoe * 365 + tdiv (int yoe) 4 - tdiv (int yoe) 100 = int (365 * yoe + yoe div 4 - yoe div 100)"
  proof -
    have "yoe div 100 \<le> 365 * yoe + yoe div 4" by (simp add: trans_le_add1 trans_le_add2 div_le_mono2)
    then show ?thesis using td [of yoe 4] td [of yoe 100] by (simp add: of_nat_diff)
  qed
  have "days_from_civil (int y) (int m) (int d) = int era * 146097 + (int (365 * yoe + yoe div 4 - yoe div 100) + int doy) - 719468"
    unfolding days_from_civil_def Let_def yy mm using e yo dy by simp
  also have "\<dots> = int era * 146097 + int doe - 719468" unfolding doy_def using yoe(2) by simp
  also have "\<dots> = int days" using z z_def by linarith
  finally have civil: "days_from_civil (int y) (int m) (int d) = int days" .
  have "1 \<le> m \<and> m \<le> 12" unfolding m using mp(1) by (simp split: if_split) linarith
  moreover have "1 \<le> d \<and> d \<le> 31" using d mp(3) by simp
  moreover have "y \<le> days + 719869" using y yoe(1) z z_def by (simp split: if_splits)
  ultimately show ?thesis using civil by simp
qed

lemma list_all_replicate: "P x \<Longrightarrow> list_all P (replicate k x)"
  by (induction k) simp_all

lemma digits_val_zeros: "digits_val (replicate k (CHR ''0'') @ s) = digits_val s"
  by (induction k) (simp_all add: digits_val_def digit_val_def)

lemma pad_nat_digits: "list_all is_digit (pad_nat w n) \<and> pad_nat w n \<noteq> [] \<and> digits_val (pad_nat w n) = n"
  using show_nat_digits [of n]
  by (simp add: pad_nat_def Let_def digits_val_zeros list_all_replicate is_digit_def [of "CHR ''0''"])

lemma parse_i64_digits:
  assumes "list_all is_digit s" "s \<noteq> []" "digits_val s \<le> 2 ^ 63 - 1"
  shows "parse_i64 s = Some (int (digits_val s))"
proof -
  obtain c t where s: "s = c # t" using assms(2) by (cases s) auto
  with assms(1) have "is_digit c" by simp
  then have "c \<noteq> CHR ''-''" "c \<noteq> CHR ''+''" by (auto simp: is_digit_def)
  then show ?thesis using assms s by (simp add: parse_i64_def parse_digits_def)
qed

lemma split_on_append: "d \<notin> set a \<Longrightarrow> split_on d (a @ d # b) = a # split_on d b"
  by (induction a) auto

lemma split_on_none: "d \<notin> set a \<Longrightarrow> split_on d a = [a]"
  by (induction a) auto

lemma digit_not_dash: "list_all is_digit s \<Longrightarrow> CHR ''-'' \<notin> set s \<and> CHR '' '' \<notin> set s"
  by (auto simp: list_all_iff is_digit_def)

lemma lower_months: "map to_ascii_lowercase months = [''jan'', ''feb'', ''mar'', ''apr'', ''may'', ''jun'',
    ''jul'', ''aug'', ''sep'', ''oct'', ''nov'', ''dec'']"
  by code_simp

lemma months_plain: "list_all (\<lambda>n. is_ascii n \<and> CHR ''-'' \<notin> set n \<and> CHR '' '' \<notin> set n) months"
  by (simp add: months_def is_ascii_def)

lemma month_names:
  assumes "1 \<le> m" "m \<le> 12"
  shows "month_of_name (to_lowercase u (months ! month_idx m)) = Some (int m)
    \<and> CHR ''-'' \<notin> set (months ! month_idx m) \<and> CHR '' '' \<notin> set (months ! month_idx m)"
proof -
  have i: "month_idx m = m - 1" "m - 1 < length months" using assms by (auto simp: month_idx_def months_def)
  note p = months_plain [unfolded list_all_length, rule_format, OF i(2)]
  have "to_lowercase u (months ! (m - 1)) = [''jan'', ''feb'', ''mar'', ''apr'', ''may'', ''jun'',
    ''jul'', ''aug'', ''sep'', ''oct'', ''nov'', ''dec''] ! (m - 1)"
    using p i(2) lower_months nth_map [OF i(2), of to_ascii_lowercase] by (simp add: to_lowercase_def)
  moreover have "m \<in> {1,2,3,4,5,6,7,8,9,10,11,12}" using assms unfolding insert_iff empty_iff by presburger
  ultimately have "month_of_name (to_lowercase u (months ! (m - 1))) = Some (int m)"
    by (elim insertE emptyE; simp add: month_of_name_def)
  then show ?thesis using p i by simp
qed

text \<open>A day written as an IMAP date.\<close>

definition show_imap_date :: "nat \<Rightarrow> string" where
  "show_imap_date days = (case days_to_ymd days of (y, m, d) \<Rightarrow>
     pad_nat 2 d @ CHR ''-'' # months ! month_idx m @ CHR ''-'' # pad_nat 4 y)"

lemma show_imap_date_parses:
  assumes "days \<le> 2 ^ 63 - 720000"
  shows "parse_imap_date u (show_imap_date days) = Some (int days) \<and> CHR '' '' \<notin> set (show_imap_date days)"
proof -
  obtain y m d where ymd: "days_to_ymd days = (y, m, d)" by (cases "days_to_ymd days") auto
  note inv = ymd_inverse [OF ymd]
  let ?date = "pad_nat 2 d @ CHR ''-'' # months ! month_idx m @ CHR ''-'' # pad_nat 4 y"
  note pd = pad_nat_digits [of 2 d] and py = pad_nat_digits [of 4 y] and mn = month_names [of m u]
  have "y \<le> 2 ^ 63 - 1" "d \<le> 2 ^ 63 - 1" using inv assms by auto
  then have pi: "parse_i64 (pad_nat 2 d) = Some (int d)" "parse_i64 (pad_nat 4 y) = Some (int y)"
    using pd py parse_i64_digits by metis+
  have "split_on (CHR ''-'') ?date = [pad_nat 2 d, months ! month_idx m, pad_nat 4 y]"
    using pd py mn inv digit_not_dash by (simp add: split_on_append split_on_none)
  then have "parse_imap_date u ?date = Some (int days)" using pi mn inv by (simp add: parse_imap_date_def)
  moreover have "CHR '' '' \<notin> set ?date" using pd py mn inv digit_not_dash by auto
  ultimately show ?thesis using ymd by (simp add: show_imap_date_def)
qed

section \<open>Properties\<close>

text \<open>
  The two calendar conversions agree: for every day since the epoch, \<open>days_to_ymd\<close> gives a month
  in 1..12 and a day in 1..31, and \<open>days_from_civil\<close> maps them back to that day.
\<close>

theorem calendar_roundtrip:
  "case days_to_ymd days of (y, m, d) \<Rightarrow>
     days_from_civil (int y) (int m) (int d) = int days \<and> 1 \<le> m \<and> m \<le> 12 \<and> 1 \<le> d \<and> d \<le> 31"
  using ymd_inverse by (auto split: prod.split)

text \<open>
  A client that searches for the day shown in a message's INTERNALDATE means the day of the
  message: the date part of the rendered INTERNALDATE parses to the day number of the timestamp.
\<close>

theorem internal_date_parses:
  assumes "ms < 2 ^ 64"
  shows "case split_once (CHR '' '') (format_internal_date ms) of
      Some (date, _) \<Rightarrow> parse_imap_date u date = Some (int (ms div 86400000))
    | None \<Rightarrow> False"
proof -
  have days: "ms div 1000 div 86400 = ms div 86400000" by (simp add: div_mult2_eq [symmetric])
  have "ms div 86400000 \<le> 2 ^ 63 - 720000" using assms by (simp add: div_le_mono less_mult_imp_div_less)
  note d = show_imap_date_parses [OF this, of u]
  have "format_internal_date ms = show_imap_date (ms div 86400000) @ CHR '' '' # hms (ms div 1000 mod 86400) @ '' +0000''"
    by (simp add: format_internal_date_def show_imap_date_def Let_def days split: prod.split)
  then show ?thesis using d split_once_append [of "CHR '' ''" "show_imap_date (ms div 86400000)"] by simp
qed

theorem internal_date_parses_witness:
  "case split_once (CHR '' '') (format_internal_date 1709164800000) of
      Some (date, _) \<Rightarrow> parse_imap_date \<lparr>uni_upper = id, uni_lower = id, uni_alnum = (\<lambda>_. True)\<rparr> date = Some 19782
    | None \<Rightarrow> False"
  using internal_date_parses [of 1709164800000 "\<lparr>uni_upper = id, uni_lower = id, uni_alnum = (\<lambda>_. True)\<rparr>"]
  by (simp split: option.splits prod.splits)

end
