(* ===== verification/Rfc2822.thy ===== *)
theory Rfc2822
  imports Base64 Dates Entities
begin

text \<open>
  Rendering of a decrypted mail as an RFC 2822 message (\<open>mail/rfc2822.rs\<close>): headers, the
  \<open>multipart/alternative\<close> body, attachments; the conversions of a Tuta HTML body to text, for the
  text/plain part and for full-text indexing; the storage encoding of a plain-text body
  (\<open>plaintext_to_tuta_html\<close> in \<open>tuta.rs\<close>), which the first of these inverts. The base64 engine is
  a parameter.
\<close>

section \<open>Headers\<close>

definition CR :: char where "CR = CHR 0x0D"
definition LF :: char where "LF = CHR 0x0A"

abbreviation DQUOTE :: char where "DQUOTE \<equiv> CHR 0x22"
abbreviation BACKSLASH :: char where "BACKSLASH \<equiv> CHR 0x5C"

definition no_line_break :: "string \<Rightarrow> bool" where
  "no_line_break s = (CR \<notin> set s \<and> LF \<notin> set s)"

definition encode_header_value :: "base64 \<Rightarrow> string \<Rightarrow> string" where
  "encode_header_value b s = (if is_ascii s \<and> CR \<notin> set s \<and> LF \<notin> set s then s
     else ''=?UTF-8?B?'' @ b64_encode b s @ ''?='')"

definition is_rfc5322_special :: "char \<Rightarrow> bool" where
  "is_rfc5322_special c = (c \<in> set ''()<>[]:;@,.'' \<or> c = BACKSLASH \<or> c = DQUOTE)"

definition needs_quoting :: "string \<Rightarrow> bool" where
  "needs_quoting name = (is_ascii name \<and> \<not> (\<exists>c \<in> set name. c = CR \<or> c = LF)
     \<and> (\<exists>c \<in> set name. is_rfc5322_special c))"

text \<open>The characters \<open>format_name_and_address\<close> keeps of an address.\<close>

definition addr_char_ok :: "string \<Rightarrow> bool" where
  "addr_char_ok ch = (ws_len ch = 0 \<and> ch \<notin> {''<'', ''>'', '','', '';'', [DQUOTE], ''('', '')''})"

definition clean_address :: "string \<Rightarrow> string" where
  "clean_address address = concat (filter addr_char_ok (chars_of address))"

definition format_name_and_address :: "base64 \<Rightarrow> string \<Rightarrow> string \<Rightarrow> string" where
  "format_name_and_address b name address0 =
     (let address = clean_address address0 in
      if name = [] then address
      else if needs_quoting name then
        (let escaped = replace_char DQUOTE [BACKSLASH, DQUOTE] (replace_char BACKSLASH [BACKSLASH, BACKSLASH] name)
         in [DQUOTE] @ escaped @ [DQUOTE] @ '' <'' @ address @ ''>'')
      else encode_header_value b name @ '' <'' @ address @ ''>'')"

definition format_address :: "base64 \<Rightarrow> mail_address \<Rightarrow> string" where
  "format_address b a = format_name_and_address b (addr_name a) (addr_address a)"

definition reply_to_addresses :: "mail_details \<Rightarrow> (string \<times> string) list" where
  "reply_to_addresses d = filter (\<lambda>(_, address). address \<noteq> [])
     (map (\<lambda>a. (addr_name a, trim (addr_address a))) (reply_tos d))"

section \<open>Bodies\<close>

text \<open>\<open>encoded.as_bytes().chunks(76)\<close>\<close>

function chunks :: "nat \<Rightarrow> string \<Rightarrow> string list" where
  "chunks n s = (if s = [] \<or> n = 0 then [] else take n s # chunks n (drop n s))"
  by pat_completeness auto
termination
  by (relation "measure (\<lambda>(n, s). length s)") auto

declare chunks.simps [simp del]

definition base64_encode_body :: "base64 \<Rightarrow> string \<Rightarrow> string" where
  "base64_encode_body b s = join CRLF (chunks 76 (b64_encode b s))"

definition build_boundary :: "mail \<Rightarrow> string" where
  "build_boundary m = (case mail_id m of
     Some i \<Rightarrow> ''=_TutaBridge_'' @ list_id i @ ''_'' @ element_id i
   | None \<Rightarrow> ''=_TutaBridge_unknown'')"

definition build_alt_boundary :: "mail \<Rightarrow> string" where
  "build_alt_boundary m = (case mail_id m of
     Some i \<Rightarrow> ''=_TutaBridgeAlt_'' @ list_id i @ ''_'' @ element_id i
   | None \<Rightarrow> ''=_TutaBridgeAlt_unknown'')"

definition push_alternative_body :: "base64 \<Rightarrow> string \<Rightarrow> string \<Rightarrow> string \<Rightarrow> string" where
  "push_alternative_body b boundary plain html =
     ''Content-Type: multipart/alternative; boundary='' @ [DQUOTE] @ boundary @ [DQUOTE] @ CRLF
     @ CRLF
     @ ''--'' @ boundary @ CRLF
     @ ''Content-Type: text/plain; charset=UTF-8'' @ CRLF
     @ ''Content-Transfer-Encoding: base64'' @ CRLF @ CRLF
     @ base64_encode_body b plain
     @ CRLF
     @ ''--'' @ boundary @ CRLF
     @ ''Content-Type: text/html; charset=UTF-8'' @ CRLF
     @ ''Content-Transfer-Encoding: base64'' @ CRLF @ CRLF
     @ base64_encode_body b html
     @ CRLF @ ''--'' @ boundary @ ''--'' @ CRLF"

section \<open>HTML to text\<close>

definition decode_entities :: "string \<Rightarrow> string" where
  "decode_entities s =
     replace_sub ''&amp;'' ''&'' (replace_sub ''&apos;'' [CHR 0x27] (replace_sub ''&#39;'' [CHR 0x27]
     (replace_sub ''&quot;'' [DQUOTE] (replace_sub ''&gt;'' ''>'' (replace_sub ''&lt;'' ''<''
     (replace_sub ''&nbsp;'' '' '' s))))))"

text \<open>\<open>for t in chars.by_ref() { if t == '>' { break } .. }\<close>: what is read, and what is left.\<close>

definition upto_gt :: "string \<Rightarrow> string" where
  "upto_gt s = takeWhile (\<lambda>c. c \<noteq> CHR ''>'') s"

definition after_gt :: "string \<Rightarrow> string" where
  "after_gt s = drop 1 (dropWhile (\<lambda>c. c \<noteq> CHR ''>'') s)"

text \<open>Swallow a script or style block up to and including its closing tag.\<close>

fun swallow_block :: "string \<Rightarrow> string \<Rightarrow> string \<Rightarrow> string" where
  "swallow_block close window [] = []"
| "swallow_block close window (t # s) =
     (let window' = window @ [ascii_lower_char t] in
      if suffix close window' then after_gt s else swallow_block close window' s)"

text \<open>\<open>.split(|c| c.is_whitespace() || c == '/').next()\<close>\<close>

fun tag_name :: "string \<Rightarrow> string" where
  "tag_name [] = []"
| "tag_name (c # s) = (if ws_len (c # s) > 0 \<or> c = CHR ''/'' then [] else c # tag_name s)"

definition block_tags :: "string list" where
  "block_tags = [''p'', ''div'', ''tr'', ''li'', ''pre'', ''blockquote'',
     ''h1'', ''h2'', ''h3'', ''h4'', ''h5'', ''h6'']"

lemma after_gt_len: "length (after_gt s) \<le> length s"
  by (simp add: after_gt_def) (meson diff_le_self length_dropWhile_le order_trans)

lemma swallow_block_len: "length (swallow_block close w s) \<le> length s"
  by (induction close w s rule: swallow_block.induct)
     (auto simp: Let_def after_gt_len le_SucI)

lemma swallow_after_len: "length (swallow_block close w (after_gt s)) \<le> length s"
  using swallow_block_len after_gt_len le_trans by blast

function html_loop :: "string \<Rightarrow> string" where
  "html_loop [] = []"
| "html_loop (c # s) = (if c \<noteq> CHR ''<'' then c # html_loop s else
     let tag = map ascii_lower_char (upto_gt s);
         rest = after_gt s;
         closing = starts_with ''/'' tag;
         name = tag_name (dropWhile (\<lambda>c. c = CHR ''/'') tag)
     in if \<not> closing \<and> (name = ''script'' \<or> name = ''style'')
        then html_loop (swallow_block (''</'' @ name) [] rest)
        else if name = ''br'' \<or> (closing \<and> name \<in> set block_tags)
        then LF # html_loop rest
        else html_loop rest)"
  by pat_completeness auto
termination
  by (relation "measure length") (simp_all add: less_Suc_eq_le swallow_after_len after_gt_len)

declare html_loop.simps(2) [simp del]

definition strip_prefix :: "string \<Rightarrow> string \<Rightarrow> string option" where
  "strip_prefix p s = (if starts_with p s then Some (drop (length p) s) else None)"

definition strip_suffix :: "string \<Rightarrow> string \<Rightarrow> string option" where
  "strip_suffix p s = (if suffix p s then Some (take (length s - length p) s) else None)"

definition html_to_text :: "string \<Rightarrow> string" where
  "html_to_text html =
     (let trimmed = trim html;
          lower = to_ascii_lowercase trimmed;
          pre = Option.bind (strip_prefix ''<pre>'' lower) (strip_suffix ''</pre>'')
      in case pre of
           Some inner \<Rightarrow> if CHR ''<'' \<notin> set inner
             then decode_entities (take (length trimmed - 11) (drop 5 trimmed))
             else decode_entities (html_loop trimmed)
         | None \<Rightarrow> decode_entities (html_loop trimmed))"

text \<open>The peeked tag name of \<open>strip_html\<close>: at most six characters.\<close>

definition peek_tag :: "string \<Rightarrow> string" where
  "peek_tag s = to_ascii_lowercase (concat
     (takeWhile (\<lambda>ch. ch \<noteq> ''>'' \<and> ws_len ch = 0) (take 6 (chars_of s))))"

function strip_loop :: "string \<Rightarrow> string" where
  "strip_loop [] = []"
| "strip_loop (c # s) = (if c = CHR ''<'' then
     let tag = peek_tag s;
         skip_block = (dropWhile (\<lambda>c. c = CHR ''/'') tag \<in> {''script'', ''style''});
         rest = after_gt s;
         rest' = (if skip_block \<and> \<not> starts_with ''/'' tag then swallow_block (''</'' @ tag) [] rest else rest)
     in CHR '' '' # strip_loop rest'
     else c # strip_loop s)"
  by pat_completeness auto
termination
  by (relation "measure length") (simp_all add: less_Suc_eq_le swallow_after_len after_gt_len)

declare strip_loop.simps(2) [simp del]

definition strip_html :: "string \<Rightarrow> string" where
  "strip_html html = join '' '' (split_whitespace (decode_entities (strip_loop html)))"

section \<open>Messages\<close>

definition extract_headers :: "string \<Rightarrow> string" where
  "extract_headers rfc = (case find_sub (CRLF @ CRLF) rfc of
     Some pos \<Rightarrow> take (pos + 2) rfc @ CRLF | None \<Rightarrow> rfc)"

text \<open>
  \<open>extract_body_text\<close>. The offset of the text part is found in the lower-cased copy and used to
  slice the original, which panics (\<open>None\<close>) when it is not a character boundary there.
\<close>

definition char_boundary :: "string \<Rightarrow> nat \<Rightarrow> bool" where
  "char_boundary s i = (i = length s \<or> (i < length s \<and> \<not> cont_byte (byte_of (s ! i))))"

definition extract_body_text :: "base64 \<Rightarrow> unicode \<Rightarrow> string \<Rightarrow> string option" where
  "extract_body_text b u rfc =
     (let lower = to_lowercase u rfc;
          part_start = (case find_sub ''text/html'' lower of Some i \<Rightarrow> Some i | None \<Rightarrow> find_sub ''text/plain'' lower)
      in case part_start of None \<Rightarrow> Some []
       | Some ps \<Rightarrow> if \<not> char_boundary rfc ps then None else
         (case find_sub (CRLF @ CRLF) (drop ps rfc) of None \<Rightarrow> Some []
          | Some sep \<Rightarrow>
            let tail = drop (ps + sep + 4) rfc;
                raw = (case find_sub (CRLF @ ''--'') tail of Some i \<Rightarrow> take i tail | None \<Rightarrow> tail);
                stripped_b64 = concat (split_whitespace raw)
            in Some (case b64_decode b stripped_b64 of
                 Some bytes \<Rightarrow> strip_html (from_utf8_lossy bytes)
               | None \<Rightarrow> strip_html raw)))"

type_synonym attachment_part = "tutanota_file \<times> string"

definition header_line :: "string \<Rightarrow> string \<Rightarrow> string" where
  "header_line name v = name @ '': '' @ v @ CRLF"

definition recipient_headers :: "base64 \<Rightarrow> mail \<Rightarrow> mail_details option \<Rightarrow> string" where
  "recipient_headers b m details = (case details of
     Some d \<Rightarrow>
       (let to_addrs = map (format_address b) (to_recipients d);
            cc_addrs = map (format_address b) (cc_recipients d);
            rts = map (\<lambda>(name, address). format_name_and_address b name address) (reply_to_addresses d)
        in (if to_addrs \<noteq> [] then header_line ''To'' (join '', '' to_addrs) else [])
         @ (if cc_addrs \<noteq> [] then header_line ''Cc'' (join '', '' cc_addrs) else [])
         @ (if rts \<noteq> [] then header_line ''Reply-To'' (join '', '' rts) else []))
   | None \<Rightarrow> (case first_recipient m of Some first \<Rightarrow> header_line ''To'' (format_address b first) | None \<Rightarrow> []))"

definition message_headers :: "base64 \<Rightarrow> mail \<Rightarrow> mail_details option \<Rightarrow> string" where
  "message_headers b m details =
     header_line ''Date'' (format_rfc2822_date (received_ms m))
     @ header_line ''From'' (format_address b (sender m))
     @ header_line ''Subject'' (encode_header_value b (subject m))
     @ recipient_headers b m details
     @ (case mail_id m of Some i \<Rightarrow>
          header_line ''Message-ID'' (''<'' @ list_id i @ ''.'' @ element_id i @ ''@tutabridge.local>'')
        | None \<Rightarrow> [])
     @ header_line ''MIME-Version'' ''1.0''"

definition render_attachment :: "base64 \<Rightarrow> string \<Rightarrow> attachment_part \<Rightarrow> string" where
  "render_attachment b boundary part = (case part of (file, data) \<Rightarrow>
     let mime = (case file_mime file of Some x \<Rightarrow> x | None \<Rightarrow> ''application/octet-stream'');
         name_encoded = encode_header_value b (file_name file)
     in ''--'' @ boundary @ CRLF
      @ ''Content-Type: '' @ mime @ ''; name='' @ [DQUOTE] @ name_encoded @ [DQUOTE] @ CRLF
      @ ''Content-Transfer-Encoding: base64'' @ CRLF
      @ ''Content-Disposition: attachment; filename='' @ [DQUOTE] @ name_encoded @ [DQUOTE] @ CRLF
      @ (case file_cid file of Some cid \<Rightarrow> ''Content-ID: <'' @ cid @ ''>'' @ CRLF | None \<Rightarrow> [])
      @ CRLF
      @ base64_encode_body b data
      @ CRLF)"

definition body_source :: "mail_details option \<Rightarrow> string" where
  "body_source details = (case Option.bind details (\<lambda>d. case body_compressed d of Some x \<Rightarrow> Some x | None \<Rightarrow> body_text d) of
     Some x \<Rightarrow> x | None \<Rightarrow> ''<p>(No body available)</p>'')"

definition mail_to_rfc2822 :: "base64 \<Rightarrow> mail \<Rightarrow> mail_details option \<Rightarrow> attachment_part list \<Rightarrow> string" where
  "mail_to_rfc2822 b m details atts =
     (let body_html = body_source details;
          body_plain = html_to_text body_html;
          alt_boundary = build_alt_boundary m
      in message_headers b m details @
        (if atts = [] then push_alternative_body b alt_boundary body_plain body_html
         else let boundary = build_boundary m in
           ''Content-Type: multipart/mixed; boundary='' @ [DQUOTE] @ boundary @ [DQUOTE] @ CRLF
           @ CRLF
           @ ''This is a multi-part message in MIME format.'' @ CRLF
           @ ''--'' @ boundary @ CRLF
           @ push_alternative_body b alt_boundary body_plain body_html
           @ concat (map (render_attachment b boundary) atts)
           @ ''--'' @ boundary @ ''--'' @ CRLF))"

text \<open>The storage encoding of a plain-text body.\<close>

definition plaintext_to_tuta_html :: "string \<Rightarrow> string" where
  "plaintext_to_tuta_html text =
     replace_char CR ''<br>'' (replace_char LF ''<br>'' (replace_sub CRLF ''<br>''
       (replace_char (CHR ''>'') ''&gt;'' (replace_char (CHR ''<'') ''&lt;'' (replace_char (CHR ''&'') ''&amp;'' text)))))"

section \<open>The plain-text encoding and its inverse\<close>

definition esc3 :: "char \<Rightarrow> string" where
  "esc3 c = (if c = CHR ''&'' then ''&amp;'' else if c = CHR ''<'' then ''&lt;''
     else if c = CHR ''>'' then ''&gt;'' else [c])"

text \<open>Line breaks of any convention become one LF.\<close>

fun fold_newlines :: "string \<Rightarrow> string" where
  "fold_newlines [] = []"
| "fold_newlines [c] = [if c = CR then LF else c]"
| "fold_newlines (c # d # s) = (if c = CR \<and> d = LF then LF # fold_newlines s
     else if c = CR then LF # fold_newlines (d # s) else c # fold_newlines (d # s))"

definition esc_br :: "char \<Rightarrow> string" where
  "esc_br c = (if c = LF then ''<br>'' else esc3 c)"

lemma CR_LF_simps [simp]: "CR \<noteq> LF" "LF \<noteq> CR" "CRLF = [CR, LF]"
  by (simp_all add: CR_def LF_def CRLF_def)

lemma esc3_blocks:
  "replace_char (CHR ''>'') ''&gt;'' (replace_char (CHR ''<'') ''&lt;'' (replace_char (CHR ''&'') ''&amp;'' s))
     = concat (map esc3 s)"
proof -
  have "s = concat (map (\<lambda>c. [c]) s)" by simp
  then show ?thesis
    by (induction s) (simp_all add: replace_char_def esc3_def)
qed

lemma esc3_simps [simp]: "esc3 CR = [CR]" "esc3 LF = [LF]"
  by (simp_all add: esc3_def CR_def LF_def)

definition brs :: "string \<Rightarrow> string" where
  "brs s = replace_char CR ''<br>'' (replace_char LF ''<br>'' s)"

lemma brs_append [simp]: "brs (a @ b) = brs a @ brs b"
  by (simp add: brs_def replace_char_def)

lemma brs_simps [simp]: "brs [] = []" "brs [CR] = ''<br>''" "brs [LF] = ''<br>''" "brs ''<br>'' = ''<br>''"
  by (simp_all add: brs_def replace_char_def) (simp_all add: CR_def LF_def)

lemma brs_br: "brs (CHR ''<'' # CHR ''b'' # CHR ''r'' # CHR ''>'' # s) = ''<br>'' @ brs s"
  by (metis append_Cons append_Nil brs_append brs_simps(4))

lemma brs_plain: "no_line_break s \<Longrightarrow> brs s = s"
  by (induction s) (auto simp: brs_def replace_char_def no_line_break_def)

lemma brs_esc3:
  assumes "c \<noteq> CR"
  shows "brs (esc3 c) = esc_br c"
proof (cases "c = LF")
  case True
  then show ?thesis by (simp add: esc_br_def)
next
  case False
  then have "no_line_break (esc3 c)" using assms by (simp add: no_line_break_def esc3_def) (simp add: CR_def LF_def)
  then show ?thesis using False by (simp add: brs_plain esc_br_def)
qed

lemma esc3_no_cr: "c \<noteq> CR \<Longrightarrow> CR \<notin> set (esc3 c)"
  by (auto simp: esc3_def CR_def split: if_splits)

lemma replace_crlf_esc3: "c \<noteq> CR \<Longrightarrow> replace_sub [CR, LF] r (esc3 c @ s) = esc3 c @ replace_sub [CR, LF] r s"
  by (rule replace_sub_skip) (simp, rule unmatched_hd, simp_all add: esc3_no_cr)

lemma esc3_hd: "esc3 d @ s = c # t \<Longrightarrow> c = LF \<Longrightarrow> d = LF"
  by (auto simp: esc3_def LF_def split: if_splits)

lemma replace_crlf_lone:
  "d \<noteq> LF \<Longrightarrow> replace_sub [CR, LF] r (CR # esc3 d @ s) = CR # replace_sub [CR, LF] r (esc3 d @ s)"
proof (rule replace_sub_skip1)
  assume "d \<noteq> LF"
  then show "\<not> starts_with [CR, LF] (CR # esc3 d @ s)"
    using esc3_hd [of d s LF] by (cases "esc3 d @ s") auto
qed simp

lemma esc_br_simps [simp]: "esc_br LF = ''<br>''" "c \<noteq> LF \<Longrightarrow> esc_br c = esc3 c"
  by (simp_all add: esc_br_def)

lemma plaintext_blocks: "plaintext_to_tuta_html s = concat (map esc_br (fold_newlines s))"
proof -
  have "brs (replace_sub [CR, LF] ''<br>'' (concat (map esc3 s))) = concat (map esc_br (fold_newlines s))"
  proof (induction s rule: fold_newlines.induct)
    case (2 c)
    show ?case
    proof (cases "c = CR")
      case True
      have "\<not> starts_with [CR, LF] [CR]" by simp
      then show ?thesis using True by (simp add: replace_sub_skip1)
    next
      case False
      then show ?thesis using replace_crlf_esc3 [OF False, of "''<br>''" "[]"] by (simp add: brs_esc3)
    qed
  next
    case (3 c d s)
    consider "c = CR" "d = LF" | "c = CR" "d \<noteq> LF" | "c \<noteq> CR" by blast
    then show ?case
    proof cases
      case 1
      then show ?thesis using 3 replace_sub_match [of "[CR, LF]" "''<br>''"] by (simp add: brs_br)
    next
      case 2
      have "brs (CR # x) = ''<br>'' @ brs x" for x using brs_append [of "[CR]" x] by simp
      then show ?thesis using 2 3 by (simp add: replace_crlf_lone)
    next
      case 3
      then show ?thesis using "3.IH" by (simp add: replace_crlf_esc3 brs_esc3)
    qed
  qed simp
  then show ?thesis by (simp add: plaintext_to_tuta_html_def esc3_blocks brs_def)
qed

lemma html_loop_skip: "CHR ''<'' \<notin> set w \<Longrightarrow> html_loop (w @ s) = w @ html_loop s"
  by (induction w) (auto simp: html_loop.simps(2))

lemma html_loop_br: "html_loop (''<br>'' @ s) = LF # html_loop s"
proof -
  have "upto_gt (''br>'' @ s) = ''br''" "after_gt (''br>'' @ s) = s" by (simp_all add: upto_gt_def after_gt_def)
  moreover have "map ascii_lower_char ''br'' = ''br''" "tag_name ''br'' = ''br''"
    by (simp_all add: ascii_lower_char_def ws_len_def ascii_ws_def ws2_def)
  ultimately show ?thesis by (simp add: html_loop.simps(2) Let_def)
qed

lemma html_loop_blocks: "html_loop (concat (map esc_br n)) = concat (map esc3 n)"
proof (induction n)
  case (Cons c n)
  show ?case
  proof (cases "c = LF")
    case True
    then show ?thesis using html_loop_br [of "concat (map esc_br n)"] Cons by simp
  next
    case False
    have "CHR ''<'' \<notin> set (esc3 c)" by (auto simp: esc3_def)
    then show ?thesis using False Cons by (simp add: html_loop_skip)
  qed
qed simp

definition esc2 :: "char \<Rightarrow> string" where
  "esc2 c = (if c = CHR ''&'' then ''&amp;'' else if c = CHR ''>'' then ''&gt;'' else [c])"

definition esc1 :: "char \<Rightarrow> string" where
  "esc1 c = (if c = CHR ''&'' then ''&amp;'' else [c])"

lemma decode_esc3: "decode_entities (concat (map esc3 n)) = n"
proof -
  have i1: "concat (map (\<lambda>c. [c]) n) = n" by simp
  have 1: "replace_sub ''&nbsp;'' r (concat (map esc3 n)) = concat (map esc3 n)" for r
    by (rule replace_sub_blocks) (simp_all add: esc3_def)
  have 2: "replace_sub ''&lt;'' ''<'' (concat (map esc3 n)) = concat (map esc2 n)"
    by (rule replace_sub_blocks) (simp_all add: esc3_def esc2_def)
  have 3: "replace_sub ''&gt;'' ''>'' (concat (map esc2 n)) = concat (map esc1 n)"
    by (rule replace_sub_blocks) (simp_all add: esc1_def esc2_def)
  have 4: "replace_sub ''&quot;'' r (concat (map esc1 n)) = concat (map esc1 n)" for r
    by (rule replace_sub_blocks) (simp_all add: esc1_def)
  have 5: "replace_sub ''&#39;'' r (concat (map esc1 n)) = concat (map esc1 n)" for r
    by (rule replace_sub_blocks) (simp_all add: esc1_def)
  have 6: "replace_sub ''&apos;'' r (concat (map esc1 n)) = concat (map esc1 n)" for r
    by (rule replace_sub_blocks) (simp_all add: esc1_def)
  have 7: "replace_sub ''&amp;'' ''&'' (concat (map esc1 n)) = concat (map (\<lambda>c. [c]) n)"
    by (rule replace_sub_blocks) (simp_all add: esc1_def)
  show ?thesis unfolding decode_entities_def 1 2 3 4 5 6 7 by (rule i1)
qed

lemma no_pre_prefix: "\<not> starts_with ''<pre>'' (to_ascii_lowercase (concat (map esc_br n)))"
proof (cases n)
  case (Cons c n')
  show ?thesis
  proof (cases "c = LF")
    case True
    then show ?thesis using Cons by (simp add: to_ascii_lowercase_def ascii_lower_char_def)
  next
    case False
    then have "esc_br c \<noteq> [] \<and> hd (esc_br c) \<noteq> CHR ''<''" by (simp add: esc3_def)
    then obtain d w where d: "esc_br c = d # w" "d \<noteq> CHR ''<''" by (cases "esc_br c") auto
    have "ascii_lower_char d \<noteq> CHR ''<''" using d(2) by (auto simp: ascii_lower_char_def char_of_eq_iff take_bit_eq_mod)
    then show ?thesis using Cons d(1) by (simp add: to_ascii_lowercase_def)
  qed
qed (simp add: to_ascii_lowercase_def)

lemma html_to_text_blocks:
  "trim (concat (map esc_br n)) = concat (map esc_br n) \<Longrightarrow> html_to_text (concat (map esc_br n)) = n"
  by (simp add: html_to_text_def strip_prefix_def no_pre_prefix html_loop_blocks decode_esc3)

section \<open>Characters of the rendered headers\<close>

lemma utf8_chars:
  "utf8_valid s \<Longrightarrow> ch \<in> set (chars_of s) \<Longrightarrow> (\<exists>c. ch = [c] \<and> byte_of c < 128) \<or> (\<forall>c \<in> set ch. 128 \<le> byte_of c)"
proof (induction s arbitrary: ch rule: utf8_valid.induct)
  case (2 c s)
  let ?a = "byte_of c"
  consider (one) "?a < 128" | (two) "0xC2 \<le> ?a" "?a \<le> 0xDF" | (three) "0xE0 \<le> ?a" "?a \<le> 0xEF"
    | (four) "0xF0 \<le> ?a" "?a \<le> 0xF4" using "2.prems"(1) by (auto simp: Let_def split: if_splits)
  then show ?case
  proof cases
    case one
    then have w: "utf8_width c = 1" by (simp add: utf8_width_def)
    then show ?thesis using 2 one by (auto simp: chars_of.simps(2) Let_def)
  next
    case two
    then obtain c1 s1 where s: "s = c1 # s1" "cont_byte (byte_of c1)" "utf8_valid s1"
      using "2.prems"(1) by (auto simp: Let_def second_ok_def cont_byte_def split: list.splits if_splits)
    have w: "utf8_width c = 2" using two by (simp add: utf8_width_def Let_def)
    have "ch = [c, c1] \<or> ch \<in> set (chars_of s1)" using "2.prems"(2) by (simp add: chars_of.simps(2) w s(1))
    then show ?thesis using "2.IH"(2) [of ?a] s two by (auto simp: cont_byte_def)
  next
    case three
    then obtain c1 c2 s2 where s: "s = c1 # c2 # s2" "128 \<le> byte_of c1" "cont_byte (byte_of c2)" "utf8_valid s2"
      using "2.prems"(1) by (auto simp: Let_def second_ok_def cont_byte_def split: list.splits if_splits)
    have w: "utf8_width c = 3" using three by (simp add: utf8_width_def Let_def)
    have "ch = [c, c1, c2] \<or> ch \<in> set (chars_of s2)" using "2.prems"(2) by (simp add: chars_of.simps(2) w s(1))
    then show ?thesis using "2.IH"(3) [of ?a] s three by (auto simp: cont_byte_def)
  next
    case four
    then obtain c1 c2 c3 s3 where s: "s = c1 # c2 # c3 # s3" "128 \<le> byte_of c1" "cont_byte (byte_of c2)"
        "cont_byte (byte_of c3)" "utf8_valid s3"
      using "2.prems"(1) by (auto simp: Let_def second_ok_def cont_byte_def split: list.splits if_splits)
    have w: "utf8_width c = 4" using four by (simp add: utf8_width_def Let_def)
    have "ch = [c, c1, c2, c3] \<or> ch \<in> set (chars_of s3)" using "2.prems"(2) by (simp add: chars_of.simps(2) w s(1))
    moreover have "(\<exists>c. ch = [c] \<and> byte_of c < 128) \<or> (\<forall>c \<in> set ch. 128 \<le> byte_of c)" if "ch \<in> set (chars_of s3)"
      using "2.IH"(4) [of ?a c1 "c2 # c3 # s3" c2 "c3 # s3" c3 s3] s four that by simp
    ultimately show ?thesis using s four by (auto simp: cont_byte_def)
  qed
qed simp

lemma clean_address_chars:
  assumes "utf8_valid a" "c \<in> set (clean_address a)"
  shows "128 \<le> byte_of c \<or> (\<not> ascii_ws c \<and> c \<notin> set ''<>,;()'' \<and> c \<noteq> DQUOTE)"
proof -
  obtain ch where ch: "ch \<in> set (chars_of a)" "addr_char_ok ch" "c \<in> set ch"
    using assms(2) by (auto simp: clean_address_def)
  from utf8_chars [OF assms(1) ch(1)] show ?thesis
  proof
    assume "\<exists>x. ch = [x] \<and> byte_of x < 128"
    then have "ch = [c]" using ch(3) by auto
    then show ?thesis using ch(2) by (auto simp: addr_char_ok_def ws_len_def split: if_splits)
  qed (use ch(3) in blast)
qed

lemma break_is_ws: "ascii_ws CR" "ascii_ws LF" "byte_of CR < 128" "byte_of LF < 128"
  by (simp_all add: ascii_ws_def CR_def LF_def)

lemma b64_no_break:
  assumes "b64_laws b" shows "CR \<notin> set (b64_encode b s) \<and> LF \<notin> set (b64_encode b s) \<and> CHR ''-'' \<notin> set (b64_encode b s)"
proof -
  have "b64_char c" if "c \<in> set (b64_encode b s)" for c using assms that by (auto simp: b64_laws_def list_all_iff)
  moreover have "\<not> b64_char CR" "\<not> b64_char LF" "\<not> b64_char (CHR ''-'')"
    by (simp_all add: b64_char_def ascii_alnum_def CR_def LF_def)
  ultimately show ?thesis by blast
qed

lemma encode_header_value_no_break: "b64_laws b \<Longrightarrow> no_line_break (encode_header_value b s)"
  using b64_no_break [of b s] by (simp add: encode_header_value_def no_line_break_def) (simp add: CR_def LF_def)

lemma no_line_break_append [simp]: "no_line_break (a @ b) \<longleftrightarrow> no_line_break a \<and> no_line_break b"
  by (auto simp: no_line_break_def)

lemma no_line_break_lits: "no_line_break '' <''" "no_line_break ''>''" "no_line_break [DQUOTE]"
  by (simp_all add: no_line_break_def CR_def LF_def)

lemma clean_address_no_break: "utf8_valid a \<Longrightarrow> no_line_break (clean_address a)"
  using clean_address_chars [of a CR] clean_address_chars [of a LF] break_is_ws by (auto simp: no_line_break_def)

lemma escape_no_break:
  assumes "no_line_break s" "c \<noteq> CR" "c \<noteq> LF" "no_line_break r"
  shows "no_line_break (replace_char c r s)"
  using assms by (auto simp: no_line_break_def replace_char_def split: if_splits)

lemma chunks_concat: "0 < n \<Longrightarrow> concat (chunks n s) = s"
proof (induction n s rule: chunks.induct)
  case (1 n s)
  then show ?case by (subst chunks.simps) auto
qed

lemma chunks_len: "list_all (\<lambda>l. length l \<le> n) (chunks n s)"
proof (induction n s rule: chunks.induct)
  case (1 n s)
  then show ?case by (subst chunks.simps) auto
qed

lemma filter_join: "list_all no_line_break ls \<Longrightarrow> filter (\<lambda>c. c \<noteq> CR \<and> c \<noteq> LF) (join CRLF ls) = concat ls"
  by (induction CRLF ls rule: join.induct) (auto simp: no_line_break_def filter_id_conv)

lemma set_join: "set (join sep ls) \<subseteq> set sep \<union> set (concat ls)"
  by (induction sep ls rule: join.induct) auto

section \<open>Properties\<close>

text \<open>
  Reading back a stored plain-text body is exact. For every text whose stored form starts and ends
  with no white space, \<open>html_to_text\<close> returns the text itself with its line breaks folded to LF.
\<close>

theorem plaintext_roundtrip:
  assumes "trim (plaintext_to_tuta_html s) = plaintext_to_tuta_html s"
  shows "html_to_text (plaintext_to_tuta_html s) = fold_newlines s"
  using html_to_text_blocks assms unfolding plaintext_blocks by blast

theorem plaintext_roundtrip_witness:
  "html_to_text (plaintext_to_tuta_html (''if (a < b) x &= &lt;'' @ CRLF)) = ''if (a < b) x &= &lt;'' @ [CHR 0x0A]"
proof -
  have "trim (plaintext_to_tuta_html (''if (a < b) x &= &lt;'' @ [CR, LF])) = plaintext_to_tuta_html (''if (a < b) x &= &lt;'' @ [CR, LF])"
    by code_simp
  then show ?thesis
    using plaintext_roundtrip [of "''if (a < b) x &= &lt;'' @ [CR, LF]"] by (simp add: CR_def LF_def)
qed

text \<open>
  The stored form is not inverted exactly on every text: the blanks that indent the first line of a
  body, and those after its last character, are lost.
\<close>

theorem plaintext_indent_lost:
  "html_to_text (plaintext_to_tuta_html ''  int x;'') = ''int x;''
   \<and> html_to_text (plaintext_to_tuta_html ''-- '') = ''--''"
  by code_simp

text \<open>
  No address can inject a header or smuggle in a second mailbox: a rendered address is the
  display name followed by one addr-spec, none of it holds a line break, and the addr-spec holds no
  ASCII white space and none of the characters that delimit mailboxes.
\<close>

theorem address_header_safe:
  assumes "b64_laws b" "utf8_valid address"
  shows "no_line_break (format_name_and_address b name address)
    \<and> (\<exists>display. format_name_and_address b name address
          = (if name = [] then clean_address address else display @ '' <'' @ clean_address address @ ''>''))
    \<and> list_all (\<lambda>c. 128 \<le> byte_of c \<or> (\<not> ascii_ws c \<and> c \<notin> set ''<>,;()'' \<and> c \<noteq> DQUOTE)) (clean_address address)"
proof -
  have q: "no_line_break (replace_char DQUOTE [BACKSLASH, DQUOTE] (replace_char BACKSLASH [BACKSLASH, BACKSLASH] name))"
    if "needs_quoting name"
    using that by (intro escape_no_break) (auto simp: needs_quoting_def no_line_break_def CR_def LF_def)
  have "no_line_break (format_name_and_address b name address)"
    using q clean_address_no_break [OF assms(2)] encode_header_value_no_break [OF assms(1), of name] no_line_break_lits
    by (simp add: format_name_and_address_def Let_def del: append_Cons append_Nil)
  moreover have "\<exists>display. format_name_and_address b name address
          = (if name = [] then clean_address address else display @ '' <'' @ clean_address address @ ''>'')"
    by (auto simp: format_name_and_address_def Let_def)
  moreover have "list_all (\<lambda>c. 128 \<le> byte_of c \<or> (\<not> ascii_ws c \<and> c \<notin> set ''<>,;()'' \<and> c \<noteq> DQUOTE)) (clean_address address)"
    unfolding list_all_iff using clean_address_chars [OF assms(2)] by blast
  ultimately show ?thesis by blast
qed

theorem address_header_safe_witness:
  "no_line_break (format_name_and_address rfc4648 ''Doe, Jane'' (''a@b>'' @ CRLF @ ''Bcc: x@y''))"
  using address_header_safe [OF rfc4648_laws, of "''a@b>'' @ CRLF @ ''Bcc: x@y''" "''Doe, Jane''"]
  by (simp add: CR_def LF_def Let_def)

text \<open>
  The MIME structure of a rendered message is unambiguous: a base64 body has lines of at most 76
  characters, decodes to the data once its line breaks are dropped, and holds no dash, so no boundary
  delimiter occurs in it; and neither of the two boundaries is a prefix of the other.
\<close>

theorem mime_structure:
  assumes "b64_laws b"
  shows "b64_decode b (filter (\<lambda>c. c \<noteq> CR \<and> c \<noteq> LF) (base64_encode_body b data)) = Some data
    \<and> (\<exists>ls. base64_encode_body b data = join CRLF ls \<and> list_all (\<lambda>l. length l \<le> 76 \<and> no_line_break l) ls)
    \<and> CHR ''-'' \<notin> set (base64_encode_body b data)
    \<and> \<not> starts_with (build_boundary m) (build_alt_boundary m)
    \<and> \<not> starts_with (build_alt_boundary m) (build_boundary m)"
proof -
  let ?ls = "chunks 76 (b64_encode b data)"
  have "c \<in> set (b64_encode b data)" if "l \<in> set ?ls" "c \<in> set l" for c l
    using that chunks_concat [of 76 "b64_encode b data"] by (metis UN_I set_concat zero_less_numeral)
  then have nb: "list_all no_line_break ?ls"
    using b64_no_break [OF assms, of data] by (auto simp: list_all_iff no_line_break_def)
  then have "list_all (\<lambda>l. length l \<le> 76 \<and> no_line_break l) ?ls"
    using chunks_len [of 76 "b64_encode b data"] by (simp add: list_all_iff)
  moreover have "b64_decode b (filter (\<lambda>c. c \<noteq> CR \<and> c \<noteq> LF) (base64_encode_body b data)) = Some data"
    using filter_join [OF nb] assms by (simp add: base64_encode_body_def chunks_concat b64_laws_def b64_inverse_def)
  moreover have "CHR ''-'' \<notin> set (base64_encode_body b data)"
    using set_join [of CRLF ?ls] b64_no_break [OF assms, of data] chunks_concat [of 76 "b64_encode b data"]
    by (auto simp: base64_encode_body_def CR_def LF_def)
  moreover have "\<not> starts_with (build_boundary m) (build_alt_boundary m)" "\<not> starts_with (build_alt_boundary m) (build_boundary m)"
    by (simp_all add: build_boundary_def build_alt_boundary_def split: option.split)
  ultimately show ?thesis by (auto simp: base64_encode_body_def)
qed

theorem mime_structure_witness:
  "b64_decode rfc4648 (filter (\<lambda>c. c \<noteq> CR \<and> c \<noteq> LF) (base64_encode_body rfc4648 ''hello'')) = Some ''hello''"
  using mime_structure [OF rfc4648_laws] by blast

end
