(* ===== verification/Backend.thy ===== *)
theory Backend
  imports MailStore Rfc2822
begin

text \<open>
  What the bridge's tasks share and rely on: the backend (the trait \<open>MailBackend\<close> of \<open>tuta.rs\<close>,
  implemented by Tuta's SDK and server) as a record of functions that act on an opaque world; the
  environment (cipher, base64, JSON codec of mails, clock, sleeping, shutdown flag) as another; and
  the system state the tasks act on. While a task sleeps other tasks may run: \<open>en_sleep\<close> maps the
  whole state, so statements for every environment cover every interleaving at these points.
\<close>

datatype http_error = ConnectionError | RequestTimeoutError | TooManyRequestsError
  | InternalServerError | BadGatewayError | ServiceUnavailableError | NotFoundError | NotAuthenticatedError
  | SessionExpiredError | AccessExpiredError | AccessDeactivatedError | AccessBlockedError
  | InvalidSoftwareVersionError | OtherHttpError nat

datatype api_call_error = RestClient | ServerResponseError http_error | InternalSdkError

datatype contract_error = NotInMailAttachments | IncompleteBatch | DuplicateInBatch | WrongList
  | KeyUnavailable | NoBucketEntry | AmbiguousBucketEntries | GroupReferenceUnsupported
  | UnsupportedGroupContext

datatype attachment_error = Contract contract_error | Transport api_call_error
  | Indeterminate api_call_error

record mail_set_entry =
  se_mail :: id_tuple

record 'w backend =
  bk_load_mail_ids_for_folder :: "folder_info \<Rightarrow> nat \<Rightarrow> 'w \<Rightarrow> (string + mail list) \<times> 'w"
  bk_load_mail :: "string \<Rightarrow> string \<Rightarrow> 'w \<Rightarrow> (string + mail option) \<times> 'w"
  bk_decrypt_inline_mail :: "string \<Rightarrow> 'w \<Rightarrow> (string + mail option) \<times> 'w"
  bk_decrypt_inline_mail_set_entry :: "string \<Rightarrow> 'w \<Rightarrow> (string + mail_set_entry option) \<times> 'w"
  bk_decrypt_inline_mail_details_blob :: "string \<Rightarrow> 'w \<Rightarrow> (string + mail_details option) \<times> 'w"
  bk_load_mail_details :: "mail \<Rightarrow> 'w \<Rightarrow> (string + mail_details option) \<times> 'w"
  bk_load_attachments :: "mail \<Rightarrow> 'w \<Rightarrow> (attachment_error + attachment_part list) \<times> 'w"
  bk_list_folders :: "'w \<Rightarrow> (string + folder_info list) \<times> 'w"
  bk_set_unread_status :: "id_tuple list \<Rightarrow> bool \<Rightarrow> 'w \<Rightarrow> (string + unit) \<times> 'w"
  bk_trash_mails :: "id_tuple list \<Rightarrow> 'w \<Rightarrow> (string + unit) \<times> 'w"
  bk_delete_mails :: "id_tuple list \<Rightarrow> folder_info \<Rightarrow> 'w \<Rightarrow> (string + unit) \<times> 'w"
  bk_move_mails :: "id_tuple list \<Rightarrow> folder_info \<Rightarrow> 'w \<Rightarrow> (string + unit) \<times> 'w"
  bk_sent_mail_element_id :: "string \<Rightarrow> 'w \<Rightarrow> string option \<times> 'w"

record 'w sys =
  sy_store :: mail_store
  sy_local :: local_store
  sy_world :: 'w

record 'w env =
  en_backend :: "'w backend"
  en_crypto :: crypto
  en_base64 :: base64
  en_b64url :: base64
  en_b64ext :: base64
  en_unicode :: unicode
  en_iv :: "'w \<Rightarrow> string"
  en_to_json :: "mail \<Rightarrow> string"
  en_from_json :: "string \<Rightarrow> mail option"
  en_now :: "'w \<Rightarrow> nat"
  en_sleep :: "nat \<Rightarrow> 'w sys \<Rightarrow> 'w sys"
  en_shutdown :: "'w sys \<Rightarrow> bool"

text \<open>A call to the backend, an operation of the local store, an update of the mail store.\<close>

definition call :: "('w \<Rightarrow> 'a \<times> 'w) \<Rightarrow> 'w sys \<Rightarrow> 'a \<times> 'w sys" where
  "call f s = (case f (sy_world s) of (r, w) \<Rightarrow> (r, s\<lparr>sy_world := w\<rparr>))"

definition on_local :: "(local_store \<Rightarrow> 'a \<times> local_store) \<Rightarrow> 'w sys \<Rightarrow> 'a \<times> 'w sys" where
  "on_local f s = (case f (sy_local s) of (r, ls) \<Rightarrow> (r, s\<lparr>sy_local := ls\<rparr>))"

definition on_store :: "(mail_store \<Rightarrow> mail_store) \<Rightarrow> 'w sys \<Rightarrow> 'w sys" where
  "on_store f s = s\<lparr>sy_store := f (sy_store s)\<rparr>"

lemma call_simps [simp]:
  "fst (call f s) = fst (f (sy_world s))" "sy_store (snd (call f s)) = sy_store s"
  "sy_local (snd (call f s)) = sy_local s" "sy_world (snd (call f s)) = snd (f (sy_world s))"
  by (simp_all add: call_def split: prod.split)

lemma on_local_simps [simp]:
  "fst (on_local f s) = fst (f (sy_local s))" "sy_store (snd (on_local f s)) = sy_store s"
  "sy_local (snd (on_local f s)) = snd (f (sy_local s))" "sy_world (snd (on_local f s)) = sy_world s"
  by (simp_all add: on_local_def split: prod.split)

lemma on_store_simps [simp]:
  "sy_store (on_store f s) = f (sy_store s)" "sy_local (on_store f s) = sy_local s"
  "sy_world (on_store f s) = sy_world s"
  by (simp_all add: on_store_def)

text \<open>
  A concrete environment for examples: a backend whose calls all fail, the identity cipher, the
  reference base64 engine, and a clock that stands still.
\<close>

definition offline :: "'w backend" where
  "offline = \<lparr>bk_load_mail_ids_for_folder = (\<lambda>f n w. (Inl ''offline'', w)), bk_load_mail = (\<lambda>a b w. (Inl ''offline'', w)),
     bk_decrypt_inline_mail = (\<lambda>j w. (Inl ''offline'', w)), bk_decrypt_inline_mail_set_entry = (\<lambda>j w. (Inl ''offline'', w)),
     bk_decrypt_inline_mail_details_blob = (\<lambda>j w. (Inl ''offline'', w)), bk_load_mail_details = (\<lambda>m w. (Inl ''offline'', w)),
     bk_load_attachments = (\<lambda>m w. (Inl (Transport RestClient), w)), bk_list_folders = (\<lambda>w. (Inl ''offline'', w)),
     bk_set_unread_status = (\<lambda>i u w. (Inl ''offline'', w)), bk_trash_mails = (\<lambda>i w. (Inl ''offline'', w)),
     bk_delete_mails = (\<lambda>i f w. (Inl ''offline'', w)), bk_move_mails = (\<lambda>i f w. (Inl ''offline'', w)),
     bk_sent_mail_element_id = (\<lambda>i w. (None, w))\<rparr>"

definition plain_crypto :: crypto where
  "plain_crypto = \<lparr>cr_encrypt = (\<lambda>iv t. Some t), cr_decrypt = Some\<rparr>"

definition sample_env :: "'w backend \<Rightarrow> (string \<Rightarrow> mail option) \<Rightarrow> 'w env" where
  "sample_env bk from_json = \<lparr>en_backend = bk, en_crypto = plain_crypto, en_base64 = rfc4648, en_b64url = rfc4648,
     en_b64ext = rfc4648, en_unicode = ascii_unicode,
     en_iv = (\<lambda>_. []), en_to_json = subject, en_from_json = from_json, en_now = (\<lambda>_. 0),
     en_sleep = (\<lambda>_ s. s), en_shutdown = (\<lambda>_. False)\<rparr>"

definition sample_mail :: "string \<Rightarrow> mail" where
  "sample_mail e = \<lparr>mail_id = Some \<lparr>list_id = ''l'', element_id = e\<rparr>, subject = e,
     sender = \<lparr>addr_name = [], addr_address = ''a@b''\<rparr>, received_ms = 0, unread = True,
     first_recipient = None, attachments = []\<rparr>"

definition sample_folder :: "string \<Rightarrow> folder_info" where
  "sample_folder f = \<lparr>fi_id = f, fi_list_id = ''l'', fi_entries_list_id = ''x'', fi_kind = KInbox,
     fi_imap_path = f, fi_special_use = None\<rparr>"

definition sample_stored :: "string \<Rightarrow> nat \<Rightarrow> stored_mail" where
  "sample_stored e u = \<lparr>sm_mail = sample_mail e, sm_body_loaded = False, sm_uid = u, sm_attachments_pending = False\<rparr>"

definition fresh_sys :: "'w \<Rightarrow> 'w sys" where
  "fresh_sys w = \<lparr>sy_store = new_mail_store, sy_local = fresh_store, sy_world = w\<rparr>"

lemma sample_simps [simp]:
  "en_backend (sample_env bk fj) = bk" "en_crypto (sample_env bk fj) = plain_crypto" "en_base64 (sample_env bk fj) = rfc4648"
  "en_b64url (sample_env bk fj) = rfc4648" "en_b64ext (sample_env bk fj) = rfc4648" "en_now (sample_env bk fj) = (\<lambda>_. 0)"
  "en_to_json (sample_env bk fj) = subject" "en_from_json (sample_env bk fj) = fj"
  "en_sleep (sample_env bk fj) = (\<lambda>_ s. s)" "en_shutdown (sample_env bk fj) = (\<lambda>_. False)"
  "eid_of (sample_mail e) = Some e" "subject (sample_mail e) = e" "fi_id (sample_folder f) = f"
  "mail_id (sample_mail e) = Some \<lparr>list_id = ''l'', element_id = e\<rparr>"
  "sy_store (fresh_sys w) = new_mail_store" "sy_local (fresh_sys w) = fresh_store" "sy_world (fresh_sys w) = w"
  "get_folder f new_mail_store = []" "mail_in_folder f e new_mail_store = None"
  by (simp_all add: sample_env_def sample_mail_def sample_folder_def fresh_sys_def eid_of_def get_folder_def
      mail_in_folder_def new_mail_store_def)

lemma sample_sets [simp]: "cr_decrypt plain_crypto = Some" "cr_encrypt plain_crypto = (\<lambda>iv t. Some t)"
  by (simp_all add: plain_crypto_def)

end
