(* ===== verification/Sync.thy ===== *)
theory Sync
  imports Backend "HOL-Library.Multiset"
begin

text \<open>
  The synchroniser (\<open>run_syncer\<close> and its helpers in \<open>crates/bridge/src/sync.rs\<close>): retries with
  back-off, loading cached folders at startup, the full metadata sync of a folder, the backfill of the
  full-text index, and the prefetch of bodies with its retry history.
\<close>

section \<open>Retries\<close>

datatype sync_error = StoreFailed store_error | BadCachedMail string | BackendFailed string

definition INTER_REQUEST_DELAY :: nat where "INTER_REQUEST_DELAY = 150"
definition INTER_FOLDER_DELAY :: nat where "INTER_FOLDER_DELAY = 300"
definition MAX_RETRIES :: nat where "MAX_RETRIES = 3"

definition backoff :: "nat \<Rightarrow> nat" where
  "backoff current = min (if current = 0 then 1000 else current * 2) 120000"

fun retry_from :: "'w env \<Rightarrow> nat \<Rightarrow> nat \<Rightarrow> ('w sys \<Rightarrow> (string + 'a) \<times> 'w sys) \<Rightarrow> 'w sys \<Rightarrow> (string + 'a) \<times> 'w sys" where
  "retry_from en left delay f s = (case f s of
     (Inr v, s1) \<Rightarrow> (Inr v, s1)
   | (Inl e, s1) \<Rightarrow> (case left of 0 \<Rightarrow> (Inl e, s1)
       | Suc k \<Rightarrow> retry_from en k (backoff delay) f (en_sleep en delay s1)))"

declare retry_from.simps [simp del]

definition retry :: "'w env \<Rightarrow> ('w sys \<Rightarrow> (string + 'a) \<times> 'w sys) \<Rightarrow> 'w sys \<Rightarrow> (string + 'a) \<times> 'w sys" where
  "retry en f s = retry_from en MAX_RETRIES 1000 f s"

section \<open>Metadata\<close>

definition mail_to_metadata :: "'w env \<Rightarrow> mail \<Rightarrow> string \<Rightarrow> nat \<Rightarrow> mail_metadata" where
  "mail_to_metadata en m fid uid =
     (let (lid, eid) = (case mail_id m of Some i \<Rightarrow> (list_id i, element_id i) | None \<Rightarrow> ([], []))
      in \<lparr>md_list_id = lid, md_element_id = eid, md_folder_id = fid, md_subject = subject m,
          md_sender_name = addr_name (sender m), md_sender_address = addr_address (sender m),
          md_received_ms = int (received_ms m), md_unread = unread m, md_has_details = False,
          md_uid = int uid, md_json = en_to_json en m\<rparr>)"

text \<open>The decoding loop of \<open>load_cached_folder\<close>: a row that does not parse ends it.\<close>

fun load_rows :: "'w env \<Rightarrow> mail_metadata list \<Rightarrow> local_store \<Rightarrow> (sync_error + stored_mail list) \<times> local_store" where
  "load_rows en [] ls = (Inr [], ls)"
| "load_rows en (r # rs) ls = (case en_from_json en (md_json r) of
     None \<Rightarrow> (Inl (BadCachedMail (md_element_id r)), ls)
   | Some m \<Rightarrow>
      let body_loaded = has_eml (md_element_id r) ls;
          ls1 = (if body_loaded \<and> \<not> md_has_details r then snd (mark_has_details (md_element_id r) ls) else ls);
          sm = \<lparr>sm_mail = m, sm_body_loaded = body_loaded, sm_uid = as_u32 (md_uid r), sm_attachments_pending = False\<rparr>
      in case load_rows en rs ls1 of
           (Inl e, ls2) \<Rightarrow> (Inl e, ls2)
         | (Inr sms, ls2) \<Rightarrow> (Inr (sm # sms), ls2))"

definition load_cached_folder :: "'w env \<Rightarrow> folder_info \<Rightarrow> 'w sys \<Rightarrow> (sync_error + nat) \<times> 'w sys" where
  "load_cached_folder en folder s = (case load_folder_metadata (fi_id folder) (sy_local s) of
     Inl e \<Rightarrow> (Inl (StoreFailed e), s)
   | Inr metas \<Rightarrow> (case on_local (load_rows en metas) s of
       (Inl e, s1) \<Rightarrow> (Inl e, s1)
     | (Inr sms, s1) \<Rightarrow> (Inr (length sms), on_store (set_folder (fi_id folder) sms) s1)))"

section \<open>The full sync of a folder\<close>

text \<open>\<open>existing_map\<close>: the folder's mails by id.\<close>

definition existing_map :: "stored_mail list \<Rightarrow> (string \<times> stored_mail) list" where
  "existing_map ms = fold (\<lambda>m acc. case eid_of (sm_mail m) of None \<Rightarrow> acc | Some e \<Rightarrow> AList.update e m acc) ms []"

definition new_element_ids :: "mail list \<Rightarrow> (string \<times> stored_mail) list \<Rightarrow> string list" where
  "new_element_ids mails ex = filter (\<lambda>e. map_of ex e = None)
     (List.map_filter eid_of (rev mails))"

definition sync_uid :: "(string \<times> stored_mail) list \<Rightarrow> (string \<times> nat) list \<Rightarrow> mail \<Rightarrow> nat" where
  "sync_uid ex new_uids m = (case eid_of m of None \<Rightarrow> 0
     | Some e \<Rightarrow> (case map_of ex e of Some x \<Rightarrow> sm_uid x
        | None \<Rightarrow> (case map_of new_uids e of Some u \<Rightarrow> u | None \<Rightarrow> 0)))"

definition sync_mail :: "(string \<times> stored_mail) list \<Rightarrow> (string \<times> nat) list \<Rightarrow> mail \<Rightarrow> stored_mail" where
  "sync_mail ex new_uids m = (case Option.bind (eid_of m) (map_of ex) of
     Some x \<Rightarrow> \<lparr>sm_mail = m, sm_body_loaded = sm_body_loaded x, sm_uid = sync_uid ex new_uids m,
                sm_attachments_pending = sm_attachments_pending x\<rparr>
   | None \<Rightarrow> \<lparr>sm_mail = m, sm_body_loaded = False, sm_uid = sync_uid ex new_uids m, sm_attachments_pending = False\<rparr>)"

text \<open>Files and index rows of the mails the server no longer lists; errors are logged and ignored.\<close>

fun drop_bodies :: "string list \<Rightarrow> local_store \<Rightarrow> local_store" where
  "drop_bodies [] ls = ls"
| "drop_bodies (e # es) ls = drop_bodies es (snd (unindex_body e (snd (delete_eml e ls))))"

definition sync_local :: "'w env \<Rightarrow> folder_info \<Rightarrow> mail list \<Rightarrow> stored_mail list \<Rightarrow> local_store \<Rightarrow> stored_mail list \<times> local_store" where
  "sync_local en folder new_mails existing ls =
     (let ex = existing_map existing;
          news = new_element_ids new_mails ex;
          (new_uids, ls1) = (if news = [] then ([], ls)
             else case allocate_folder_uids (fi_id folder) news ls of
               (Inl _, l) \<Rightarrow> ([], l) | (Inr u, l) \<Rightarrow> (u, l));
          updated = map (sync_mail ex new_uids) new_mails;
          metas = map (\<lambda>m. mail_to_metadata en m (fi_id folder) (sync_uid ex new_uids m)) new_mails;
          ls2 = snd (upsert_mail_metadata_batch metas ls1);
          current_ids = List.map_filter eid_of new_mails;
          ls3 = (case delete_mails_not_in (fi_id folder) current_ids ls2 of
             (Inl _, l) \<Rightarrow> l | (Inr deleted, l) \<Rightarrow> drop_bodies deleted l)
      in (updated, ls3))"

definition sync_folder :: "'w env \<Rightarrow> folder_info \<Rightarrow> 'w sys \<Rightarrow> (string + unit) \<times> 'w sys" where
  "sync_folder en folder s =
     (case retry en (call (bk_load_mail_ids_for_folder (en_backend en) folder 0)) s of
        (Inl e, s1) \<Rightarrow> (Inl e, s1)
      | (Inr new_mails, s1) \<Rightarrow>
          (case on_local (sync_local en folder new_mails (get_folder (fi_id folder) (sy_store s1))) s1 of
             (updated, s2) \<Rightarrow> (Inr (), on_store (set_folder (fi_id folder) updated) s2)))"

section \<open>Body prefetch\<close>

definition prefetch_window :: "stored_mail list \<Rightarrow> nat \<Rightarrow> stored_mail list" where
  "prefetch_window mails limit =
     (let sorted = sort_key (\<lambda>m. - int (received_ms (sm_mail m))) mails
      in if limit \<noteq> 0 then take limit sorted else sorted)"

definition ATTACHMENT_RETRY_MIN :: nat where "ATTACHMENT_RETRY_MIN = 60000"
definition ATTACHMENT_RETRY_MAX :: nat where "ATTACHMENT_RETRY_MAX = 3600000"

record attachment_retry =
  ar_failures :: nat
  ar_next_attempt :: nat

definition after_failure :: "attachment_retry option \<Rightarrow> bool \<Rightarrow> nat \<Rightarrow> attachment_retry" where
  "after_failure previous retryable now =
     (let failures = (case previous of None \<Rightarrow> 1 | Some p \<Rightarrow> min (ar_failures p + 1) u32_max);
          delay = (if retryable then min (ATTACHMENT_RETRY_MIN * 2 ^ (min (failures - 1) 6)) ATTACHMENT_RETRY_MAX
                   else ATTACHMENT_RETRY_MAX)
      in \<lparr>ar_failures = failures, ar_next_attempt = now + delay\<rparr>)"

definition next_attachment_retry :: "(string \<times> attachment_retry) list \<Rightarrow> nat \<Rightarrow> nat option" where
  "next_attachment_retry history now =
     (let delays = filter (\<lambda>d. d \<noteq> 0) (List.map_filter
            (\<lambda>(_, r). if ar_next_attempt r \<ge> now then Some (ar_next_attempt r - now) else None) history)
      in if delays = [] then None else Some (Min (set delays)))"

fun is_transient_attachment_error :: "attachment_error \<Rightarrow> bool" where
  "is_transient_attachment_error (Contract _) = False"
| "is_transient_attachment_error (Indeterminate _) = True"
| "is_transient_attachment_error (Transport RestClient) = True"
| "is_transient_attachment_error (Transport (ServerResponseError source)) =
     (source \<in> {ConnectionError, RequestTimeoutError, TooManyRequestsError, InternalServerError,
        BadGatewayError, ServiceUnavailableError})"
| "is_transient_attachment_error (Transport InternalSdkError) = True"

text \<open>One attempt to load the details: the mail is read again from the store each time.\<close>

definition load_current :: "'w env \<Rightarrow> string \<Rightarrow> string \<Rightarrow> 'w sys \<Rightarrow> (string + (mail \<times> mail_details option) option) \<times> 'w sys" where
  "load_current en fid e s = (case mail_in_folder fid e (sy_store s) of
     None \<Rightarrow> (Inr None, s)
   | Some current \<Rightarrow> (case call (bk_load_mail_details (en_backend en) (sm_mail current)) s of
        (Inl er, s1) \<Rightarrow> (Inl er, s1)
      | (Inr details, s1) \<Rightarrow> (Inr (Some (sm_mail current, details)), s1)))"

definition index_text :: "mail_details \<Rightarrow> string" where
  "index_text d = strip_html (case body_compressed d of Some x \<Rightarrow> x
     | None \<Rightarrow> (case body_text d of Some x \<Rightarrow> x | None \<Rightarrow> []))"

text \<open>A complete message: file, row flag, index, memory.\<close>

definition store_complete :: "'w env \<Rightarrow> string \<Rightarrow> string \<Rightarrow> mail \<Rightarrow> mail_details option \<Rightarrow> attachment_part list \<Rightarrow> 'w sys \<Rightarrow> 'w sys" where
  "store_complete en fid e m details atts s =
     (let rfc = mail_to_rfc2822 (en_base64 en) m details atts;
          s1 = (case on_local (write_eml (en_crypto en) (en_iv en (sy_world s)) e rfc) s of
                  (Inl _, s') \<Rightarrow> s' | (Inr _, s') \<Rightarrow> snd (on_local (mark_has_details e) s'));
          s2 = (case details of None \<Rightarrow> s1 | Some d \<Rightarrow> snd (on_local (index_body e (index_text d)) s1))
      in on_store (update_complete_mail fid e details rfc) s2)"

type_synonym retry_history = "(string \<times> attachment_retry) list"

definition prefetch_one :: "'w env \<Rightarrow> string \<Rightarrow> stored_mail \<Rightarrow> retry_history \<Rightarrow> 'w sys \<Rightarrow> retry_history \<times> 'w sys" where
  "prefetch_one en fid stored history s = (case eid_of (sm_mail stored) of None \<Rightarrow> (history, s)
     | Some e \<Rightarrow>
      if sm_body_loaded stored \<or> has_eml e (sy_local s) then (AList.delete e history, s)
      else if (case map_of history e of None \<Rightarrow> False | Some prev \<Rightarrow> en_now en (sy_world s) < ar_next_attempt prev)
      then (history, s)
      else (case retry en (load_current en fid e) (en_sleep en INTER_REQUEST_DELAY s) of
          (Inr None, s1) \<Rightarrow> (history, s1)
        | (Inl _, s1) \<Rightarrow>
            (AList.update e (after_failure (map_of history e) True (en_now en (sy_world s1))) history, s1)
        | (Inr (Some (m, details)), s1) \<Rightarrow>
            (case call (bk_load_attachments (en_backend en) m) s1 of
               (Inl er, s2) \<Rightarrow> (AList.update e (after_failure (map_of history e)
                  (is_transient_attachment_error er) (en_now en (sy_world s2))) history, s2)
             | (Inr atts, s2) \<Rightarrow> (AList.delete e history, store_complete en fid e m details atts s2))))"

fun prefetch_list :: "'w env \<Rightarrow> string \<Rightarrow> stored_mail list \<Rightarrow> retry_history \<Rightarrow> 'w sys \<Rightarrow> retry_history \<times> 'w sys" where
  "prefetch_list en fid [] history s = (history, s)"
| "prefetch_list en fid (m # ms) history s =
     (case prefetch_one en fid m history s of (h, s1) \<Rightarrow> prefetch_list en fid ms h s1)"

definition prefetch_details :: "'w env \<Rightarrow> folder_info \<Rightarrow> nat \<Rightarrow> retry_history \<Rightarrow> 'w sys \<Rightarrow> retry_history \<times> 'w sys" where
  "prefetch_details en folder limit history s =
     prefetch_list en (fi_id folder) (prefetch_window (get_folder (fi_id folder) (sy_store s)) limit) history s"

text \<open>
  One round of \<open>prefetch_loop\<close>: every folder, unless a shutdown is seen between two of them
  (\<open>None\<close>); between rounds the loop waits for a change of the store, the shutdown or the next retry.
\<close>

fun prefetch_folders :: "'w env \<Rightarrow> nat \<Rightarrow> folder_info list \<Rightarrow> retry_history \<Rightarrow> 'w sys \<Rightarrow> retry_history option \<times> 'w sys" where
  "prefetch_folders en limit [] history s = (Some history, s)"
| "prefetch_folders en limit (f # fs) history s = (if en_shutdown en s then (None, s)
     else case prefetch_details en f limit history s of (h, s1) \<Rightarrow> prefetch_folders en limit fs h s1)"

definition prefetch_round :: "'w env \<Rightarrow> nat \<Rightarrow> retry_history \<Rightarrow> 'w sys \<Rightarrow> retry_history option \<times> 'w sys" where
  "prefetch_round en limit history s = (if en_shutdown en s then (None, s)
     else prefetch_folders en limit (ms_folder_list (sy_store s)) history s)"

section \<open>Startup\<close>

fun load_cached_folders :: "'w env \<Rightarrow> folder_info list \<Rightarrow> 'w sys \<Rightarrow> 'w sys" where
  "load_cached_folders en [] s = s"
| "load_cached_folders en (f # fs) s = load_cached_folders en fs (snd (load_cached_folder en f s))"

text \<open>The loop of the full sync: \<open>None\<close> when a shutdown ends it, else whether every folder synced.\<close>

fun sync_folders :: "'w env \<Rightarrow> folder_info list \<Rightarrow> bool \<Rightarrow> 'w sys \<Rightarrow> bool option \<times> 'w sys" where
  "sync_folders en [] ok s = (Some ok, s)"
| "sync_folders en (f # fs) ok s = (if en_shutdown en s then (None, s)
     else case sync_folder en f s of
       (Inl _, s1) \<Rightarrow> sync_folders en fs False (en_sleep en INTER_FOLDER_DELAY s1)
     | (Inr _, s1) \<Rightarrow> sync_folders en fs ok (en_sleep en INTER_FOLDER_DELAY s1))"

definition FULL_METADATA_MARKER :: string where "FULL_METADATA_MARKER = ''full_metadata_synced_v1''"
definition FTS_BACKFILL_MARKER :: string where "FTS_BACKFILL_MARKER = ''body_fts_indexed_v1''"

text \<open>
  The backfill of one folder's cached bodies. \<open>extract_body_text\<close> returns \<open>None\<close> where the code
  panics; the panic ends the blocking task, which counts as failed with nothing indexed.
\<close>

fun backfill_rows :: "'w env \<Rightarrow> mail_metadata list \<Rightarrow> nat \<Rightarrow> bool \<Rightarrow> local_store \<Rightarrow> (nat \<times> bool) \<times> local_store" where
  "backfill_rows en [] indexed ok ls = ((indexed, ok), ls)"
| "backfill_rows en (r # rs) indexed ok ls = (case read_eml (en_crypto en) (md_element_id r) ls of
     Inr (Some rfc) \<Rightarrow> (case extract_body_text (en_base64 en) (en_unicode en) rfc of
        None \<Rightarrow> ((0, False), ls)
      | Some text \<Rightarrow> (case index_body (md_element_id r) text ls of
          (Inl _, ls1) \<Rightarrow> backfill_rows en rs indexed False ls1
        | (Inr _, ls1) \<Rightarrow> backfill_rows en rs (indexed + 1) ok ls1))
   | Inr None \<Rightarrow> backfill_rows en rs indexed ok ls
   | Inl _ \<Rightarrow> backfill_rows en rs indexed False ls)"

definition backfill_folder :: "'w env \<Rightarrow> folder_info \<Rightarrow> local_store \<Rightarrow> (nat \<times> bool) \<times> local_store" where
  "backfill_folder en folder ls = (case load_folder_metadata (fi_id folder) ls of
     Inl _ \<Rightarrow> ((0, False), ls)
   | Inr metas \<Rightarrow> backfill_rows en (filter md_has_details metas) 0 True ls)"

fun backfill_folders :: "'w env \<Rightarrow> folder_info list \<Rightarrow> bool \<Rightarrow> 'w sys \<Rightarrow> bool option \<times> 'w sys" where
  "backfill_folders en [] ok s = (Some ok, s)"
| "backfill_folders en (f # fs) ok s = (if en_shutdown en s then (None, s)
     else case on_local (backfill_folder en f) s of
       ((_, folder_ok), s1) \<Rightarrow> backfill_folders en fs (ok \<and> folder_ok) s1)"

text \<open>
  \<open>run_syncer\<close> up to the prefetch loop. The first component is the point reached: whether
  \<open>startup_done\<close> was sent, and whether the prefetch loop was entered.
\<close>

definition fetch_folders :: "'w env \<Rightarrow> 'w sys \<Rightarrow> folder_info list \<times> 'w sys" where
  "fetch_folders en s = (case retry en (call (bk_list_folders (en_backend en))) s of
     (Inl _, s1) \<Rightarrow> ([], s1) | (Inr fs, s1) \<Rightarrow> (fs, s1))"

definition do_full_sync :: "folder_info list \<Rightarrow> local_store \<Rightarrow> bool" where
  "do_full_sync folders ls =
     (let needs_bootstrap = (case load_event_bus_state ls of Inr m \<Rightarrow> m = [] | Inl _ \<Rightarrow> True);
          full_metadata_done = (get_meta FULL_METADATA_MARKER ls \<noteq> None)
      in (needs_bootstrap \<or> \<not> full_metadata_done) \<and> folders \<noteq> [])"

definition full_sync_phase :: "'w env \<Rightarrow> folder_info list \<Rightarrow> 'w sys \<Rightarrow> bool \<times> 'w sys" where
  "full_sync_phase en folders s = (if do_full_sync folders (sy_local s)
     then (case sync_folders en folders True s of
         (None, s1) \<Rightarrow> (False, s1)
       | (Some ok, s1) \<Rightarrow> (True, if ok then snd (on_local (set_meta FULL_METADATA_MARKER ''1'') s1) else s1))
     else (True, s))"

definition backfill_phase :: "'w env \<Rightarrow> folder_info list \<Rightarrow> 'w sys \<Rightarrow> bool \<times> 'w sys" where
  "backfill_phase en folders s = (if get_meta FTS_BACKFILL_MARKER (sy_local s) = None \<and> folders \<noteq> []
     then (case backfill_folders en folders True s of
         (None, s1) \<Rightarrow> (False, s1)
       | (Some ok, s1) \<Rightarrow> (True, if ok then snd (on_local (set_meta FTS_BACKFILL_MARKER ''1'') s1) else s1))
     else (True, s))"

definition run_syncer :: "'w env \<Rightarrow> 'w sys \<Rightarrow> (bool \<times> bool) \<times> 'w sys" where
  "run_syncer en s =
     (let s0 = on_store (\<lambda>st. st\<lparr>ms_bodies := bc_set_local_store (ms_bodies st)\<rparr>) s;
          (folders, s1) = fetch_folders en s0;
          s2 = on_store (set_folder_list folders) s1;
          s3 = load_cached_folders en folders s2
      in case full_sync_phase en folders s3 of
           (False, s4) \<Rightarrow> ((False, False), s4)
         | (True, s4) \<Rightarrow> (case backfill_phase en folders s4 of
              (entered, s5) \<Rightarrow> ((True, entered), s5)))"

section \<open>What the sync of a folder does\<close>

lemma existing_map_find: "folder_wf ms \<Longrightarrow> map_of (existing_map ms) e = List.find (has_eid e) ms"
proof (induction ms rule: rev_induct)
  case (snoc m ms)
  have wf: "folder_wf ms" using snoc.prems by (simp add: folder_wf_def)
  obtain d where d: "eid_of (sm_mail m) = Some d" using snoc.prems by (cases "eid_of (sm_mail m)") (auto simp: folder_wf_def)
  have "existing_map (ms @ [m]) = AList.update d m (existing_map ms)" using d by (simp add: existing_map_def)
  moreover have "List.find (has_eid d) ms = None"
    using snoc.prems d by (auto simp: find_None_conv folder_wf_def has_eid_def image_iff)
  moreover have "has_eid c m \<longleftrightarrow> c = d" for c using d by (auto simp: has_eid_def)
  ultimately show ?case using snoc.IH [OF wf] by (auto simp: find_append split: option.split)
qed (simp add: existing_map_def)

text \<open>The mails a server lists: each with an id, no id twice.\<close>

definition listing_ok :: "mail list \<Rightarrow> bool" where
  "listing_ok mails = (distinct (map eid_of mails) \<and> None \<notin> set (map eid_of mails))"

lemma listing_ids: "listing_ok mails \<Longrightarrow> map Some (List.map_filter eid_of mails) = map eid_of mails"
  by (induction mails) (auto simp: listing_ok_def split: option.split)

lemma listing_ids_distinct: "listing_ok mails \<Longrightarrow> distinct (List.map_filter eid_of mails)"
  by (metis listing_ids listing_ok_def distinct_map)

lemma listing_mem: "listing_ok mails \<Longrightarrow> e \<in> set (List.map_filter eid_of mails) \<longleftrightarrow> (\<exists>m \<in> set mails. eid_of m = Some e)"
  by (force simp: List.map_filter_def image_iff)

lemma listing_inj: "listing_ok mails \<Longrightarrow> a \<in> set mails \<Longrightarrow> b \<in> set mails \<Longrightarrow> eid_of a = eid_of b \<Longrightarrow> a = b"
  unfolding listing_ok_def distinct_map by (auto dest: inj_onD)

lemma listing_eid: "listing_ok mails \<Longrightarrow> m \<in> set mails \<Longrightarrow> \<exists>e. eid_of m = Some e"
  by (cases "eid_of m") (auto simp: listing_ok_def image_iff)

lemma listing_rev: "listing_ok (rev mails) = listing_ok mails"
  by (simp add: listing_ok_def rev_map [symmetric])

lemma listing_folder_wf: "listing_ok mails \<Longrightarrow> folder_wf (map (sync_mail ex u) mails)"
proof -
  have "sm_mail (sync_mail ex u m) = m" for m by (simp add: sync_mail_def split: option.split)
  then show "listing_ok mails \<Longrightarrow> ?thesis" by (simp add: folder_wf_def listing_ok_def comp_def)
qed

lemma sync_mail_simps [simp]: "sm_mail (sync_mail ex u m) = m" "sm_uid (sync_mail ex u m) = sync_uid ex u m"
  by (simp_all add: sync_mail_def split: option.split)

text \<open>The UIDs of a folder are distinct, positive and below the folder's counter.\<close>

definition uid_inv :: "string \<Rightarrow> mail_store \<Rightarrow> local_store \<Rightarrow> bool" where
  "uid_inv fid st ls = (distinct (map sm_uid (get_folder fid st)) \<and> 1 \<le> next_uid fid ls
     \<and> list_all (\<lambda>m. 1 \<le> sm_uid m \<and> int (sm_uid m) < next_uid fid ls) (get_folder fid st))"

text \<open>The UIDs allocated for the mails not known before, as the code computes them.\<close>

definition fresh_uids :: "string \<Rightarrow> mail list \<Rightarrow> (string \<times> stored_mail) list \<Rightarrow> local_store \<Rightarrow> (string \<times> nat) list" where
  "fresh_uids fid mails ex ls = fst (alloc_loop (next_uid fid ls) (new_element_ids mails ex) [])"

lemma new_ids_distinct: "listing_ok mails \<Longrightarrow> distinct (new_element_ids mails ex)"
  by (simp add: new_element_ids_def listing_ids_distinct listing_rev)

lemma new_ids_mem: "listing_ok mails \<Longrightarrow>
    e \<in> set (new_element_ids mails ex) \<longleftrightarrow> map_of ex e = None \<and> (\<exists>m \<in> set mails. eid_of m = Some e)"
  using listing_mem [of "rev mails" e] by (auto simp: new_element_ids_def listing_rev)

lemma length_new_ids: "length (new_element_ids mails ex) \<le> length mails"
proof -
  have "length (List.map_filter eid_of (rev mails)) \<le> length mails"
    by (simp add: List.map_filter_def) (metis length_filter_le length_rev)
  then show ?thesis unfolding new_element_ids_def using length_filter_le le_trans by blast
qed

lemma fresh_uid_nth:
  assumes "listing_ok mails" "i < length (new_element_ids mails ex)" "1 \<le> next_uid fid ls"
    and "next_uid fid ls + int (length mails) \<le> 2 ^ 32"
  shows "map_of (fresh_uids fid mails ex ls) (new_element_ids mails ex ! i) = Some (nat (next_uid fid ls + int i))"
proof -
  have "as_u32 (next_uid fid ls + int i) = nat (next_uid fid ls + int i)"
    using assms length_new_ids [of mails ex] by (intro as_u32_small) auto
  then show ?thesis
    using alloc_loop_nth [OF new_ids_distinct [OF assms(1)] assms(2), of "next_uid fid ls" "[]"]
    by (simp add: fresh_uids_def)
qed

lemma sync_local_ok:
  assumes "db_ok ls"
  shows "fst (sync_local en folder mails existing ls)
      = map (sync_mail (existing_map existing) (fresh_uids (fi_id folder) mails (existing_map existing) ls)) mails"
  using assms by (auto simp: sync_local_def Let_def fresh_uids_def allocate_folder_uids_ok split: prod.split)

lemma drop_bodies_frame [simp]:
  "t_mails (drop_bodies es ls) = t_mails ls" "t_sync (drop_bodies es ls) = t_sync ls"
  "db_ok (drop_bodies es ls) = db_ok ls" "next_uid f (drop_bodies es ls) = next_uid f ls"
  by (induction es arbitrary: ls) (simp_all add: next_uid_def)

text \<open>The local store after a sync, with a working database.\<close>

definition sync_rows :: "'w env \<Rightarrow> string \<Rightarrow> mail list \<Rightarrow> stored_mail list \<Rightarrow> local_store \<Rightarrow> mail_metadata list" where
  "sync_rows en fid mails existing ls = (let ex = existing_map existing in
     map (\<lambda>m. mail_to_metadata en m fid (sync_uid ex (fresh_uids fid mails ex ls) m)) mails)"

lemma sync_local_snd:
  assumes "db_ok ls"
  shows "\<exists>gone. snd (sync_local en folder mails existing ls) = drop_bodies gone
      (snd (delete_mails_not_in (fi_id folder) (List.map_filter eid_of mails)
        (snd (upsert_mail_metadata_batch (sync_rows en (fi_id folder) mails existing ls)
          (let news = new_element_ids mails (existing_map existing) in
           if news = [] then ls else snd (allocate_folder_uids (fi_id folder) news ls))))))"
proof -
  have d: "\<exists>gone. (case delete_mails_not_in f k l of (Inl _, l') \<Rightarrow> l' | (Inr del, l') \<Rightarrow> drop_bodies del l')
      = drop_bodies gone (snd (delete_mails_not_in f k l))" for f k l
    by (auto split: prod.split sum.split intro: exI [of _ "[]"])
  have u: "(case if n = [] then ([], ls) else case allocate_folder_uids f n ls of (Inl _, l) \<Rightarrow> ([], l) | (Inr u, l) \<Rightarrow> (u, l) of (u, l) \<Rightarrow> P u l)
      = P (fst (alloc_loop (next_uid f ls) n [])) (if n = [] then ls else snd (allocate_folder_uids f n ls))" for n f and P :: "_ \<Rightarrow> _ \<Rightarrow> 'b"
    using assms by (simp add: allocate_folder_uids_ok)
  show ?thesis
    unfolding sync_local_def Let_def u snd_conv sync_rows_def fresh_uids_def by (rule d)
qed

lemma next_uid_sync_local:
  assumes "db_ok ls"
  shows "next_uid g (snd (sync_local en folder mails existing ls)) = (if g = fi_id folder
     then next_uid g ls + int (length (new_element_ids mails (existing_map existing))) else next_uid g ls)"
proof -
  have n: "next_uid h (snd (upsert_mail_metadata_batch ms l)) = next_uid h l"
    "next_uid h (snd (delete_mails_not_in f k l)) = next_uid h l" for ms l f k h by (simp_all add: next_uid_def)
  show ?thesis using sync_local_snd [OF assms, of en folder mails existing] assms
    by (auto simp: n Let_def next_uid_allocate)
qed

text \<open>The UID of a listed mail: kept when the mail was known, fresh when it was not.\<close>

lemma sync_uid_known: "eid_of m = Some e \<Longrightarrow> map_of ex e = Some x \<Longrightarrow> sync_uid ex u m = sm_uid x"
  by (simp add: sync_uid_def)

lemma sync_uid_new:
  assumes "listing_ok mails" "m \<in> set mails" "eid_of m = Some e" "map_of ex e = None"
    and "1 \<le> next_uid fid ls" "next_uid fid ls + int (length mails) \<le> 2 ^ 32"
  shows "\<exists>i < length (new_element_ids mails ex). new_element_ids mails ex ! i = e
     \<and> sync_uid ex (fresh_uids fid mails ex ls) m = nat (next_uid fid ls + int i)"
proof -
  have "e \<in> set (new_element_ids mails ex)" using new_ids_mem assms(1-4) by blast
  then obtain i where i: "i < length (new_element_ids mails ex)" "new_element_ids mails ex ! i = e"
    by (auto simp: in_set_conv_nth)
  then have "sync_uid ex (fresh_uids fid mails ex ls) m = nat (next_uid fid ls + int i)"
    using fresh_uid_nth [OF assms(1) i(1) assms(5,6)] assms(3,4) by (simp add: sync_uid_def)
  with i show ?thesis by blast
qed

lemma sync_uid_inj:
  assumes ok: "listing_ok mails" and wf: "folder_wf existing" and du: "distinct (map sm_uid existing)"
    and lt: "\<forall>x \<in> set existing. int (sm_uid x) < next_uid fid ls"
    and n: "1 \<le> next_uid fid ls" "next_uid fid ls + int (length mails) \<le> 2 ^ 32"
    and a: "a \<in> set mails" and b: "b \<in> set mails"
    and eq: "sync_uid (existing_map existing) (fresh_uids fid mails (existing_map existing) ls) a
           = sync_uid (existing_map existing) (fresh_uids fid mails (existing_map existing) ls) b"
  shows "a = b"
proof -
  let ?ex = "existing_map existing"
  obtain ea eb where e: "eid_of a = Some ea" "eid_of b = Some eb"
    using listing_eid [OF ok] a b by blast
  note new = sync_uid_new [OF ok _ _ _ n, where ex = ?ex]
  have known: "x \<in> set existing \<and> eid_of (sm_mail x) = Some c" if "map_of ?ex c = Some x" for c x
    using that find_SomeD [of "has_eid c" existing x] by (simp add: existing_map_find [OF wf] has_eid_def)
  have "ea = eb"
  proof (cases "map_of ?ex ea"; cases "map_of ?ex eb")
    fix x y assume h: "map_of ?ex ea = Some x" "map_of ?ex eb = Some y"
    then have "sm_uid x = sm_uid y" using eq e by (simp add: sync_uid_known)
    then have "x = y" using known [OF h(1)] known [OF h(2)] du by (auto simp: distinct_map dest: inj_onD)
    then show ?thesis using known [OF h(1)] known [OF h(2)] by simp
  next
    fix x assume h: "map_of ?ex ea = Some x" "map_of ?ex eb = None"
    then show ?thesis using eq e new [OF b e(2) h(2)] lt known [OF h(1)] n(1) by (auto simp: sync_uid_known)
  next
    fix y assume h: "map_of ?ex ea = None" "map_of ?ex eb = Some y"
    then show ?thesis using eq e new [OF a e(1) h(1)] lt known [OF h(2)] n(1) by (auto simp: sync_uid_known)
  next
    assume h: "map_of ?ex ea = None" "map_of ?ex eb = None"
    have "i = j" if "nat (next_uid fid ls + int i) = nat (next_uid fid ls + int j)" for i j using that n(1) by simp
    then show ?thesis using eq new [OF a e(1) h(1)] new [OF b e(2) h(2)] by metis
  qed
  then show ?thesis using listing_inj [OF ok a b] e by simp
qed

lemma retry_now: "f s = (Inr v, s') \<Longrightarrow> retry en f s = (Inr v, s')"
  by (simp add: retry_def retry_from.simps)

lemma sync_folder_ok:
  assumes "fst (bk_load_mail_ids_for_folder (en_backend en) folder 0 (sy_world s)) = Inr mails"
  shows "fst (sync_folder en folder s) = Inr ()"
    and "sy_store (snd (sync_folder en folder s)) = set_folder (fi_id folder)
       (fst (sync_local en folder mails (get_folder (fi_id folder) (sy_store s)) (sy_local s))) (sy_store s)"
    and "sy_local (snd (sync_folder en folder s))
       = snd (sync_local en folder mails (get_folder (fi_id folder) (sy_store s)) (sy_local s))"
proof -
  have "call (bk_load_mail_ids_for_folder (en_backend en) folder 0) s
      = (Inr mails, snd (call (bk_load_mail_ids_for_folder (en_backend en) folder 0) s))"
    using assms by (metis call_simps(1) prod.collapse)
  note r = retry_now [of "call (bk_load_mail_ids_for_folder (en_backend en) folder 0)", OF this, of en]
  show "fst (sync_folder en folder s) = Inr ()" "sy_store (snd (sync_folder en folder s)) = set_folder (fi_id folder)
       (fst (sync_local en folder mails (get_folder (fi_id folder) (sy_store s)) (sy_local s))) (sy_store s)"
    "sy_local (snd (sync_folder en folder s))
       = snd (sync_local en folder mails (get_folder (fi_id folder) (sy_store s)) (sy_local s))"
    by (simp_all add: sync_folder_def r on_local_def split: prod.split)
qed

lemma filter_ids:
  "None \<notin> eid_of ` set l \<Longrightarrow> filter P (List.map_filter eid_of l) = map (\<lambda>m. the (eid_of m)) (filter (\<lambda>m. P (the (eid_of m))) l)"
  by (induction l) (auto split: option.split)

lemma new_ids_filter:
  "listing_ok mails \<Longrightarrow> new_element_ids mails ex = map (\<lambda>m. the (eid_of m)) (filter (\<lambda>m. map_of ex (the (eid_of m)) = None) (rev mails))"
  by (simp add: new_element_ids_def filter_ids listing_ok_def)

lemma fresh_uids_in_order:
  assumes ok: "listing_ok mails" and n: "1 \<le> next_uid fid ls" "next_uid fid ls + int (length mails) \<le> 2 ^ 32"
  shows "rev (map (sync_uid ex (fresh_uids fid mails ex ls)) (filter (\<lambda>m. map_of ex (the (eid_of m)) = None) mails))
    = map (\<lambda>i. nat (next_uid fid ls + int i)) [0..<length (new_element_ids mails ex)]"
proof -
  let ?new = "filter (\<lambda>m. map_of ex (the (eid_of m)) = None) (rev mails)"
  have ids: "new_element_ids mails ex = map (\<lambda>m. the (eid_of m)) ?new" by (rule new_ids_filter [OF ok])
  have "map (sync_uid ex (fresh_uids fid mails ex ls)) ?new = map (\<lambda>i. nat (next_uid fid ls + int i)) [0..<length ?new]"
  proof (rule nth_equalityI)
    fix i assume "i < length (map (sync_uid ex (fresh_uids fid mails ex ls)) ?new)"
    then have i: "i < length ?new" by simp
    then have "?new ! i \<in> set mails" "map_of ex (the (eid_of (?new ! i))) = None"
      using nth_mem [OF i] by auto
    then obtain e where e: "eid_of (?new ! i) = Some e" "map_of ex e = None"
      using listing_eid [OF ok] by fastforce
    have "map_of (fresh_uids fid mails ex ls) e = Some (nat (next_uid fid ls + int i))"
      using fresh_uid_nth [OF ok, of i ex fid ls] n i e ids by simp
    then show "map (sync_uid ex (fresh_uids fid mails ex ls)) ?new ! i = map (\<lambda>i. nat (next_uid fid ls + int i)) [0..<length ?new] ! i"
      using i e by (simp add: sync_uid_def)
  qed simp
  then show ?thesis using ids by (simp add: rev_map rev_filter)
qed

lemma find_synced:
  assumes "listing_ok mails" "m \<in> set mails" "eid_of m = Some e"
  shows "List.find (has_eid e) (map (sync_mail ex u) mails) = Some (sync_mail ex u m)"
proof -
  have "distinct (map (\<lambda>x. eid_of (sm_mail x)) (map (sync_mail ex u) mails))"
    using assms(1) by (simp add: listing_ok_def comp_def)
  from find_key_iff [OF this, of "Some e" "sync_mail ex u m"] show ?thesis
    using assms(2,3) by (simp add: has_eid_def [abs_def])
qed

lemma sync_mail_known: "eid_of m = Some e \<Longrightarrow> map_of ex e = Some x \<Longrightarrow> sync_mail ex u m = x\<lparr>sm_mail := m\<rparr>"
  by (simp add: sync_mail_def sync_uid_def)

lemma uid_inv_synced:
  assumes ok: "listing_ok mails" and wf: "folder_wf (get_folder fid st)" and inv: "uid_inv fid st ls"
    and n: "next_uid fid ls + int (length mails) \<le> 2 ^ 32" and db: "db_ok ls" and fid: "fid = fi_id folder"
  shows "uid_inv fid (set_folder fid (fst (sync_local en folder mails (get_folder fid st) ls)) st)
    (snd (sync_local en folder mails (get_folder fid st) ls))"
proof -
  let ?ex = "existing_map (get_folder fid st)" and ?N = "next_uid fid ls"
  let ?u = "sync_uid ?ex (fresh_uids fid mails ?ex ls)"
  have i: "distinct (map sm_uid (get_folder fid st))" "1 \<le> ?N"
      "\<forall>x \<in> set (get_folder fid st). 1 \<le> sm_uid x \<and> int (sm_uid x) < ?N"
    using inv by (auto simp: uid_inv_def list_all_iff)
  have "inj_on ?u (set mails)"
    using sync_uid_inj [OF ok wf i(1) _ i(2) n] i(3) by (intro inj_onI) blast
  moreover have "distinct mails" using ok by (simp add: listing_ok_def distinct_map)
  ultimately have d: "distinct (map ?u mails)" by (simp add: distinct_map)
  have b: "1 \<le> ?u m \<and> int (?u m) < ?N + int (length (new_element_ids mails ?ex))" if m: "m \<in> set mails" for m
  proof -
    obtain e where e: "eid_of m = Some e"
      using listing_eid [OF ok m] by blast
    show ?thesis
    proof (cases "map_of ?ex e")
      case None
      then show ?thesis using sync_uid_new [OF ok m e None i(2) n] i(2) by auto
    next
      case (Some x)
      then have "x \<in> set (get_folder fid st)"
        using find_SomeD [of "has_eid e"] by (simp add: existing_map_find [OF wf])
      then show ?thesis using Some e i(3) by (auto simp: sync_uid_known)
    qed
  qed
  show ?thesis
    using d b i(2) db by (auto simp: uid_inv_def sync_local_ok next_uid_sync_local fid [symmetric] comp_def list_all_iff)
qed

section \<open>What a restart finds\<close>

lemma has_eml_mark [simp]: "has_eml e (snd (mark_has_details d ls)) = has_eml e ls"
  by (simp add: has_eml_def)

lemma load_rows_ok:
  assumes "\<forall>r \<in> set rs. en_from_json en (md_json r) = Some (g r)"
  shows "fst (load_rows en rs ls) = Inr (map (\<lambda>r. \<lparr>sm_mail = g r, sm_body_loaded = has_eml (md_element_id r) ls,
     sm_uid = as_u32 (md_uid r), sm_attachments_pending = False\<rparr>) rs)"
  using assms
proof (induction rs arbitrary: ls)
  case (Cons r rs)
  define l where "l = (if has_eml (md_element_id r) ls \<and> \<not> md_has_details r then snd (mark_has_details (md_element_id r) ls) else ls)"
  have l: "has_eml d l = has_eml d ls" for d by (simp add: l_def)
  obtain sms l2 where "load_rows en rs l = (Inr sms, l2)"
    "sms = map (\<lambda>r. \<lparr>sm_mail = g r, sm_body_loaded = has_eml (md_element_id r) ls,
     sm_uid = as_u32 (md_uid r), sm_attachments_pending = False\<rparr>) rs"
    using Cons.IH [of l] Cons.prems by (cases "load_rows en rs l") (auto simp: l)
  then show ?case using Cons.prems by (simp add: Let_def l_def [symmetric])
qed simp

lemma load_cached_folder_visible:
  assumes "load_folder_metadata (fi_id folder) (sy_local s) = Inr rs"
    and "\<forall>r \<in> set rs. en_from_json en (md_json r) = Some (g r)"
  shows "visible (sy_store (snd (load_cached_folder en folder s))) (fi_id folder) = map (\<lambda>r. (g r, as_u32 (md_uid r))) rs"
  using assms load_rows_ok [OF assms(2), of "sy_local s"]
  by (cases "load_rows en rs (sy_local s)") (auto simp: load_cached_folder_def on_local_def visible_def comp_def)

lemma find_fold_upsert:
  "distinct (map md_element_id rs) \<Longrightarrow>
   List.find (\<lambda>x. md_element_id x = e) (fold (upsert_row conflict_set_batch) rs rows) =
     (case List.find (\<lambda>x. md_element_id x = e) rs of
        None \<Rightarrow> List.find (\<lambda>x. md_element_id x = e) rows
      | Some r \<Rightarrow> Some (case List.find (\<lambda>x. md_element_id x = e) rows of None \<Rightarrow> r | Some x \<Rightarrow> conflict_set_batch x r))"
proof (induction rs arbitrary: rows)
  case (Cons r rs)
  have n: "List.find (\<lambda>x. md_element_id x = md_element_id r) rs = None"
    using Cons.prems by (auto simp: find_None_conv image_iff)
  show ?case
  proof (cases "md_element_id r = e")
    case True
    then show ?thesis using Cons n by (simp add: find_key_upsert_row)
  next
    case False
    then show ?thesis using Cons by (auto simp: find_key_upsert_row split: option.split)
  qed
qed simp

lemma rows_after_delete:
  "db_ok ls \<Longrightarrow> filter (\<lambda>r. md_folder_id r = fid) (t_mails (snd (delete_mails_not_in fid keep ls)))
     = filter (\<lambda>r. md_folder_id r = fid \<and> md_element_id r \<in> set keep) (t_mails ls)"
  by (auto simp: delete_mails_not_in_def Let_def filter_empty_conv intro!: filter_cong)

lemma mail_to_metadata_simps [simp]:
  "eid_of m = Some e \<Longrightarrow> md_element_id (mail_to_metadata en m fid uid) = e"
  "md_uid (mail_to_metadata en m fid uid) = int uid" "md_folder_id (mail_to_metadata en m fid uid) = fid"
  "md_json (mail_to_metadata en m fid uid) = en_to_json en m"
  by (auto simp: mail_to_metadata_def eid_of_def split: option.splits prod.split)

lemma conflict_json [simp]: "md_json (conflict_set_batch x r) = md_json r"
  by (simp add: conflict_set_batch_def conflict_set_def)

text \<open>
  The rows of the listed mails that are already on disk belong to mails of this folder in memory and carry
  the UIDs they have there.
\<close>

definition rows_agree :: "string \<Rightarrow> mail list \<Rightarrow> mail_store \<Rightarrow> local_store \<Rightarrow> bool" where
  "rows_agree fid mails st ls = list_all (\<lambda>m. case row_of (the (eid_of m)) ls of None \<Rightarrow> True
     | Some r \<Rightarrow> (case mail_in_folder fid (the (eid_of m)) st of None \<Rightarrow> False
         | Some x \<Rightarrow> md_uid r = int (sm_uid x))) mails"

lemma map_key_sync_rows: "listing_ok mails \<Longrightarrow> map md_element_id (sync_rows en fid mails existing ls) = List.map_filter eid_of mails"
proof -
  assume "listing_ok mails"
  then have "None \<notin> eid_of ` set mails" by (simp add: listing_ok_def)
  then have "map md_element_id (map (\<lambda>m. mail_to_metadata en m fid (u m)) mails) = List.map_filter eid_of mails" for u
    by (induction mails) (auto split: option.split)
  then show ?thesis by (simp add: sync_rows_def Let_def)
qed

text \<open>The row of a listed mail after the sync.\<close>

lemma synced_row:
  assumes ok: "listing_ok mails" and m: "m \<in> set mails" "eid_of m = Some e" and wf: "folder_wf (get_folder fid st)"
    and agree: "rows_agree fid mails st ls"
  defines "u \<equiv> sync_uid (existing_map (get_folder fid st)) (fresh_uids fid mails (existing_map (get_folder fid st)) ls)"
  shows "\<exists>r. List.find (\<lambda>x. md_element_id x = e) (fold (upsert_row conflict_set_batch)
      (sync_rows en fid mails (get_folder fid st) ls) (t_mails ls)) = Some r
    \<and> md_element_id r = e \<and> md_folder_id r = fid \<and> md_json r = en_to_json en m \<and> md_uid r = int (u m)"
proof -
  let ?rs = "sync_rows en fid mails (get_folder fid st) ls"
  let ?r = "mail_to_metadata en m fid (u m)"
  have d: "distinct (map md_element_id ?rs)" using ok by (simp add: map_key_sync_rows listing_ids_distinct)
  have mem: "?r \<in> set ?rs" using m(1) by (simp add: sync_rows_def Let_def u_def)
  have k: "md_element_id ?r = e" using m(2) by simp
  then have f: "List.find (\<lambda>x. md_element_id x = e) ?rs = Some ?r" using find_key_iff [OF d] mem by blast
  show ?thesis
  proof (cases "row_of e ls")
    case None
    then show ?thesis using find_fold_upsert [OF d, of e "t_mails ls"] f k by (simp add: row_of_def)
  next
    case (Some x)
    from agree m(1) have "case row_of (the (eid_of m)) ls of None \<Rightarrow> True
        | Some r \<Rightarrow> (case mail_in_folder fid (the (eid_of m)) st of None \<Rightarrow> False | Some x \<Rightarrow> md_uid r = int (sm_uid x))"
      unfolding rows_agree_def list_all_iff by blast
    with Some m(2) obtain y where y: "mail_in_folder fid e st = Some y" "md_uid x = int (sm_uid y)"
      by (cases "mail_in_folder fid e st") auto
    have "u m = sm_uid y"
      unfolding u_def by (rule sync_uid_known [OF m(2)]) (use y(1) in \<open>simp add: existing_map_find [OF wf] mail_in_folder_get\<close>)
    moreover have "md_element_id x = e" using Some find_SomeD by (fastforce simp: row_of_def)
    ultimately show ?thesis using find_fold_upsert [OF d, of e "t_mails ls"] f y(2) Some
      by (auto simp: row_of_def)
  qed
qed

lemma distinct_map_sort_key: "distinct (map k (sort_key f xs)) = distinct (map k xs)"
  by (simp add: distinct_map)

lemma restart_rows:
  assumes ok: "listing_ok mails" and wf: "folder_wf (get_folder fid st)" and agree: "rows_agree fid mails st ls"
    and db: "db_ok ls" and keys: "distinct (map md_element_id (t_mails ls))" and fid: "fid = fi_id folder"
  defines "u \<equiv> sync_uid (existing_map (get_folder fid st)) (fresh_uids fid mails (existing_map (get_folder fid st)) ls)"
  shows "\<exists>rs. load_folder_metadata fid (snd (sync_local en folder mails (get_folder fid st) ls)) = Inr rs
    \<and> distinct (map md_element_id rs)
    \<and> (\<forall>r. r \<in> set rs \<longrightarrow> (\<exists>m \<in> set mails. eid_of m = Some (md_element_id r) \<and> md_json r = en_to_json en m \<and> md_uid r = int (u m)))
    \<and> (\<forall>m \<in> set mails. \<exists>r \<in> set rs. md_json r = en_to_json en m \<and> md_uid r = int (u m))"
proof -
  let ?R = "fold (upsert_row conflict_set_batch) (sync_rows en fid mails (get_folder fid st) ls) (t_mails ls)"
  let ?ids = "List.map_filter eid_of mails"
  let ?F = "filter (\<lambda>r. md_folder_id r = fid \<and> md_element_id r \<in> set ?ids) ?R"
  obtain gone l1 where l1: "snd (sync_local en folder mails (get_folder fid st) ls) = drop_bodies gone
      (snd (delete_mails_not_in fid ?ids (snd (upsert_mail_metadata_batch (sync_rows en fid mails (get_folder fid st) ls) l1))))"
      "t_mails l1 = t_mails ls" "db_ok l1"
    using sync_local_snd [OF db, of en folder mails "get_folder fid st"] db fid by (auto simp: Let_def split: if_splits)
  let ?l2 = "snd (upsert_mail_metadata_batch (sync_rows en fid mails (get_folder fid st) ls) l1)"
  have l2: "t_mails ?l2 = ?R" "db_ok ?l2" using l1 by (simp_all add: upsert_mail_metadata_batch_def)
  then have "db_ok (snd (delete_mails_not_in fid ?ids ?l2))" by (simp add: delete_mails_not_in_def Let_def)
  then have load: "load_folder_metadata fid (snd (sync_local en folder mails (get_folder fid st) ls))
      = Inr (sort_key (\<lambda>r. - md_received_ms r) ?F)"
    using l1(1) l2 rows_after_delete [OF l2(2), of fid ?ids] by (simp add: load_folder_metadata_def)
  have dR: "distinct (map md_element_id ?R)" by (rule distinct_fold_upsert) (simp_all add: keys)
  then have dF: "distinct (map md_element_id ?F)" by (rule distinct_key_filter)
  have key: "r \<in> set ?F \<longleftrightarrow> md_folder_id r = fid \<and> md_element_id r \<in> set ?ids
      \<and> List.find (\<lambda>x. md_element_id x = md_element_id r) ?R = Some r" for r
    using find_key_iff [OF dR, of "md_element_id r" r] by auto
  note row = synced_row [OF ok _ _ wf agree, of _ _ en, folded u_def]
  have 1: "\<exists>m \<in> set mails. eid_of m = Some (md_element_id r) \<and> md_json r = en_to_json en m \<and> md_uid r = int (u m)"
    if "r \<in> set ?F" for r
  proof -
    have f: "md_element_id r \<in> set ?ids" "List.find (\<lambda>x. md_element_id x = md_element_id r) ?R = Some r"
      using that unfolding key by blast+
    obtain m where m: "m \<in> set mails" "eid_of m = Some (md_element_id r)"
      using f(1) listing_mem [OF ok] by blast
    obtain x where "List.find (\<lambda>x. md_element_id x = md_element_id r) ?R = Some x"
        "md_json x = en_to_json en m" "md_uid x = int (u m)"
      using row [OF m] by blast
    with f(2) have "md_json r = en_to_json en m \<and> md_uid r = int (u m)" by simp
    with m show ?thesis by blast
  qed
  have 2: "\<exists>r \<in> set ?F. md_json r = en_to_json en m \<and> md_uid r = int (u m)" if m: "m \<in> set mails" for m
  proof -
    obtain e where e: "eid_of m = Some e" using listing_eid [OF ok m] by blast
    then have "e \<in> set ?ids" using listing_mem [OF ok] m by blast
    moreover obtain r where r: "List.find (\<lambda>x. md_element_id x = e) ?R = Some r" "md_element_id r = e"
        "md_folder_id r = fid" "md_json r = en_to_json en m" "md_uid r = int (u m)"
      using row [OF m e] by blast
    ultimately have "r \<in> set ?F" unfolding key by simp
    with r show ?thesis by blast
  qed
  have "distinct (map md_element_id (sort_key (\<lambda>r. - md_received_ms r) ?F))"
    unfolding distinct_map_sort_key by (rule dF)
  moreover have s: "set (sort_key (\<lambda>r. - md_received_ms r) ?F) = set ?F" by (rule set_sort)
  moreover have "\<forall>r. r \<in> set (sort_key (\<lambda>r. - md_received_ms r) ?F) \<longrightarrow>
      (\<exists>m \<in> set mails. eid_of m = Some (md_element_id r) \<and> md_json r = en_to_json en m \<and> md_uid r = int (u m))"
    unfolding s using 1 by blast
  moreover have "\<forall>m \<in> set mails. \<exists>r \<in> set (sort_key (\<lambda>r. - md_received_ms r) ?F).
      md_json r = en_to_json en m \<and> md_uid r = int (u m)"
    unfolding s using 2 by blast
  ultimately show ?thesis using load by (intro exI conjI)
qed

section \<open>Attempts and delays\<close>

text \<open>The state in which attempt \<open>i\<close> of a retried call runs.\<close>

primrec attempt_state :: "'w env \<Rightarrow> ('w sys \<Rightarrow> (string + 'a) \<times> 'w sys) \<Rightarrow> 'w sys \<Rightarrow> nat \<Rightarrow> 'w sys" where
  "attempt_state en f s 0 = s"
| "attempt_state en f s (Suc i) = en_sleep en (1000 * 2 ^ i) (snd (f (attempt_state en f s i)))"

lemma retry_from_step:
  "retry_from en left delay f s = (if isl (fst (f s)) \<and> left \<noteq> 0
     then retry_from en (left - 1) (backoff delay) f (en_sleep en delay (snd (f s))) else f s)"
  by (subst retry_from.simps) (auto split: prod.split sum.split nat.split)

lemma backoff_simps: "backoff 1000 = 2000" "backoff 2000 = 4000"
  by (simp_all add: backoff_def)

section \<open>Bodies written by the prefetch\<close>

text \<open>The content is the encryption of the rendering of a mail whose details and attachments were all loaded.\<close>

definition complete_body :: "'w env \<Rightarrow> string \<Rightarrow> bool" where
  "complete_body en content = (\<exists>m details atts iv w w'.
     fst (bk_load_mail_details (en_backend en) m w) = Inr details
     \<and> fst (bk_load_attachments (en_backend en) m w') = Inr atts
     \<and> cr_encrypt (en_crypto en) iv (mail_to_rfc2822 (en_base64 en) m details atts) = Some content)"

definition new_bodies_complete :: "'w env \<Rightarrow> local_store \<Rightarrow> local_store \<Rightarrow> bool" where
  "new_bodies_complete en ls ls' = (\<forall>e c. map_of (ls_files ls') (eml_name e) = Some c
     \<longrightarrow> map_of (ls_files ls) (eml_name e) = Some c \<or> complete_body en c)"

lemma new_bodies_refl [simp]: "new_bodies_complete en ls ls"
  by (simp add: new_bodies_complete_def)

lemma new_bodies_trans: "new_bodies_complete en a b \<Longrightarrow> new_bodies_complete en b c \<Longrightarrow> new_bodies_complete en a c"
  unfolding new_bodies_complete_def by blast

lemma load_current_local: "sy_local (snd (load_current en fid e s)) = sy_local s"
  by (auto simp: load_current_def call_def split: option.split prod.split sum.split)

lemma load_current_details:
  "load_current en fid e s = (Inr (Some (m, d)), s1) \<Longrightarrow> \<exists>w. fst (bk_load_mail_details (en_backend en) m w) = Inr d"
  by (auto simp: load_current_def call_def split: option.splits prod.splits sum.splits) (metis fst_conv)

lemma retry_from_local:
  assumes "\<forall>d x. sy_local (en_sleep en d x) = sy_local x" "\<And>x. sy_local (snd (f x)) = sy_local x"
  shows "sy_local (snd (retry_from en n delay f s)) = sy_local s"
proof (induction n arbitrary: delay s)
  case 0
  show ?case using assms by (subst retry_from_step) simp
next
  case (Suc n)
  show ?case by (subst retry_from_step) (simp add: Suc assms)
qed

lemma retry_from_result:
  "retry_from en n delay f s = (Inr v, s1) \<Longrightarrow> \<exists>x. f x = (Inr v, s1)"
proof (induction n arbitrary: delay s)
  case 0
  then show ?case by (subst (asm) retry_from_step) auto
next
  case (Suc n)
  show ?case
  proof (cases "isl (fst (f s))")
    case True
    then show ?thesis using Suc by (subst (asm) retry_from_step) auto
  next
    case False
    then show ?thesis using Suc.prems by (subst (asm) retry_from_step) auto
  qed
qed

lemma files_write_cases:
  "map_of (ls_files (snd (write_eml cr iv e t ls))) (eml_name a) = Some c
    \<Longrightarrow> map_of (ls_files ls) (eml_name a) = Some c \<or> cr_encrypt cr iv t = Some c"
proof (cases "cr_encrypt cr iv t")
  case (Some enc)
  assume h: "map_of (ls_files (snd (write_eml cr iv e t ls))) (eml_name a) = Some c"
  show ?thesis
  proof (cases "fs_ok ls")
    case True
    then show ?thesis using h files_write_eml [OF Some True, of e a] Some by (simp split: if_splits)
  next
    case False
    then show ?thesis using h Some by (simp add: write_eml_def)
  qed
qed (simp add: write_eml_def)

lemma store_complete_files:
  assumes "map_of (ls_files (sy_local (store_complete en fid e m d atts s))) (eml_name a) = Some c"
  shows "map_of (ls_files (sy_local s)) (eml_name a) = Some c
    \<or> cr_encrypt (en_crypto en) (en_iv en (sy_world s)) (mail_to_rfc2822 (en_base64 en) m d atts) = Some c"
proof -
  have s1: "ls_files (sy_local (case x of (Inl _, s') \<Rightarrow> s' | (Inr _, s') \<Rightarrow> snd (on_local (mark_has_details e) s')))
      = ls_files (sy_local (snd x))" for x :: "(store_error + unit) \<times> 'a sys"
    by (cases x; cases "fst x") simp_all
  have "ls_files (sy_local (store_complete en fid e m d atts s))
      = ls_files (snd (write_eml (en_crypto en) (en_iv en (sy_world s)) e (mail_to_rfc2822 (en_base64 en) m d atts) (sy_local s)))"
    by (simp add: store_complete_def Let_def s1 split: option.split)
  with assms files_write_cases show ?thesis by metis
qed

lemma prefetch_one_complete:
  assumes sl: "\<forall>d x. sy_local (en_sleep en d x) = sy_local x"
  shows "new_bodies_complete en (sy_local s) (sy_local (snd (prefetch_one en fid stored h s)))"
proof (cases "eid_of (sm_mail stored)")
  case None
  then show ?thesis by (simp add: prefetch_one_def)
next
  case (Some e)
  let ?s0 = "en_sleep en INTER_REQUEST_DELAY s"
  obtain r s1 where r: "retry en (load_current en fid e) ?s0 = (r, s1)" by (cases "retry en (load_current en fid e) ?s0")
  have l1: "sy_local s1 = sy_local s"
    using retry_from_local [OF sl, where f = "load_current en fid e" and n = MAX_RETRIES and delay = 1000 and s = ?s0]
      r sl load_current_local [of en fid e] by (simp add: retry_def)
  show ?thesis
  proof (cases "\<exists>m d. r = Inr (Some (m, d))")
    case False
    then show ?thesis using Some r l1
      by (auto simp: prefetch_one_def split: sum.split option.split)
  next
    case True
    then obtain m d where md: "r = Inr (Some (m, d))" by blast
    obtain w where w: "fst (bk_load_mail_details (en_backend en) m w) = Inr d"
      using retry_from_result [of en MAX_RETRIES 1000 "load_current en fid e" ?s0] r md load_current_details
      unfolding retry_def by blast
    obtain a s2 where a: "call (bk_load_attachments (en_backend en) m) s1 = (a, s2)" by (cases "call (bk_load_attachments (en_backend en) m) s1")
    have l2: "sy_local s2 = sy_local s" and at: "fst (bk_load_attachments (en_backend en) m (sy_world s1)) = a"
      using a l1 call_simps(1,3) [of "bk_load_attachments (en_backend en) m" s1] by auto
    have "new_bodies_complete en (sy_local s) (sy_local (store_complete en fid e m d atts s2))" if "a = Inr atts" for atts
      unfolding new_bodies_complete_def complete_body_def
      using store_complete_files [of en fid e m d atts s2] l2 w at that by metis
    then show ?thesis using Some r md a l2
      by (auto simp: prefetch_one_def split: sum.split)
  qed
qed

lemma prefetch_list_complete:
  assumes sl: "\<forall>d x. sy_local (en_sleep en d x) = sy_local x"
  shows "new_bodies_complete en (sy_local s) (sy_local (snd (prefetch_list en fid ms h s)))"
proof (induction ms arbitrary: h s)
  case (Cons m ms)
  show ?case using prefetch_one_complete [OF sl, of s fid m h] Cons.IH new_bodies_trans
    by (cases "prefetch_one en fid m h s") fastforce
qed simp

lemma min_in: "xs \<noteq> [] \<Longrightarrow> Min (set xs) \<in> set xs"
  by simp

section \<open>Properties\<close>

text \<open>
  C1: A full sync makes the folder exactly what the server lists, in the server's order. A mail already
  in the folder keeps its UID and body state; the mails that are new get consecutive UIDs from the
  folder's counter, oldest first; and the UIDs of the folder stay distinct, positive and below the counter.
\<close>

theorem sync_folder_correct:
  assumes "fst (bk_load_mail_ids_for_folder (en_backend en) folder 0 (sy_world s)) = Inr mails"
    and "listing_ok mails" "ms_wf (sy_store s)" "db_ok (sy_local s)"
    and "uid_inv (fi_id folder) (sy_store s) (sy_local s)"
    and "next_uid (fi_id folder) (sy_local s) + int (length mails) \<le> 2 ^ 32"
  shows "let fid = fi_id folder; s' = snd (sync_folder en folder s);
             news = filter (\<lambda>m. mail_in_folder fid (the (eid_of (sm_mail m))) (sy_store s) = None) (get_folder fid (sy_store s')) in
      fst (sync_folder en folder s) = Inr ()
    \<and> map sm_mail (get_folder fid (sy_store s')) = mails
    \<and> ms_wf (sy_store s') \<and> uid_inv fid (sy_store s') (sy_local s')
    \<and> (\<forall>m e x. m \<in> set mails \<longrightarrow> eid_of m = Some e \<longrightarrow> mail_in_folder fid e (sy_store s) = Some x
         \<longrightarrow> mail_in_folder fid e (sy_store s') = Some (x\<lparr>sm_mail := m\<rparr>))
    \<and> rev (map sm_uid news) = map (\<lambda>i. nat (next_uid fid (sy_local s) + int i)) [0..<length news]"
proof -
  let ?fid = "fi_id folder" and ?s' = "snd (sync_folder en folder s)"
  let ?E = "get_folder ?fid (sy_store s)"
  let ?ex = "existing_map ?E"
  let ?F = "fresh_uids ?fid mails ?ex (sy_local s)"
  note sf = sync_folder_ok [OF assms(1)] and sl = sync_local_ok [OF assms(4), of en folder mails ?E]
  have wfE: "folder_wf ?E" using assms(3) by (rule ms_wf_get_folder)
  have n: "1 \<le> next_uid ?fid (sy_local s)" using assms(5) by (simp add: uid_inv_def)
  have g: "get_folder ?fid (sy_store ?s') = map (sync_mail ?ex ?F) mails" by (simp add: sf sl)
  have k: "map_of ?ex e = mail_in_folder ?fid e (sy_store s)" for e
    by (simp add: existing_map_find [OF wfE] mail_in_folder_get)
  have "ms_wf (sy_store ?s')" using assms(2,3) by (simp add: sf sl ms_wf_set_folder listing_folder_wf)
  moreover have "uid_inv ?fid (sy_store ?s') (sy_local ?s')"
    using uid_inv_synced [OF assms(2) wfE assms(5,6,4) refl] by (simp add: sf)
  moreover have "mail_in_folder ?fid e (sy_store ?s') = Some (x\<lparr>sm_mail := m\<rparr>)"
    if "m \<in> set mails" "eid_of m = Some e" "mail_in_folder ?fid e (sy_store s) = Some x" for m e x
    using that find_synced [OF assms(2) that(1,2), of ?ex ?F] sync_mail_known [OF that(2), of ?ex x] k
    by (simp add: mail_in_folder_get [of _ _ "sy_store ?s'"] g)
  moreover have "rev (map sm_uid (filter (\<lambda>m. mail_in_folder ?fid (the (eid_of (sm_mail m))) (sy_store s) = None) (map (sync_mail ?ex ?F) mails)))
      = map (\<lambda>i. nat (next_uid ?fid (sy_local s) + int i)) [0..<length (filter (\<lambda>m. map_of ?ex (the (eid_of m)) = None) mails)]"
  proof -
    have "length (new_element_ids mails ?ex) = length (filter (\<lambda>m. map_of ?ex (the (eid_of m)) = None) mails)"
      unfolding new_ids_filter [OF assms(2)] by (simp add: rev_filter [symmetric])
    then show ?thesis using fresh_uids_in_order [OF assms(2) n assms(6), of ?ex]
      by (simp add: filter_map comp_def k [symmetric])
  qed
  ultimately show ?thesis unfolding Let_def g
    using sf(1) by (simp add: comp_def filter_map k [symmetric])
qed

theorem sync_folder_correct_witness:
  "map sm_mail (get_folder ''f'' (sy_store (snd (sync_folder
      (sample_env (offline\<lparr>bk_load_mail_ids_for_folder := (\<lambda>f n w. (Inr [sample_mail ''b'', sample_mail ''a''], w))\<rparr>) (\<lambda>_. None))
      (sample_folder ''f'') (fresh_sys ()))))) = [sample_mail ''b'', sample_mail ''a'']"
  using sync_folder_correct [of "sample_env (offline\<lparr>bk_load_mail_ids_for_folder := (\<lambda>f n w. (Inr [sample_mail ''b'', sample_mail ''a''], w))\<rparr>) (\<lambda>_. None)"
      "sample_folder ''f''" "fresh_sys ()" "[sample_mail ''b'', sample_mail ''a'']"] ms_wf_new
  by (simp add: listing_ok_def uid_inv_def next_uid_def Let_def)

text \<open>
  C23: A restart shows the folder as the sync left it. Loading the folder from the local store after a sync
  gives the same mails with the same UIDs, provided the rows that were already there agreed with memory.
\<close>

theorem sync_then_restart:
  assumes "fst (bk_load_mail_ids_for_folder (en_backend en) folder 0 (sy_world s)) = Inr mails"
    and "listing_ok mails" "ms_wf (sy_store s)" "db_ok (sy_local s)" "wf_store (sy_local s)"
    and "uid_inv (fi_id folder) (sy_store s) (sy_local s)"
    and "next_uid (fi_id folder) (sy_local s) + int (length mails) \<le> 2 ^ 32"
    and "rows_agree (fi_id folder) mails (sy_store s) (sy_local s)"
    and "list_all (\<lambda>m. en_from_json en (en_to_json en m) = Some m) mails"
  shows "let s1 = snd (sync_folder en folder s);
             s2 = snd (load_cached_folder en folder (s1\<lparr>sy_store := new_mail_store\<rparr>))
         in mset (visible (sy_store s2) (fi_id folder)) = mset (visible (sy_store s1) (fi_id folder))"
proof -
  let ?fid = "fi_id folder" and ?s1 = "snd (sync_folder en folder s)"
  let ?E = "get_folder ?fid (sy_store s)"
  let ?u = "sync_uid (existing_map ?E) (fresh_uids ?fid mails (existing_map ?E) (sy_local s))"
  note sf = sync_folder_ok [OF assms(1)]
  have wfE: "folder_wf ?E" using assms(3) by (rule ms_wf_get_folder)
  have keys: "distinct (map md_element_id (t_mails (sy_local s)))" using assms(5) by (simp add: wf_store_def)
  obtain rs where rs: "load_folder_metadata ?fid (sy_local ?s1) = Inr rs" "distinct (map md_element_id rs)"
      "\<And>r. r \<in> set rs \<Longrightarrow> \<exists>m \<in> set mails. eid_of m = Some (md_element_id r) \<and> md_json r = en_to_json en m \<and> md_uid r = int (?u m)"
      "\<And>m. m \<in> set mails \<Longrightarrow> \<exists>r \<in> set rs. md_json r = en_to_json en m \<and> md_uid r = int (?u m)"
    using restart_rows [OF assms(2) wfE assms(8,4) keys refl, of en] unfolding sf(3) by blast
  define g where "g r = the (en_from_json en (md_json r))" for r :: mail_metadata
  have g: "en_from_json en (md_json r) = Some (g r) \<and> g r \<in> set mails \<and> eid_of (g r) = Some (md_element_id r)
      \<and> md_uid r = int (?u (g r))" if "r \<in> set rs" for r
    using rs(3) [OF that] assms(9) by (auto simp: g_def list_all_iff)
  have small: "?u m < 2 ^ 32" if "m \<in> set mails" for m
  proof -
    have "list_all (\<lambda>x. int (sm_uid x) < next_uid ?fid (sy_local ?s1)) (get_folder ?fid (sy_store ?s1))"
      using uid_inv_synced [OF assms(2) wfE assms(6,7,4) refl, of en] by (simp add: sf uid_inv_def list_all_iff)
    then have "int (?u m) < next_uid ?fid (sy_local s) + int (length mails)"
      using that length_new_ids [of mails "existing_map ?E"] assms(4)
      by (fastforce simp: sf sync_local_ok next_uid_sync_local list_all_iff)
    then have "int (?u m) < 2 ^ 32" using assms(7) by (rule less_le_trans)
    then show ?thesis by simp
  qed
  have v2: "visible (sy_store (snd (load_cached_folder en folder (?s1\<lparr>sy_store := new_mail_store\<rparr>)))) ?fid = map (\<lambda>r. (g r, as_u32 (md_uid r))) rs"
    by (rule load_cached_folder_visible) (use rs(1) g in auto)
  have v2': "\<dots> = map (\<lambda>r. (g r, ?u (g r))) rs" using g small by (intro map_cong) auto
  have v1: "visible (sy_store ?s1) ?fid = map (\<lambda>m. (m, ?u m)) mails"
    by (simp add: visible_def sf sync_local_ok [OF assms(4)] comp_def)
  have "inj_on g (set rs)" by (rule inj_onI) (metis g rs(2) distinct_map inj_onD option.inject)
  then have d1: "distinct (map (\<lambda>r. (g r, ?u (g r))) rs)" using rs(2) by (auto simp: distinct_map inj_on_def)
  have d2: "distinct (map (\<lambda>m. (m, ?u m)) mails)" using assms(2) by (simp add: listing_ok_def distinct_map inj_on_def)
  have "set (map (\<lambda>r. (g r, ?u (g r))) rs) = set (map (\<lambda>m. (m, ?u m)) mails)"
  proof -
    have "g ` set rs = set mails"
    proof
      show "g ` set rs \<subseteq> set mails" using g by blast
      show "set mails \<subseteq> g ` set rs"
      proof
        fix m assume m: "m \<in> set mails"
        then obtain r where r: "r \<in> set rs" "md_json r = en_to_json en m" using rs(4) by blast
        have "g r = m" unfolding g_def r(2) using assms(9) m by (simp add: list_all_iff)
        then show "m \<in> g ` set rs" using r(1) by blast
      qed
    qed
    then have "(\<lambda>m. (m, ?u m)) ` (g ` set rs) = (\<lambda>m. (m, ?u m)) ` set mails" by (rule arg_cong)
    then show ?thesis by (simp only: set_map image_image)
  qed
  then have "mset (map (\<lambda>r. (g r, ?u (g r))) rs) = mset (map (\<lambda>m. (m, ?u m)) mails)"
    unfolding set_eq_iff_mset_eq_distinct [OF d1 d2] .
  then show ?thesis unfolding Let_def v1 v2 v2' .
qed

theorem sync_then_restart_witness:
  "let en = sample_env (offline\<lparr>bk_load_mail_ids_for_folder := (\<lambda>f n w. (Inr [sample_mail ''b'', sample_mail ''a''], w))\<rparr>) (\<lambda>j. Some (sample_mail j));
       s1 = snd (sync_folder en (sample_folder ''f'') (fresh_sys ()));
       s2 = snd (load_cached_folder en (sample_folder ''f'') (s1\<lparr>sy_store := new_mail_store\<rparr>))
   in mset (visible (sy_store s2) ''f'') = mset (visible (sy_store s1) ''f'')"
  using sync_then_restart [of "sample_env (offline\<lparr>bk_load_mail_ids_for_folder := (\<lambda>f n w. (Inr [sample_mail ''b'', sample_mail ''a''], w))\<rparr>) (\<lambda>j. Some (sample_mail j))"
      "sample_folder ''f''" "fresh_sys ()" "[sample_mail ''b'', sample_mail ''a'']"] ms_wf_new wf_fresh_store
  by (simp add: listing_ok_def uid_inv_def next_uid_def Let_def rows_agree_def row_of_def)

text \<open>
  A retried call runs at most four times, with sleeps of 1, 2 and 4 seconds between the attempts; its
  result is that of the first attempt that succeeds, and of the fourth when none does.
\<close>

theorem retry_attempts:
  "retry en f s = (case List.find (\<lambda>i. \<not> isl (fst (f (attempt_state en f s i)))) [0, 1, 2, 3] of
      Some i \<Rightarrow> f (attempt_state en f s i)
    | None \<Rightarrow> f (attempt_state en f s 3))"
proof -
  have a: "attempt_state en f s 1 = en_sleep en 1000 (snd (f s))"
    "attempt_state en f s 2 = en_sleep en 2000 (snd (f (attempt_state en f s 1)))"
    "attempt_state en f s 3 = en_sleep en 4000 (snd (f (attempt_state en f s 2)))"
    by (simp_all add: numeral_2_eq_2 numeral_3_eq_3)
  show ?thesis
    unfolding retry_def MAX_RETRIES_def
    by (subst retry_from_step, subst retry_from_step, subst retry_from_step, subst retry_from_step)
       (simp add: backoff_simps a del: attempt_state.simps(2) One_nat_def add: attempt_state.simps(1))
qed

text \<open>
  The retry schedule of a mail whose details or attachments could not be loaded: between a minute and an
  hour after the failure, exactly an hour when retrying cannot help; and the prefetch loop wakes for the
  earliest attempt that is still to come.
\<close>

theorem attachment_retry_schedule:
  "(let r = after_failure previous retryable now in
      now + 60000 \<le> ar_next_attempt r \<and> ar_next_attempt r \<le> now + 3600000
    \<and> (retryable \<or> ar_next_attempt r = now + 3600000)
    \<and> 1 \<le> ar_failures r)
   \<and> (case next_attachment_retry history now of
        None \<Rightarrow> list_all (\<lambda>x. ar_next_attempt (snd x) \<le> now) history
      | Some d \<Rightarrow> 0 < d \<and> now + d \<in> set (map (\<lambda>x. ar_next_attempt (snd x)) history)
          \<and> list_all (\<lambda>x. ar_next_attempt (snd x) \<le> now \<or> now + d \<le> ar_next_attempt (snd x)) history)"
proof -
  define ds where "ds = filter (\<lambda>d. d \<noteq> 0) (List.map_filter
      (\<lambda>(_, r). if ar_next_attempt r \<ge> now then Some (ar_next_attempt r - now) else None) history)"
  have ds: "d \<in> set ds \<longleftrightarrow> 0 < d \<and> (\<exists>x \<in> set history. ar_next_attempt (snd x) = now + d)" for d
    unfolding ds_def by (force simp: List.map_filter_def split: if_splits)
  have nr: "next_attachment_retry history now = (if ds = [] then None else Some (Min (set ds)))"
    by (simp only: next_attachment_retry_def ds_def Let_def)
  have "case next_attachment_retry history now of
        None \<Rightarrow> list_all (\<lambda>x. ar_next_attempt (snd x) \<le> now) history
      | Some d \<Rightarrow> 0 < d \<and> now + d \<in> set (map (\<lambda>x. ar_next_attempt (snd x)) history)
          \<and> list_all (\<lambda>x. ar_next_attempt (snd x) \<le> now \<or> now + d \<le> ar_next_attempt (snd x)) history"
  proof (cases "ds = []")
    case True
    have "ar_next_attempt (snd x) \<le> now" if "x \<in> set history" for x
    proof (rule ccontr)
      assume "\<not> ar_next_attempt (snd x) \<le> now"
      then have "ar_next_attempt (snd x) - now \<in> set ds" unfolding ds using that by (intro conjI bexI [of _ x]) auto
      then show False using True by simp
    qed
    then show ?thesis using True by (simp add: nr list_all_iff)
  next
    case False
    have m: "Min (set ds) \<in> set ds" using False by simp
    have "ar_next_attempt (snd x) \<le> now \<or> now + Min (set ds) \<le> ar_next_attempt (snd x)" if "x \<in> set history" for x
    proof (cases "ar_next_attempt (snd x) \<le> now")
      case False
      then have "ar_next_attempt (snd x) - now \<in> set ds" unfolding ds using that by (intro conjI bexI [of _ x]) auto
      then have "Min (set ds) \<le> ar_next_attempt (snd x) - now" by simp
      then show ?thesis using False by linarith
    qed simp
    then have "list_all (\<lambda>x. ar_next_attempt (snd x) \<le> now \<or> now + Min (set ds) \<le> ar_next_attempt (snd x)) history"
      by (simp add: list_all_iff)
    moreover have "0 < Min (set ds)" "now + Min (set ds) \<in> set (map (\<lambda>x. ar_next_attempt (snd x)) history)"
      using m unfolding ds set_map by (blast, metis imageI)
    ultimately show ?thesis using False by (simp add: nr)
  qed
  moreover have "now + 60000 \<le> ar_next_attempt (after_failure previous retryable now)"
    by (simp add: after_failure_def Let_def ATTACHMENT_RETRY_MIN_def ATTACHMENT_RETRY_MAX_def min_def)
  ultimately show ?thesis
    by (auto simp: after_failure_def Let_def ATTACHMENT_RETRY_MAX_def split: option.split)
qed



end
