(* ===== verification/Backup.thy ===== *)
theory Backup
  imports FolderSystem Sync
begin

text \<open>
  The mailbox backup (\<open>backup.rs\<close>): every mail of every folder as an \<open>.eml\<close> file, read from the encrypted local
  cache or fetched from the server, with files that are already there skipped. The output directory is a map from
  paths (lists of components) to contents. Whether a directory can be created and how a write ends is up to the
  operating system: a write may fail before or after the file was truncated (\<open>write_private\<close> opens, truncates and
  then writes).
\<close>

type_synonym path = "string list"
type_synonym disk = "path \<Rightarrow> string option"

record 'w files =
  fw_mkdir :: "path \<Rightarrow> 'w \<Rightarrow> string option"
  fw_write :: "path \<Rightarrow> 'w \<Rightarrow> (string \<times> nat option) option"
  fw_show_error :: "attachment_error \<Rightarrow> string"

record backup_stats =
  bs_folders :: nat
  bs_mails_written :: nat
  bs_from_cache :: nat
  bs_from_server :: nat
  bs_skipped :: nat
  bs_bytes :: nat
  bs_errors :: "string list"

record backup_progress =
  bp_folder :: string
  bp_done :: nat
  bp_total :: nat

record 'w export =
  ex_sys :: "'w sys"
  ex_disk :: disk
  ex_stats :: backup_stats
  ex_progress :: "backup_progress list"

definition default_stats :: backup_stats where
  "default_stats = \<lparr>bs_folders = 0, bs_mails_written = 0, bs_from_cache = 0, bs_from_server = 0, bs_skipped = 0, bs_bytes = 0, bs_errors = []\<rparr>"

definition INTER_FETCH_DELAY :: nat where "INTER_FETCH_DELAY = 150"

section \<open>Names\<close>

definition illegal_char :: "char \<Rightarrow> bool" where
  "illegal_char c = (c \<in> set [CHR ''<'', CHR ''>'', CHR '':'', CHR 0x22, CHR ''/'', CHR 0x5C, CHR ''|'', CHR ''?'', CHR ''*''] \<or> byte_of c < 0x20)"

definition trimmed_char :: "char \<Rightarrow> bool" where
  "trimmed_char c = (c = CHR '' '' \<or> c = CHR ''.'')"

definition sanitize_segment :: "string \<Rightarrow> string" where
  "sanitize_segment s = (let cleaned = map (\<lambda>c. if illegal_char c then CHR ''_'' else c) s;
       trimmed = rev (dropWhile trimmed_char (rev (dropWhile trimmed_char cleaned)))
     in if trimmed = [] then ''_'' else trimmed)"

definition folder_output_dir :: "path \<Rightarrow> string \<Rightarrow> path" where
  "folder_output_dir base imap_path = base @ map sanitize_segment (filter (\<lambda>s. s \<noteq> []) (split_on IMAP_DELIMITER imap_path))"

definition date_stamp :: "nat \<Rightarrow> string" where
  "date_stamp millis = (let secs = millis div 1000; days = secs div 86400; tod = secs mod 86400 in
     case days_to_ymd days of (y, m, d) \<Rightarrow>
       pad_nat 4 y @ pad_nat 2 m @ pad_nat 2 d @ ''-'' @ pad_nat 2 (tod div 3600) @ pad_nat 2 ((tod mod 3600) div 60) @ pad_nat 2 (tod mod 60))"

definition eml_path :: "path \<Rightarrow> mail \<Rightarrow> string \<Rightarrow> path" where
  "eml_path dir m eid = dir @ [date_stamp (received_ms m) @ ''_'' @ sanitize_segment eid @ ''.eml'']"

section \<open>The export\<close>

definition write_private :: "'w files \<Rightarrow> path \<Rightarrow> string \<Rightarrow> 'w \<Rightarrow> disk \<Rightarrow> (string + unit) \<times> disk" where
  "write_private fl p contents w dk = (case fw_write fl p w of
     None \<Rightarrow> (Inr (), dk(p \<mapsto> contents))
   | Some (e, None) \<Rightarrow> (Inl e, dk)
   | Some (e, Some n) \<Rightarrow> (Inl e, dk(p \<mapsto> take n contents)))"

definition push_error :: "string \<Rightarrow> backup_stats \<Rightarrow> backup_stats" where
  "push_error e st = st\<lparr>bs_errors := bs_errors st @ [e]\<rparr>"

definition fetch_eml :: "'w env \<Rightarrow> 'w files \<Rightarrow> mail \<Rightarrow> string \<Rightarrow> 'w sys \<Rightarrow> backup_stats \<Rightarrow> string \<times> bool \<times> 'w sys \<times> backup_stats" where
  "fetch_eml en fl m eid s st = (case read_eml (en_crypto en) eid (sy_local s) of
     Inr (Some c) \<Rightarrow> (c, True, s, st)
   | _ \<Rightarrow>
     (case call (bk_load_mail_details (en_backend en) m) s of (d, s1) \<Rightarrow>
      case call (bk_load_attachments (en_backend en) m) s1 of (a, s2) \<Rightarrow>
        (mail_to_rfc2822 (en_base64 en) m (case d of Inr details \<Rightarrow> details | Inl _ \<Rightarrow> None) (case a of Inr atts \<Rightarrow> atts | Inl _ \<Rightarrow> []),
         False, en_sleep en INTER_FETCH_DELAY s2,
         (case a of Inr _ \<Rightarrow> st | Inl e \<Rightarrow> push_error (eid @ '': attachments: '' @ fw_show_error fl e) st))))"

definition count_written :: "string \<Rightarrow> bool \<Rightarrow> backup_stats \<Rightarrow> backup_stats" where
  "count_written eml from_cache st = (let st1 = st\<lparr>bs_mails_written := bs_mails_written st + 1, bs_bytes := bs_bytes st + length eml\<rparr> in
     if from_cache then st1\<lparr>bs_from_cache := bs_from_cache st1 + 1\<rparr> else st1\<lparr>bs_from_server := bs_from_server st1 + 1\<rparr>)"

definition note_progress :: "folder_info \<Rightarrow> nat \<Rightarrow> nat \<Rightarrow> 'w export \<Rightarrow> 'w export" where
  "note_progress folder i tot ex = ex\<lparr>ex_progress := ex_progress ex @ [\<lparr>bp_folder = fi_imap_path folder, bp_done = i + 1, bp_total = tot\<rparr>]\<rparr>"

definition export_mail :: "'w env \<Rightarrow> 'w files \<Rightarrow> folder_info \<Rightarrow> path \<Rightarrow> nat \<Rightarrow> nat \<Rightarrow> mail \<Rightarrow> 'w export \<Rightarrow> 'w export" where
  "export_mail en fl folder dir tot i m ex = (case mail_id m of None \<Rightarrow> ex | Some ident \<Rightarrow>
     (let eid = element_id ident; p = eml_path dir m eid in
      if ex_disk ex p \<noteq> None
      then note_progress folder i tot (ex\<lparr>ex_stats := (ex_stats ex)\<lparr>bs_skipped := bs_skipped (ex_stats ex) + 1\<rparr>\<rparr>)
      else case fetch_eml en fl m eid (ex_sys ex) (ex_stats ex) of (eml, from_cache, s1, st1) \<Rightarrow>
           case write_private fl p eml (sy_world s1) (ex_disk ex) of (r, dk) \<Rightarrow>
             note_progress folder i tot (ex\<lparr>ex_sys := s1, ex_disk := dk,
               ex_stats := (case r of Inr _ \<Rightarrow> count_written eml from_cache st1 | Inl e \<Rightarrow> push_error (eid @ '': write: '' @ e) st1)\<rparr>)))"

fun export_mails :: "'w env \<Rightarrow> 'w files \<Rightarrow> folder_info \<Rightarrow> path \<Rightarrow> nat \<Rightarrow> nat \<Rightarrow> mail list \<Rightarrow> 'w export \<Rightarrow> 'w export" where
  "export_mails en fl folder dir tot i [] ex = ex"
| "export_mails en fl folder dir tot i (m # ms) ex = export_mails en fl folder dir tot (Suc i) ms (export_mail en fl folder dir tot i m ex)"

definition make_dir :: "'w files \<Rightarrow> path \<Rightarrow> 'w export \<Rightarrow> string option" where
  "make_dir fl p ex = map_option (\<lambda>e. ''Cannot create '' @ join ''/'' p @ '': '' @ e) (fw_mkdir fl p (sy_world (ex_sys ex)))"

definition export_folder :: "'w env \<Rightarrow> 'w files \<Rightarrow> path \<Rightarrow> folder_info \<Rightarrow> 'w export \<Rightarrow> (string + unit) \<times> 'w export" where
  "export_folder en fl output folder ex = (let dir = folder_output_dir output (fi_imap_path folder) in
     case make_dir fl dir ex of Some e \<Rightarrow> (Inl e, ex) | None \<Rightarrow>
     let ex1 = ex\<lparr>ex_stats := (ex_stats ex)\<lparr>bs_folders := bs_folders (ex_stats ex) + 1\<rparr>\<rparr> in
     case call (bk_load_mail_ids_for_folder (en_backend en) folder 0) (ex_sys ex1) of
       (Inl e, s1) \<Rightarrow> (Inl e, ex1\<lparr>ex_sys := s1\<rparr>)
     | (Inr mails, s1) \<Rightarrow> (Inr (), export_mails en fl folder dir (length mails) 0 mails (ex1\<lparr>ex_sys := s1\<rparr>)))"

fun export_folders :: "'w env \<Rightarrow> 'w files \<Rightarrow> path \<Rightarrow> folder_info list \<Rightarrow> 'w export \<Rightarrow> (string + backup_stats) \<times> 'w export" where
  "export_folders en fl output [] ex = (Inr (ex_stats ex), ex)"
| "export_folders en fl output (f # fs) ex = (case export_folder en fl output f ex of
     (Inl e, ex1) \<Rightarrow> (Inl e, ex1) | (Inr _, ex1) \<Rightarrow> export_folders en fl output fs ex1)"

definition export_eml :: "'w env \<Rightarrow> 'w files \<Rightarrow> path \<Rightarrow> 'w sys \<Rightarrow> disk \<Rightarrow> (string + backup_stats) \<times> 'w export" where
  "export_eml en fl output s dk = (let ex = \<lparr>ex_sys = s, ex_disk = dk, ex_stats = default_stats, ex_progress = []\<rparr> in
     case make_dir fl output ex of Some e \<Rightarrow> (Inl e, ex) | None \<Rightarrow>
     case call (bk_list_folders (en_backend en)) s of
       (Inl e, s1) \<Rightarrow> (Inl e, ex\<lparr>ex_sys := s1\<rparr>)
     | (Inr folders, s1) \<Rightarrow> export_folders en fl output folders (ex\<lparr>ex_sys := s1\<rparr>))"

section \<open>Names stay inside the output directory\<close>

definition safe_segment :: "string \<Rightarrow> bool" where
  "safe_segment s = (s \<noteq> [] \<and> s \<noteq> ''.'' \<and> s \<noteq> ''..'' \<and> (\<forall>c \<in> set s. \<not> illegal_char c))"

lemma illegal_under [simp]: "\<not> illegal_char CHR ''_''" "\<not> illegal_char CHR ''-''" "\<not> illegal_char CHR ''.''"
  by (simp_all add: illegal_char_def)

lemma set_sanitize: "set (sanitize_segment s) \<subseteq> insert CHR ''_'' {c \<in> set s. \<not> illegal_char c}"
  by (auto simp: sanitize_segment_def Let_def dest!: set_dropWhileD split: if_splits)

lemma hd_sanitize: "sanitize_segment s \<noteq> [] \<and> \<not> trimmed_char (last (sanitize_segment s))"
proof (cases "sanitize_segment s = ''_''")
  case False
  then have "sanitize_segment s = rev (dropWhile trimmed_char (rev (dropWhile trimmed_char (map (\<lambda>c. if illegal_char c then CHR ''_'' else c) s))))"
    and "sanitize_segment s \<noteq> []" by (auto simp: sanitize_segment_def Let_def)
  then show ?thesis by (metis hd_dropWhile last_rev rev_is_Nil_conv)
qed (simp add: trimmed_char_def)

lemma sanitize_safe: "safe_segment (sanitize_segment s)"
  using hd_sanitize [of s] set_sanitize [of s] by (auto simp: safe_segment_def trimmed_char_def)

lemma digit_not_illegal: "is_digit c \<Longrightarrow> \<not> illegal_char c"
  by (auto simp: is_digit_def illegal_char_def)

section \<open>What the export does to the disk\<close>

lemma note_progress_simps [simp]:
  "ex_disk (note_progress f i n ex) = ex_disk ex" "ex_sys (note_progress f i n ex) = ex_sys ex" "ex_stats (note_progress f i n ex) = ex_stats ex"
  by (simp_all add: note_progress_def)

definition keeps :: "disk \<Rightarrow> disk \<Rightarrow> bool" where
  "keeps dk dk2 = (\<forall>p x. dk p = Some x \<longrightarrow> dk2 p = Some x)"

text \<open>It also only creates files at safe places below the output directory.\<close>

definition grows :: "path \<Rightarrow> disk \<Rightarrow> disk \<Rightarrow> bool" where
  "grows out dk dk2 = (\<forall>p. dk2 p \<noteq> dk p \<longrightarrow> dk p = None \<and> (\<exists>segs. p = out @ segs \<and> segs \<noteq> [] \<and> list_all safe_segment segs))"

lemma write_private_disk: "\<exists>y. snd (write_private fl p c w dk) = dk(p := y) \<or> snd (write_private fl p c w dk) = dk"
  by (auto simp: write_private_def split: option.split)

lemma date_stamp_safe: "c \<in> set (date_stamp ms) \<Longrightarrow> \<not> illegal_char c"
  using pad_nat_digits by (auto simp: date_stamp_def Let_def list_all_iff digit_not_illegal split: prod.splits)

lemma eml_path_safe: "\<exists>segs. eml_path (folder_output_dir out ip) m e = out @ segs \<and> segs \<noteq> [] \<and> list_all safe_segment segs"
proof -
  have "safe_segment (date_stamp (received_ms m) @ ''_'' @ sanitize_segment e @ ''.eml'')"
    using date_stamp_safe set_sanitize [of e] by (auto simp: safe_segment_def append_eq_Cons_conv illegal_char_def)
  then show ?thesis
    by (auto simp: eml_path_def folder_output_dir_def list_all_iff sanitize_safe)
qed

lemma export_mail_disk: "ex_disk (export_mail en fl f dir n i m ex) = (case mail_id m of None \<Rightarrow> ex_disk ex | Some ident \<Rightarrow>
    let p = eml_path dir m (element_id ident); x = fetch_eml en fl m (element_id ident) (ex_sys ex) (ex_stats ex) in
    if ex_disk ex p \<noteq> None then ex_disk ex else snd (write_private fl p (fst x) (sy_world (fst (snd (snd x)))) (ex_disk ex)))"
  by (simp add: export_mail_def Let_def case_prod_beta split: option.split)

text \<open>A relation between disks that every single write respects is respected by the whole export.\<close>

locale disk_relation =
  fixes R :: "disk \<Rightarrow> disk \<Rightarrow> bool" and out :: path and fl :: "'w files"
  assumes same: "R dk dk" and trans: "R a b \<Longrightarrow> R b c \<Longrightarrow> R a c"
    and writes: "p = eml_path (folder_output_dir out ip) m e \<Longrightarrow> dk p = None \<Longrightarrow> R dk (snd (write_private fl p x w dk))"
begin

lemma mail_step: "R (ex_disk ex) (ex_disk (export_mail en fl f (folder_output_dir out ip) n i m ex))"
  by (simp add: export_mail_disk Let_def writes same split: option.split)

lemma mails_steps: "R (ex_disk ex) (ex_disk (export_mails en fl f (folder_output_dir out ip) n i ms ex))"
proof (induction ms arbitrary: i ex)
  case (Cons m ms)
  show ?case using trans [OF mail_step Cons.IH] by simp
qed (simp add: same)

lemma folder_step: "R (ex_disk ex) (ex_disk (snd (export_folder en fl out f ex)))"
proof -
  have "R (ex_disk ex) (ex_disk (export_mails en fl f (folder_output_dir out ip) n i ms (ex\<lparr>ex_stats := st, ex_sys := s\<rparr>)))" for ip n i ms st s
    using mails_steps [of "ex\<lparr>ex_stats := st, ex_sys := s\<rparr>"] by simp
  then show ?thesis by (auto simp: export_folder_def Let_def same split: option.split sum.split prod.split)
qed

lemma folders_steps: "R (ex_disk ex) (ex_disk (snd (export_folders en fl out fs ex)))"
proof (induction fs arbitrary: ex)
  case (Cons f fs)
  show ?case using folder_step [of ex en f] trans [OF _ Cons.IH] by (auto split: prod.split sum.split)
qed (simp add: same)

lemma export_steps: "R dk (ex_disk (snd (export_eml en fl out s dk)))"
proof -
  have "R dk (ex_disk (snd (export_folders en fl out fs \<lparr>ex_sys = s1, ex_disk = dk, ex_stats = st, ex_progress = pr\<rparr>)))" for fs s1 st pr
    using folders_steps [of "\<lparr>ex_sys = s1, ex_disk = dk, ex_stats = st, ex_progress = pr\<rparr>"] by simp
  then show ?thesis by (auto simp: export_eml_def Let_def same split: option.split sum.split prod.split)
qed

end

interpretation kept: disk_relation keeps out fl for out fl
proof (unfold_locales, goal_cases)
  case (3 p ip m e dk x w)
  then show ?case using write_private_disk [of fl p x w dk] by (auto simp: keeps_def)
qed (simp_all add: keeps_def)

interpretation confined: disk_relation "grows out" out fl for out fl
proof (unfold_locales, goal_cases)
  case (2 a b c)
  then show ?case unfolding grows_def by metis
next
  case (3 p ip m e dk x w)
  then show ?case using write_private_disk [of fl p x w dk] eml_path_safe [of out ip m e] by (auto simp: grows_def split: if_splits)
qed (simp add: grows_def)

text \<open>A reliable disk: no write fails. A quiet server: every listing of a folder gives the same mails.\<close>

definition reliable :: "'w files \<Rightarrow> bool" where
  "reliable fl = (\<forall>p w. fw_mkdir fl p w = None \<and> fw_write fl p w = None)"

definition quiet :: "'w backend \<Rightarrow> folder_info list \<Rightarrow> (folder_info \<Rightarrow> mail list) \<Rightarrow> bool" where
  "quiet bk folders mails = (\<forall>w. fst (bk_list_folders bk w) = Inr folders
     \<and> (\<forall>f \<in> set folders. fst (bk_load_mail_ids_for_folder bk f 0 w) = Inr (mails f)))"

definition exported :: "path \<Rightarrow> folder_info \<Rightarrow> mail \<Rightarrow> disk \<Rightarrow> bool" where
  "exported out f m dk = (case mail_id m of None \<Rightarrow> True
     | Some ident \<Rightarrow> dk (eml_path (folder_output_dir out (fi_imap_path f)) m (element_id ident)) \<noteq> None)"

lemma exported_keeps: "exported out f m dk \<Longrightarrow> keeps dk dk2 \<Longrightarrow> exported out f m dk2"
  by (auto simp: exported_def keeps_def split: option.splits)

lemma export_mail_exported: "reliable fl \<Longrightarrow> exported out f m (ex_disk (export_mail en fl f (folder_output_dir out (fi_imap_path f)) n i m ex))"
  by (simp add: exported_def export_mail_disk Let_def write_private_def reliable_def split: option.split)

lemma export_mails_exported:
  "reliable fl \<Longrightarrow> m \<in> set ms \<Longrightarrow> exported out f m (ex_disk (export_mails en fl f (folder_output_dir out (fi_imap_path f)) n i ms ex))"
proof (induction ms arbitrary: i ex)
  case (Cons a ms)
  then show ?case using exported_keeps [OF export_mail_exported kept.mails_steps] by (cases "m = a") auto
qed simp

lemma export_folder_complete:
  assumes "reliable fl" "\<forall>w. fst (bk_load_mail_ids_for_folder (en_backend en) f 0 w) = Inr ms"
  shows "fst (export_folder en fl out f ex) = Inr () \<and> (\<forall>m \<in> set ms. exported out f m (ex_disk (snd (export_folder en fl out f ex))))"
proof -
  obtain s1 where "call (bk_load_mail_ids_for_folder (en_backend en) f 0) (ex_sys ex) = (Inr ms, s1)"
    using assms(2) by (cases "call (bk_load_mail_ids_for_folder (en_backend en) f 0) (ex_sys ex)") (metis call_simps(1) fst_conv)
  then show ?thesis using assms(1) export_mails_exported [OF assms(1)]
    by (simp add: export_folder_def make_dir_def reliable_def)
qed

lemma export_folders_complete:
  assumes "reliable fl" "\<forall>w. \<forall>f \<in> set fs. fst (bk_load_mail_ids_for_folder (en_backend en) f 0 w) = Inr (mails f)"
  shows "\<exists>st. fst (export_folders en fl out fs ex) = Inr st \<and> (\<forall>f \<in> set fs. \<forall>m \<in> set (mails f). exported out f m (ex_disk (snd (export_folders en fl out fs ex))))"
  using assms(2)
proof (induction fs arbitrary: ex)
  case (Cons f fs)
  obtain ex1 where ex1: "export_folder en fl out f ex = (Inr (), ex1)" "\<forall>m \<in> set (mails f). exported out f m (ex_disk ex1)"
    using export_folder_complete [OF assms(1), of en f "mails f" out ex] Cons.prems by (cases "export_folder en fl out f ex") auto
  have "exported out f m (ex_disk (snd (export_folders en fl out fs ex1)))" if "m \<in> set (mails f)" for m
    using exported_keeps [OF _ kept.folders_steps] ex1(2) that by blast
  with Cons.IH [of ex1] Cons.prems ex1(1) show ?case by auto
qed simp

text \<open>Counting: every identified mail is written or skipped.\<close>

definition handled :: "backup_stats \<Rightarrow> nat" where
  "handled st = bs_mails_written st + bs_skipped st"

definition identified :: "mail list \<Rightarrow> nat" where
  "identified ms = length (filter (\<lambda>m. mail_id m \<noteq> None) ms)"

lemma fetch_eml_stats: "handled (snd (snd (snd (fetch_eml en fl m e s st)))) = handled st"
  by (auto simp: fetch_eml_def handled_def push_error_def split: sum.split prod.split option.split)

lemma export_mail_handled: "reliable fl \<Longrightarrow> handled (ex_stats (export_mail en fl f dir n i m ex)) = handled (ex_stats ex) + identified [m]"
  using fetch_eml_stats [of en fl m "element_id (the (mail_id m))" "ex_sys ex" "ex_stats ex"]
  by (auto simp: export_mail_def Let_def write_private_def reliable_def identified_def handled_def count_written_def
      split: option.split prod.split)

lemma export_mails_handled: "reliable fl \<Longrightarrow> handled (ex_stats (export_mails en fl f dir n i ms ex)) = handled (ex_stats ex) + identified ms"
  by (induction ms arbitrary: i ex) (simp_all add: export_mail_handled identified_def)

lemma export_folders_handled:
  assumes "reliable fl" "\<forall>w. \<forall>f \<in> set fs. fst (bk_load_mail_ids_for_folder (en_backend en) f 0 w) = Inr (mails f)"
    and "fst (export_folders en fl out fs ex) = Inr st"
  shows "handled st = handled (ex_stats ex) + (\<Sum>f\<leftarrow>fs. identified (mails f))"
  using assms(2,3)
proof (induction fs arbitrary: ex)
  case (Cons f fs)
  obtain s1 where "call (bk_load_mail_ids_for_folder (en_backend en) f 0) (ex_sys ex) = (Inr (mails f), s1)"
    using Cons.prems(1) by (cases "call (bk_load_mail_ids_for_folder (en_backend en) f 0) (ex_sys ex)") (metis call_simps(1) fst_conv list.set_intros(1))
  with Cons assms(1) show ?case
    by (simp add: export_folder_def make_dir_def reliable_def Let_def export_mails_handled [OF assms(1)]) (simp add: handled_def)
qed simp

text \<open>A mail that is already exported costs nothing.\<close>

definition same_outcome :: "'w export \<Rightarrow> 'w export \<Rightarrow> bool" where
  "same_outcome ex ex2 = (ex_disk ex2 = ex_disk ex \<and> bs_mails_written (ex_stats ex2) = bs_mails_written (ex_stats ex)
     \<and> bs_errors (ex_stats ex2) = bs_errors (ex_stats ex))"

lemma export_mails_skip:
  "\<forall>m \<in> set ms. exported out f m (ex_disk ex) \<Longrightarrow> same_outcome ex (export_mails en fl f (folder_output_dir out (fi_imap_path f)) n i ms ex)
    \<and> ex_sys (export_mails en fl f (folder_output_dir out (fi_imap_path f)) n i ms ex) = ex_sys ex"
proof (induction ms arbitrary: i ex)
  case (Cons m ms)
  let ?ex1 = "export_mail en fl f (folder_output_dir out (fi_imap_path f)) n i m ex"
  have "same_outcome ex ?ex1 \<and> ex_sys ?ex1 = ex_sys ex" using Cons.prems
    by (auto simp: same_outcome_def export_mail_def exported_def Let_def split: option.splits)
  with Cons.IH [of ?ex1] Cons.prems show ?case by (auto simp: same_outcome_def)
qed (simp add: same_outcome_def)

lemma export_folders_skip:
  assumes "\<forall>p w. fw_mkdir fl p w = None" "\<forall>w. \<forall>f \<in> set fs. fst (bk_load_mail_ids_for_folder (en_backend en) f 0 w) = Inr (mails f)"
    and "\<forall>f \<in> set fs. \<forall>m \<in> set (mails f). exported out f m (ex_disk ex)"
  shows "\<exists>ex2. export_folders en fl out fs ex = (Inr (ex_stats ex2), ex2) \<and> same_outcome ex ex2"
  using assms(2,3)
proof (induction fs arbitrary: ex)
  case (Cons f fs)
  obtain s1 where c: "call (bk_load_mail_ids_for_folder (en_backend en) f 0) (ex_sys ex) = (Inr (mails f), s1)"
    using Cons.prems(1) by (cases "call (bk_load_mail_ids_for_folder (en_backend en) f 0) (ex_sys ex)") (metis call_simps(1) fst_conv list.set_intros(1))
  let ?ex1 = "ex\<lparr>ex_stats := (ex_stats ex)\<lparr>bs_folders := bs_folders (ex_stats ex) + 1\<rparr>, ex_sys := s1\<rparr>"
  obtain ex2 where f: "export_folder en fl out f ex = (Inr (), ex2)" and "same_outcome ?ex1 ex2"
    using c assms(1) export_mails_skip [of "mails f" out f ?ex1 en fl "length (mails f)" 0] Cons.prems(2)
    by (auto simp: export_folder_def make_dir_def Let_def)
  then have o1: "same_outcome ex ex2" by (simp add: same_outcome_def)
  then obtain ex3 where "export_folders en fl out fs ex2 = (Inr (ex_stats ex3), ex3)" "same_outcome ex2 ex3"
    using Cons.IH [of ex2] Cons.prems by (auto simp: same_outcome_def)
  then show ?case using f o1 by (auto simp: same_outcome_def)
qed (simp add: same_outcome_def)

section \<open>Properties\<close>


definition healthy_files :: "'w files" where
  "healthy_files = \<lparr>fw_mkdir = (\<lambda>_ _. None), fw_write = (\<lambda>_ _. None), fw_show_error = (\<lambda>_. ''error'')\<rparr>"

definition one_folder :: "unit backend" where
  "one_folder = offline\<lparr>bk_list_folders := (\<lambda>w. (Inr [sample_folder ''INBOX''], w)),
     bk_load_mail_ids_for_folder := (\<lambda>f n w. (Inr [sample_mail ''m1''], w))\<rparr>"

lemma sample_files: "reliable healthy_files" "quiet one_folder [sample_folder ''INBOX''] (\<lambda>_. [sample_mail ''m1''])"
  by (simp_all add: reliable_def healthy_files_def quiet_def one_folder_def)


text \<open>
  A backup resumes. Where the files of all mails are already there, running the export again fetches nothing,
  writes nothing, reports no error and leaves the disk as it is, whatever the disk's writes would have done.
\<close>

theorem backup_resumes:
  assumes "\<forall>p w. fw_mkdir fl p w = None" "quiet (en_backend en) folders mails"
    and "\<forall>f \<in> set folders. \<forall>m \<in> set (mails f). exported out f m dk"
  shows "\<exists>st ex. export_eml en fl out s dk = (Inr st, ex) \<and> ex_disk ex = dk \<and> bs_mails_written st = 0 \<and> bs_errors st = []"
proof -
  obtain s1 where c: "call (bk_list_folders (en_backend en)) s = (Inr folders, s1)"
    using assms(2) by (cases "call (bk_list_folders (en_backend en)) s") (metis call_simps(1) fst_conv quiet_def)
  let ?ex = "\<lparr>ex_sys = s1, ex_disk = dk, ex_stats = default_stats, ex_progress = []\<rparr>"
  have "\<exists>ex2. export_folders en fl out folders ?ex = (Inr (ex_stats ex2), ex2) \<and> same_outcome ?ex ex2"
    using export_folders_skip [OF assms(1), of folders en mails out ?ex] assms(2,3) by (simp add: quiet_def)
  moreover have "export_eml en fl out s dk = export_folders en fl out folders ?ex"
    using c assms(1) by (simp add: export_eml_def Let_def make_dir_def)
  ultimately show ?thesis by (auto simp: same_outcome_def default_stats_def)
qed

theorem backup_resumes_witness:
  "\<exists>st ex. export_eml (sample_env one_folder (\<lambda>_. None)) healthy_files [''out''] (fresh_sys ()) (\<lambda>_. Some ''x'') = (Inr st, ex)
    \<and> ex_disk ex = (\<lambda>_. Some ''x'') \<and> bs_mails_written st = 0 \<and> bs_errors st = []"
proof -
  have "quiet (en_backend (sample_env one_folder (\<lambda>_. None))) [sample_folder ''INBOX''] (\<lambda>_. [sample_mail ''m1''])"
    using sample_files(2) by simp
  from backup_resumes [OF _ this, of healthy_files "[''out'']" "\<lambda>_. Some ''x''" "fresh_sys ()"] show ?thesis
    by (simp add: healthy_files_def exported_def)
qed

text \<open>
  C19: A backup creates files only below its output directory and changes none. Whatever the folder names and ids are
  and however the run ends, a path whose contents differ afterwards did not exist before and is the output directory
  followed by segments that are neither empty nor \<open>.\<close> nor \<open>..\<close> and contain no separator or control character.
\<close>

theorem backup_confined:
  assumes "ex_disk (snd (export_eml en fl out s dk)) p \<noteq> dk p"
  shows "dk p = None \<and> (\<exists>segs. p = out @ segs \<and> segs \<noteq> [] \<and> list_all safe_segment segs)"
  using confined.export_steps [of out dk en fl s] assms by (simp add: grows_def)

theorem backup_confined_witness:
  "\<exists>p. ex_disk (snd (export_eml (sample_env one_folder (\<lambda>_. None)) healthy_files [''out''] (fresh_sys ()) (\<lambda>_. None))) p \<noteq> None
    \<and> (\<exists>segs. p = ''out'' # segs \<and> segs \<noteq> [] \<and> list_all safe_segment segs)"
proof -
  let ?en = "sample_env one_folder (\<lambda>_. None) :: unit env"
  let ?ex = "\<lparr>ex_sys = fresh_sys (), ex_disk = \<lambda>_. None, ex_stats = default_stats, ex_progress = []\<rparr> :: unit export"
  let ?p = "eml_path (folder_output_dir [''out''] (fi_imap_path (sample_folder ''INBOX''))) (sample_mail ''m1'') ''m1''"
  have "exported [''out''] (sample_folder ''INBOX'') (sample_mail ''m1'') (ex_disk (snd (export_folders ?en healthy_files [''out''] [sample_folder ''INBOX''] ?ex)))"
    using export_folders_complete [OF sample_files(1), of "[sample_folder ''INBOX'']" ?en "\<lambda>_. [sample_mail ''m1'']" "[''out'']" ?ex] sample_files(2)
    by (auto simp: quiet_def)
  moreover have "snd (export_eml ?en healthy_files [''out''] (fresh_sys ()) (\<lambda>_. None)) = snd (export_folders ?en healthy_files [''out''] [sample_folder ''INBOX''] ?ex)"
    by (simp add: export_eml_def make_dir_def healthy_files_def call_def one_folder_def fresh_sys_def Let_def del: export_folders.simps)
  ultimately have "ex_disk (snd (export_eml ?en healthy_files [''out''] (fresh_sys ()) (\<lambda>_. None))) ?p \<noteq> None"
    by (simp add: exported_def del: export_folders.simps)
  with backup_confined [of ?en healthy_files "[''out'']" "fresh_sys ()" "\<lambda>_. None" ?p] show ?thesis by auto
qed

text \<open>
  A mail whose body cannot be loaded is written without it, and nothing is recorded: the next run finds the file and
  skips the mail.
\<close>

theorem lost_body_unreported:
  assumes "mail_id m = Some ident" "ex_disk ex (eml_path dir m (element_id ident)) = None" "reliable fl"
    and "read_eml (en_crypto en) (element_id ident) (sy_local (ex_sys ex)) = Inr None"
    and "\<forall>w. fst (bk_load_mail_details (en_backend en) m w) = Inl e" "\<forall>w. fst (bk_load_attachments (en_backend en) m w) = Inr atts"
  shows "ex_disk (export_mail en fl f dir n i m ex) (eml_path dir m (element_id ident)) = Some (mail_to_rfc2822 (en_base64 en) m None atts)
    \<and> bs_errors (ex_stats (export_mail en fl f dir n i m ex)) = bs_errors (ex_stats ex)"
proof -
  have "\<exists>s2. fetch_eml en fl m (element_id ident) (ex_sys ex) (ex_stats ex) = (mail_to_rfc2822 (en_base64 en) m None atts, False, s2, ex_stats ex)"
    using assms(4-6) by (simp add: fetch_eml_def case_prod_beta)
  then show ?thesis using assms(1-3) by (auto simp: export_mail_def Let_def write_private_def reliable_def count_written_def)
qed

end
