(* ===== verification/EntryId.thy ===== *)
theory EntryId
  imports Base64 "HOL-Library.Word"
begin

text \<open>
  The element id of a \<open>MailSetEntry\<close> (\<open>crates/tuta/src/mail_set_entry_id.rs\<close>): 4 bytes of
  timestamp, shifted right by 10 bits, and the 9 raw bytes of the mail id. Timestamps are 64-bit
  words and their truncation 32-bit words. The base64url and base64ext engines are parameters.
\<close>

definition MAIL_ID_BYTES :: nat where "MAIL_ID_BYTES = 9"
definition TIMESTAMP_BYTES :: nat where "TIMESTAMP_BYTES = 4"
definition MAIL_SET_ENTRY_ID_BYTES :: nat where "MAIL_SET_ENTRY_ID_BYTES = TIMESTAMP_BYTES + MAIL_ID_BYTES"
definition TIMESTAMP_SHIFT :: nat where "TIMESTAMP_SHIFT = 10"

datatype mail_set_entry_id_error = InvalidBase64Url | WrongLength nat | InvalidMailIdEncoding

text \<open>\<open>u32::to_be_bytes\<close>, \<open>u32::from_be_bytes\<close>\<close>

definition to_be_bytes :: "32 word \<Rightarrow> string" where
  "to_be_bytes w = [char_of (unat (drop_bit 24 w)), char_of (unat (drop_bit 16 w)),
     char_of (unat (drop_bit 8 w)), char_of (unat w)]"

definition from_be_bytes :: "string \<Rightarrow> 32 word" where
  "from_be_bytes bs = foldl (\<lambda>w b. push_bit 8 w + of_nat (byte_of b)) 0 bs"

text \<open>\<open>construct\<close>; \<open>None\<close> is the panic on an id that is not a Tuta \<open>GeneratedId\<close>.\<close>

definition construct :: "base64 \<Rightarrow> base64 \<Rightarrow> 64 word \<Rightarrow> string \<Rightarrow> string option" where
  "construct url ext receive_date mail_id =
     (let truncated = ucast (drop_bit TIMESTAMP_SHIFT receive_date) :: 32 word
      in case b64_decode ext mail_id of None \<Rightarrow> None
       | Some mail_bytes \<Rightarrow> if length mail_bytes \<noteq> MAIL_ID_BYTES then None
           else Some (b64_encode url (to_be_bytes truncated @ mail_bytes)))"

definition deconstruct :: "base64 \<Rightarrow> base64 \<Rightarrow> string \<Rightarrow> mail_set_entry_id_error + (64 word \<times> string)" where
  "deconstruct url ext cid = (case b64_decode url cid of
     None \<Rightarrow> Inl InvalidBase64Url
   | Some buffer \<Rightarrow> if length buffer \<noteq> MAIL_SET_ENTRY_ID_BYTES then Inl (WrongLength (length buffer))
       else let truncated = from_be_bytes (take TIMESTAMP_BYTES buffer);
                millis = push_bit TIMESTAMP_SHIFT (ucast truncated :: 64 word)
            in Inr (millis, b64_encode ext (drop TIMESTAMP_BYTES buffer)))"

section \<open>Bytes of a word\<close>

lemma be_bytes_nat:
  fixes n :: nat
  shows "((n div 16777216 mod 256 * 256 + n div 65536 mod 256) * 256 + n div 256 mod 256) * 256 + n mod 256 = n mod 4294967296"
proof -
  define a where "a = n div 256"
  define b where "b = a div 256"
  define c where "c = b div 256"
  have d: "n div 65536 = b" "n div 16777216 = c" by (simp_all add: a_def b_def c_def div_mult2_eq [symmetric])
  have m: "n mod (256 * x) = 256 * (n div 256 mod x) + n mod 256" for x by (rule mod_mult2_eq)
  have m2: "a mod (256 * x) = 256 * (b mod x) + a mod 256" for x unfolding b_def by (rule mod_mult2_eq)
  have m3: "b mod (256 * x) = 256 * (c mod x) + b mod 256" for x unfolding c_def by (rule mod_mult2_eq)
  have "n mod 4294967296 = 256 * (a mod 16777216) + n mod 256" using m [of 16777216] by (simp add: a_def)
  also have "a mod 16777216 = 256 * (b mod 65536) + a mod 256" using m2 [of 65536] by simp
  also have "b mod 65536 = 256 * (c mod 256) + b mod 256" using m3 [of 256] by simp
  finally show ?thesis unfolding d a_def [symmetric] by simp
qed

lemma unat_drop: "unat (drop_bit k (w :: 'a::len word)) = unat w div 2 ^ k"
  using unat_drop_bit_eq [of k w] by (simp only: drop_bit_eq_div [where 'a = nat])

lemma unat_ucast_mod: "unat (ucast (w :: 'a::len word) :: 'b::len word) = unat w mod 2 ^ LENGTH('b)"
  by (simp only: unsigned_ucast_eq take_bit_eq_mod)

lemma from_to_be_bytes: "from_be_bytes (to_be_bytes w) = w"
proof -
  have w: "unat w < 4294967296" using unsigned_less [of w, where 'a = nat] by simp
  have "from_be_bytes (to_be_bytes w) = of_nat (((unat w div 16777216 mod 256 * 256 + unat w div 65536 mod 256) * 256
      + unat w div 256 mod 256) * 256 + unat w mod 256)"
    by (simp add: from_be_bytes_def to_be_bytes_def push_bit_eq_mult unat_drop algebra_simps)
  also have "\<dots> = of_nat (unat w)" unfolding be_bytes_nat using w by simp
  finally show ?thesis by simp
qed

lemma length_to_be_bytes [simp]: "length (to_be_bytes w) = 4"
  by (simp add: to_be_bytes_def)

section \<open>Properties\<close>

text \<open>
  An entry id gives back the mail id it was built from, and the date quantised to 1024 ms: for every
  64-bit timestamp below \<open>2 ^ 42\<close> (the year 2109) and every 9-byte mail id.
\<close>

theorem entry_id_roundtrip:
  assumes "b64_inverse url" "b64_inverse ext" "length bs = 9" "date < 2 ^ 42"
  shows "\<exists>cid millis. construct url ext date (b64_encode ext bs) = Some cid
    \<and> deconstruct url ext cid = Inr (millis, b64_encode ext bs)
    \<and> unat millis = unat date div 1024 * 1024"
proof -
  let ?t = "ucast (drop_bit 10 date) :: 32 word"
  let ?cid = "b64_encode url (to_be_bytes ?t @ bs)"
  have "construct url ext date (b64_encode ext bs) = Some ?cid"
    using assms by (simp add: construct_def b64_inverse_def MAIL_ID_BYTES_def TIMESTAMP_SHIFT_def Let_def)
  moreover have "deconstruct url ext ?cid = Inr (push_bit 10 (ucast ?t), b64_encode ext bs)"
    using assms by (simp add: deconstruct_def b64_inverse_def MAIL_SET_ENTRY_ID_BYTES_def TIMESTAMP_BYTES_def
        MAIL_ID_BYTES_def TIMESTAMP_SHIFT_def Let_def from_to_be_bytes)
  moreover have "unat (push_bit 10 (ucast ?t :: 64 word)) = unat date div 1024 * 1024"
  proof -
    have d: "unat date < 2 ^ 42" using assms(4) by (simp add: word_less_nat_alt)
    have t: "unat ?t = unat date div 1024"
      using d by (simp add: unat_ucast_mod unat_drop)
    have u: "unat (ucast ?t :: 64 word) = unat ?t"
      using unsigned_less [of ?t, where 'a = nat] by (simp add: unat_ucast_mod)
    have "unat date div 1024 * 1024 < 2 ^ 64" using d by simp
    then show ?thesis using t u by (simp add: push_bit_eq_mult unat_word_ariths)
  qed
  ultimately show ?thesis by blast
qed

theorem entry_id_roundtrip_witness:
  "\<exists>cid millis. construct rfc4648 rfc4648 1700000000000 (b64_encode rfc4648 ''123456789'') = Some cid
    \<and> deconstruct rfc4648 rfc4648 cid = Inr (millis, b64_encode rfc4648 ''123456789'')
    \<and> unat millis = unat (1700000000000 :: 64 word) div 1024 * 1024"
  by (rule entry_id_roundtrip [OF rfc4648_inverse rfc4648_inverse]) simp_all

end
