(* ===== verification/EventHandler.thy ===== *)
theory EventHandler
  imports Sync EntryId
begin

text \<open>
  The event-bus handler (\<open>crates/bridge/src/event_handler.rs\<close>): batches of entity updates applied
  to the in-memory store and to the local store, moves without any request, a full sync of the folders
  that could not be handled precisely, and the cursor of the last applied batch. The event types are
  those of \<open>crates/tuta/src/event_bus.rs\<close>.
\<close>

section \<open>Events\<close>

datatype operation = OpCreate | OpUpdate | OpDelete | OpOther int

definition from_code :: "int \<Rightarrow> operation" where
  "from_code c = (if c = 0 then OpCreate else if c = 1 then OpUpdate else if c = 2 then OpDelete else OpOther c)"

record entity_update_event =
  ev_application :: string
  ev_type_id :: int
  ev_list_id :: string
  ev_id :: string
  ev_operation :: operation
  ev_instance :: "string option"
  ev_blob_instance :: "string option"

record entity_update_batch =
  eb_batch_id :: string
  eb_group_id :: string
  eb_updates :: "entity_update_event list"

datatype event_bus_message = EntityUpdate entity_update_batch | CounterUpdate string
  | LeaderStatus string | OperationStatusUpdate string | InitialSyncDone
  | InitialSyncWorkEstimate nat | PhishingMarkers string | UnknownMessage string string

definition TUTANOTA_APP :: string where "TUTANOTA_APP = ''tutanota''"
definition MAIL_TYPE_ID :: int where "MAIL_TYPE_ID = 97"
definition MAIL_SET_ENTRY_TYPE_ID :: int where "MAIL_SET_ENTRY_TYPE_ID = 1450"
definition MAIL_SET_TYPE_ID :: int where "MAIL_SET_TYPE_ID = 429"

record bucketed =
  bu_entry_creates :: "entity_update_event list"
  bu_entry_deletes :: "entity_update_event list"
  bu_mail_creates :: "entity_update_event list"
  bu_mail_events :: "entity_update_event list"
  bu_folder_list_dirty :: bool

definition bucket_event :: "entity_update_event \<Rightarrow> bucketed \<Rightarrow> bucketed" where
  "bucket_event ev out = (if ev_application ev \<noteq> TUTANOTA_APP then out
     else if ev_type_id ev = MAIL_SET_ENTRY_TYPE_ID then
       (case ev_operation ev of
          OpCreate \<Rightarrow> out\<lparr>bu_entry_creates := bu_entry_creates out @ [ev]\<rparr>
        | OpDelete \<Rightarrow> out\<lparr>bu_entry_deletes := bu_entry_deletes out @ [ev]\<rparr>
        | _ \<Rightarrow> out)
     else if ev_type_id ev = MAIL_TYPE_ID then
       (case ev_operation ev of
          OpCreate \<Rightarrow> out\<lparr>bu_mail_creates := bu_mail_creates out @ [ev]\<rparr>
        | _ \<Rightarrow> out\<lparr>bu_mail_events := bu_mail_events out @ [ev]\<rparr>)
     else if ev_type_id ev = MAIL_SET_TYPE_ID then out\<lparr>bu_folder_list_dirty := True\<rparr>
     else out)"

definition empty_buckets :: bucketed where
  "empty_buckets = \<lparr>bu_entry_creates = [], bu_entry_deletes = [], bu_mail_creates = [], bu_mail_events = [],
     bu_folder_list_dirty = False\<rparr>"

definition bucket_updates :: "entity_update_event list \<Rightarrow> bucketed" where
  "bucket_updates updates = fold bucket_event updates empty_buckets"

section \<open>Single events\<close>

record pending_mail =
  pm_mail :: mail
  pm_details :: "mail_details option"

text \<open>The mail id inside an entry id, \<open>None\<close> when it does not decode.\<close>

definition entry_mail_id :: "'w env \<Rightarrow> string \<Rightarrow> string option" where
  "entry_mail_id en cid = (case deconstruct (en_b64url en) (en_b64ext en) cid of
     Inl _ \<Rightarrow> None | Inr (_, mid) \<Rightarrow> Some mid)"

definition assign_uid_and_upsert :: "'w env \<Rightarrow> folder_info \<Rightarrow> string \<Rightarrow> stored_mail \<Rightarrow> 'w sys \<Rightarrow> 'w sys" where
  "assign_uid_and_upsert en target e stored s =
     (case on_local (allocate_folder_uids (fi_id target) [e]) s of
        (r, s1) \<Rightarrow>
          let uid = (case r of Inl _ \<Rightarrow> 0 | Inr m \<Rightarrow> (case map_of m e of Some u \<Rightarrow> u | None \<Rightarrow> 0));
              stored' = stored\<lparr>sm_uid := uid\<rparr>;
              s2 = snd (on_local (upsert_mail_metadata (mail_to_metadata en (sm_mail stored') (fi_id target) uid)) s1)
          in on_store (upsert_mail_in_folder (fi_id target) stored') s2)"

definition resolve_mail_set_entry :: "'w env \<Rightarrow> entity_update_event \<Rightarrow> 'w sys \<Rightarrow> id_tuple option \<times> 'w sys" where
  "resolve_mail_set_entry en ev s = (case ev_instance ev of None \<Rightarrow> (None, s)
     | Some json \<Rightarrow> (case call (bk_decrypt_inline_mail_set_entry (en_backend en) json) s of
          (Inr (Some entry), s1) \<Rightarrow> (Some (se_mail entry), s1)
        | (_, s1) \<Rightarrow> (None, s1)))"

text \<open>The body that rode in the batch, rendered when the mail has no attachments.\<close>

definition inline_body :: "'w env \<Rightarrow> pending_mail \<Rightarrow> string option" where
  "inline_body en p = (case pm_details p of None \<Rightarrow> None
     | Some d \<Rightarrow> if attachments (pm_mail p) \<noteq> [] then None
         else Some (mail_to_rfc2822 (en_base64 en) (pm_mail p) (Some d) []))"

definition store_inline_body :: "'w env \<Rightarrow> string \<Rightarrow> mail_details option \<Rightarrow> string \<Rightarrow> 'w sys \<Rightarrow> 'w sys" where
  "store_inline_body en e details eml s =
     (let s1 = (case on_local (write_eml (en_crypto en) (en_iv en (sy_world s)) e eml) s of
                  (Inl _, s') \<Rightarrow> s' | (Inr _, s') \<Rightarrow> snd (on_local (mark_has_details e) s'))
      in on_store (\<lambda>st. st\<lparr>ms_bodies := bc_insert e \<lparr>be_details = details, be_rfc2822 = eml\<rparr> (ms_bodies st)\<rparr>) s1)"

type_synonym pool = "(string \<times> pending_mail) list"

text \<open>
  \<open>apply_mail_set_entry_create\<close>: besides the state it threads the pool of pending mails and the set of
  folders to sync at the end.
\<close>

definition apply_mail_set_entry_create ::
    "'w env \<Rightarrow> (string \<Rightarrow> folder_info option) \<Rightarrow> entity_update_event \<Rightarrow> string list \<times> pool \<times> 'w sys
      \<Rightarrow> string list \<times> pool \<times> 'w sys" where
  "apply_mail_set_entry_create en by_entries ev x = (case x of (fallback, pending, s) \<Rightarrow>
     (case entry_mail_id en (ev_id ev) of
        None \<Rightarrow> (List.insert (ev_list_id ev) fallback, pending, s)
      | Some e \<Rightarrow> (case by_entries (ev_list_id ev) of
          None \<Rightarrow> (List.insert (ev_list_id ev) fallback, pending, s)
        | Some target \<Rightarrow> (case find_mail_anywhere e (sy_store s) of
            Some (_, stored) \<Rightarrow> (fallback, pending, assign_uid_and_upsert en target e stored s)
          | None \<Rightarrow> (case map_of pending e of
              Some p \<Rightarrow>
                let rfc = inline_body en p;
                    stored = \<lparr>sm_mail = pm_mail p, sm_body_loaded = (rfc \<noteq> None), sm_uid = 0, sm_attachments_pending = False\<rparr>;
                    s1 = (case rfc of None \<Rightarrow> s | Some eml \<Rightarrow> store_inline_body en e (pm_details p) eml s)
                in (fallback, AList.delete e pending, assign_uid_and_upsert en target e stored s1)
            | None \<Rightarrow> (case resolve_mail_set_entry en ev s of
                (None, s1) \<Rightarrow> (List.insert (ev_list_id ev) fallback, pending, s1)
              | (Some t, s1) \<Rightarrow> (case call (bk_load_mail (en_backend en) (list_id t) (element_id t)) s1 of
                  (Inr (Some m), s2) \<Rightarrow> (fallback, pending, assign_uid_and_upsert en target (element_id t)
                     \<lparr>sm_mail = m, sm_body_loaded = False, sm_uid = 0, sm_attachments_pending = False\<rparr> s2)
                | (Inr None, s2) \<Rightarrow> (fallback, pending, s2)
                | (Inl _, s2) \<Rightarrow> (List.insert (ev_list_id ev) fallback, pending, s2))))))))"

definition apply_mail_set_entry_delete ::
    "'w env \<Rightarrow> (string \<Rightarrow> folder_info option) \<Rightarrow> entity_update_event \<Rightarrow> 'w sys \<Rightarrow> 'w sys" where
  "apply_mail_set_entry_delete en by_entries ev s = (case entry_mail_id en (ev_id ev) of None \<Rightarrow> s
     | Some e \<Rightarrow> (case by_entries (ev_list_id ev) of None \<Rightarrow> s
       | Some source \<Rightarrow>
          let s1 = on_store (\<lambda>st. snd (remove_mail_from_folder (fi_id source) e st)) s
          in if is_mail_anywhere e (sy_store s1) then s1 else snd (on_local (delete_mail e) s1)))"

definition resolve_mail :: "'w env \<Rightarrow> entity_update_event \<Rightarrow> 'w sys \<Rightarrow> mail option \<times> 'w sys" where
  "resolve_mail en ev s =
     (let (r, s1) = (case ev_instance ev of None \<Rightarrow> (None, s)
          | Some json \<Rightarrow> (case call (bk_decrypt_inline_mail (en_backend en) json) s of
               (Inr (Some m), s1) \<Rightarrow> (Some m, s1) | (_, s1) \<Rightarrow> (None, s1)))
      in case r of Some m \<Rightarrow> (Some m, s1)
         | None \<Rightarrow> (case call (bk_load_mail (en_backend en) (ev_list_id ev) (ev_id ev)) s1 of
              (Inr opt, s2) \<Rightarrow> (opt, s2) | (Inl _, s2) \<Rightarrow> (None, s2)))"

definition drop_mail :: "string \<Rightarrow> 'w sys \<Rightarrow> 'w sys" where
  "drop_mail e s = on_store (remove_mail_everywhere e) (snd (on_local (delete_mail e) s))"

definition apply_mail_event :: "'w env \<Rightarrow> entity_update_event \<Rightarrow> 'w sys \<Rightarrow> 'w sys" where
  "apply_mail_event en ev s = (case ev_operation ev of
     OpDelete \<Rightarrow> drop_mail (ev_id ev) s
   | OpUpdate \<Rightarrow> (case resolve_mail en ev s of
        (Some m, s1) \<Rightarrow> snd (on_local (refresh_mail_fields (ev_id ev) (subject m) (addr_name (sender m))
            (addr_address (sender m)) (unread m) (en_to_json en m)) (on_store (refresh_mail_in_place m) s1))
      | (None, s1) \<Rightarrow> drop_mail (ev_id ev) s1)
   | _ \<Rightarrow> s)"

section \<open>Batches\<close>

fun predecrypt_mail_creates :: "'w env \<Rightarrow> entity_update_event list \<Rightarrow> pool \<Rightarrow> 'w sys \<Rightarrow> pool \<times> 'w sys" where
  "predecrypt_mail_creates en [] out s = (out, s)"
| "predecrypt_mail_creates en (ev # evs) out s = (case ev_instance ev of
     None \<Rightarrow> predecrypt_mail_creates en evs out s
   | Some json \<Rightarrow> (case call (bk_decrypt_inline_mail (en_backend en) json) s of
       (Inr (Some m), s1) \<Rightarrow>
         (case (case ev_blob_instance ev of None \<Rightarrow> (None, s1)
             | Some blob \<Rightarrow> (case call (bk_decrypt_inline_mail_details_blob (en_backend en) blob) s1 of
                  (Inr opt, s2) \<Rightarrow> (opt, s2) | (Inl _, s2) \<Rightarrow> (None, s2))) of
            (details, s2) \<Rightarrow> predecrypt_mail_creates en evs
               (AList.update (ev_id ev) \<lparr>pm_mail = m, pm_details = details\<rparr> out) s2)
     | (_, s1) \<Rightarrow> predecrypt_mail_creates en evs out s1))"

text \<open>The bodies of a removed folder: files go, index rows stay.\<close>

fun delete_emls :: "string list \<Rightarrow> local_store \<Rightarrow> local_store" where
  "delete_emls [] ls = ls"
| "delete_emls (e # es) ls = delete_emls es (snd (delete_eml e ls))"

fun drop_folders :: "string list \<Rightarrow> local_store \<Rightarrow> local_store" where
  "drop_folders [] ls = ls"
| "drop_folders (f # fs) ls = drop_folders fs (case delete_folder_mails f ls of
     (Inl _, l) \<Rightarrow> l | (Inr ids, l) \<Rightarrow> delete_emls ids l)"

definition refresh_folder_list :: "'w env \<Rightarrow> 'w sys \<Rightarrow> 'w sys" where
  "refresh_folder_list en s = (case call (bk_list_folders (en_backend en)) s of
     (Inl _, s1) \<Rightarrow> s1
   | (Inr folders, s1) \<Rightarrow>
       let st1 = set_folder_list folders (sy_store s1);
           (removed, st2) = prune_unknown_folders (map fi_id folders) st1
       in s1\<lparr>sy_store := st2, sy_local := drop_folders removed (sy_local s1)\<rparr>)"

fun fallback_syncs :: "'w env \<Rightarrow> (string \<Rightarrow> folder_info option) \<Rightarrow> string list \<Rightarrow> 'w sys \<Rightarrow> 'w sys" where
  "fallback_syncs en by_entries [] s = s"
| "fallback_syncs en by_entries (l # ls) s = fallback_syncs en by_entries ls
     (case by_entries l of None \<Rightarrow> s | Some folder \<Rightarrow> snd (sync_folder en folder s))"

text \<open>\<open>folders.iter().map(..).collect::<HashMap>()\<close>: the last folder of an entries list wins.\<close>

definition folder_by_entries :: "folder_info list \<Rightarrow> string \<Rightarrow> folder_info option" where
  "folder_by_entries folders l = map_of (rev (map (\<lambda>f. (fi_entries_list_id f, f)) folders)) l"

definition apply_batch :: "'w env \<Rightarrow> entity_update_batch \<Rightarrow> 'w sys \<Rightarrow> 'w sys" where
  "apply_batch en batch s =
     (let b = bucket_updates (eb_updates batch);
          s1 = (if bu_folder_list_dirty b then refresh_folder_list en s else s);
          by_entries = folder_by_entries (ms_folder_list (sy_store s1));
          (pending, s2) = predecrypt_mail_creates en (bu_mail_creates b) [] s1;
          (fallback, _, s3) = fold (apply_mail_set_entry_create en by_entries) (bu_entry_creates b) ([], pending, s2);
          s4 = fold (apply_mail_set_entry_delete en by_entries) (bu_entry_deletes b) s3;
          s5 = fold (apply_mail_event en) (bu_mail_events b) s4
      in fallback_syncs en by_entries fallback s5)"

text \<open>\<open>process\<close>: the cursor in memory and on disk advance once the batch is applied.\<close>

definition process :: "'w env \<Rightarrow> event_bus_message \<Rightarrow> (string \<times> string) list \<times> 'w sys \<Rightarrow> (string \<times> string) list \<times> 'w sys" where
  "process en msg x = (case msg of
     EntityUpdate batch \<Rightarrow> (case x of (ids, s) \<Rightarrow>
       let s1 = apply_batch en batch s
       in (AList.update (eb_group_id batch) (eb_batch_id batch) ids,
           snd (on_local (set_event_bus_batch_id (int (en_now en (sy_world s1))) (eb_group_id batch) (eb_batch_id batch)) s1)))
   | _ \<Rightarrow> x)"

text \<open>
  \<open>run_event_handler\<close> as steps: events wait until the syncer has signalled \<open>startup_done\<close> (or ended),
  then each message received is processed; a shutdown ends the handler in any state.
\<close>

datatype handler_phase = WaitingForSync | Running | Stopped

record 'w handler =
  eh_phase :: handler_phase
  eh_queue :: "event_bus_message list"
  eh_ids :: "(string \<times> string) list"
  eh_sys :: "'w sys"

inductive handler_step :: "'w env \<Rightarrow> 'w handler \<Rightarrow> 'w handler \<Rightarrow> bool" for en where
  arrive: "handler_step en h (h\<lparr>eh_queue := eh_queue h @ [msg]\<rparr>)"
| start: "eh_phase h = WaitingForSync \<Longrightarrow> handler_step en h (h\<lparr>eh_phase := Running\<rparr>)"
| receive: "eh_phase h = Running \<Longrightarrow> eh_queue h = msg # rest \<Longrightarrow> process en msg (eh_ids h, eh_sys h) = (ids', s') \<Longrightarrow>
    handler_step en h (h\<lparr>eh_queue := rest, eh_ids := ids', eh_sys := s'\<rparr>)"
| stop: "handler_step en h (h\<lparr>eh_phase := Stopped\<rparr>)"

inductive_cases handler_stepE: "handler_step en h h'"

section \<open>Assigning a UID\<close>

lemma assign_store:
  assumes "db_ok (sy_local s)"
  shows "sy_store (assign_uid_and_upsert en target e stored s)
    = upsert_mail_in_folder (fi_id target) (stored\<lparr>sm_uid := as_u32 (next_uid (fi_id target) (sy_local s))\<rparr>) (sy_store s)"
  using assms by (simp add: assign_uid_and_upsert_def on_local_def allocate_folder_uids_ok Let_def split: prod.split)

lemma assign_local:
  assumes "db_ok (sy_local s)"
  shows "sy_local (assign_uid_and_upsert en target e stored s)
    = snd (upsert_mail_metadata (mail_to_metadata en (sm_mail stored) (fi_id target) (as_u32 (next_uid (fi_id target) (sy_local s))))
        (snd (allocate_folder_uids (fi_id target) [e] (sy_local s))))"
  using assms by (simp add: assign_uid_and_upsert_def on_local_def allocate_folder_uids_ok Let_def split: prod.split)

lemma assign_world [simp]: "sy_world (assign_uid_and_upsert en target e stored s) = sy_world s"
  by (simp add: assign_uid_and_upsert_def on_local_def Let_def split: prod.split)

lemma row_of_allocate [simp]: "row_of e (snd (allocate_folder_uids f es ls)) = row_of e ls"
  by (simp add: row_of_def)

section \<open>The invariant of both stores\<close>

definition sys_inv :: "'w sys \<Rightarrow> bool" where
  "sys_inv s = (ms_wf (sy_store s) \<and> wf_store (sy_local s))"

lemma wf_ops [simp]:
  "wf_store ls \<Longrightarrow> wf_store (snd (upsert_mail_metadata r ls))"
  "wf_store ls \<Longrightarrow> wf_store (snd (upsert_mail_metadata_batch rs ls))"
  "wf_store ls \<Longrightarrow> wf_store (snd (allocate_folder_uids f es ls))"
  "wf_store ls \<Longrightarrow> wf_store (snd (delete_mails_not_in f keep ls))"
  "wf_store ls \<Longrightarrow> wf_store (snd (mark_has_details e ls))"
  "wf_store ls \<Longrightarrow> wf_store (snd (refresh_mail_fields e a b c d j ls))"
  "wf_store ls \<Longrightarrow> wf_store (snd (delete_folder_mails f ls))"
  "wf_store ls \<Longrightarrow> wf_store (snd (write_eml cr iv e x ls))"
  "wf_store ls \<Longrightarrow> wf_store (snd (delete_eml e ls))"
  "wf_store ls \<Longrightarrow> wf_store (snd (index_body e x ls))"
  "wf_store ls \<Longrightarrow> wf_store (snd (unindex_body e ls))"
  "wf_store ls \<Longrightarrow> wf_store (snd (set_event_bus_batch_id now g bt ls))"
  "wf_store ls \<Longrightarrow> wf_store (snd (delete_mail e ls))"
  by (rule wf_store_ls_step, rule ls_step.intros, assumption)+

lemma wf_delete_emls [simp]: "wf_store ls \<Longrightarrow> wf_store (delete_emls es ls)"
  by (induction es arbitrary: ls) simp_all

lemma wf_drop_folders [simp]: "wf_store ls \<Longrightarrow> wf_store (drop_folders fs ls)"
proof (induction fs arbitrary: ls)
  case (Cons f fs)
  have "wf_store (snd (delete_folder_mails f ls))" using Cons.prems by simp
  then show ?case using Cons.IH by (auto split: prod.split sum.split)
qed simp

lemma wf_drop_bodies [simp]: "wf_store ls \<Longrightarrow> wf_store (drop_bodies es ls)"
  by (induction es arbitrary: ls) simp_all

lemma sys_inv_call [simp]: "sys_inv s \<Longrightarrow> sys_inv (snd (call f s))"
  by (simp add: sys_inv_def)

lemma call_inv: "call f s = (r, s1) \<Longrightarrow> sys_inv s \<Longrightarrow> sys_inv s1"
  by (metis sys_inv_call snd_conv)

lemma sys_inv_local: "sys_inv s \<Longrightarrow> wf_store (snd (f (sy_local s))) \<Longrightarrow> sys_inv (snd (on_local f s))"
  by (simp add: sys_inv_def)

lemma sys_inv_store: "sys_inv s \<Longrightarrow> ms_wf (f (sy_store s)) \<Longrightarrow> sys_inv (on_store f s)"
  by (simp add: sys_inv_def)

lemma sys_inv_assign: "sys_inv s \<Longrightarrow> sys_inv (assign_uid_and_upsert en target e stored s)"
  by (auto simp: assign_uid_and_upsert_def Let_def sys_inv_def on_local_def ms_wf_upsert split: prod.split)
     (metis snd_conv wf_ops(1,3))+

lemma sys_inv_inline: "sys_inv s \<Longrightarrow> sys_inv (store_inline_body en e d eml s)"
proof -
  assume i: "sys_inv s"
  let ?x = "on_local (write_eml (en_crypto en) (en_iv en (sy_world s)) e eml) s"
  have "sys_inv (snd ?x)" using i by (intro sys_inv_local) (auto simp: sys_inv_def)
  then have j: "sys_inv (case ?x of (Inl _, s') \<Rightarrow> s' | (Inr _, s') \<Rightarrow> snd (on_local (mark_has_details e) s'))" (is "sys_inv ?y")
    by (cases ?x; cases "fst ?x") (auto intro: sys_inv_local simp: sys_inv_def)
  then have "ms_wf (sy_store ?y)" by (simp only: sys_inv_def)
  then have "ms_wf ((sy_store ?y)\<lparr>ms_bodies := bc_insert e \<lparr>be_details = d, be_rfc2822 = eml\<rparr> (ms_bodies (sy_store ?y))\<rparr>)"
    by (intro ms_wf_bodies cache_inv_bc_insert) (simp_all only: ms_wf_def)
  with j show ?thesis unfolding store_inline_body_def Let_def by (rule sys_inv_store)
qed

text \<open>What the invariant needs of the environment: listings without duplicates, and sleeps that keep it.\<close>

definition env_ok :: "'w env \<Rightarrow> bool" where
  "env_ok en = ((\<forall>f n w mails. fst (bk_load_mail_ids_for_folder (en_backend en) f n w) = Inr mails \<longrightarrow> listing_ok mails)
     \<and> (\<forall>d s. sys_inv s \<longrightarrow> sys_inv (en_sleep en d s)))"

lemma sys_inv_retry:
  assumes "env_ok en" "\<And>x. sys_inv x \<Longrightarrow> sys_inv (snd (f x))"
  shows "sys_inv s \<Longrightarrow> sys_inv (snd (retry_from en n delay f s))"
proof (induction n arbitrary: delay s)
  case 0
  then show ?case using assms by (subst retry_from_step) simp
next
  case (Suc n)
  then show ?case using assms by (subst retry_from_step) (simp add: env_ok_def)
qed

lemma wf_sync_local:
  assumes "wf_store ls"
  shows "wf_store (snd (sync_local en folder mails existing ls))"
proof -
  define x where "x = (if new_element_ids mails (existing_map existing) = [] then ([], ls)
             else case allocate_folder_uids (fi_id folder) (new_element_ids mails (existing_map existing)) ls of
               (Inl _, l) \<Rightarrow> ([], l) | (Inr u, l) \<Rightarrow> (u, l))"
  have x: "wf_store (snd x)"
    using assms wf_ops(3) [OF assms, of "fi_id folder" "new_element_ids mails (existing_map existing)"]
    unfolding x_def by (auto simp del: wf_ops split: prod.split sum.split)
  have d: "wf_store l \<Longrightarrow> wf_store (case delete_mails_not_in f k l of (Inl _, l') \<Rightarrow> l' | (Inr del, l') \<Rightarrow> drop_bodies del l')" for f k l
    by (cases "delete_mails_not_in f k l"; cases "fst (delete_mails_not_in f k l)") (use wf_ops(4) [of l f k] in auto)
  obtain u l where ul: "x = (u, l)" by (cases x)
  then have "wf_store l" using x by simp
  then show ?thesis unfolding sync_local_def Let_def x_def [symmetric] ul prod.case snd_conv
    by (intro d wf_ops(2))
qed

lemma sys_inv_sync_folder:
  assumes "env_ok en" "sys_inv s"
  shows "sys_inv (snd (sync_folder en folder s))"
proof -
  let ?f = "call (bk_load_mail_ids_for_folder (en_backend en) folder 0)"
  obtain r s1 where r: "retry en ?f s = (r, s1)" by (cases "retry en ?f s")
  have s1: "sys_inv s1" using sys_inv_retry [OF assms(1), of ?f s MAX_RETRIES 1000] assms(2) r by (simp add: retry_def)
  show ?thesis
  proof (cases r)
    case (Inl e)
    then show ?thesis using r s1 by (simp add: sync_folder_def)
  next
    case (Inr mails)
    then obtain x where "?f x = (Inr mails, s1)"
      using r retry_from_result [of en MAX_RETRIES 1000 ?f s mails s1] by (auto simp: retry_def)
    then have ok: "listing_ok mails" using assms(1) unfolding env_ok_def by (metis call_simps(1) fst_conv)
    let ?l = "sync_local en folder mails (get_folder (fi_id folder) (sy_store s1))"
    obtain u l where ul: "?l (sy_local s1) = (u, l)" by (cases "?l (sy_local s1)")
    have "folder_wf u"
      using ul listing_folder_wf [OF ok] by (auto simp: sync_local_def Let_def split: prod.splits)
    moreover have "wf_store l" using wf_sync_local [of "sy_local s1" en folder mails] ul s1 by (metis snd_conv sys_inv_def)
    ultimately show ?thesis using r Inr ul s1
      by (simp add: sync_folder_def on_local_def sys_inv_def ms_wf_set_folder)
  qed
qed

lemma sys_inv_resolve_entry: "sys_inv s \<Longrightarrow> sys_inv (snd (resolve_mail_set_entry en ev s))"
  by (cases "ev_instance ev")
     (auto simp: resolve_mail_set_entry_def split: prod.split sum.split option.split intro: call_inv)

text \<open>The last resort of a placement: one mail is loaded and placed.\<close>

lemma sys_inv_load_one:
  assumes "sys_inv s1"
  shows "sys_inv (snd (snd (case call f s1 of
        (Inr (Some m), s2) \<Rightarrow> (fb, pd, assign_uid_and_upsert en target b (g m) s2)
      | (Inr None, s2) \<Rightarrow> (fb, pd, s2) | (Inl _, s2) \<Rightarrow> (fb2, pd, s2))))"
proof (cases "call f s1")
  case (Pair r s2)
  have "sys_inv s2" by (rule call_inv [OF Pair assms])
  then show ?thesis by (simp add: Pair sys_inv_assign split: sum.split option.split)
qed

lemma sys_inv_create:
  assumes "sys_inv s"
  shows "sys_inv (snd (snd (apply_mail_set_entry_create en by_entries ev (fb, pd, s))))"
proof -
  obtain r s1 where r: "resolve_mail_set_entry en ev s = (r, s1)" by (cases "resolve_mail_set_entry en ev s")
  have s1: "sys_inv s1" using sys_inv_resolve_entry [OF assms, of en ev] r by simp
  show ?thesis
    by (simp add: apply_mail_set_entry_create_def r Let_def assms s1 sys_inv_load_one [OF s1] sys_inv_assign sys_inv_inline
        split: option.split)
qed

lemma sys_inv_delete:
  assumes "sys_inv s"
  shows "sys_inv (apply_mail_set_entry_delete en by_entries ev s)"
proof -
  have "sys_inv (on_store (\<lambda>st. snd (remove_mail_from_folder f e st)) s)" for f e
    using assms ms_wf_drop_from [unfolded drop_from_def] by (intro sys_inv_store) (auto simp: sys_inv_def)
  then show ?thesis using assms
    by (auto simp: apply_mail_set_entry_delete_def Let_def sys_inv_def split: option.split)
qed

lemma sys_inv_drop_mail: "sys_inv s \<Longrightarrow> sys_inv (drop_mail e s)"
  by (simp add: drop_mail_def sys_inv_def ms_wf_remove_everywhere)

lemma sys_inv_resolve_mail:
  assumes "sys_inv s"
  shows "sys_inv (snd (resolve_mail en ev s))"
proof -
  define x where "x = (case ev_instance ev of None \<Rightarrow> (None, s)
      | Some json \<Rightarrow> (case call (bk_decrypt_inline_mail (en_backend en) json) s of
           (Inr (Some m), s1) \<Rightarrow> (Some m, s1) | (_, s1) \<Rightarrow> (None, s1)))"
  have x: "sys_inv (snd x)" using assms unfolding x_def
    by (cases "ev_instance ev") (auto split: prod.split sum.split option.split intro: call_inv)
  then have "sys_inv (snd (call (bk_load_mail (en_backend en) (ev_list_id ev) (ev_id ev)) (snd x)))" by simp
  then have "sys_inv (snd (case call (bk_load_mail (en_backend en) (ev_list_id ev) (ev_id ev)) (snd x) of
      (Inr opt, s2) \<Rightarrow> (opt, s2) | (Inl _, s2) \<Rightarrow> (None, s2)))"
    by (cases "call (bk_load_mail (en_backend en) (ev_list_id ev) (ev_id ev)) (snd x)") (auto split: sum.split)
  then show ?thesis using x unfolding resolve_mail_def x_def [symmetric] Let_def
    by (cases x) (auto split: option.split)
qed

lemma sys_inv_mail_event:
  assumes "sys_inv s"
  shows "sys_inv (apply_mail_event en ev s)"
proof -
  obtain r s1 where r: "resolve_mail en ev s = (r, s1)" by (cases "resolve_mail en ev s")
  have s1: "sys_inv s1" using sys_inv_resolve_mail [OF assms, of en ev] r by simp
  then have "sys_inv (snd (on_local (refresh_mail_fields a b c d u j) (on_store (refresh_mail_in_place m) s1)))" for a b c d u j m
    by (simp add: sys_inv_def ms_wf_refresh)
  then show ?thesis using assms s1
    by (cases "ev_operation ev") (auto simp: apply_mail_event_def r sys_inv_drop_mail split: option.split)
qed

lemma sys_inv_predecrypt: "sys_inv s \<Longrightarrow> sys_inv (snd (predecrypt_mail_creates en evs out s))"
proof (induction evs arbitrary: out s)
  case (Cons ev evs)
  show ?case
  proof (cases "ev_instance ev")
    case None
    then show ?thesis using Cons by simp
  next
    case (Some json)
    obtain r s1 where r: "call (bk_decrypt_inline_mail (en_backend en) json) s = (r, s1)" by (cases "call (bk_decrypt_inline_mail (en_backend en) json) s")
    have s1: "sys_inv s1" using Cons.prems r sys_inv_call by (metis snd_conv)
    have "sys_inv (snd (case ev_blob_instance ev of None \<Rightarrow> (None, s1)
             | Some blob \<Rightarrow> (case call (bk_decrypt_inline_mail_details_blob (en_backend en) blob) s1 of
                  (Inr opt, s2) \<Rightarrow> (opt, s2) | (Inl _, s2) \<Rightarrow> (None, s2))))" (is "sys_inv (snd ?d)")
    proof (cases "ev_blob_instance ev")
      case (Some blob)
      have "sys_inv (snd (call (bk_decrypt_inline_mail_details_blob (en_backend en) blob) s1))" using s1 by simp
      then show ?thesis using Some
        by (cases "call (bk_decrypt_inline_mail_details_blob (en_backend en) blob) s1") (auto split: sum.split)
    qed (use s1 in simp)
    then show ?thesis using Cons.IH s1 Some r
      by (cases ?d) (auto split: sum.split option.split)
  qed
qed simp

lemma sys_inv_refresh_list:
  assumes "sys_inv s"
  shows "sys_inv (refresh_folder_list en s)"
proof -
  obtain r s1 where r: "call (bk_list_folders (en_backend en)) s = (r, s1)" by (cases "call (bk_list_folders (en_backend en)) s")
  have s1: "sys_inv s1" using assms r sys_inv_call by (metis snd_conv)
  show ?thesis
  proof (cases r)
    case (Inr folders)
    let ?p = "prune_unknown_folders (map fi_id folders) (set_folder_list folders (sy_store s1))"
    have "ms_wf (snd ?p)" using s1 by (intro ms_wf_prune) (simp add: sys_inv_def set_folder_list_def)
    then show ?thesis using r Inr s1
      by (simp add: refresh_folder_list_def Let_def sys_inv_def case_prod_beta)
  qed (use r s1 in \<open>simp add: refresh_folder_list_def\<close>)
qed

lemma sys_inv_fallback: "env_ok en \<Longrightarrow> sys_inv s \<Longrightarrow> sys_inv (fallback_syncs en by_entries ls s)"
  by (induction ls arbitrary: s) (auto simp: sys_inv_sync_folder split: option.split)

lemma fold_inv: "(\<And>x a. P a \<Longrightarrow> P (f x a)) \<Longrightarrow> P a \<Longrightarrow> P (fold f xs a)"
  by (induction xs arbitrary: a) auto

lemma sys_inv_apply_batch:
  assumes en: "env_ok en" and s: "sys_inv s"
  shows "sys_inv (apply_batch en batch s)"
proof -
  define b where "b = bucket_updates (eb_updates batch)"
  define s1 where "s1 = (if bu_folder_list_dirty b then refresh_folder_list en s else s)"
  define by_e where "by_e = folder_by_entries (ms_folder_list (sy_store s1))"
  obtain pd s2 where pd: "predecrypt_mail_creates en (bu_mail_creates b) [] s1 = (pd, s2)"
    by (cases "predecrypt_mail_creates en (bu_mail_creates b) [] s1")
  obtain fb q s3 where fb: "fold (apply_mail_set_entry_create en by_e) (bu_entry_creates b) ([], pd, s2) = (fb, q, s3)"
    by (cases "fold (apply_mail_set_entry_create en by_e) (bu_entry_creates b) ([], pd, s2)")
  have "sys_inv s1" using s by (simp add: s1_def sys_inv_refresh_list)
  then have s2: "sys_inv s2" using sys_inv_predecrypt pd by (metis snd_conv)
  have "sys_inv (snd (snd (fold (apply_mail_set_entry_create en by_e) (bu_entry_creates b) ([], pd, s2))))"
    by (rule fold_inv [of "\<lambda>x. sys_inv (snd (snd x))"]) (use s2 sys_inv_create in \<open>auto simp del: sys_inv_call\<close>)
  then have s3: "sys_inv s3" using fb by simp
  have "sys_inv (fold (apply_mail_event en) (bu_mail_events b) (fold (apply_mail_set_entry_delete en by_e) (bu_entry_deletes b) s3))"
    by (rule fold_inv [where P = sys_inv], rule sys_inv_mail_event, assumption,
        rule fold_inv [where P = sys_inv], rule sys_inv_delete, assumption, rule s3)
  then show ?thesis unfolding apply_batch_def Let_def b_def [symmetric] s1_def [symmetric] by_e_def [symmetric] pd fb
    by (simp add: fb sys_inv_fallback [OF en])
qed

lemma sys_inv_process: "env_ok en \<Longrightarrow> sys_inv (snd x) \<Longrightarrow> sys_inv (snd (process en msg x))"
proof (cases msg)
  case (EntityUpdate batch)
  assume "env_ok en" "sys_inv (snd x)"
  then have "sys_inv (apply_batch en batch (snd x))" by (rule sys_inv_apply_batch)
  then show ?thesis using EntityUpdate
    by (cases x) (auto simp: process_def Let_def sys_inv_def)
qed (simp_all add: process_def)

lemma handler_steps_inv: "(handler_step en)\<^sup>*\<^sup>* h h' \<Longrightarrow> env_ok en \<Longrightarrow> sys_inv (eh_sys h) \<Longrightarrow> sys_inv (eh_sys h')"
proof (induction rule: rtranclp_induct)
  case (step y z)
  then have "sys_inv (eh_sys y)" by blast
  with step.hyps(2) step.prems(1) show ?case
    using sys_inv_process [of en "(eh_ids y, eh_sys y)"] by (auto elim!: handler_stepE) (metis snd_conv)
qed

lemma handler_waiting: "(handler_step en)\<^sup>*\<^sup>* h h' \<Longrightarrow> eh_phase h' = WaitingForSync \<Longrightarrow>
    eh_phase h = WaitingForSync \<and> eh_sys h' = eh_sys h \<and> eh_ids h' = eh_ids h \<and> (\<exists>ms. eh_queue h' = eh_queue h @ ms)"
proof (induction rule: rtranclp_induct)
  case (step y z)
  from step.hyps(2) step.prems have "eh_phase y = WaitingForSync" "eh_sys z = eh_sys y" "eh_ids z = eh_ids y"
      "\<exists>ms. eh_queue z = eh_queue y @ ms"
    by (auto elim!: handler_stepE)
  with step.IH show ?case by auto
qed simp

section \<open>A move\<close>

text \<open>An entry event of folder \<open>f\<close> for mail \<open>e\<close>.\<close>

definition entry_event :: "'w env \<Rightarrow> (string \<Rightarrow> folder_info option) \<Rightarrow> operation \<Rightarrow> folder_info \<Rightarrow> string \<Rightarrow> entity_update_event \<Rightarrow> bool" where
  "entry_event en by_entries opn f e ev = (ev_application ev = TUTANOTA_APP \<and> ev_type_id ev = MAIL_SET_ENTRY_TYPE_ID
     \<and> ev_operation ev = opn \<and> entry_mail_id en (ev_id ev) = Some e \<and> by_entries (ev_list_id ev) = Some f)"

lemma bucket_move:
  assumes "entry_event en be OpCreate dst e c" "entry_event en be OpDelete src e d"
    and "us = [c, d] \<or> us = [d, c]"
  shows "bucket_updates us = empty_buckets\<lparr>bu_entry_creates := [c], bu_entry_deletes := [d]\<rparr>"
  using assms by (auto simp: bucket_updates_def bucket_event_def entry_event_def empty_buckets_def)

lemma apply_create_held:
  assumes "entry_event en be OpCreate dst e c" "find_mail_anywhere e (sy_store s) = Some (g, m)"
  shows "apply_mail_set_entry_create en be c (fb, pd, s) = (fb, pd, assign_uid_and_upsert en dst e m s)"
  using assms by (simp add: apply_mail_set_entry_create_def entry_event_def)

lemma apply_delete_held:
  assumes "entry_event en be OpDelete src e d"
    and "is_mail_anywhere e (snd (remove_mail_from_folder (fi_id src) e (sy_store s)))"
  shows "apply_mail_set_entry_delete en be d s = on_store (\<lambda>st. snd (remove_mail_from_folder (fi_id src) e st)) s"
  using assms by (simp add: apply_mail_set_entry_delete_def entry_event_def Let_def)

lemma find_only_place:
  assumes "ms_wf st" "mail_in_folder f e st = Some m" "\<And>g. g \<noteq> f \<Longrightarrow> mail_in_folder g e st = None"
  shows "find_mail_anywhere e st = Some (f, m)"
proof -
  have d: "distinct (map fst (ms_folders st))" using assms(1) by (simp add: ms_wf_def)
  have "find_mail_anywhere e st \<noteq> None"
    using assms(2) is_mail_anywhere_iff [OF d] find_anywhere_None by (metis option.distinct(1))
  then obtain g x where x: "find_mail_anywhere e st = Some (g, x)" by auto
  then have "mail_in_folder g e st = Some x" by (rule find_anywhere_in_folder [OF d])
  then show ?thesis using x assms(2,3) by (cases "g = f") auto
qed

lemmas remove_raw = ms_wf_drop_from [unfolded drop_from_def] mail_in_folder_remove [unfolded drop_from_def]

lemma next_uid_upsert [simp]: "next_uid f (snd (upsert_mail_metadata r ls)) = next_uid f ls"
  by (simp add: next_uid_def upsert_mail_metadata_def snd_on_db)

text \<open>The whole batch of a move, as one update of each store.\<close>

lemma apply_batch_move:
  assumes ev: "entry_event en (folder_by_entries (ms_folder_list (sy_store s))) OpCreate dst e c"
      "entry_event en (folder_by_entries (ms_folder_list (sy_store s))) OpDelete src e d"
    and us: "eb_updates b = [c, d] \<or> eb_updates b = [d, c]"
    and wf: "ms_wf (sy_store s)" and db: "db_ok (sy_local s)" and ne: "fi_id src \<noteq> fi_id dst"
    and src: "mail_in_folder (fi_id src) e (sy_store s) = Some m"
    and only: "\<And>g. g \<noteq> fi_id src \<Longrightarrow> mail_in_folder g e (sy_store s) = None"
  shows "apply_batch en b s = on_store (\<lambda>st. snd (remove_mail_from_folder (fi_id src) e st)) (assign_uid_and_upsert en dst e m s)"
proof -
  let ?be = "folder_by_entries (ms_folder_list (sy_store s))"
  let ?s1 = "assign_uid_and_upsert en dst e m s"
  let ?m = "m\<lparr>sm_uid := as_u32 (next_uid (fi_id dst) (sy_local s))\<rparr>"
  have e: "eid_of (sm_mail ?m) = Some e" using src by (simp add: mail_in_folder_get find_Some_iff has_eid_def) auto
  have c: "apply_mail_set_entry_create en ?be c ([], [], s) = ([], [], ?s1)"
    by (rule apply_create_held [OF ev(1) find_only_place [OF wf src only]])
  have st: "sy_store ?s1 = upsert_mail_in_folder (fi_id dst) ?m (sy_store s)" by (rule assign_store [OF db])
  let ?st = "snd (remove_mail_from_folder (fi_id src) e (sy_store ?s1))"
  have "ms_wf ?st" using wf by (simp add: st ms_wf_upsert remove_raw)
  then have "is_mail_anywhere e ?st"
    using ne e is_mail_anywhere_iff [of ?st e]
    by (auto simp: ms_wf_def st remove_raw intro!: exI [of _ "fi_id dst"])
  then have d: "apply_mail_set_entry_delete en ?be d ?s1 = on_store (\<lambda>st. snd (remove_mail_from_folder (fi_id src) e st)) ?s1"
    by (rule apply_delete_held [OF ev(2)])
  show ?thesis unfolding apply_batch_def bucket_move [OF ev us] by (simp add: empty_buckets_def c d)
qed

section \<open>Properties\<close>

text \<open>
  C8: A move seen on the event bus, the entry of the target folder created and the one of the source deleted in
  one batch and in either order, is applied without a single request: the mail leaves the source folder,
  stands in the target folder under the next UID of that folder, every other placement of every mail is
  kept, no cached body or index row is touched, and the invariant of the store holds.
\<close>

theorem event_move:
  assumes "entry_event en (folder_by_entries (ms_folder_list (sy_store s))) OpCreate dst e c"
      "entry_event en (folder_by_entries (ms_folder_list (sy_store s))) OpDelete src e d"
    and "eb_updates b = [c, d] \<or> eb_updates b = [d, c]"
    and "ms_wf (sy_store s)" "db_ok (sy_local s)" "fi_id src \<noteq> fi_id dst"
    and "mail_in_folder (fi_id src) e (sy_store s) = Some m"
    and "\<And>g. g \<noteq> fi_id src \<Longrightarrow> mail_in_folder g e (sy_store s) = None"
  shows "let s' = apply_batch en b s; uid = as_u32 (next_uid (fi_id dst) (sy_local s)) in
      sy_world s' = sy_world s \<and> ms_wf (sy_store s')
    \<and> mail_in_folder g x (sy_store s') = (if x = e then (if g = fi_id dst then Some (m\<lparr>sm_uid := uid\<rparr>) else None)
        else mail_in_folder g x (sy_store s))
    \<and> next_uid (fi_id dst) (sy_local s') = next_uid (fi_id dst) (sy_local s) + 1
    \<and> ls_files (sy_local s') = ls_files (sy_local s) \<and> t_fts (sy_local s') = t_fts (sy_local s)"
proof -
  let ?m = "m\<lparr>sm_uid := as_u32 (next_uid (fi_id dst) (sy_local s))\<rparr>"
  have k: "eid_of (sm_mail ?m) = Some e" using assms(7) by (simp add: mail_in_folder_get find_Some_iff has_eid_def) auto
  have b: "apply_batch en b s = on_store (\<lambda>st. snd (remove_mail_from_folder (fi_id src) e st)) (assign_uid_and_upsert en dst e m s)"
    by (rule apply_batch_move [OF assms])
  have "ms_wf (sy_store (apply_batch en b s))"
    using assms(4) by (simp add: b assign_store [OF assms(5)] ms_wf_upsert remove_raw)
  then show ?thesis
    using k assms(6,8)
    by (auto simp: b assign_store [OF assms(5)] assign_local [OF assms(5)] Let_def next_uid_allocate assms(5) remove_raw)
qed

text \<open>Examples share one account: folders \<open>a\<close> and \<open>b\<close>, and one mail in \<open>a\<close>.\<close>

definition sample_eid :: string where "sample_eid = b64_encode rfc4648 ''123456789''"
definition sample_cid :: string where "sample_cid = b64_encode rfc4648 (''0000'' @ ''123456789'')"

definition sample_event :: "operation \<Rightarrow> int \<Rightarrow> string \<Rightarrow> string \<Rightarrow> entity_update_event" where
  "sample_event opn ty l i = \<lparr>ev_application = TUTANOTA_APP, ev_type_id = ty, ev_list_id = l, ev_id = i,
     ev_operation = opn, ev_instance = None, ev_blob_instance = None\<rparr>"

definition sample_account :: "unit sys" where
  "sample_account = \<lparr>sy_store = upsert_mail_in_folder ''a'' (sample_stored sample_eid 7)
       (set_folder_list [(sample_folder ''a'')\<lparr>fi_entries_list_id := ''xa''\<rparr>, (sample_folder ''b'')\<lparr>fi_entries_list_id := ''xb''\<rparr>] new_mail_store),
     sy_local = snd (upsert_mail_metadata (mail_to_metadata (sample_env offline (\<lambda>_. None) :: unit env) (sample_mail sample_eid) ''a'' 7) fresh_store),
     sy_world = ()\<rparr>"

lemma sample_entry_id [simp]: "entry_mail_id (sample_env bk fj) sample_cid = Some sample_eid"
  using rfc4648_inverse
  by (simp add: entry_mail_id_def deconstruct_def sample_cid_def sample_eid_def b64_inverse_def MAIL_SET_ENTRY_ID_BYTES_def
      TIMESTAMP_BYTES_def MAIL_ID_BYTES_def Let_def)

lemma sample_folder_list [simp]: "ms_folder_list (upsert_mail_in_folder f m (set_folder_list l st)) = l"
  by (simp add: upsert_mail_in_folder_def set_folder_list_def bump_generation_def Let_def split: option.split)

lemma set_folder_list_keeps: "ms_wf (set_folder_list l st) = ms_wf st"
  "mail_in_folder g x (set_folder_list l st) = mail_in_folder g x st"
  by (simp_all add: set_folder_list_def mail_in_folder_def)

lemma sample_account_simps [simp]:
  "sy_world sample_account = ()" "ms_wf (sy_store sample_account)" "db_ok (sy_local sample_account)"
  "folder_by_entries (ms_folder_list (sy_store sample_account)) ''xa'' = Some ((sample_folder ''a'')\<lparr>fi_entries_list_id := ''xa''\<rparr>)"
  "folder_by_entries (ms_folder_list (sy_store sample_account)) ''xb'' = Some ((sample_folder ''b'')\<lparr>fi_entries_list_id := ''xb''\<rparr>)"
  "mail_in_folder g x (sy_store sample_account) = (if g = ''a'' \<and> x = sample_eid then Some (sample_stored sample_eid 7) else None)"
  "next_uid f (sy_local sample_account) = 1"
  "row_of sample_eid (sy_local sample_account) = Some (mail_to_metadata (sample_env offline (\<lambda>_. None) :: unit env) (sample_mail sample_eid) ''a'' 7)"
  by (simp_all add: sample_account_def sample_stored_def folder_by_entries_def ms_wf_upsert ms_wf_new set_folder_list_keeps row_of_upsert)
     (simp_all add: next_uid_def row_of_def)

theorem event_move_witness:
  "let s' = apply_batch (sample_env offline (\<lambda>_. None)) \<lparr>eb_batch_id = [], eb_group_id = [],
      eb_updates = [sample_event OpDelete MAIL_SET_ENTRY_TYPE_ID ''xa'' sample_cid, sample_event OpCreate MAIL_SET_ENTRY_TYPE_ID ''xb'' sample_cid]\<rparr> sample_account
   in mail_in_folder ''b'' sample_eid (sy_store s') = Some (sample_stored sample_eid 1)"
  using event_move [of "sample_env offline (\<lambda>_. None)" sample_account "(sample_folder ''b'')\<lparr>fi_entries_list_id := ''xb''\<rparr>" sample_eid
      "sample_event OpCreate MAIL_SET_ENTRY_TYPE_ID ''xb'' sample_cid" "(sample_folder ''a'')\<lparr>fi_entries_list_id := ''xa''\<rparr>"
      "sample_event OpDelete MAIL_SET_ENTRY_TYPE_ID ''xa'' sample_cid" "\<lparr>eb_batch_id = [], eb_group_id = [],
      eb_updates = [sample_event OpDelete MAIL_SET_ENTRY_TYPE_ID ''xa'' sample_cid, sample_event OpCreate MAIL_SET_ENTRY_TYPE_ID ''xb'' sample_cid]\<rparr>"
      "sample_stored sample_eid 7" "''b''" sample_eid]
  by (simp add: entry_event_def sample_event_def Let_def) (simp add: sample_stored_def sample_folder_def as_u32_def)

text \<open>
  After such a move the two stores disagree on the UID: the folder in memory shows the mail under the
  next UID of the target folder, the row on disk has the target folder but still the UID the mail had in the
  source folder, because the update of an existing row leaves the column \<open>uid\<close> alone. A restart
  reads the UID of the row back.
\<close>

theorem event_move_keeps_row_uid:
  assumes "entry_event en (folder_by_entries (ms_folder_list (sy_store s))) OpCreate dst e c"
      "entry_event en (folder_by_entries (ms_folder_list (sy_store s))) OpDelete src e d"
    and "eb_updates b = [c, d] \<or> eb_updates b = [d, c]"
    and "ms_wf (sy_store s)" "db_ok (sy_local s)" "fi_id src \<noteq> fi_id dst"
    and "mail_in_folder (fi_id src) e (sy_store s) = Some m"
    and "\<And>g. g \<noteq> fi_id src \<Longrightarrow> mail_in_folder g e (sy_store s) = None"
    and "row_of e (sy_local s) = Some r"
  shows "\<exists>r' m'. row_of e (sy_local (apply_batch en b s)) = Some r' \<and> mail_in_folder (fi_id dst) e (sy_store (apply_batch en b s)) = Some m'
    \<and> md_folder_id r' = fi_id dst \<and> md_uid r' = md_uid r \<and> sm_uid m' = as_u32 (next_uid (fi_id dst) (sy_local s))"
proof -
  have k: "eid_of (sm_mail m) = Some e" using assms(7) by (simp add: mail_in_folder_get find_Some_iff has_eid_def) auto
  have b: "apply_batch en b s = on_store (\<lambda>st. snd (remove_mail_from_folder (fi_id src) e st)) (assign_uid_and_upsert en dst e m s)"
    by (rule apply_batch_move [OF assms(1-8)])
  have e: "md_element_id (mail_to_metadata en (sm_mail m) (fi_id dst) u) = e" for u using k by simp
  show ?thesis using k assms(5,6,9)
    by (simp add: b assign_store [OF assms(5)] assign_local [OF assms(5)] remove_raw row_of_upsert e conflict_set_def)
qed

theorem event_move_keeps_row_uid_witness:
  "let s' = apply_batch (sample_env offline (\<lambda>_. None)) \<lparr>eb_batch_id = [], eb_group_id = [],
      eb_updates = [sample_event OpDelete MAIL_SET_ENTRY_TYPE_ID ''xa'' sample_cid, sample_event OpCreate MAIL_SET_ENTRY_TYPE_ID ''xb'' sample_cid]\<rparr> sample_account
   in \<exists>r' m'. row_of sample_eid (sy_local s') = Some r' \<and> mail_in_folder ''b'' sample_eid (sy_store s') = Some m'
      \<and> md_folder_id r' = ''b'' \<and> md_uid r' = 7 \<and> sm_uid m' = 1"
  using event_move_keeps_row_uid [of "sample_env offline (\<lambda>_. None)" sample_account "(sample_folder ''b'')\<lparr>fi_entries_list_id := ''xb''\<rparr>" sample_eid
      "sample_event OpCreate MAIL_SET_ENTRY_TYPE_ID ''xb'' sample_cid" "(sample_folder ''a'')\<lparr>fi_entries_list_id := ''xa''\<rparr>"
      "sample_event OpDelete MAIL_SET_ENTRY_TYPE_ID ''xa'' sample_cid" "\<lparr>eb_batch_id = [], eb_group_id = [],
      eb_updates = [sample_event OpDelete MAIL_SET_ENTRY_TYPE_ID ''xa'' sample_cid, sample_event OpCreate MAIL_SET_ENTRY_TYPE_ID ''xb'' sample_cid]\<rparr>"
      "sample_stored sample_eid 7"]
  by (simp add: entry_event_def sample_event_def Let_def) (simp add: sample_folder_def as_u32_def)


lemma env_ok_sample: "env_ok (sample_env offline fj)"
  by (simp add: env_ok_def offline_def)

lemma wf_sample_account: "sys_inv sample_account"
  by (simp add: sys_inv_def) (simp add: sample_account_def wf_fresh_store)


lemma map_of_batch_ids: "map_of (map (\<lambda>(g, b, _). (g, b)) (AList.update g (b, now) l)) = (map_of (map (\<lambda>(g, b, _). (g, b)) l))(g \<mapsto> b)"
  by (induction l) auto

text \<open>
  Once a batch is processed its id is the cursor of its group, in memory and on disk, and the cursors of the
  other groups are kept; a message that is not an entity update changes nothing.
\<close>

theorem batch_cursor:
  assumes "load_event_bus_state (sy_local (apply_batch en batch s)) = Inr l" "msg = EntityUpdate batch"
  shows "case process en msg (ids, s) of (ids', s') \<Rightarrow>
      map_of ids' = (map_of ids)(eb_group_id batch \<mapsto> eb_batch_id batch)
    \<and> (\<exists>l'. load_event_bus_state (sy_local s') = Inr l' \<and> map_of l' = (map_of l)(eb_group_id batch \<mapsto> eb_batch_id batch))
    \<and> sy_store s' = sy_store (apply_batch en batch s) \<and> t_mails (sy_local s') = t_mails (sy_local (apply_batch en batch s))
    \<and> (case other of EntityUpdate _ \<Rightarrow> True | _ \<Rightarrow> process en other (ids, s) = (ids, s))"
proof -
  have db: "db_ok (sy_local (apply_batch en batch s))" and l: "l = map (\<lambda>(g, b, _). (g, b)) (t_bus (sy_local (apply_batch en batch s)))"
    using assms(1) by (auto simp: load_event_bus_state_def split: if_splits)
  show ?thesis
    by (cases other)
       (simp_all add: assms(2) process_def Let_def set_event_bus_batch_id_def on_local_def on_db_def db l load_event_bus_state_def
          map_of_batch_ids update_conv)
qed

theorem batch_cursor_witness:
  "let en = sample_env offline (\<lambda>_. None);
       batch = \<lparr>eb_batch_id = ''1'', eb_group_id = ''g'', eb_updates = []\<rparr>
   in map_of (fst (process en (EntityUpdate batch) ([], sample_account))) ''g'' = Some ''1''"
  using batch_cursor [of "sample_env offline (\<lambda>_. None)" "\<lparr>eb_batch_id = ''1'', eb_group_id = ''g'', eb_updates = []\<rparr>"
      sample_account "[]" "EntityUpdate \<lparr>eb_batch_id = ''1'', eb_group_id = ''g'', eb_updates = []\<rparr>" "[]"]
  by (simp add: apply_batch_def bucket_updates_def empty_buckets_def load_event_bus_state_def sample_account_def
      case_prod_beta Let_def)

lemma mail_in_folder_everywhere:
  "mail_in_folder g x (remove_mail_everywhere e st) = (if x = e then None else mail_in_folder g x st)"
  by (simp add: mail_in_folder_get get_folder_remove_everywhere find_has_eid_filter)

lemma not_anywhere_after_remove:
  assumes "ms_wf st"
  shows "\<not> is_mail_anywhere e (remove_mail_everywhere e st)"
proof -
  have "distinct (map fst (ms_folders (remove_mail_everywhere e st)))"
    using ms_wf_remove_everywhere [OF assms, of e] by (simp add: ms_wf_def)
  then show ?thesis by (simp add: is_mail_anywhere_iff mail_in_folder_everywhere)
qed

lemma row_of_delete_mail: "db_ok ls \<Longrightarrow> row_of a (snd (delete_mail e ls)) = (if a = e then None else row_of a ls)"
  using find_key_filter [of md_element_id a "\<lambda>k. k \<noteq> e" "t_mails ls"]
  by (auto simp: delete_mail_cases Let_def row_of_def split: if_splits)

lemma no_eml_after_delete: "db_ok ls \<Longrightarrow> fs_ok ls \<Longrightarrow> \<not> has_eml e (snd (delete_mail e ls))"
  by (auto simp: delete_mail_cases Let_def has_eml_def split: if_splits)

text \<open>
  An update of a mail that cannot be decrypted inline and whose reload fails, for whatever reason, a network
  error included, makes the mail disappear: from every folder in memory, from the rows, the index and the
  files on disk. No full sync is scheduled for it.
\<close>

theorem update_error_drops_mail:
  assumes "ev_operation ev = OpUpdate" "ev_instance ev = None"
    and "bk_load_mail (en_backend en) (ev_list_id ev) (ev_id ev) (sy_world s) = (Inl err, w)"
    and "ms_wf (sy_store s)" "db_ok (sy_local s)" "fs_ok (sy_local s)"
  shows "let s' = apply_mail_event en ev s in
      \<not> is_mail_anywhere (ev_id ev) (sy_store s') \<and> row_of (ev_id ev) (sy_local s') = None \<and> \<not> has_eml (ev_id ev) (sy_local s')
    \<and> (x \<noteq> ev_id ev \<longrightarrow> mail_in_folder g x (sy_store s') = mail_in_folder g x (sy_store s) \<and> row_of x (sy_local s') = row_of x (sy_local s))"
proof -
  have "apply_mail_event en ev s = drop_mail (ev_id ev) (s\<lparr>sy_world := w\<rparr>)"
    using assms(1-3) by (simp add: apply_mail_event_def resolve_mail_def call_def)
  then have s': "sy_store (apply_mail_event en ev s) = remove_mail_everywhere (ev_id ev) (sy_store s)"
      "sy_local (apply_mail_event en ev s) = snd (delete_mail (ev_id ev) (sy_local s))"
    by (simp_all add: drop_mail_def)
  show ?thesis
    using assms(4-6) unfolding Let_def s' mail_in_folder_everywhere row_of_delete_mail [OF assms(5)]
    by (simp add: not_anywhere_after_remove no_eml_after_delete)
qed

theorem update_error_drops_mail_witness:
  "let s' = apply_mail_event (sample_env offline (\<lambda>_. None)) (sample_event OpUpdate MAIL_TYPE_ID ''l'' sample_eid) sample_account
   in is_mail_anywhere sample_eid (sy_store sample_account) \<and> \<not> is_mail_anywhere sample_eid (sy_store s')
      \<and> row_of sample_eid (sy_local s') = None"
proof -
  have d: "distinct (map fst (ms_folders (sy_store sample_account)))" using sample_account_simps(2) by (simp add: ms_wf_def)
  have "is_mail_anywhere sample_eid (sy_store sample_account)"
    by (simp add: is_mail_anywhere_iff [OF d])
  moreover have "fs_ok (sy_local sample_account)" by (simp add: sample_account_def)
  ultimately show ?thesis
    using update_error_drops_mail [of "sample_event OpUpdate MAIL_TYPE_ID ''l'' sample_eid" "sample_env offline (\<lambda>_. None)"
        sample_account "''offline''" "()" sample_eid "''a''"]
    by (simp add: Let_def) (simp add: sample_event_def offline_def)
qed

end
