(* ===== verification/Json.thy ===== *)
theory Json
  imports RustStr
begin

text \<open>
  JSON values (\<open>serde_json::Value\<close>) as the bridge reads them: the event bus decodes its messages from
  them, the session store its saved credentials, and the MCP server its requests. A number that is not an
  integer is \<open>JNumber None\<close>. The JSON text format is \<open>serde_json\<close>'s: its parser and
  printer are parameters of the definitions that call them.
\<close>

datatype json = JNull | JBool bool | JString string | JNumber "int option" | JArray "json list" | JObject "(string \<times> json) list"

definition json_get :: "json \<Rightarrow> string \<Rightarrow> json option" where
  "json_get v key = (case v of JObject fs \<Rightarrow> map_of fs key | _ \<Rightarrow> None)"

definition as_str :: "json \<Rightarrow> string option" where
  "as_str v = (case v of JString s \<Rightarrow> Some s | _ \<Rightarrow> None)"

definition get_str :: "json \<Rightarrow> string \<Rightarrow> string option" where
  "get_str v key = Option.bind (json_get v key) as_str"

end
