(* ===== verification/EventBus.thy ===== *)
theory EventBus
  imports EventHandler Json
begin

text \<open>
  The event bus client (\<open>crates/tuta/src/event_bus.rs\<close>): the wire format of its messages, the URL it connects to
  and the reconnect loop. The JSON parser and the URL encoding are parameters; a JSON value keeps what
  the client reads of it. The loop is a machine that takes one event of the socket, the clock or the
  shutdown signal at a time. The heartbeat's only effect on it is a failed send.
\<close>

section \<open>Messages\<close>

datatype event_bus_error = AuthenticationRejected nat | InvalidMessage | BusStopped

definition take_string :: "json \<Rightarrow> string \<Rightarrow> event_bus_error + string" where
  "take_string v key = (case get_str v key of Some s \<Rightarrow> Inr s | None \<Rightarrow> Inl InvalidMessage)"

definition take_string_or_int :: "json \<Rightarrow> string \<Rightarrow> event_bus_error + int" where
  "take_string_or_int v key = (case json_get v key of
     Some (JString s) \<Rightarrow> (case parse_i64 s of Some n \<Rightarrow> Inr n | None \<Rightarrow> Inl InvalidMessage)
   | Some (JNumber (Some n)) \<Rightarrow> Inr n
   | _ \<Rightarrow> Inl InvalidMessage)"

definition BATCH_ID :: string where "BATCH_ID = ''1485''"
definition BATCH_OWNER :: string where "BATCH_OWNER = ''1486''"
definition ENTITY_UPDATES :: string where "ENTITY_UPDATES = ''1487''"
definition APPLICATION :: string where "APPLICATION = ''464''"
definition INSTANCE_LIST_ID :: string where "INSTANCE_LIST_ID = ''466''"
definition INSTANCE_ID :: string where "INSTANCE_ID = ''467''"
definition OPERATION :: string where "OPERATION = ''624''"
definition TYPE_ID :: string where "TYPE_ID = ''2556''"
definition INSTANCE :: string where "INSTANCE = ''2617''"
definition BLOB_INSTANCE :: string where "BLOB_INSTANCE = ''2701''"

lemmas attr_defs = BATCH_ID_def BATCH_OWNER_def ENTITY_UPDATES_def APPLICATION_def INSTANCE_LIST_ID_def INSTANCE_ID_def OPERATION_def
  TYPE_ID_def INSTANCE_def BLOB_INSTANCE_def

definition parse_entity_update_event :: "json \<Rightarrow> event_bus_error + entity_update_event" where
  "parse_entity_update_event v =
     (case take_string v APPLICATION of Inl e \<Rightarrow> Inl e | Inr app \<Rightarrow>
      case take_string_or_int v TYPE_ID of Inl e \<Rightarrow> Inl e | Inr ty \<Rightarrow>
      case take_string v INSTANCE_ID of Inl e \<Rightarrow> Inl e | Inr i \<Rightarrow>
      case take_string_or_int v OPERATION of Inl e \<Rightarrow> Inl e | Inr opn \<Rightarrow>
        Inr \<lparr>ev_application = app, ev_type_id = ty, ev_list_id = (case get_str v INSTANCE_LIST_ID of Some s \<Rightarrow> s | None \<Rightarrow> []),
          ev_id = i, ev_operation = from_code opn, ev_instance = get_str v INSTANCE, ev_blob_instance = get_str v BLOB_INSTANCE\<rparr>)"

text \<open>\<open>collect::<Result<Vec<_>, _>>()\<close>: the first error, or all results.\<close>

fun collect_results :: "(event_bus_error + 'a) list \<Rightarrow> event_bus_error + 'a list" where
  "collect_results [] = Inr []"
| "collect_results (r # rs) = (case r of Inl e \<Rightarrow> Inl e | Inr x \<Rightarrow>
     (case collect_results rs of Inl e \<Rightarrow> Inl e | Inr xs \<Rightarrow> Inr (x # xs)))"

definition parse_entity_update_batch :: "(string \<Rightarrow> json option) \<Rightarrow> string \<Rightarrow> event_bus_error + entity_update_batch" where
  "parse_entity_update_batch parse_json value = (case parse_json value of None \<Rightarrow> Inl InvalidMessage | Some v \<Rightarrow>
      case take_string v BATCH_ID of Inl e \<Rightarrow> Inl e | Inr batch_id \<Rightarrow>
      case take_string v BATCH_OWNER of Inl e \<Rightarrow> Inl e | Inr group_id \<Rightarrow>
      (case json_get v ENTITY_UPDATES of
         Some (JArray arr) \<Rightarrow> (case collect_results (map parse_entity_update_event arr) of
             Inl e \<Rightarrow> Inl e | Inr updates \<Rightarrow> Inr \<lparr>eb_batch_id = batch_id, eb_group_id = group_id, eb_updates = updates\<rparr>)
       | _ \<Rightarrow> Inl InvalidMessage))"

text \<open>A raw JSON payload is kept as its text, once it parses.\<close>

definition json_payload :: "(string \<Rightarrow> json option) \<Rightarrow> (string \<Rightarrow> event_bus_message) \<Rightarrow> string \<Rightarrow> event_bus_error + event_bus_message" where
  "json_payload parse_json f value = (case parse_json value of Some _ \<Rightarrow> Inr (f value) | None \<Rightarrow> Inl InvalidMessage)"

definition parse_message :: "(string \<Rightarrow> json option) \<Rightarrow> string \<Rightarrow> event_bus_error + event_bus_message" where
  "parse_message parse_json txt = (case (case split_once CHR '';'' txt of Some x \<Rightarrow> x | None \<Rightarrow> (txt, [])) of (kind, value) \<Rightarrow>
     if kind = ''entityUpdate'' then (case parse_entity_update_batch parse_json value of Inl e \<Rightarrow> Inl e | Inr b \<Rightarrow> Inr (EntityUpdate b))
     else if kind = ''unreadCounterUpdate'' then json_payload parse_json CounterUpdate value
     else if kind = ''leaderStatus'' then json_payload parse_json LeaderStatus value
     else if kind = ''operationStatusUpdate'' then json_payload parse_json OperationStatusUpdate value
     else if kind = ''initialSyncDone'' then Inr InitialSyncDone
     else if kind = ''initialSyncWorkEstimate'' then Inr (InitialSyncWorkEstimate (case parse_u64 (trim value) of Some n \<Rightarrow> n | None \<Rightarrow> 0))
     else if kind = ''phishingMarkers'' then json_payload parse_json PhishingMarkers value
     else Inr (UnknownMessage kind value))"

section \<open>The URL\<close>

record event_bus_client =
  bc_base_url :: string
  bc_sys_model_version :: nat
  bc_tutanota_model_version :: nat
  bc_client_version :: string
  bc_client_name :: string

text \<open>\<open>s.replacen(from, to, 1)\<close>\<close>

definition replace_first :: "string \<Rightarrow> string \<Rightarrow> string \<Rightarrow> string" where
  "replace_first from to s = (case find_sub from s of Some i \<Rightarrow> take i s @ to @ drop (i + length from) s | None \<Rightarrow> s)"

definition build_path :: "(string \<Rightarrow> string) \<Rightarrow> event_bus_client \<Rightarrow> string \<Rightarrow> string \<Rightarrow> (string \<times> string) list \<Rightarrow> string" where
  "build_path urlencode cl access_token user_id last_batch_ids =
     ''/event?modelVersions='' @ show_nat (bc_sys_model_version cl) @ ''.'' @ show_nat (bc_tutanota_model_version cl)
     @ ''&clientVersion='' @ urlencode (bc_client_version cl) @ ''&userId='' @ urlencode user_id @ ''&accessToken='' @ urlencode access_token
     @ (if bc_client_name cl \<noteq> [] then ''&clientName='' @ urlencode (bc_client_name cl) else [])
     @ (if last_batch_ids \<noteq> [] then ''&groupsToLastEventBatchIds='' @ concat (map (\<lambda>(g, b). g @ ''='' @ b @ '';'') last_batch_ids) else [])"

definition build_ws_url :: "(string \<Rightarrow> string) \<Rightarrow> event_bus_client \<Rightarrow> string \<Rightarrow> string \<Rightarrow> (string \<times> string) list \<Rightarrow> string" where
  "build_ws_url urlencode cl access_token user_id last_batch_ids =
     replace_first ''http://'' ''ws://'' (replace_first ''https://'' ''wss://'' (rev (dropWhile (\<lambda>c. c = CHR ''/'') (rev (bc_base_url cl)))))
     @ build_path urlencode cl access_token user_id last_batch_ids"

section \<open>Closing and reconnecting\<close>

datatype ws_state = WsStopped | WsConnecting | WsConnected | WsReconnecting

datatype close_verdict = Terminate nat | Suspend | Reconnect "nat \<times> nat"

definition RECONNECT_SMALL :: "nat \<times> nat" where "RECONNECT_SMALL = (5, 10)"
definition RECONNECT_MEDIUM :: "nat \<times> nat" where "RECONNECT_MEDIUM = (20, 40)"
definition RECONNECT_LARGE :: "nat \<times> nat" where "RECONNECT_LARGE = (60, 120)"

definition close_action :: "nat \<Rightarrow> close_verdict" where
  "close_action server_code = (let code = (if 4000 \<le> server_code then server_code - 4000 else server_code) in
     if code = 401 \<or> code = 470 \<or> code = 472 \<or> code = 429 then Terminate code
     else if code = 440 then Suspend
     else if code = 1 then Reconnect RECONNECT_LARGE
     else Reconnect RECONNECT_SMALL)"

definition reconnect_interval :: "nat \<Rightarrow> close_verdict option \<Rightarrow> nat \<times> nat" where
  "reconnect_interval failed_attempts close = (case close of
     Some (Reconnect r) \<Rightarrow> r
   | _ \<Rightarrow> if failed_attempts \<le> 1 then RECONNECT_SMALL else if failed_attempts = 2 then RECONNECT_MEDIUM else RECONNECT_LARGE)"

definition pick_random :: "nat \<Rightarrow> nat \<times> nat \<Rightarrow> nat" where
  "pick_random nanos r = (case r of (lo, hi) \<Rightarrow> if hi \<le> lo then lo else lo + nanos mod (hi - lo + 1))"

section \<open>The loop\<close>

datatype bus_phase = Connecting | Connected | Backoff nat | Ended event_bus_error

record bus =
  bus_phase :: bus_phase
  bus_ws :: ws_state
  bus_failed :: nat

datatype ws_frame = TextFrame string | PingFrame | PongFrame | CloseFrame "nat option" | OtherFrame

text \<open>
  What can happen to the loop: the shutdown signal, the outcome of a connect, a frame (for a text frame,
  whether the handler still takes messages), the ways a connection breaks, and the end of the backoff.
  Where the loop picks a delay, the event carries the clock's nanoseconds.
\<close>

datatype bus_input = Shutdown | ConnectOk | ConnectFailed nat | Frame ws_frame bool nat | Broken nat | BackoffOver

definition u32_inc_sat :: "nat \<Rightarrow> nat" where
  "u32_inc_sat n = min (n + 1) (2 ^ 32 - 1)"

definition bus_end :: "event_bus_error \<Rightarrow> bus \<Rightarrow> bus" where
  "bus_end e b = b\<lparr>bus_phase := Ended e, bus_ws := WsStopped\<rparr>"

definition back_off :: "nat \<Rightarrow> close_verdict option \<Rightarrow> bus \<Rightarrow> bus" where
  "back_off nanos close b = (let n = u32_inc_sat (bus_failed b)
     in b\<lparr>bus_failed := n, bus_ws := WsReconnecting, bus_phase := Backoff (pick_random nanos (reconnect_interval n close))\<rparr>)"

definition bus_start :: bus where
  "bus_start = \<lparr>bus_phase = Connecting, bus_ws = WsConnecting, bus_failed = 0\<rparr>"

definition on_frame :: "(string \<Rightarrow> json option) \<Rightarrow> ws_frame \<Rightarrow> bool \<Rightarrow> nat \<Rightarrow> bus \<Rightarrow> event_bus_message list \<times> bus" where
  "on_frame parse_json frame listening nanos b = (case frame of
     TextFrame txt \<Rightarrow> (case parse_message parse_json txt of
         Inr msg \<Rightarrow> if listening then ([msg], b) else ([], bus_end BusStopped b)
       | Inl _ \<Rightarrow> ([], b))
   | CloseFrame code \<Rightarrow> (case close_action (case code of Some c \<Rightarrow> c | None \<Rightarrow> 0) of
         Terminate c \<Rightarrow> ([], bus_end (AuthenticationRejected c) b)
       | action \<Rightarrow> ([], back_off nanos (Some action) b))
   | _ \<Rightarrow> ([], b))"

definition bus_step :: "(string \<Rightarrow> json option) \<Rightarrow> bus_input \<Rightarrow> bus \<Rightarrow> event_bus_message list \<times> bus" where
  "bus_step parse_json inp b = (case bus_phase b of
     Ended _ \<Rightarrow> ([], b)
   | Connecting \<Rightarrow> (case inp of
         Shutdown \<Rightarrow> ([], bus_end BusStopped b)
       | ConnectOk \<Rightarrow> ([], b\<lparr>bus_failed := 0, bus_ws := WsConnected, bus_phase := Connected\<rparr>)
       | ConnectFailed nanos \<Rightarrow> ([], back_off nanos None b)
       | _ \<Rightarrow> ([], b))
   | Connected \<Rightarrow> (case inp of
         Shutdown \<Rightarrow> ([], bus_end BusStopped b)
       | Frame frame listening nanos \<Rightarrow> on_frame parse_json frame listening nanos b
       | Broken nanos \<Rightarrow> ([], back_off nanos None b)
       | _ \<Rightarrow> ([], b))
   | Backoff _ \<Rightarrow> (case inp of
         Shutdown \<Rightarrow> ([], bus_end BusStopped b)
       | BackoffOver \<Rightarrow> ([], b\<lparr>bus_phase := Connecting, bus_ws := WsConnecting\<rparr>)
       | _ \<Rightarrow> ([], b)))"

fun bus_run :: "(string \<Rightarrow> json option) \<Rightarrow> bus_input list \<Rightarrow> bus \<Rightarrow> event_bus_message list \<times> bus" where
  "bus_run parse_json [] b = ([], b)"
| "bus_run parse_json (i # is) b = (case bus_step parse_json i b of (m, b1) \<Rightarrow> apfst (append m) (bus_run parse_json is b1))"

section \<open>The loop never gives up\<close>

definition terminal_codes :: "nat set" where
  "terminal_codes = {401, 429, 470, 472}"

lemma close_action_terminal: "close_action code = Terminate c \<Longrightarrow> c \<in> terminal_codes"
  by (auto simp: close_action_def terminal_codes_def Let_def split: if_splits)

lemma close_action_wrapped: "c \<in> terminal_codes \<Longrightarrow> close_action (4000 + c) = Terminate c"
  by (auto simp: close_action_def terminal_codes_def)

lemma reconnect_range: "close \<in> {None, Some Suspend} \<union> range (\<lambda>code. Some (close_action code)) \<Longrightarrow> 
    5 \<le> fst (reconnect_interval n close) \<and> fst (reconnect_interval n close) \<le> snd (reconnect_interval n close) \<and> snd (reconnect_interval n close) \<le> 120"
  by (auto simp: reconnect_interval_def close_action_def RECONNECT_SMALL_def RECONNECT_MEDIUM_def RECONNECT_LARGE_def Let_def split: close_verdict.split)

lemma pick_random_range: "fst r \<le> snd r \<Longrightarrow> fst r \<le> pick_random nanos r \<and> pick_random nanos r \<le> snd r"
proof -
  assume le: "fst r \<le> snd r"
  have "nanos mod (snd r - fst r + 1) < snd r - fst r + 1" by simp
  then have "fst r + nanos mod (snd r - fst r + 1) \<le> snd r" using le by linarith
  then show ?thesis using le by (simp add: pick_random_def case_prod_beta)
qed

definition phase_ok :: "bus \<Rightarrow> bool" where
  "phase_ok b = (case bus_phase b of
     Connecting \<Rightarrow> bus_ws b = WsConnecting | Connected \<Rightarrow> bus_ws b = WsConnected
   | Backoff secs \<Rightarrow> bus_ws b = WsReconnecting \<and> 5 \<le> secs \<and> secs \<le> 120 | Ended _ \<Rightarrow> bus_ws b = WsStopped)"

text \<open>Why a run may have ended.\<close>

definition ends_for :: "event_bus_error \<Rightarrow> bus_input \<Rightarrow> bool" where
  "ends_for e i = (case e of
     AuthenticationRejected c \<Rightarrow> (\<exists>code l n. i = Frame (CloseFrame (Some code)) l n \<and> close_action code = Terminate c \<and> c \<in> terminal_codes)
   | BusStopped \<Rightarrow> i = Shutdown \<or> (\<exists>txt n. i = Frame (TextFrame txt) False n)
   | InvalidMessage \<Rightarrow> False)"

lemma back_off_ok:
  assumes "close \<in> {None, Some Suspend} \<union> range (\<lambda>code. Some (close_action code))"
  shows "phase_ok (back_off nanos close b)" "\<exists>secs. bus_phase (back_off nanos close b) = Backoff secs"
  using reconnect_range [OF assms, of "u32_inc_sat (bus_failed b)"] pick_random_range [of "reconnect_interval (u32_inc_sat (bus_failed b)) close" nanos]
  by (auto simp: phase_ok_def back_off_def Let_def)

lemma end_ok: "phase_ok (bus_end e b)" "bus_phase (bus_end e b) = Ended e"
  by (simp_all add: phase_ok_def bus_end_def)

lemma frame_ok:
  assumes "phase_ok b" "bus_phase b = Connected" "on_frame parse_json f l n b = (m, b2)"
  shows "phase_ok b2 \<and> (bus_phase b2 = Ended e \<longrightarrow> ends_for e (Frame f l n))"
proof (cases f)
  case (TextFrame t)
  then show ?thesis using assms end_ok by (auto simp: on_frame_def ends_for_def split: sum.splits if_splits)
next
  case (CloseFrame code)
  let ?a = "close_action (case code of Some c \<Rightarrow> c | None \<Rightarrow> 0)"
  have zero: "close_action 0 = Reconnect RECONNECT_SMALL" by (simp add: close_action_def)
  show ?thesis
  proof (cases "\<exists>c. ?a = Terminate c")
    case True
    then obtain c where c: "?a = Terminate c" by blast
    then obtain k where "code = Some k" using zero by (cases code) auto
    then show ?thesis using c assms(3) CloseFrame end_ok close_action_terminal [OF c] by (auto simp: on_frame_def ends_for_def)
  next
    case False
    then have "b2 = back_off n (Some ?a) b" using assms(3) CloseFrame by (auto simp: on_frame_def split: close_verdict.splits)
    then show ?thesis using back_off_ok [of "Some ?a" n b] by auto
  qed
qed (use assms in \<open>auto simp: on_frame_def\<close>)

lemma step_ok:
  assumes "phase_ok b" "bus_step parse_json i b = (m, b2)"
  shows "phase_ok b2" "bus_phase b2 = Ended e \<Longrightarrow> bus_phase b = Ended e \<or> ends_for e i"
proof -
  have off: "phase_ok (back_off n None b)" "bus_phase (back_off n None b) \<noteq> Ended e" for n
    using back_off_ok [of None n b] by auto
  have stop: "ends_for BusStopped Shutdown" by (simp add: ends_for_def)
  have moves: "phase_ok (b\<lparr>bus_failed := 0, bus_ws := WsConnected, bus_phase := Connected\<rparr>)"
    "phase_ok (b\<lparr>bus_phase := Connecting, bus_ws := WsConnecting\<rparr>)" by (simp_all add: phase_ok_def)
  have fr: "phase_ok b2 \<and> (bus_phase b2 = Ended e \<longrightarrow> ends_for e i)" if "bus_phase b = Connected" "i = Frame f l n" for f l n
    using frame_ok [OF assms(1) that(1), of parse_json f l n m b2] assms(2) that by (simp add: bus_step_def)
  have "phase_ok b2 \<and> (bus_phase b2 = Ended e \<longrightarrow> bus_phase b = Ended e \<or> ends_for e i)"
  proof (cases "bus_phase b = Connected \<and> (\<exists>f l n. i = Frame f l n)")
    case True
    then show ?thesis using fr by blast
  next
    case False
    then show ?thesis using assms off end_ok stop moves
      by (auto simp: bus_step_def split: bus_phase.splits bus_input.splits)
  qed
  then show "phase_ok b2" "bus_phase b2 = Ended e \<Longrightarrow> bus_phase b = Ended e \<or> ends_for e i" by auto
qed

lemma run_ok:
  assumes "phase_ok b" "bus_run parse_json is b = (m, b2)"
  shows "phase_ok b2" "bus_phase b2 = Ended e \<Longrightarrow> bus_phase b = Ended e \<or> (\<exists>i \<in> set is. ends_for e i)"
proof -
  have "phase_ok b2 \<and> (bus_phase b2 = Ended e \<longrightarrow> bus_phase b = Ended e \<or> (\<exists>i \<in> set is. ends_for e i))"
    using assms
  proof (induction "is" arbitrary: b m)
    case (Cons i "is")
    obtain m1 b1 where s: "bus_step parse_json i b = (m1, b1)" by fastforce
    obtain m2 where r: "bus_run parse_json is b1 = (m2, b2)" using Cons.prems(2) s by (cases "bus_run parse_json is b1") auto
    show ?case using Cons.IH [OF step_ok(1) [OF Cons.prems(1) s] r] step_ok(2) [OF Cons.prems(1) s] by auto
  qed simp
  then show "phase_ok b2" "bus_phase b2 = Ended e \<Longrightarrow> bus_phase b = Ended e \<or> (\<exists>i \<in> set is. ends_for e i)" by auto
qed

lemma ended_stays: "bus_phase b = Ended e \<Longrightarrow> bus_run parse_json is b = ([], b)"
  by (induction "is") (simp_all add: bus_step_def)

lemma run_append: "bus_run parse_json (xs @ ys) b = (case bus_run parse_json xs b of (m, b1) \<Rightarrow> apfst (append m) (bus_run parse_json ys b1))"
  by (induction xs arbitrary: b) (auto simp: case_prod_beta apfst_def map_prod_def)

text \<open>
  C12: The event bus never gives up by itself and never insists when told to stop. Whatever happens to the
  connection, the loop ends only on a shutdown, when nobody listens any more, or on a close that
  rejects the account, and then it reports that very code; an unreadable message never ends it. Between
  attempts it waits between 5 and 120 seconds. And after a rejecting close, in the wrapped form the
  server sends, nothing that follows makes it connect again.
\<close>

theorem event_bus_reconnects:
  assumes "bus_run parse_json inputs bus_start = (msgs, b)"
  shows "phase_ok b \<and> (\<forall>e. bus_phase b = Ended e \<longrightarrow> (\<exists>i \<in> set inputs. ends_for e i))
    \<and> (\<forall>before after c l n. inputs = before @ Frame (CloseFrame (Some (4000 + c))) l n # after \<longrightarrow> c \<in> terminal_codes
         \<longrightarrow> bus_phase (snd (bus_run parse_json before bus_start)) = Connected \<longrightarrow> bus_phase b = Ended (AuthenticationRejected c))"
proof (intro conjI allI impI)
  have start: "phase_ok bus_start" "bus_phase bus_start = Connecting" by (simp_all add: phase_ok_def bus_start_def)
  show "phase_ok b" using run_ok(1) [OF start(1) assms] .
  show "\<exists>i \<in> set inputs. ends_for e i" if "bus_phase b = Ended e" for e using run_ok(2) [OF start(1) assms that] start(2) by simp
  fix before after c l n
  assume i: "inputs = before @ Frame (CloseFrame (Some (4000 + c))) l n # after" and c: "c \<in> terminal_codes"
    and con: "bus_phase (snd (bus_run parse_json before bus_start)) = Connected"
  obtain m1 b1 where r: "bus_run parse_json before bus_start = (m1, b1)" by fastforce
  have "bus_step parse_json (Frame (CloseFrame (Some (4000 + c))) l n) b1 = ([], bus_end (AuthenticationRejected c) b1)"
    using con r close_action_wrapped [OF c] by (simp add: bus_step_def on_frame_def)
  then show "bus_phase b = Ended (AuthenticationRejected c)"
    using assms i r end_ok(2) [of "AuthenticationRejected c" b1] ended_stays [of "bus_end (AuthenticationRejected c) b1"] by (simp add: run_append)
qed

theorem event_bus_reconnects_witness:
  "bus_phase (snd (bus_run (\<lambda>_. None) [ConnectOk, Frame (TextFrame ''entityUpdate;garbage'') True 0, Frame (CloseFrame (Some 4401)) True 0, BackoffOver] bus_start))
   = Ended (AuthenticationRejected 401)"
proof -
  let ?before = "[ConnectOk, Frame (TextFrame ''entityUpdate;garbage'') True 0]"
  obtain msgs b where r: "bus_run (\<lambda>_. None) (?before @ Frame (CloseFrame (Some (4000 + 401))) True 0 # [BackoffOver]) bus_start = (msgs, b)" by fastforce
  have s: "split_once CHR '';'' ''entityUpdate;garbage'' = Some (''entityUpdate'', ''garbage'')" by code_simp
  then have con: "bus_phase (snd (bus_run (\<lambda>_. None) ?before bus_start)) = Connected"
    by (simp add: bus_step_def bus_start_def on_frame_def parse_message_def parse_entity_update_batch_def)
  have "401 \<in> terminal_codes" by (simp add: terminal_codes_def)
  from event_bus_reconnects [OF r, THEN conjunct2, THEN conjunct2, rule_format, OF refl this con] r show ?thesis by simp
qed

text \<open>
  An expired session is not one of the codes that end the loop: it reconnects with the same token, for ever.
\<close>

theorem expired_session_reconnects:
  assumes "bus_phase b = Connected"
  shows "\<exists>secs b1. bus_step parse_json (Frame (CloseFrame (Some 4440)) l n) b = ([], b1) \<and> bus_phase b1 = Backoff secs
    \<and> bus_phase (snd (bus_step parse_json BackoffOver b1)) = Connecting"
  using assms by (simp add: bus_step_def on_frame_def close_action_def back_off_def Let_def)

section \<open>The wire format\<close>

text \<open>An entity update as the server writes it: numbers as texts or as numbers.\<close>

definition show_int :: "int \<Rightarrow> string" where
  "show_int n = (if n < 0 then CHR ''-'' # show_nat (nat (- n)) else show_nat (nat n))"

definition number_json :: "bool \<Rightarrow> int \<Rightarrow> json" where
  "number_json as_text n = (if as_text then JString (show_int n) else JNumber (Some n))"

definition op_code :: "operation \<Rightarrow> int" where
  "op_code opn = (case opn of OpCreate \<Rightarrow> 0 | OpUpdate \<Rightarrow> 1 | OpDelete \<Rightarrow> 2 | OpOther n \<Rightarrow> n)"

definition event_json :: "bool \<Rightarrow> entity_update_event \<Rightarrow> json" where
  "event_json as_text ev = JObject ([(APPLICATION, JString (ev_application ev)), (TYPE_ID, number_json as_text (ev_type_id ev)),
     (INSTANCE_LIST_ID, JString (ev_list_id ev)), (INSTANCE_ID, JString (ev_id ev)), (OPERATION, number_json as_text (op_code (ev_operation ev)))]
     @ (case ev_instance ev of Some s \<Rightarrow> [(INSTANCE, JString s)] | None \<Rightarrow> []) @ (case ev_blob_instance ev of Some s \<Rightarrow> [(BLOB_INSTANCE, JString s)] | None \<Rightarrow> []))"

definition batch_json :: "bool \<Rightarrow> entity_update_batch \<Rightarrow> json" where
  "batch_json as_text b = JObject [(BATCH_ID, JString (eb_batch_id b)), (BATCH_OWNER, JString (eb_group_id b)),
     (ENTITY_UPDATES, JArray (map (event_json as_text) (eb_updates b)))]"

definition i64 :: "int \<Rightarrow> bool" where
  "i64 n = (- (2 ^ 63) \<le> n \<and> n < 2 ^ 63)"

definition event_wf :: "entity_update_event \<Rightarrow> bool" where
  "event_wf ev = (i64 (ev_type_id ev) \<and> i64 (op_code (ev_operation ev)) \<and> from_code (op_code (ev_operation ev)) = ev_operation ev)"

lemma parse_i64_show: "i64 n \<Longrightarrow> parse_i64 (show_int n) = Some n"
proof (cases "n < 0")
  case True
  assume "i64 n"
  then have "nat (- n) \<le> 2 ^ 63" by (simp add: i64_def nat_le_iff)
  then show ?thesis using True by (simp add: show_int_def parse_i64_def parse_digits_show_nat)
next
  case False
  assume "i64 n"
  then have "nat n \<le> 2 ^ 63 - 1" using False by (auto simp: i64_def)
  then have "digits_val (show_nat (nat n)) \<le> 2 ^ 63 - 1 \<and> digits_val (show_nat (nat n)) = nat n" using show_nat_digits by simp
  then show ?thesis using False parse_i64_digits [of "show_nat (nat n)"] show_nat_digits [of "nat n"] by (simp add: show_int_def)
qed

lemma take_number: "i64 n \<Longrightarrow> json_get v key = Some (number_json as_text n) \<Longrightarrow> take_string_or_int v key = Inr n"
  by (auto simp: take_string_or_int_def number_json_def parse_i64_show)

lemma event_roundtrip: "event_wf ev \<Longrightarrow> parse_entity_update_event (event_json as_text ev) = Inr ev"
proof -
  assume wf: "event_wf ev"
  have "take_string_or_int (event_json as_text ev) TYPE_ID = Inr (ev_type_id ev)"
    "take_string_or_int (event_json as_text ev) OPERATION = Inr (op_code (ev_operation ev))"
    using wf by (auto simp: event_wf_def event_json_def json_get_def attr_defs intro!: take_number)
  then show ?thesis using wf
    by (cases ev) (auto simp: parse_entity_update_event_def event_wf_def take_string_def get_str_def event_json_def json_get_def as_str_def attr_defs
        split: option.split)
qed

lemma collect_roundtrip: "list_all event_wf evs \<Longrightarrow> collect_results (map parse_entity_update_event (map (event_json as_text) evs)) = Inr evs"
  by (induction evs) (simp_all add: event_roundtrip)

text \<open>
  A batch of entity updates arrives as the server sent it: reading the message gives back the batch, its
  group and every update in order, whether the numbers travel as texts or as numbers.
\<close>

theorem batch_roundtrip:
  assumes "list_all event_wf (eb_updates b)" "parse_json value = Some (batch_json as_text b)"
  shows "parse_message parse_json (''entityUpdate;'' @ value) = Inr (EntityUpdate b)"
proof -
  have "parse_entity_update_batch parse_json value = Inr b"
    using assms(2) collect_roundtrip [OF assms(1), of as_text]
    by (cases b) (simp add: parse_entity_update_batch_def batch_json_def take_string_def get_str_def json_get_def as_str_def attr_defs)
  then show ?thesis by (simp add: parse_message_def)
qed

theorem batch_roundtrip_witness:
  "parse_message (\<lambda>s. if s = ''{}'' then Some (batch_json True \<lparr>eb_batch_id = ''b'', eb_group_id = ''g'', eb_updates = [sample_event OpDelete 97 ''l'' ''i'']\<rparr>) else None)
     ''entityUpdate;{}'' = Inr (EntityUpdate \<lparr>eb_batch_id = ''b'', eb_group_id = ''g'', eb_updates = [sample_event OpDelete 97 ''l'' ''i'']\<rparr>)"
proof -
  let ?b = "\<lparr>eb_batch_id = ''b'', eb_group_id = ''g'', eb_updates = [sample_event OpDelete 97 ''l'' ''i'']\<rparr>"
  have "list_all event_wf (eb_updates ?b)" by (simp add: event_wf_def sample_event_def i64_def op_code_def from_code_def)
  from batch_roundtrip [OF this, of "\<lambda>s. if s = ''{}'' then Some (batch_json True ?b) else None" "''{}''" True]
  show ?thesis by simp
qed

section \<open>Resuming\<close>

text \<open>The server reads the cursors from the last parameter of the URL.\<close>

definition read_cursors :: "string \<Rightarrow> (string \<times> string) list" where
  "read_cursors s = List.map_filter (split_once CHR ''='') (split_on CHR '';'' s)"

lemma split_on_segments:
  "list_all (\<lambda>s. CHR '';'' \<notin> set s) segs \<Longrightarrow> split_on CHR '';'' (concat (map (\<lambda>s. s @ '';'') segs)) = segs @ [[]]"
  by (induction segs) (simp_all add: split_on_append)

text \<open>
  A reconnect resumes where processing stopped: the URL ends with the cursors of exactly the groups known
  at that moment, so the server replays what came after the last batch the bridge has processed.
\<close>

theorem cursors_resumed:
  assumes "ids \<noteq> []" "list_all (\<lambda>(g, b). CHR ''='' \<notin> set g \<and> CHR '';'' \<notin> set g \<and> CHR '';'' \<notin> set b) ids"
  shows "\<exists>front. build_ws_url urlencode cl token uid ids = front @ ''&groupsToLastEventBatchIds='' @ concat (map (\<lambda>(g, b). g @ ''='' @ b @ '';'') ids)
    \<and> read_cursors (concat (map (\<lambda>(g, b). g @ ''='' @ b @ '';'') ids)) = ids"
proof -
  let ?segs = "map (\<lambda>(g, b). g @ ''='' @ b) ids"
  have "concat (map (\<lambda>(g, b). g @ ''='' @ b @ '';'') ids) = concat (map (\<lambda>s. s @ '';'') ?segs)" by (induction ids) auto
  moreover have "list_all (\<lambda>s. CHR '';'' \<notin> set s) ?segs" using assms(2) by (auto simp: list_all_iff)
  ultimately have "read_cursors (concat (map (\<lambda>(g, b). g @ ''='' @ b @ '';'') ids)) = List.map_filter (split_once CHR ''='') (?segs @ [[]])"
    unfolding read_cursors_def by (simp only: split_on_segments)
  also have "\<dots> = ids" using assms(2) by (induction ids) (auto simp: map_filter_def split_once_append)
  finally show ?thesis using assms(1) by (auto simp: build_ws_url_def build_path_def)
qed

theorem cursors_resumed_witness:
  "read_cursors (concat (map (\<lambda>(g, b). g @ ''='' @ b @ '';'') [(''g1'', ''b7''), (''g2'', ''b9'')])) = [(''g1'', ''b7''), (''g2'', ''b9'')]"
  using cursors_resumed [of "[(''g1'', ''b7''), (''g2'', ''b9'')]" "\<lambda>s. s"
    "\<lparr>bc_base_url = ''https://x'', bc_sys_model_version = 1, bc_tutanota_model_version = 2, bc_client_version = [], bc_client_name = []\<rparr>" "''t''" "''u''"]
  by auto

end
