(* ===== verification/SessionStore.thy ===== *)
theory SessionStore
  imports Json Base64 Prelude
begin

text \<open>
  The store of the account's saved session (\<open>session_store/mod.rs\<close>, \<open>codec.rs\<close>, \<open>keyring.rs\<close>, \<open>pass.rs\<close>):
  the codec of the credentials, the two backends, and the state machine that decides when a saved entry may be
  read, replaced or removed. The keychain, the \<open>pass\<close> program and the file system are an opaque device, the
  argument \<open>v\<close> of the operations; the JSON text format and base64 are arguments too.
\<close>

section \<open>The codec\<close>

datatype credential_type = Internal | External

record credentials =
  cd_login :: string
  cd_user_id :: string
  cd_access_token :: string
  cd_encrypted_passphrase_key :: string
  cd_credential_type :: credential_type

record codec =
  co_print :: "json \<Rightarrow> string"
  co_parse :: "string \<Rightarrow> json option"
  co_base64 :: base64

definition encode :: "codec \<Rightarrow> credentials \<Rightarrow> string" where
  "encode k c = co_print k (JObject
     [(''login'', JString (cd_login c)), (''user_id'', JString (cd_user_id c)), (''access_token'', JString (cd_access_token c)),
      (''encrypted_passphrase_key'', JString (b64_encode (co_base64 k) (cd_encrypted_passphrase_key c))),
      (''credential_type'', JString (case cd_credential_type c of Internal \<Rightarrow> ''Internal'' | External \<Rightarrow> ''External''))])"

definition decode :: "codec \<Rightarrow> string \<Rightarrow> credentials option" where
  "decode k bytes = (case co_parse k bytes of None \<Rightarrow> None | Some value \<Rightarrow>
     case get_str value ''login'' of None \<Rightarrow> None | Some l \<Rightarrow>
     case get_str value ''user_id'' of None \<Rightarrow> None | Some u \<Rightarrow>
     case get_str value ''access_token'' of None \<Rightarrow> None | Some a \<Rightarrow>
     case get_str value ''encrypted_passphrase_key'' of None \<Rightarrow> None | Some e \<Rightarrow>
     case b64_decode (co_base64 k) e of None \<Rightarrow> None | Some key \<Rightarrow>
     case get_str value ''credential_type'' of None \<Rightarrow> None | Some t \<Rightarrow>
       Some \<lparr>cd_login = l, cd_user_id = u, cd_access_token = a, cd_encrypted_passphrase_key = key,
             cd_credential_type = (if t = ''External'' then External else Internal)\<rparr>)"

section \<open>Errors\<close>

datatype keyring_unavailable_kind = StorageAccess | Platform

datatype session_store_error = PassRequired | KeyringUnavailable keyring_unavailable_kind string
  | ReadError string string | WriteError string string | DeleteError string string | InvalidSession string string
  | UnreadableStore | VolatileSession | PersistenceRequired | Poisoned | Worker string

definition display_error :: "session_store_error \<Rightarrow> string" where
  "display_error e = (case e of
     PassRequired \<Rightarrow> ''This platform has no supported keyring; configure a non-empty pass_path to use pass''
   | KeyringUnavailable k m \<Rightarrow> ''The keyring is unavailable: '' @ m
   | ReadError b m \<Rightarrow> ''Could not read the saved session from '' @ b @ '': '' @ m
   | WriteError b m \<Rightarrow> ''Could not save the session to '' @ b @ '': '' @ m
   | DeleteError b m \<Rightarrow> ''Could not delete the saved session from '' @ b @ '': '' @ m
   | InvalidSession b n \<Rightarrow> ''Saved entry in '' @ b @ '' ('' @ n @ '') contains an invalid session. Sign in with your Tuta password to replace it after successful authentication; automatic resume leaves it unchanged''
   | UnreadableStore \<Rightarrow> ''The saved session could not be read; refusing to change it''
   | VolatileSession \<Rightarrow> ''The session is only kept in memory; the unreadable saved entry was left unchanged''
   | PersistenceRequired \<Rightarrow> ''A persisted session is required; the current session is only available in memory''
   | Poisoned \<Rightarrow> ''Session storage is unavailable after an earlier worker failure''
   | Worker m \<Rightarrow> ''Session storage worker failed'')"

definition allows_volatile_login :: "session_store_error \<Rightarrow> bool" where
  "allows_volatile_login e = (case e of KeyringUnavailable k m \<Rightarrow> True | _ \<Rightarrow> False)"

definition allows_reauthentication :: "session_store_error \<Rightarrow> bool" where
  "allows_reauthentication e = (case e of InvalidSession b n \<Rightarrow> True | _ \<Rightarrow> False)"

definition warning_text :: "session_store_error \<Rightarrow> string" where
  "warning_text e = (if allows_volatile_login e
     then display_error e @ ''. You can sign in for this run, but the saved entry will be left untouched and you may need to sign in again after restarting. To retry persistent storage after unlocking the keychain, quit and reopen the application; restarting only the bridge keeps this session in memory.''
     else display_error e)"

section \<open>The device and the two backends\<close>

datatype keyring_error = NoEntry | BadEncoding string | Ambiguous | NoStorageAccess string | PlatformFailure string | OtherKeyring string

datatype child_result = CannotRun string | CannotWrite string | Exited bool string string string

record 'd device =
  kr_display :: "keyring_error \<Rightarrow> string"
  kr_get_password :: "string \<Rightarrow> string \<Rightarrow> 'd \<Rightarrow> keyring_error + string"
  kr_set_password :: "string \<Rightarrow> string \<Rightarrow> string \<Rightarrow> 'd \<Rightarrow> (keyring_error + unit) \<times> 'd"
  kr_delete_credential :: "string \<Rightarrow> string \<Rightarrow> 'd \<Rightarrow> (keyring_error + unit) \<times> 'd"
  ps_exists :: "string \<Rightarrow> string \<Rightarrow> 'd \<Rightarrow> string + bool"
  ps_show :: "string \<Rightarrow> string \<Rightarrow> 'd \<Rightarrow> child_result"
  ps_insert :: "string \<Rightarrow> string \<Rightarrow> string \<Rightarrow> 'd \<Rightarrow> child_result \<times> 'd"
  ps_rm :: "string \<Rightarrow> string \<Rightarrow> 'd \<Rightarrow> child_result \<times> 'd"
  ps_stage :: "string \<Rightarrow> string \<Rightarrow> 'd \<Rightarrow> (string + string) \<times> 'd"
  ps_recipient :: "string \<Rightarrow> string \<Rightarrow> string \<Rightarrow> 'd \<Rightarrow> (string + unit) \<times> 'd"
  ps_install :: "string \<Rightarrow> string \<Rightarrow> string \<Rightarrow> 'd \<Rightarrow> (string + unit) \<times> 'd"
  ps_history :: "string \<Rightarrow> string \<Rightarrow> 'd \<Rightarrow> 'd"
  ps_unstage :: "string \<Rightarrow> 'd \<Rightarrow> 'd"

definition SERVICE :: string where "SERVICE = ''tutabridge''"

definition diagnostic :: "'d device \<Rightarrow> keyring_error \<Rightarrow> string" where
  "diagnostic v e = (case e of BadEncoding b \<Rightarrow> ''the saved session is not UTF-8'' | Ambiguous \<Rightarrow> ''multiple matching keyring entries''
     | _ \<Rightarrow> kr_display v e)"

definition classify_read_result :: "'d device \<Rightarrow> keyring_error + string \<Rightarrow> session_store_error + string option" where
  "classify_read_result v r = (case r of
     Inr secret \<Rightarrow> Inr (Some secret)
   | Inl (BadEncoding b) \<Rightarrow> Inr (Some b)
   | Inl NoEntry \<Rightarrow> Inr None
   | Inl e \<Rightarrow> Inl (case e of NoStorageAccess m \<Rightarrow> KeyringUnavailable StorageAccess (diagnostic v e)
       | PlatformFailure m \<Rightarrow> KeyringUnavailable Platform (diagnostic v e)
       | _ \<Rightarrow> ReadError ''the keychain'' (diagnostic v e)))"

definition keyring_read :: "'d device \<Rightarrow> string \<Rightarrow> 'd \<Rightarrow> session_store_error + string option" where
  "keyring_read v email d = classify_read_result v (kr_get_password v SERVICE email d)"

definition keyring_write :: "'d device \<Rightarrow> string \<Rightarrow> string \<Rightarrow> 'd \<Rightarrow> (string + unit) \<times> 'd" where
  "keyring_write v email secret d = (case kr_set_password v SERVICE email secret d of
     (Inr _, d2) \<Rightarrow> (Inr (), d2) | (Inl e, d2) \<Rightarrow> (Inl (diagnostic v e), d2))"

definition keyring_delete :: "'d device \<Rightarrow> string \<Rightarrow> 'd \<Rightarrow> (string + unit) \<times> 'd" where
  "keyring_delete v email d = (case kr_delete_credential v SERVICE email d of
     (Inr _, d2) \<Rightarrow> (Inr (), d2) | (Inl NoEntry, d2) \<Rightarrow> (Inr (), d2) | (Inl e, d2) \<Rightarrow> (Inl (diagnostic v e), d2))"

record pass_store =
  pa_entry :: string
  pa_directory :: "string option"

definition store_directory :: "string option \<Rightarrow> string option \<Rightarrow> string option" where
  "store_directory explicit home = (case explicit of Some (c # cs) \<Rightarrow> Some (c # cs)
     | _ \<Rightarrow> map_option (\<lambda>h. h @ ''/.password-store'') home)"

definition directory :: "pass_store \<Rightarrow> string + string" where
  "directory p = (case pa_directory p of Some dir \<Rightarrow> Inr dir | None \<Rightarrow> Inl ''cannot locate the password store'')"

definition entry_exists :: "'d device \<Rightarrow> pass_store \<Rightarrow> 'd \<Rightarrow> string + bool" where
  "entry_exists v p d = (case directory p of Inl e \<Rightarrow> Inl e | Inr dir \<Rightarrow>
     case ps_exists v dir (pa_entry p @ ''.gpg'') d of Inl e \<Rightarrow> Inl (''cannot inspect pass entry: '' @ e) | Inr b \<Rightarrow> Inr b)"

definition pass_read :: "'d device \<Rightarrow> pass_store \<Rightarrow> 'd \<Rightarrow> string + string option" where
  "pass_read v p d = (case entry_exists v p d of Inl e \<Rightarrow> Inl e | Inr False \<Rightarrow> Inr None | Inr True \<Rightarrow>
     case directory p of Inl e \<Rightarrow> Inl e | Inr dir \<Rightarrow>
     case ps_show v dir (pa_entry p) d of
       Exited True st out err \<Rightarrow> Inr (Some out)
     | Exited False st out err \<Rightarrow> Inl (''pass show exited with '' @ st @ '': '' @ trim (from_utf8_lossy err))
     | CannotRun e \<Rightarrow> Inl (''cannot run pass: '' @ e)
     | CannotWrite e \<Rightarrow> Inl (''cannot run pass: '' @ e))"

definition pass_write :: "'d device \<Rightarrow> pass_store \<Rightarrow> string \<Rightarrow> 'd \<Rightarrow> (string + unit) \<times> 'd" where
  "pass_write v p secret d = (case directory p of Inl e \<Rightarrow> (Inl e, d) | Inr dir \<Rightarrow>
     case ps_insert v dir (pa_entry p) secret d of (r, d2) \<Rightarrow> ((case r of
       Exited True st out err \<Rightarrow> Inr ()
     | Exited False st out err \<Rightarrow> Inl (''pass insert exited with '' @ st @ '': '' @ trim (from_utf8_lossy err))
     | CannotRun e \<Rightarrow> Inl (''cannot run pass: '' @ e)
     | CannotWrite e \<Rightarrow> Inl (''cannot write to pass: '' @ e)), d2))"

definition pass_delete :: "'d device \<Rightarrow> pass_store \<Rightarrow> 'd \<Rightarrow> (string + unit) \<times> 'd" where
  "pass_delete v p d = (case entry_exists v p d of Inl e \<Rightarrow> (Inl e, d) | Inr False \<Rightarrow> (Inr (), d) | Inr True \<Rightarrow>
     case directory p of Inl e \<Rightarrow> (Inl e, d) | Inr dir \<Rightarrow>
     case ps_rm v dir (pa_entry p) d of (r, d2) \<Rightarrow> ((case r of
       Exited True st out err \<Rightarrow> Inr ()
     | Exited False st out err \<Rightarrow> Inl (''pass rm exited with '' @ st)
     | CannotRun e \<Rightarrow> Inl (''cannot run pass: '' @ e)
     | CannotWrite e \<Rightarrow> Inl (''cannot run pass: '' @ e)), d2))"

text \<open>
  A preserving write encrypts into a staging store beside the entry, reads the ciphertext back, and only then
  renames it over the entry. \<open>ps_stage\<close> creates the directories (after sweeping interrupted ones), \<open>ps_recipient\<close>
  copies the recipient files, \<open>ps_install\<close> checks, syncs and renames, \<open>ps_history\<close> is the Git commit whose failure
  is only logged, \<open>ps_unstage\<close> removes the staging directory.
\<close>

definition normal_components :: "string \<Rightarrow> bool" where
  "normal_components path = (\<not> starts_with ''/'' path \<and> ''..'' \<notin> set (split_on CHR ''/'' path) \<and> hd (split_on CHR ''/'' path) \<noteq> ''.'')"

definition pending_store :: "string \<Rightarrow> pass_store" where
  "pending_store staging = \<lparr>pa_entry = ''session'', pa_directory = Some staging\<rparr>"

definition write_verified :: "'d device \<Rightarrow> pass_store \<Rightarrow> string \<Rightarrow> 'd \<Rightarrow> (string + unit) \<times> 'd" where
  "write_verified v pending value d = (case pass_write v pending value d of (Inl e, d2) \<Rightarrow> (Inl e, d2) | (Inr _, d2) \<Rightarrow>
     (case pass_read v pending d2 of
        Inl _ \<Rightarrow> (Inl ''Encrypted session could not be decrypted for verification'', d2)
      | Inr verified \<Rightarrow> if verified \<noteq> Some value then (Inl ''Encrypted session failed read-back verification'', d2) else (Inr (), d2)))"

definition staged_write :: "'d device \<Rightarrow> string \<Rightarrow> string \<Rightarrow> string \<Rightarrow> string \<Rightarrow> 'd \<Rightarrow> (string + unit) \<times> 'd" where
  "staged_write v dir n staging secret d1 = (case ps_recipient v dir n staging d1 of (Inl e, d2) \<Rightarrow> (Inl e, d2) | (Inr _, d2) \<Rightarrow>
     case write_verified v (pending_store staging) secret d2 of (Inl e, d3) \<Rightarrow> (Inl e, d3) | (Inr _, d3) \<Rightarrow>
     case ps_install v staging dir (n @ ''.gpg'') d3 of (Inl e, d4) \<Rightarrow> (Inl e, d4) | (Inr _, d4) \<Rightarrow>
       (Inr (), ps_history v dir (n @ ''.gpg'') d4))"

definition write_preserving :: "'d device \<Rightarrow> pass_store \<Rightarrow> string \<Rightarrow> 'd \<Rightarrow> (string + unit) \<times> 'd" where
  "write_preserving v p secret d =
    (if \<not> normal_components (pa_entry p) then (Inl ''Invalid password-store entry path'', d) else
     case directory p of Inl e \<Rightarrow> (Inl e, d) | Inr dir \<Rightarrow>
     case ps_stage v dir (pa_entry p) d of (Inl e, d1) \<Rightarrow> (Inl e, d1) | (Inr staging, d1) \<Rightarrow>
     case staged_write v dir (pa_entry p) staging secret d1 of (result, d5) \<Rightarrow> (result, ps_unstage v staging d5))"

datatype session_backend = Keyring string | Unavailable | Pass pass_store

definition backend_entry :: "session_backend \<Rightarrow> string" where
  "backend_entry b = (case b of Keyring email \<Rightarrow> ''service tutabridge, account '' @ email
     | Unavailable \<Rightarrow> ''no supported keyring on this platform'' | Pass p \<Rightarrow> pa_entry p)"

definition backend_name :: "session_backend \<Rightarrow> string" where
  "backend_name b = (case b of Keyring _ \<Rightarrow> ''the keychain'' | Unavailable \<Rightarrow> ''the unavailable keychain'' | Pass _ \<Rightarrow> ''pass'')"

definition backend_read :: "'d device \<Rightarrow> session_backend \<Rightarrow> 'd \<Rightarrow> session_store_error + string option" where
  "backend_read v b d = (case b of Keyring email \<Rightarrow> keyring_read v email d | Unavailable \<Rightarrow> Inl PassRequired
     | Pass p \<Rightarrow> (case pass_read v p d of Inl m \<Rightarrow> Inl (ReadError ''pass'' m) | Inr r \<Rightarrow> Inr r))"

definition backend_write :: "'d device \<Rightarrow> session_backend \<Rightarrow> string \<Rightarrow> 'd \<Rightarrow> (string + unit) \<times> 'd" where
  "backend_write v b secret d = (case b of Keyring email \<Rightarrow> keyring_write v email secret d
     | Unavailable \<Rightarrow> (Inl (display_error PassRequired), d) | Pass p \<Rightarrow> pass_write v p secret d)"

definition backend_delete :: "'d device \<Rightarrow> session_backend \<Rightarrow> 'd \<Rightarrow> (string + unit) \<times> 'd" where
  "backend_delete v b d = (case b of Keyring email \<Rightarrow> keyring_delete v email d
     | Unavailable \<Rightarrow> (Inl (display_error PassRequired), d) | Pass p \<Rightarrow> pass_delete v p d)"

section \<open>The state machine\<close>

datatype cache = Unloaded | Loaded "credentials option"

datatype persistence = Writable | Unreadable | ReplaceInvalid | Volatile

record session_state =
  st_backend :: session_backend
  st_cache :: cache
  st_persistence :: persistence
  st_warning :: "string option"

definition state_load :: "'d device \<Rightarrow> codec \<Rightarrow> 'd \<Rightarrow> session_state \<Rightarrow> (session_store_error + credentials option) \<times> session_state" where
  "state_load v k d st = (case st_cache st of Loaded c \<Rightarrow> (Inr c, st) | Unloaded \<Rightarrow>
     (case backend_read v (st_backend st) d of
        Inl error \<Rightarrow> (Inl error, st\<lparr>st_persistence := Unreadable, st_warning := Some (warning_text error)\<rparr>)
      | Inr raw \<Rightarrow> (let c = Option.bind raw (decode k) in
          if raw \<noteq> None \<and> c = None
          then (let error = InvalidSession (backend_name (st_backend st)) (backend_entry (st_backend st)) in
            (Inl error, st\<lparr>st_persistence := Unreadable, st_warning := Some (warning_text error)\<rparr>))
          else (Inr c, st\<lparr>st_persistence := Writable, st_warning := None, st_cache := Loaded c\<rparr>))))"

record session_status =
  available :: bool
  status_warning :: "string option"

definition state_inspect :: "'d device \<Rightarrow> codec \<Rightarrow> 'd \<Rightarrow> session_state \<Rightarrow> (session_store_error + session_status) \<times> session_state" where
  "state_inspect v k d st = (case state_load v k d st of
     (Inr c, st2) \<Rightarrow> (Inr \<lparr>available = (c \<noteq> None), status_warning = st_warning st2\<rparr>, st2)
   | (Inl error, st2) \<Rightarrow> if allows_volatile_login error \<or> allows_reauthentication error
       then (Inr \<lparr>available = False, status_warning = Some (warning_text error)\<rparr>, st2) else (Inl error, st2))"

definition load_for_password :: "'d device \<Rightarrow> codec \<Rightarrow> bool \<Rightarrow> 'd \<Rightarrow> session_state
    \<Rightarrow> (session_store_error + credentials option) \<times> session_state" where
  "load_for_password v k allow_volatile d st = (case state_load v k d st of
     (Inl error, st2) \<Rightarrow>
       if allows_reauthentication error
       then (Inr None, st2\<lparr>st_persistence := ReplaceInvalid, st_warning := Some (warning_text error)\<rparr>)
       else if allow_volatile \<and> allows_volatile_login error
       then (Inr None, st2\<lparr>st_persistence := Volatile, st_cache := Loaded None, st_warning := Some (warning_text error)\<rparr>)
       else (Inl error, st2)
   | r \<Rightarrow> r)"

definition load_persisted :: "'d device \<Rightarrow> codec \<Rightarrow> bool \<Rightarrow> 'd \<Rightarrow> session_state
    \<Rightarrow> (session_store_error + credentials option) \<times> session_state" where
  "load_persisted v k password_supplied d st =
    (case (if password_supplied then load_for_password v k False d st else state_load v k d st) of
       (Inl error, st2) \<Rightarrow> (Inl error, st2)
     | (Inr c, st2) \<Rightarrow> if st_persistence st2 = Volatile \<or> (c \<noteq> None \<and> st_warning st2 \<noteq> None)
         then (Inl PersistenceRequired, st2) else (Inr c, st2))"

definition save_with_policy :: "'d device \<Rightarrow> codec \<Rightarrow> credentials \<Rightarrow> bool \<Rightarrow> 'd \<Rightarrow> session_state
    \<Rightarrow> (session_store_error + unit) \<times> session_state \<times> 'd" where
  "save_with_policy v k c preserve d st =
    (if st_persistence st = Unreadable then (Inl UnreadableStore, st, d)
     else let encoded = encode k c; st1 = st\<lparr>st_cache := Loaded (Some c)\<rparr> in
     if st_persistence st1 = Volatile then (Inl VolatileSession, st1, d)
     else let st2 = st1\<lparr>st_persistence := Writable\<rparr> in
     case (if preserve then (case st_backend st2 of Pass p \<Rightarrow> write_preserving v p encoded d | other \<Rightarrow> backend_write v other encoded d)
           else backend_write v (st_backend st2) encoded d) of
       (Inr _, d2) \<Rightarrow> (Inr (), st2\<lparr>st_warning := None\<rparr>, d2)
     | (Inl message, d2) \<Rightarrow> (let error = WriteError (backend_name (st_backend st2)) message in
         (Inl error, st2\<lparr>st_warning := Some (display_error error
            @ ''. The new session is only available for this run; you may need to sign in again after restarting.'')\<rparr>, d2)))"

definition state_delete :: "'d device \<Rightarrow> 'd \<Rightarrow> session_state \<Rightarrow> (session_store_error + unit) \<times> session_state \<times> 'd" where
  "state_delete v d st =
    (if st_persistence st = Unreadable \<or> st_persistence st = ReplaceInvalid then (Inl UnreadableStore, st, d)
     else let st1 = st\<lparr>st_cache := Loaded None\<rparr> in
     if st_persistence st1 = Volatile then (Inl VolatileSession, st1, d)
     else case backend_delete v (st_backend st1) d of
       (Inr _, d2) \<Rightarrow> (Inr (), st1\<lparr>st_warning := None\<rparr>, d2)
     | (Inl message, d2) \<Rightarrow> (let error = DeleteError (backend_name (st_backend st1)) message in
         (Inl error, st1\<lparr>st_warning := Some (display_error error)\<rparr>, d2)))"

section \<open>The store\<close>

record config =
  cf_email :: string
  cf_api_url :: string
  cf_pass_path :: "string option"

datatype selection = SelKeyring | SelPass string

definition selection_from_config :: "config \<Rightarrow> selection" where
  "selection_from_config cfg = (case map_option (trim_matches CHR ''/'') (cf_pass_path cfg) of
     Some pre \<Rightarrow> if pre \<noteq> [] then SelPass (pre @ ''/'' @ cf_email cfg) else SelKeyring
   | None \<Rightarrow> SelKeyring)"

definition validate_selection :: "selection \<Rightarrow> bool \<Rightarrow> session_store_error + unit" where
  "validate_selection sel keyring_supported = (if sel = SelKeyring \<and> \<not> keyring_supported then Inl PassRequired else Inr ())"

record session_context =
  cx_email :: string
  cx_api_url :: string
  cx_selection :: selection

definition context_from_config :: "config \<Rightarrow> session_context" where
  "context_from_config cfg = \<lparr>cx_email = cf_email cfg, cx_api_url = cf_api_url cfg, cx_selection = selection_from_config cfg\<rparr>"

record session_store =
  so_context :: session_context
  so_state :: session_state

text \<open>
  \<open>platform\<close> is the constant \<open>KEYRING_SUPPORTED\<close> of the target, \<open>dir\<close> the password store directory found in the
  environment.
\<close>

definition new_session_store :: "bool \<Rightarrow> string option \<Rightarrow> config \<Rightarrow> session_store" where
  "new_session_store platform dir cfg = (let cx = context_from_config cfg in
     \<lparr>so_context = cx, so_state = \<lparr>st_backend = (case cx_selection cx of
          SelKeyring \<Rightarrow> (if platform then Keyring (cx_email cx) else Unavailable)
        | SelPass n \<Rightarrow> Pass \<lparr>pa_entry = n, pa_directory = dir\<rparr>),
        st_cache = Unloaded, st_persistence = Writable, st_warning = None\<rparr>\<rparr>)"

definition matches_config :: "session_store \<Rightarrow> config \<Rightarrow> bool" where
  "matches_config so cfg = (so_context so = context_from_config cfg)"

datatype store_op = Load | LoadPersisted bool | Inspect | LoadInteractive | Save credentials | SavePreserving credentials | Delete

datatype reply = Credentials "credentials option" | Status session_status | Done

definition state_op :: "'d device \<Rightarrow> codec \<Rightarrow> store_op \<Rightarrow> session_state \<Rightarrow> 'd \<Rightarrow> (session_store_error + reply) \<times> session_state \<times> 'd" where
  "state_op v k opn st d = (case opn of
     Load \<Rightarrow> (case state_load v k d st of (r, st2) \<Rightarrow> (map_sum id Credentials r, st2, d))
   | LoadPersisted pw \<Rightarrow> (case load_persisted v k pw d st of (r, st2) \<Rightarrow> (map_sum id Credentials r, st2, d))
   | Inspect \<Rightarrow> (case state_inspect v k d st of (r, st2) \<Rightarrow> (map_sum id Status r, st2, d))
   | LoadInteractive \<Rightarrow> (case load_for_password v k True d st of (r, st2) \<Rightarrow> (map_sum id Credentials r, st2, d))
   | Save c \<Rightarrow> (case save_with_policy v k c False d st of (r, st2, d2) \<Rightarrow> (map_sum id (\<lambda>_. Done) r, st2, d2))
   | SavePreserving c \<Rightarrow> (case save_with_policy v k c True d st of (r, st2, d2) \<Rightarrow> (map_sum id (\<lambda>_. Done) r, st2, d2))
   | Delete \<Rightarrow> (case state_delete v d st of (r, st2, d2) \<Rightarrow> (map_sum id (\<lambda>_. Done) r, st2, d2)))"

definition run_store :: "bool \<Rightarrow> 'd device \<Rightarrow> codec \<Rightarrow> store_op \<Rightarrow> session_store \<times> 'd \<Rightarrow> (session_store_error + reply) \<times> session_store \<times> 'd" where
  "run_store platform v k opn = (\<lambda>(so, d). case validate_selection (cx_selection (so_context so)) platform of
     Inl e \<Rightarrow> (Inl e, so, d)
   | Inr _ \<Rightarrow> (case state_op v k opn (so_state so) d of (r, st, d2) \<Rightarrow> (r, so\<lparr>so_state := st\<rparr>, d2)))"

fun run_ops :: "bool \<Rightarrow> 'd device \<Rightarrow> codec \<Rightarrow> store_op list \<Rightarrow> session_store \<times> 'd \<Rightarrow> (session_store_error + reply) list \<times> session_store \<times> 'd" where
  "run_ops platform v k [] s = ([], s)"
| "run_ops platform v k (x # xs) s = (case run_store platform v k x s of (r, s2) \<Rightarrow>
     (case run_ops platform v k xs s2 of (rs, s3) \<Rightarrow> (r # rs, s3)))"

section \<open>What a run of operations keeps\<close>

text \<open>
  The three guarantees of the store have one shape: a condition on store and device that every permitted
  operation keeps, and what it says of the replies.
\<close>

locale store_guard =
  fixes platform :: bool and v :: "'d device" and k :: codec
    and inv :: "session_store \<times> 'd \<Rightarrow> bool" and permitted :: "store_op \<Rightarrow> bool" and good :: "session_store_error + reply \<Rightarrow> bool"
  assumes step: "inv s \<Longrightarrow> permitted x \<Longrightarrow> inv (snd (run_store platform v k x s)) \<and> good (fst (run_store platform v k x s))"
begin

lemma run_keeps: "inv s \<Longrightarrow> list_all permitted xs \<Longrightarrow>
    inv (snd (run_ops platform v k xs s)) \<and> list_all good (fst (run_ops platform v k xs s))"
proof (induction xs arbitrary: s)
  case (Cons x xs)
  then have "inv (snd (run_store platform v k x s))" "good (fst (run_store platform v k x s))" using step by simp_all
  with Cons.IH [of "snd (run_store platform v k x s)"] Cons.prems show ?case
    by (simp add: case_prod_beta)
qed simp

lemma run_from: "inv (snd (run_store platform v k x s)) \<Longrightarrow> good (fst (run_store platform v k x s)) \<Longrightarrow> list_all permitted xs \<Longrightarrow>
    inv (snd (run_ops platform v k (x # xs) s)) \<and> list_all good (fst (run_ops platform v k (x # xs) s))"
  using run_keeps [of "snd (run_store platform v k x s)" xs] by (simp add: case_prod_beta)

end

primrec is_load :: "store_op \<Rightarrow> bool" where
  "is_load Load = True" | "is_load (LoadPersisted pw) = True" | "is_load Inspect = True" | "is_load LoadInteractive = True"
| "is_load (Save c) = False" | "is_load (SavePreserving c) = False" | "is_load Delete = False"

primrec with_password :: "store_op \<Rightarrow> bool" where
  "with_password Load = False" | "with_password (LoadPersisted pw) = pw" | "with_password Inspect = False" | "with_password LoadInteractive = True"
| "with_password (Save c) = False" | "with_password (SavePreserving c) = False" | "with_password Delete = False"

primrec is_save :: "store_op \<Rightarrow> bool" where
  "is_save Load = False" | "is_save (LoadPersisted pw) = False" | "is_save Inspect = False" | "is_save LoadInteractive = False"
| "is_save (Save c) = True" | "is_save (SavePreserving c) = True" | "is_save Delete = False"

definition hands_out :: "session_store_error + reply \<Rightarrow> bool" where
  "hands_out r = (\<exists>c. r = Inr (Credentials (Some c)))"

lemma hands_out_simps [simp]: "\<not> hands_out (Inl e)" "\<not> hands_out (Inr Done)" "\<not> hands_out (Inr (Status st))"
  "hands_out (Inr (Credentials c)) = (c \<noteq> None)"
  by (auto simp: hands_out_def)

lemma backend_read_error: "backend_read v b d = Inl e \<Longrightarrow> \<not> allows_reauthentication e"
  by (auto simp: backend_read_def keyring_read_def classify_read_result_def allows_reauthentication_def
      split: session_backend.splits sum.splits keyring_error.splits)

lemma no_both [simp]: "allows_reauthentication (InvalidSession b n)" "\<not> allows_volatile_login (InvalidSession b n)"
  by (simp_all add: allows_reauthentication_def allows_volatile_login_def)

lemmas state_op_defs = state_op_def load_persisted_def load_for_password_def state_inspect_def save_with_policy_def state_delete_def Let_def

text \<open>The device cannot read the entry.\<close>

definition locked_out :: "bool \<Rightarrow> 'd device \<Rightarrow> 'd \<Rightarrow> session_store \<times> 'd \<Rightarrow> bool" where
  "locked_out platform v d0 = (\<lambda>(so, d). d = d0 \<and>
     (validate_selection (cx_selection (so_context so)) platform \<noteq> Inr () \<or>
      (\<exists>e. backend_read v (st_backend (so_state so)) d0 = Inl e) \<and>
       (if st_cache (so_state so) = Unloaded then st_persistence (so_state so) = Unreadable else st_persistence (so_state so) = Volatile)))"

lemma state_load_unreadable:
  assumes "backend_read v (st_backend st) d = Inl e"
  shows "state_load v k d st = (case st_cache st of Loaded c \<Rightarrow> (Inr c, st)
    | Unloaded \<Rightarrow> (Inl e, st\<lparr>st_persistence := Unreadable, st_warning := Some (warning_text e)\<rparr>))"
  using assms by (simp add: state_load_def split: cache.split)

lemma locked_out_load:
  assumes "backend_read v (st_backend st) d = Inl e" "is_load x" "st_cache st = Unloaded"
    and "state_op v k x st d = (r, st2, d2)"
  shows "d2 = d \<and> st_backend st2 = st_backend st \<and> r \<noteq> Inr Done
    \<and> (if st_cache st2 = Unloaded then st_persistence st2 = Unreadable else st_persistence st2 = Volatile)"
  using assms backend_read_error [OF assms(1)]
  by (cases x) (auto simp: state_op_defs state_load_unreadable [OF assms(1)] split: if_splits)

lemma locked_out_step:
  assumes "backend_read v (st_backend st) d = Inl e" "state_op v k x st d = (r, st2, d2)"
    and "if st_cache st = Unloaded then st_persistence st = Unreadable else st_persistence st = Volatile"
  shows "d2 = d \<and> st_backend st2 = st_backend st \<and> r \<noteq> Inr Done
    \<and> (if st_cache st2 = Unloaded then st_persistence st2 = Unreadable else st_persistence st2 = Volatile)"
proof (cases "is_load x \<and> st_cache st = Unloaded")
  case True
  then show ?thesis using locked_out_load [OF assms(1) _ _ assms(2)] by blast
next
  case False
  then show ?thesis using assms
    by (cases x; cases "st_cache st") (auto simp: state_op_defs state_load_unreadable [OF assms(1)] split: if_splits)
qed

interpretation locked: store_guard platform v k "locked_out platform v d0" "\<lambda>_. True" "\<lambda>r. r \<noteq> Inr Done" for platform v k d0
proof (unfold_locales, goal_cases)
  case (1 s x)
  obtain so d where s: "s = (so, d)" by (cases s)
  show ?case
  proof (cases "validate_selection (cx_selection (so_context so)) platform")
    case (Inr u)
    obtain r st2 d2 where op: "state_op v k x (so_state so) d = (r, st2, d2)" by (cases "state_op v k x (so_state so) d") auto
    from 1(1) Inr s have "d = d0" and e: "\<exists>e. backend_read v (st_backend (so_state so)) d0 = Inl e"
      and c: "if st_cache (so_state so) = Unloaded then st_persistence (so_state so) = Unreadable else st_persistence (so_state so) = Volatile"
      by (auto simp: locked_out_def)
    with locked_out_step [OF _ op c] Inr s op show ?thesis by (auto simp: run_store_def locked_out_def)
  qed (use 1 s in \<open>auto simp: run_store_def locked_out_def\<close>)
qed

text \<open>The entry was read but is not a session.\<close>

definition corrupt_entry :: "'d device \<Rightarrow> codec \<Rightarrow> session_backend \<Rightarrow> 'd \<Rightarrow> bool" where
  "corrupt_entry v k b d = (case backend_read v b d of Inr (Some raw) \<Rightarrow> decode k raw = None | _ \<Rightarrow> False)"

definition left_corrupt :: "'d device \<Rightarrow> codec \<Rightarrow> bool \<Rightarrow> 'd \<Rightarrow> session_store \<times> 'd \<Rightarrow> bool" where
  "left_corrupt v k pw d0 = (\<lambda>(so, d). d = d0 \<and> corrupt_entry v k (st_backend (so_state so)) d0 \<and> st_cache (so_state so) = Unloaded \<and>
     (st_persistence (so_state so) = Unreadable \<or> pw \<and> st_persistence (so_state so) = ReplaceInvalid))"

lemma state_load_corrupt:
  assumes "corrupt_entry v k (st_backend st) d" "st_cache st = Unloaded"
  shows "state_load v k d st = (let e = InvalidSession (backend_name (st_backend st)) (backend_entry (st_backend st)) in
    (Inl e, st\<lparr>st_persistence := Unreadable, st_warning := Some (warning_text e)\<rparr>))"
  using assms by (auto simp: state_load_def corrupt_entry_def Let_def split: sum.splits option.splits)

lemma corrupt_step:
  assumes c: "corrupt_entry v k (st_backend st) d" and u: "st_cache st = Unloaded"
    and x: "is_load x \<or> st_persistence st = Unreadable \<or> pw \<and> st_persistence st = ReplaceInvalid"
    and p: "if pw then \<not> is_save x else \<not> with_password x" and run: "state_op v k x st d = (r, st2, d2)"
  shows "d2 = d \<and> st_backend st2 = st_backend st \<and> st_cache st2 = Unloaded \<and> r \<noteq> Inr Done \<and> \<not> hands_out r
    \<and> (st_persistence st2 = Unreadable \<or> pw \<and> st_persistence st2 = ReplaceInvalid)"
  using u x p run
  by (cases x) (auto simp: state_op_defs state_load_corrupt [OF c u] split: if_splits)

interpretation corrupt: store_guard platform v k "left_corrupt v k pw d0" "\<lambda>x. if pw then \<not> is_save x else \<not> with_password x"
  "\<lambda>r. r \<noteq> Inr Done \<and> \<not> hands_out r" for platform v k pw d0
proof (unfold_locales, goal_cases)
  case (1 s x)
  obtain so d where s: "s = (so, d)" by (cases s)
  show ?case
  proof (cases "validate_selection (cx_selection (so_context so)) platform")
    case (Inr u)
    obtain r st2 d2 where run: "state_op v k x (so_state so) d = (r, st2, d2)" by (cases "state_op v k x (so_state so) d") auto
    from corrupt_step [OF _ _ _ 1(2) run] 1(1) Inr s run show ?thesis by (auto simp: run_store_def left_corrupt_def)
  qed (use 1 s in \<open>auto simp: run_store_def left_corrupt_def\<close>)
qed

text \<open>The session was forgotten.\<close>

definition forgotten :: "session_store \<times> 'd \<Rightarrow> bool" where
  "forgotten = (\<lambda>(so, d). st_cache (so_state so) = Loaded None)"

lemma forgotten_step:
  assumes "st_cache st = Loaded None" "\<not> is_save x" "state_op v k x st d = (r, st2, d2)"
  shows "st_cache st2 = Loaded None \<and> \<not> hands_out r"
  using assms by (cases x) (auto simp: state_op_defs state_load_def map_sum_def split: if_splits prod.splits sum.splits)

interpretation tombstone: store_guard platform v k forgotten "\<lambda>x. \<not> is_save x" "\<lambda>r. \<not> hands_out r" for platform v k
proof (unfold_locales, goal_cases)
  case (1 s x)
  obtain so d where s: "s = (so, d)" by (cases s)
  show ?case
  proof (cases "validate_selection (cx_selection (so_context so)) platform")
    case (Inr u)
    obtain r st2 d2 where run: "state_op v k x (so_state so) d = (r, st2, d2)" by (cases "state_op v k x (so_state so) d") auto
    from forgotten_step [OF _ 1(2) run] 1(1) Inr s run show ?thesis by (auto simp: run_store_def forgotten_def)
  qed (use 1 s in \<open>auto simp: run_store_def forgotten_def\<close>)
qed

section \<open>Round trips\<close>

definition flat_object :: "(string \<times> string) list \<Rightarrow> json" where
  "flat_object fs = JObject (map (\<lambda>(n, t). (n, JString t)) fs)"

definition codec_laws :: "codec \<Rightarrow> bool" where
  "codec_laws k = (b64_inverse (co_base64 k) \<and> (\<forall>fs. co_parse k (co_print k (flat_object fs)) = Some (flat_object fs)))"

lemma parse_flat:
  assumes "codec_laws k"
  shows "co_parse k (co_print k (JObject [(a1, JString b1), (a2, JString b2), (a3, JString b3), (a4, JString b4), (a5, JString b5)]))
    = Some (JObject [(a1, JString b1), (a2, JString b2), (a3, JString b3), (a4, JString b4), (a5, JString b5)])"
proof -
  have "co_parse k (co_print k (flat_object fs)) = Some (flat_object fs)" for fs using assms by (simp add: codec_laws_def)
  from this [of "[(a1, b1), (a2, b2), (a3, b3), (a4, b4), (a5, b5)]"] show ?thesis by (simp add: flat_object_def)
qed

lemma decode_encode: "codec_laws k \<Longrightarrow> decode k (encode k c) = Some c"
  by (cases c) (auto simp: parse_flat codec_laws_def b64_inverse_def decode_def encode_def get_str_def json_get_def as_str_def
      split: credential_type.split)

text \<open>What is written successfully is what a later read finds.\<close>

definition keeps_writes :: "'d device \<Rightarrow> session_backend \<Rightarrow> bool" where
  "keeps_writes v b = (\<forall>secret d d2. backend_write v b secret d = (Inr (), d2) \<longrightarrow> backend_read v b d2 = Inr (Some secret))"

lemma save_writes:
  assumes "save_with_policy v k c False d st = (Inr (), st2, d2)"
  shows "backend_write v (st_backend st) (encode k c) d = (Inr (), d2) \<and> st_cache st2 = Loaded (Some c) \<and> st_warning st2 = None
    \<and> st_persistence st2 = Writable \<and> st_backend st2 = st_backend st"
  using assms by (auto simp: save_with_policy_def Let_def split: if_splits prod.splits sum.splits)

lemma load_written:
  assumes "codec_laws k" "backend_read v (st_backend st) d = Inr (Some (encode k c))" "st_cache st = Unloaded"
  shows "fst (state_load v k d st) = Inr (Some c)"
  using assms decode_encode [OF assms(1), of c] by (simp add: state_load_def Let_def)

text \<open>The preserving write: what is behind the entry is the old session until the new one has been read back.\<close>

definition entry_view :: "'d device \<Rightarrow> string \<Rightarrow> string \<Rightarrow> 'd \<Rightarrow> (string + bool) \<times> child_result" where
  "entry_view v dir n d = (ps_exists v dir (n @ ''.gpg'') d, ps_show v dir n d)"

definition staging_laws :: "'d device \<Rightarrow> string \<Rightarrow> string \<Rightarrow> bool" where
  "staging_laws v dir n = (\<forall>d.
     entry_view v dir n (snd (ps_stage v dir n d)) = entry_view v dir n d \<and>
     entry_view v dir n (ps_history v dir (n @ ''.gpg'') d) = entry_view v dir n d \<and>
     (\<forall>staging d0. fst (ps_stage v dir n d0) = Inr staging \<longrightarrow>
        entry_view v dir n (snd (ps_recipient v dir n staging d)) = entry_view v dir n d \<and>
        (\<forall>secret. entry_view v dir n (snd (ps_insert v staging ''session'' secret d)) = entry_view v dir n d) \<and>
        entry_view v dir n (ps_unstage v staging d) = entry_view v dir n d \<and>
        (\<forall>e d2. ps_install v staging dir (n @ ''.gpg'') d = (Inl e, d2) \<longrightarrow> entry_view v dir n d2 = entry_view v dir n d) \<and>
        (\<forall>u d2. ps_install v staging dir (n @ ''.gpg'') d = (Inr u, d2) \<longrightarrow>
           entry_view v dir n d2 = (Inr True, ps_show v staging ''session'' d))))"

lemma pass_read_view:
  "pa_directory p = Some dir \<Longrightarrow> entry_view v dir (pa_entry p) d = entry_view v dir (pa_entry p) d2 \<Longrightarrow> pass_read v p d = pass_read v p d2"
  by (simp add: pass_read_def entry_exists_def directory_def entry_view_def split: sum.split bool.split)

lemma write_verified_shows:
  assumes "write_verified v p secret d = (Inr (), d2)" "pa_directory p = Some dir"
  shows "\<exists>st err. ps_show v dir (pa_entry p) d2 = Exited True st secret err"
  using assms by (auto simp: write_verified_def pass_read_def directory_def split: prod.splits sum.splits if_splits bool.splits child_result.splits)

lemma write_verified_device: "snd (write_verified v (pending_store staging) secret d) = snd (ps_insert v staging ''session'' secret d)"
  by (auto simp: write_verified_def pass_write_def pending_store_def directory_def split: prod.splits sum.splits)

lemma staging_lawsD:
  assumes "staging_laws v dir n"
  shows "entry_view v dir n (snd (ps_stage v dir n d)) = entry_view v dir n d"
    and "entry_view v dir n (ps_history v dir (n @ ''.gpg'') d) = entry_view v dir n d"
    and "fst (ps_stage v dir n d0) = Inr staging \<Longrightarrow> entry_view v dir n (snd (ps_recipient v dir n staging d)) = entry_view v dir n d"
    and "fst (ps_stage v dir n d0) = Inr staging \<Longrightarrow> entry_view v dir n (snd (ps_insert v staging ''session'' secret d)) = entry_view v dir n d"
    and "fst (ps_stage v dir n d0) = Inr staging \<Longrightarrow> entry_view v dir n (ps_unstage v staging d) = entry_view v dir n d"
    and "fst (ps_stage v dir n d0) = Inr staging \<Longrightarrow> ps_install v staging dir (n @ ''.gpg'') d = (Inl e, d2) \<Longrightarrow>
      entry_view v dir n d2 = entry_view v dir n d"
    and "fst (ps_stage v dir n d0) = Inr staging \<Longrightarrow> ps_install v staging dir (n @ ''.gpg'') d = (Inr u, d2) \<Longrightarrow>
      entry_view v dir n d2 = (Inr True, ps_show v staging ''session'' d)"
  using assms unfolding staging_laws_def by blast+

lemma staged_write_view:
  assumes laws: "staging_laws v dir n" and st: "fst (ps_stage v dir n d0) = Inr staging"
    and run: "staged_write v dir n staging secret d1 = (r, d2)"
  shows "case r of Inl e \<Rightarrow> entry_view v dir n d2 = entry_view v dir n d1
    | Inr _ \<Rightarrow> \<exists>st err. entry_view v dir n d2 = (Inr True, Exited True st secret err)"
proof -
  obtain r3 d3 where rec: "ps_recipient v dir n staging d1 = (r3, d3)" by fastforce
  obtain r4 d4 where wv: "write_verified v (pending_store staging) secret d3 = (r4, d4)" by fastforce
  obtain r5 d5 where ins: "ps_install v staging dir (n @ ''.gpg'') d4 = (r5, d5)" by fastforce
  have same3: "entry_view v dir n d3 = entry_view v dir n d1" using staging_lawsD(3) [OF laws st, of d1] rec by simp
  have same4: "entry_view v dir n d4 = entry_view v dir n d3"
    using staging_lawsD(4) [OF laws st, of secret d3] write_verified_device [of v staging secret d3] wv by simp
  show ?thesis
  proof (cases "\<exists>u. r3 = Inr u \<and> r4 = Inr u \<and> r5 = Inr u")
    case True
    then have "\<exists>s err. ps_show v staging ''session'' d4 = Exited True s secret err"
      using write_verified_shows [of v "pending_store staging" secret d3 d4 staging] wv by (simp add: pending_store_def)
    with True staging_lawsD(7) [OF laws st, of d4 "()" d5] staging_lawsD(2) [OF laws] run rec wv ins
    show ?thesis by (auto simp: staged_write_def)
  next
    case False
    with staging_lawsD(6) [OF laws st, of d4 _ d5] run rec wv ins same3 same4
    show ?thesis by (auto simp: staged_write_def split: sum.splits)
  qed
qed

text \<open>If it fails, the entry reads as before; if it succeeds, it reads as the new session.\<close>

lemma write_preserving_read:
  assumes "staging_laws v dir (pa_entry p)" "pa_directory p = Some dir"
    and "write_preserving v p secret d = (r, d2)"
  shows "pass_read v p d2 = (case r of Inl e \<Rightarrow> pass_read v p d | Inr _ \<Rightarrow> Inr (Some secret))"
proof (cases "normal_components (pa_entry p)")
  case True
  obtain r1 d1 where stage: "ps_stage v dir (pa_entry p) d = (r1, d1)" by fastforce
  have d1: "entry_view v dir (pa_entry p) d1 = entry_view v dir (pa_entry p) d" using staging_lawsD(1) [OF assms(1), of d] stage by simp
  show ?thesis
  proof (cases r1)
    case (Inl e)
    then show ?thesis using assms(2,3) True stage pass_read_view [OF assms(2) d1] by (auto simp: write_preserving_def directory_def)
  next
    case (Inr staging)
    obtain r5 d5 where run: "staged_write v dir (pa_entry p) staging secret d1 = (r5, d5)" by fastforce
    have st: "fst (ps_stage v dir (pa_entry p) d) = Inr staging" using Inr stage by simp
    have res: "r = r5" "entry_view v dir (pa_entry p) d2 = entry_view v dir (pa_entry p) d5"
      using assms(2,3) True stage Inr run staging_lawsD(5) [OF assms(1) st, of d5] by (auto simp: write_preserving_def directory_def)
    show ?thesis
    proof (cases r5)
      case (Inl e)
      then show ?thesis using staged_write_view [OF assms(1) st run] res d1 pass_read_view [OF assms(2), of v d2 d] by simp
    next
      case (Inr u)
      then obtain s err where "entry_view v dir (pa_entry p) d2 = (Inr True, Exited True s secret err)"
        using staged_write_view [OF assms(1) st run] res by auto
      then show ?thesis using Inr res(1) assms(2) by (simp add: pass_read_def entry_exists_def directory_def entry_view_def)
    qed
  qed
qed (use assms(2,3) in \<open>auto simp: write_preserving_def\<close>)

text \<open>After a successful save a fresh store for the same backend reads the same credentials.\<close>

lemma restart_reads:
  assumes "codec_laws k" "keeps_writes v (st_backend (so_state so))"
    and "run_store platform v k (Save c) (so, d) = (Inr Done, so2, d2)"
    and "st_backend (so_state (new_session_store platform dir cfg)) = st_backend (so_state so)"
    and "validate_selection (selection_from_config cfg) platform = Inr ()"
  shows "fst (run_store platform v k Load (new_session_store platform dir cfg, d2)) = Inr (Credentials (Some c))"
proof -
  let ?so = "new_session_store platform dir cfg"
  have cx: "so_context ?so = context_from_config cfg" "st_cache (so_state ?so) = Unloaded" by (simp_all add: new_session_store_def Let_def)
  have "\<exists>st2. save_with_policy v k c False d (so_state so) = (Inr (), st2, d2)"
    using assms(3) by (auto simp: run_store_def state_op_def map_sum_def split: sum.splits prod.splits)
  then have "backend_read v (st_backend (so_state so)) d2 = Inr (Some (encode k c))"
    using save_writes assms(2) by (fastforce simp: keeps_writes_def)
  then have "fst (state_load v k d2 (so_state ?so)) = Inr (Some c)" using load_written [OF assms(1), of v "so_state ?so"] cx assms(4) by simp
  then show ?thesis using assms(5) cx(1)
    by (simp add: run_store_def state_op_def context_from_config_def case_prod_beta)
qed

lemma state_op_backend: "st_backend (fst (snd (state_op v k x st d))) = st_backend st"
  by (cases x) (auto simp: state_op_defs state_load_def split: prod.split sum.split cache.split option.split if_split)

lemma run_store_constant:
  assumes "run_store platform v k x (so, d) = (r, so2, d2)"
  shows "st_backend (so_state so2) = st_backend (so_state so)" "so_context so2 = so_context so"
  using assms state_op_backend [of v k x "so_state so" d] by (auto simp: run_store_def split: sum.splits prod.splits)

lemma load_found:
  assumes "state_load v k d st = (Inr (Some c), st2)"
  shows "st_cache st2 = Loaded (Some c)" "st_cache st = Unloaded \<Longrightarrow> \<exists>raw. backend_read v (st_backend st) d = Inr (Some raw) \<and> decode k raw = Some c"
  using assms by (auto simp: state_load_def Let_def Option.bind_eq_Some_conv split: cache.splits sum.splits if_splits)

lemma load_op_found:
  assumes "is_load x" "state_op v k x st d = (Inr (Credentials (Some c)), st2, d2)"
  shows "d2 = d \<and> state_load v k d st = (Inr (Some c), st2)"
  using assms by (cases x) (auto simp: state_op_defs map_sum_def split: if_splits prod.splits sum.splits)

section \<open>A device for examples\<close>

text \<open>
  Entries in an association list; the keychain may be locked. Its JSON text is a sequence of escaped fields.
\<close>

type_synonym shelf = "(string \<times> string) list"

definition shelf_key :: "string \<Rightarrow> string \<Rightarrow> string" where
  "shelf_key dir file = dir @ ''/'' @ file"

definition shelf :: "bool \<Rightarrow> shelf device" where
  "shelf locked = \<lparr>kr_display = (\<lambda>_. ''keychain''),
     kr_get_password = (\<lambda>s a d. if locked then Inl (NoStorageAccess []) else case map_of d a of Some x \<Rightarrow> Inr x | None \<Rightarrow> Inl NoEntry),
     kr_set_password = (\<lambda>s a x d. if locked then (Inl (NoStorageAccess []), d) else (Inr (), (a, x) # d)),
     kr_delete_credential = (\<lambda>s a d. if locked then (Inl (NoStorageAccess []), d) else (Inr (), filter (\<lambda>(n, _). n \<noteq> a) d)),
     ps_exists = (\<lambda>dir f d. Inr (map_of d (shelf_key dir f) \<noteq> None)),
     ps_show = (\<lambda>dir n d. case map_of d (shelf_key dir (n @ ''.gpg'')) of Some x \<Rightarrow> Exited True [] x [] | None \<Rightarrow> Exited False ''1'' [] []),
     ps_insert = (\<lambda>dir n x d. (Exited True [] [] [], (shelf_key dir (n @ ''.gpg''), x) # d)),
     ps_rm = (\<lambda>dir n d. (Exited True [] [] [], filter (\<lambda>(a, _). a \<noteq> shelf_key dir (n @ ''.gpg'')) d)),
     ps_stage = (\<lambda>dir n d. (Inr ''#'', d)), ps_recipient = (\<lambda>dir n s d. (Inr (), d)),
     ps_install = (\<lambda>s dir f d. case map_of d (shelf_key s ''session.gpg'') of
        Some x \<Rightarrow> (Inr (), (shelf_key dir f, x) # d) | None \<Rightarrow> (Inl ''missing'', d)),
     ps_history = (\<lambda>dir f d. d), ps_unstage = (\<lambda>s d. filter (\<lambda>(a, _). a \<noteq> shelf_key s ''session.gpg'') d)\<rparr>"

fun escape_fields :: "string list \<Rightarrow> string" where
  "escape_fields [] = []"
| "escape_fields (s # ss) = concat (map (\<lambda>c. [CHR ''x'', c]) s) @ ''.'' @ escape_fields ss"

fun unescape_fields :: "string \<Rightarrow> string \<Rightarrow> string list option" where
  "unescape_fields acc [] = (if acc = [] then Some [] else None)"
| "unescape_fields acc [c] = (if c = CHR ''.'' then Some [rev acc] else None)"
| "unescape_fields acc (c # e # s) = (if c = CHR ''.'' then map_option (Cons (rev acc)) (unescape_fields [] (e # s))
     else unescape_fields (e # acc) s)"

fun pair_fields :: "string list \<Rightarrow> (string \<times> json) list" where
  "pair_fields (a # b # ss) = (a, JString b) # pair_fields ss"
| "pair_fields _ = []"

definition field_codec :: codec where
  "field_codec = \<lparr>co_print = (\<lambda>j. case j of JObject fs \<Rightarrow>
       escape_fields (concat (map (\<lambda>(n, t). [n, case t of JString u \<Rightarrow> u | _ \<Rightarrow> []]) fs)) | _ \<Rightarrow> []),
     co_parse = (\<lambda>s. map_option (\<lambda>ss. JObject (pair_fields ss)) (unescape_fields [] s)), co_base64 = rfc4648\<rparr>"

lemma unescape_field: "unescape_fields acc (concat (map (\<lambda>c. [CHR ''x'', c]) s) @ CHR ''.'' # rest)
    = map_option (Cons (rev acc @ s)) (unescape_fields [] rest)"
  by (induction s arbitrary: acc) (cases rest; auto)+

lemma unescape_escape_fields: "unescape_fields [] (escape_fields ss) = Some ss"
  by (induction ss) (simp_all add: unescape_field)

lemma field_codec_laws: "codec_laws field_codec"
proof -
  have "pair_fields (concat (map ((\<lambda>(n, t). [n, case t of JString u \<Rightarrow> u | _ \<Rightarrow> []]) \<circ> (\<lambda>(n, t). (n, JString t))) fs))
      = map (\<lambda>(n, t). (n, JString t)) fs" for fs :: "(string \<times> string) list"
    by (induction fs) auto
  then show ?thesis
    using rfc4648_laws by (simp add: codec_laws_def field_codec_def flat_object_def unescape_escape_fields comp_def b64_laws_def)
qed

lemma shelf_staging_laws: "staging_laws (shelf locked) ''D'' n"
  by (auto simp: staging_laws_def shelf_def entry_view_def shelf_key_def map_of_filter_in split: option.splits if_splits)

section \<open>Properties\<close>


definition sample_config :: config where
  "sample_config = \<lparr>cf_email = ''me@tuta.io'', cf_api_url = ''https://app.tuta.com'', cf_pass_path = None\<rparr>"

definition sample_credentials :: credentials where
  "sample_credentials = \<lparr>cd_login = ''me@tuta.io'', cd_user_id = ''u'', cd_access_token = ''t'',
     cd_encrypted_passphrase_key = ''k'', cd_credential_type = External\<rparr>"

lemma sample_store: "so_state (new_session_store True dir sample_config)
    = \<lparr>st_backend = Keyring ''me@tuta.io'', st_cache = Unloaded, st_persistence = Writable, st_warning = None\<rparr>"
  "so_context (new_session_store True dir sample_config)
    = \<lparr>cx_email = ''me@tuta.io'', cx_api_url = ''https://app.tuta.com'', cx_selection = SelKeyring\<rparr>"
  by (simp_all add: new_session_store_def context_from_config_def selection_from_config_def sample_config_def)


text \<open>
  A saved entry that was read but is not a session is replaced only with a password. After a load, the entry stays
  as it is, and no credentials are handed out, however the store is used: without a password load even saves are
  refused, and with password loads only a save can change the entry, never a deletion.
\<close>

theorem corrupt_entry_needs_password:
  assumes "corrupt_entry v k (st_backend (so_state (new_session_store platform dir cfg))) d" "is_load x"
    and "(\<forall>y \<in> set (x # xs). \<not> with_password y) \<or> (\<forall>y \<in> set (x # xs). \<not> is_save y)"
    and "validate_selection (selection_from_config cfg) platform = Inr ()"
  shows "snd (snd (run_ops platform v k (x # xs) (new_session_store platform dir cfg, d))) = d
    \<and> list_all (\<lambda>r. r \<noteq> Inr Done \<and> \<not> hands_out r) (fst (run_ops platform v k (x # xs) (new_session_store platform dir cfg, d)))"
proof -
  let ?so = "new_session_store platform dir cfg"
  obtain pw where pw: "list_all (\<lambda>y. if pw then \<not> is_save y else \<not> with_password y) (x # xs)"
    using assms(3) that [of True] that [of False] by (auto simp: list_all_iff)
  obtain r st2 d2 where run: "state_op v k x (so_state ?so) d = (r, st2, d2)" by (cases "state_op v k x (so_state ?so) d") auto
  have u: "st_cache (so_state ?so) = Unloaded" "so_context ?so = context_from_config cfg" by (simp_all add: new_session_store_def Let_def)
  have p: "if pw then \<not> is_save x else \<not> with_password x" using pw by simp
  have "is_load x \<or> st_persistence (so_state ?so) = Unreadable \<or> pw \<and> st_persistence (so_state ?so) = ReplaceInvalid"
    using assms(2) by simp
  from corrupt_step [OF assms(1) u(1) this p run] assms(1,4) run u(2)
  have "left_corrupt v k pw d (snd (run_store platform v k x (?so, d)))
      \<and> fst (run_store platform v k x (?so, d)) \<noteq> Inr Done \<and> \<not> hands_out (fst (run_store platform v k x (?so, d)))"
    by (auto simp: run_store_def left_corrupt_def context_from_config_def)
  with corrupt.run_from [of v k pw d platform x "(?so, d)" xs] pw show ?thesis
    by (auto simp: left_corrupt_def simp del: run_ops.simps)
qed

theorem corrupt_entry_needs_password_witness:
  "snd (snd (run_ops True (shelf False) field_codec [Load, Save sample_credentials, Delete]
     (new_session_store True None sample_config, [(''me@tuta.io'', ''old'')]))) = [(''me@tuta.io'', ''old'')]"
proof -
  have c: "corrupt_entry (shelf False) field_codec (st_backend (so_state (new_session_store True None sample_config))) [(''me@tuta.io'', ''old'')]"
    by (simp add: sample_store corrupt_entry_def backend_read_def keyring_read_def classify_read_result_def shelf_def decode_def
        field_codec_def)
  have "validate_selection (selection_from_config sample_config) True = Inr ()"
    by (simp add: validate_selection_def)
  from corrupt_entry_needs_password [OF c, of Load "[Save sample_credentials, Delete]", OF _ _ this]
  show ?thesis by (simp del: run_ops.simps)
qed

text \<open>
  A rejected session does not come back. Once a deletion has been accepted the store hands out no credentials until
  new ones are saved, even when the deletion failed on the device and the entry is still there.
\<close>

theorem deleted_session_stays_gone:
  assumes "validate_selection (cx_selection (so_context so)) platform = Inr ()"
    and "st_persistence (so_state so) = Writable \<or> st_persistence (so_state so) = Volatile" "\<forall>y \<in> set xs. \<not> is_save y"
  shows "list_all (\<lambda>r. \<not> hands_out r) (fst (run_ops platform v k (Delete # xs) (so, d)))"
proof -
  have "forgotten (snd (run_store platform v k Delete (so, d))) \<and> \<not> hands_out (fst (run_store platform v k Delete (so, d)))"
    using assms(1,2) by (auto simp: run_store_def forgotten_def state_op_def state_delete_def Let_def split: prod.split sum.split)
  with tombstone.run_from [of platform v k Delete "(so, d)" xs] assms(3) show ?thesis by (simp add: list_all_iff del: run_ops.simps)
qed

theorem deleted_session_stays_gone_witness:
  "list_all (\<lambda>r. \<not> hands_out r) (fst (run_ops True (shelf True) field_codec [Delete, Load]
     (new_session_store True None sample_config, [(''me@tuta.io'', encode field_codec sample_credentials)])))"
proof -
  have "validate_selection (cx_selection (so_context (new_session_store True None sample_config))) True = Inr ()"
    by (simp add: validate_selection_def)
  from deleted_session_stays_gone [OF this, of "[Load]"] show ?thesis by (simp add: sample_store del: run_ops.simps)
qed

end
