(* ===== verification/Login.thy ===== *)
theory Login
  imports SessionStore Backend
begin

text \<open>
  Logging in (\<open>login_with_persistence\<close> in \<open>tuta.rs\<close>): resuming a saved session, classifying why a resume failed,
  password login with a second factor, and saving the new session under the caller's persistence policy. Tuta's
  SDK is a record of functions on its own world \<open>'w\<close>; the session store and its device are those of
  \<open>SessionStore\<close>.
\<close>

datatype login_error = InvalidAccessToken | InvalidPassphrase | InvalidKey | ApiCall api_call_error

datatype resume_failure = SessionInvalid | ClientRejected | Transient

definition classify_resume_failure :: "login_error \<Rightarrow> resume_failure" where
  "classify_resume_failure e = (case e of
     InvalidAccessToken \<Rightarrow> SessionInvalid | InvalidPassphrase \<Rightarrow> SessionInvalid | InvalidKey \<Rightarrow> SessionInvalid
   | ApiCall (ServerResponseError h) \<Rightarrow> (case h of
        NotAuthenticatedError \<Rightarrow> SessionInvalid | SessionExpiredError \<Rightarrow> SessionInvalid | AccessExpiredError \<Rightarrow> SessionInvalid
      | AccessDeactivatedError \<Rightarrow> SessionInvalid | AccessBlockedError \<Rightarrow> SessionInvalid
      | InvalidSoftwareVersionError \<Rightarrow> ClientRejected | _ \<Rightarrow> Transient)
   | ApiCall _ \<Rightarrow> Transient)"

datatype persistence_policy = AllowVolatile | Required | PreserveExistingRequired

definition accept_session_save :: "persistence_policy \<Rightarrow> session_store_error + unit \<Rightarrow> session_store_error + unit" where
  "accept_session_save policy result = (case (policy, result) of
     (Required, r) \<Rightarrow> r | (PreserveExistingRequired, r) \<Rightarrow> r | (_, Inl error) \<Rightarrow> Inr () | (_, Inr _) \<Rightarrow> Inr ())"

record sdk_session =
  ns_credentials :: credentials
  ns_challenges :: "int list"

record 'w sdk =
  sd_client :: "'w \<Rightarrow> string + unit"
  sd_login :: "credentials \<Rightarrow> 'w \<Rightarrow> (login_error + unit) \<times> 'w"
  sd_initiate_session :: "string \<Rightarrow> string \<Rightarrow> 'w \<Rightarrow> (login_error + sdk_session) \<times> 'w"
  sd_second_factor_totp :: "string \<Rightarrow> nat \<Rightarrow> 'w \<Rightarrow> (string + unit) \<times> 'w"
  sd_second_factor_pending :: "string \<Rightarrow> 'w \<Rightarrow> (string + bool) \<times> 'w"
  sd_totp_type :: int

type_synonym 'w totp_callback = "'w \<Rightarrow> (string + nat) \<times> 'w"

datatype login_failure = StoreMismatch | StoreFailed session_store_error | ClientUnavailable string
  | Resume resume_failure | Kept resume_failure | NoPassword | LoginFailed login_error | SecondFactorUnsupported
  | NoTotpCallback | TotpCallbackFailed string | SecondFactorFailed string | PollFailed string | SecondFactorTimeout

record tuta_session =
  ts_email :: string
  ts_access_token :: string

text \<open>The poll after the code was submitted: thirty attempts, one second apart.\<close>

fun poll_second_factor :: "'w sdk \<Rightarrow> string \<Rightarrow> nat \<Rightarrow> 'w \<Rightarrow> (login_failure + unit) \<times> 'w" where
  "poll_second_factor sdk token 0 w = (Inl SecondFactorTimeout, w)"
| "poll_second_factor sdk token (Suc n) w = (case sd_second_factor_pending sdk token w of
     (Inl e, w2) \<Rightarrow> (Inl (PollFailed e), w2)
   | (Inr pending, w2) \<Rightarrow> if \<not> pending then (Inr (), w2) else poll_second_factor sdk token n w2)"

definition second_factor :: "'w sdk \<Rightarrow> 'w totp_callback option \<Rightarrow> sdk_session \<Rightarrow> 'w \<Rightarrow> (login_failure + unit) \<times> 'w" where
  "second_factor sdk totp_callback session w =
    (if ns_challenges session = [] then (Inr (), w)
     else if sd_totp_type sdk \<notin> set (ns_challenges session) then (Inl SecondFactorUnsupported, w)
     else case totp_callback of None \<Rightarrow> (Inl NoTotpCallback, w) | Some cb \<Rightarrow>
     case cb w of (Inl e, w1) \<Rightarrow> (Inl (TotpCallbackFailed e), w1) | (Inr code, w1) \<Rightarrow>
     case sd_second_factor_totp sdk (cd_access_token (ns_credentials session)) code w1 of
       (Inl e, w2) \<Rightarrow> (Inl (SecondFactorFailed e), w2)
     | (Inr _, w2) \<Rightarrow> poll_second_factor sdk (cd_access_token (ns_credentials session)) 30 w2)"

definition password_session :: "'w sdk \<Rightarrow> string \<Rightarrow> string option \<Rightarrow> 'w totp_callback option \<Rightarrow> 'w \<Rightarrow> (login_failure + credentials) \<times> 'w" where
  "password_session sdk email password totp_callback w = (case password of None \<Rightarrow> (Inl NoPassword, w) | Some pw \<Rightarrow>
     case sd_initiate_session sdk email pw w of (Inl e, w1) \<Rightarrow> (Inl (LoginFailed e), w1) | (Inr session, w1) \<Rightarrow>
     case second_factor sdk totp_callback session w1 of (Inl e, w2) \<Rightarrow> (Inl e, w2) | (Inr _, w2) \<Rightarrow>
     case sd_login sdk (ns_credentials session) w2 of (Inl e, w3) \<Rightarrow> (Inl (LoginFailed e), w3) | (Inr _, w3) \<Rightarrow>
       (Inr (ns_credentials session), w3))"

definition authenticate :: "'w sdk \<Rightarrow> bool \<Rightarrow> 'd device \<Rightarrow> codec \<Rightarrow> config \<Rightarrow> string option \<Rightarrow> 'w totp_callback option \<Rightarrow> persistence_policy
    \<Rightarrow> session_store \<times> 'd \<Rightarrow> 'w \<Rightarrow> (login_failure + tuta_session) \<times> (session_store \<times> 'd) \<times> 'w" where
  "authenticate sdk platform v k cfg password totp_callback policy s w =
    (case password_session sdk (cf_email cfg) password totp_callback w of (Inl e, w1) \<Rightarrow> (Inl e, s, w1) | (Inr c, w1) \<Rightarrow>
     case run_store platform v k (if policy = PreserveExistingRequired then SavePreserving c else Save c) s of (saved, s2) \<Rightarrow>
     case accept_session_save policy (map_sum id (\<lambda>_. ()) saved) of
       Inl e \<Rightarrow> (Inl (StoreFailed e), s2, w1)
     | Inr _ \<Rightarrow> (Inr \<lparr>ts_email = cf_email cfg, ts_access_token = cd_access_token c\<rparr>, s2, w1))"

definition load_op :: "persistence_policy \<Rightarrow> string option \<Rightarrow> store_op" where
  "load_op policy password = (if policy \<noteq> AllowVolatile then LoadPersisted (password \<noteq> None)
     else if password \<noteq> None then LoadInteractive else Load)"

definition resume_or_authenticate :: "'w sdk \<Rightarrow> bool \<Rightarrow> 'd device \<Rightarrow> codec \<Rightarrow> config \<Rightarrow> string option \<Rightarrow> 'w totp_callback option
    \<Rightarrow> persistence_policy \<Rightarrow> credentials option \<Rightarrow> session_store \<times> 'd \<Rightarrow> 'w \<Rightarrow> (login_failure + tuta_session) \<times> (session_store \<times> 'd) \<times> 'w" where
  "resume_or_authenticate sdk platform v k cfg password totp_callback policy c s w =
    (case c of None \<Rightarrow> authenticate sdk platform v k cfg password totp_callback policy s w | Some c \<Rightarrow>
     case sd_login sdk c w of
       (Inr _, w1) \<Rightarrow> (Inr \<lparr>ts_email = cf_email cfg, ts_access_token = cd_access_token c\<rparr>, s, w1)
     | (Inl e, w1) \<Rightarrow> (case classify_resume_failure e of
          SessionInvalid \<Rightarrow>
            if policy = PreserveExistingRequired
            then (if password = None then (Inl (Resume SessionInvalid), s, w1)
                  else authenticate sdk platform v k cfg password totp_callback policy s w1)
            else authenticate sdk platform v k cfg password totp_callback policy (snd (run_store platform v k Delete s)) w1
        | failure \<Rightarrow> (Inl (if policy = PreserveExistingRequired then Resume failure else Kept failure), s, w1)))"

definition login_with_persistence :: "'w sdk \<Rightarrow> bool \<Rightarrow> 'd device \<Rightarrow> codec \<Rightarrow> config \<Rightarrow> string option \<Rightarrow> 'w totp_callback option
    \<Rightarrow> persistence_policy \<Rightarrow> session_store \<times> 'd \<Rightarrow> 'w \<Rightarrow> (login_failure + tuta_session) \<times> (session_store \<times> 'd) \<times> 'w" where
  "login_with_persistence sdk platform v k cfg password totp_callback policy s w =
    (if \<not> matches_config (fst s) cfg then (Inl StoreMismatch, s, w) else
     case run_store platform v k (load_op policy password) s of
       (Inl e, s1) \<Rightarrow> (Inl (StoreFailed e), s1, w)
     | (Inr reply, s1) \<Rightarrow> (case sd_client sdk w of Inl e \<Rightarrow> (Inl (ClientUnavailable e), s1, w) | Inr _ \<Rightarrow>
         resume_or_authenticate sdk platform v k cfg password totp_callback policy
           (case reply of Credentials c \<Rightarrow> c | _ \<Rightarrow> None) s1 w))"

lemma load_op_is_load [simp]: "is_load (load_op policy password)"
  by (simp add: load_op_def)

lemma load_keeps_device: "is_load x \<Longrightarrow> snd (snd (run_store platform v k x (so, d))) = d"
  by (cases x) (auto simp: run_store_def state_op_def split: sum.split prod.split)

lemma refused_save: "policy \<noteq> AllowVolatile \<Longrightarrow> accept_session_save policy r = r"
  by (cases policy) (simp_all add: accept_session_save_def)

lemma run_load_found:
  assumes "is_load x" "run_store platform v k x (so, d) = (Inr (Credentials (Some c)), so2, d2)"
  shows "d2 = d" "state_load v k d (so_state so) = (Inr (Some c), so_state so2)"
    "validate_selection (cx_selection (so_context so)) platform = Inr ()"
  using assms load_op_found [OF assms(1), of v k "so_state so" d c] by (auto simp: run_store_def split: sum.splits prod.splits)

lemma reload:
  assumes "is_load x" "run_store platform v k x (so, d) = (Inr (Credentials (Some c)), so2, d2)"
  shows "fst (run_store platform v k Load (so2, d3)) = Inr (Credentials (Some c))"
proof -
  have "st_cache (so_state so2) = Loaded (Some c)" by (rule load_found(1) [OF run_load_found(2) [OF assms]])
  then show ?thesis using run_load_found(3) [OF assms] run_store_constant(2) [OF assms(2)]
    by (simp add: run_store_def state_op_def state_load_def)
qed

lemma fresh_reload:
  assumes "is_load x" "run_store platform v k x (new_session_store platform dir cfg, d) = (Inr (Credentials (Some c)), so2, d2)"
  shows "fst (run_store platform v k Load (new_session_store platform dir cfg, d)) = Inr (Credentials (Some c))"
proof -
  let ?so = "new_session_store platform dir cfg"
  have "st_cache (so_state ?so) = Unloaded" by (simp add: new_session_store_def Let_def)
  then show ?thesis using run_load_found(2,3) [OF assms] by (simp add: run_store_def state_op_def)
qed

section \<open>Properties\<close>


definition refusing_sdk :: "login_error \<Rightarrow> unit sdk" where
  "refusing_sdk e = \<lparr>sd_client = (\<lambda>_. Inr ()), sd_login = (\<lambda>_ w. (Inl e, w)), sd_initiate_session = (\<lambda>_ _ w. (Inl e, w)),
     sd_second_factor_totp = (\<lambda>_ _ w. (Inr (), w)), sd_second_factor_pending = (\<lambda>_ w. (Inr False, w)), sd_totp_type = 1\<rparr>"

definition sample_shelf :: shelf where
  "sample_shelf = [(''me@tuta.io'', encode field_codec sample_credentials)]"

lemma sample_matches: "matches_config (new_session_store platform dir cfg) cfg"
  by (simp add: matches_config_def new_session_store_def Let_def)

lemma sample_load: "\<exists>so1. run_store True (shelf False) field_codec Load (new_session_store True None sample_config, sample_shelf)
    = (Inr (Credentials (Some sample_credentials)), so1, sample_shelf)"
  using decode_encode [OF field_codec_laws, of sample_credentials]
  by (simp add: run_store_def validate_selection_def sample_store state_op_def state_load_def backend_read_def keyring_read_def
      classify_read_result_def shelf_def sample_shelf_def Let_def)


text \<open>
  A container login that fails keeps the entry. Under \<open>PreserveExistingRequired\<close> with the password store, whatever
  goes wrong (no session, a rejected token, a wrong password or code, a failed encryption) the entry reads as it did
  before; only a login that succeeds replaces it.
\<close>

theorem container_failure_preserves:
  assumes "st_backend (so_state so) = Pass p" "pa_directory p = Some dir" "staging_laws v dir (pa_entry p)"
    and "login_with_persistence sdk platform v k cfg password totp PreserveExistingRequired (so, d) w = (Inl f, (so2, d2), w2)"
  shows "pass_read v p d2 = pass_read v p d"
proof -
  have auth: "pass_read v p d4 = pass_read v p d3"
    if "authenticate sdk platform v k cfg password totp PreserveExistingRequired (so3, d3) w3 = (Inl f, (so4, d4), w4)"
      "st_backend (so_state so3) = Pass p" for so3 d3 w3 so4 d4 w4
  proof -
    have "save_with_policy v k c True d3 (so_state so3) = (Inl e, st, d5) \<Longrightarrow> pass_read v p d5 = pass_read v p d3" for c e st d5
      using that(2) write_preserving_read [OF assms(3,2), of "encode k c" d3]
      by (auto simp: save_with_policy_def Let_def split: if_splits prod.splits sum.splits)
    then show ?thesis using that(1)
      by (auto simp: authenticate_def refused_save run_store_def state_op_def map_sum_def split: prod.splits sum.splits)
  qed
  obtain r1 so1 d1 where load: "run_store platform v k (load_op PreserveExistingRequired password) (so, d) = (r1, so1, d1)"
    by (cases "run_store platform v k (load_op PreserveExistingRequired password) (so, d)") auto
  have "d1 = d" using load_keeps_device [OF load_op_is_load] load by (metis snd_conv)
  moreover have "st_backend (so_state so1) = Pass p" using run_store_constant(1) [OF load] assms(1) by simp
  ultimately show ?thesis using assms(4) load auth
    by (auto simp: login_with_persistence_def resume_or_authenticate_def split: if_splits sum.splits option.splits prod.splits resume_failure.splits)
qed

definition pass_config :: config where
  "pass_config = \<lparr>cf_email = ''s'', cf_api_url = [], cf_pass_path = Some ''P''\<rparr>"

definition accepting_sdk :: "unit sdk" where
  "accepting_sdk = \<lparr>sd_client = (\<lambda>_. Inr ()), sd_login = (\<lambda>_ w. (Inr (), w)),
     sd_initiate_session = (\<lambda>_ _ w. (Inr \<lparr>ns_credentials = sample_credentials, ns_challenges = [1]\<rparr>, w)),
     sd_second_factor_totp = (\<lambda>_ _ w. (Inr (), w)), sd_second_factor_pending = (\<lambda>_ w. (Inr False, w)), sd_totp_type = 1\<rparr>"

lemma accepting_sdk_simps: "sd_client accepting_sdk w = Inr ()" "sd_login accepting_sdk c w = (Inr (), w)"
  "sd_initiate_session accepting_sdk e pw w = (Inr \<lparr>ns_credentials = sample_credentials, ns_challenges = [1]\<rparr>, w)"
  "sd_second_factor_totp accepting_sdk t n w = (Inr (), w)" "sd_totp_type accepting_sdk = 1"
  by (simp_all add: accepting_sdk_def)

lemma accepting_sdk_poll: "poll_second_factor accepting_sdk t 30 w = (Inr (), w)"
  by (simp add: numeral_eq_Suc accepting_sdk_def)

theorem container_failure_preserves_witness:
  "pass_read (shelf False) \<lparr>pa_entry = ''P/s'', pa_directory = Some ''D''\<rparr>
     (snd (fst (snd (login_with_persistence accepting_sdk True (shelf False) field_codec pass_config (Some ''pw'') None PreserveExistingRequired
       (new_session_store True (Some ''D'') pass_config, []) ())))) = Inr None"
proof -
  let ?l = "login_with_persistence accepting_sdk True (shelf False) field_codec pass_config (Some ''pw'') None PreserveExistingRequired
       (new_session_store True (Some ''D'') pass_config, []) ()"
  have b: "st_backend (so_state (new_session_store True (Some ''D'') pass_config)) = Pass \<lparr>pa_entry = ''P/s'', pa_directory = Some ''D''\<rparr>"
    by (simp add: new_session_store_def context_from_config_def selection_from_config_def pass_config_def trim_matches_def)
  have "fst ?l = Inl NoTotpCallback"
    by (simp add: login_with_persistence_def sample_matches run_store_def validate_selection_def new_session_store_def context_from_config_def
        selection_from_config_def pass_config_def trim_matches_def load_op_def state_op_def load_persisted_def load_for_password_def state_load_def
        backend_read_def pass_read_def entry_exists_def directory_def shelf_def shelf_key_def resume_or_authenticate_def authenticate_def
        password_session_def second_factor_def accepting_sdk_def matches_config_def)
  then obtain so2 d2 w2 where l: "?l = (Inl NoTotpCallback, (so2, d2), w2)" by (cases ?l) auto
  from container_failure_preserves [OF b _ _ l, of "''D''"] shelf_staging_laws
  have "pass_read (shelf False) \<lparr>pa_entry = ''P/s'', pa_directory = Some ''D''\<rparr> d2
      = pass_read (shelf False) \<lparr>pa_entry = ''P/s'', pa_directory = Some ''D''\<rparr> []" by simp
  then show ?thesis using l by (simp add: pass_read_def entry_exists_def directory_def shelf_def)
qed

text \<open>
  A login that requires persistence and succeeds is persisted. Under \<open>Required\<close>, for a session resumed or freshly
  authenticated, a new store for the same configuration reads back credentials with the access token of the session.
\<close>

theorem required_login_is_persisted:
  assumes "codec_laws k" "keeps_writes v (st_backend (so_state (new_session_store platform dir cfg)))"
    and "login_with_persistence sdk platform v k cfg password totp Required (new_session_store platform dir cfg, d) w = (Inr sess, (so2, d2), w2)"
  shows "\<exists>c. fst (run_store platform v k Load (new_session_store platform dir cfg, d2)) = Inr (Credentials (Some c))
    \<and> ts_access_token sess = cd_access_token c"
proof -
  let ?so = "new_session_store platform dir cfg"
  obtain r1 so1 d1 where load: "run_store platform v k (load_op Required password) (?so, d) = (r1, so1, d1)"
    by (cases "run_store platform v k (load_op Required password) (?so, d)") auto
  have d1: "d1 = d" using load_keeps_device [OF load_op_is_load] load by (metis snd_conv)
  have valid: "validate_selection (selection_from_config cfg) platform = Inr ()" if "r1 = Inr x" for x
    using load that by (auto simp: run_store_def new_session_store_def context_from_config_def Let_def split: sum.splits)
  have auth: ?thesis if "authenticate sdk platform v k cfg password totp Required (so3, d3) w3 = (Inr sess, (so2, d2), w4)"
      "st_backend (so_state so3) = st_backend (so_state ?so)" "r1 = Inr x" for so3 d3 w3 w4 x
  proof -
    from that(1) obtain c u where save: "run_store platform v k (Save c) (so3, d3) = (Inr u, so2, d2)" and c: "ts_access_token sess = cd_access_token c"
      by (auto simp: authenticate_def refused_save map_sum_def split: prod.splits sum.splits)
    then have "u = Done" by (auto simp: run_store_def state_op_def map_sum_def split: sum.splits prod.splits)
    with restart_reads [OF assms(1) _ save [unfolded this]] assms(2) that(2) valid [OF that(3)] c show ?thesis by metis
  qed
  obtain rd sod dd where del: "run_store platform v k Delete (so1, d) = (rd, sod, dd)" by (cases "run_store platform v k Delete (so1, d)") auto
  have b1: "st_backend (so_state so1) = st_backend (so_state ?so)" using run_store_constant(1) [OF load] .
  obtain x where r1: "r1 = Inr x"
    using assms(3) load by (cases r1) (auto simp: login_with_persistence_def sample_matches)
  with assms(3) load d1 obtain c0 where run: "resume_or_authenticate sdk platform v k cfg password totp Required c0 (so1, d) w = (Inr sess, (so2, d2), w2)"
      and c0: "c0 = (case x of Credentials c \<Rightarrow> c | _ \<Rightarrow> None)"
    by (auto simp: login_with_persistence_def sample_matches split: sum.splits)
  show ?thesis
  proof (cases "\<exists>c w1. c0 = Some c \<and> sd_login sdk c w = (Inr (), w1)")
    case True
    then obtain c where c: "c0 = Some c" "ts_access_token sess = cd_access_token c" "d2 = d"
      using run by (auto simp: resume_or_authenticate_def)
    then have "x = Credentials (Some c)" using c0 by (cases x) simp_all
    with load r1 have "run_store platform v k (load_op Required password) (?so, d) = (Inr (Credentials (Some c)), so1, d1)" by simp
    from fresh_reload [OF load_op_is_load this] show ?thesis using c by simp
  next
    case False
    then have "\<exists>so3 d3 w3. authenticate sdk platform v k cfg password totp Required (so3, d3) w3 = (Inr sess, (so2, d2), w2)
        \<and> st_backend (so_state so3) = st_backend (so_state so1)"
      using run del run_store_constant(1) [OF del] by (auto simp: resume_or_authenticate_def split: option.splits prod.splits sum.splits resume_failure.splits)
    then show ?thesis using auth b1 r1 by auto
  qed
qed

theorem required_login_is_persisted_witness:
  "\<exists>c. fst (run_store True (shelf False) field_codec Load (new_session_store True None sample_config,
      snd (fst (snd (login_with_persistence accepting_sdk True (shelf False) field_codec sample_config (Some ''pw'') (Some (\<lambda>w. (Inr 123456, w)))
        Required (new_session_store True None sample_config, []) ()))))) = Inr (Credentials (Some c)) \<and> cd_access_token c = ''t''"
proof -
  let ?l = "login_with_persistence accepting_sdk True (shelf False) field_codec sample_config (Some ''pw'') (Some (\<lambda>w. (Inr 123456, w)))
        Required (new_session_store True None sample_config, []) ()"
  have keeps: "keeps_writes (shelf False) (st_backend (so_state (new_session_store True None sample_config)))"
    by (auto simp: sample_store keeps_writes_def backend_write_def backend_read_def keyring_write_def keyring_read_def
        classify_read_result_def shelf_def)
  have names: "cf_email sample_config = ''me@tuta.io''" "cd_access_token sample_credentials = ''t''"
    by (simp_all add: sample_config_def sample_credentials_def)
  have "fst ?l = Inr \<lparr>ts_email = ''me@tuta.io'', ts_access_token = ''t''\<rparr>"
    by (simp add: login_with_persistence_def sample_matches run_store_def validate_selection_def sample_store load_op_def state_op_def
        load_persisted_def load_for_password_def state_load_def backend_read_def keyring_read_def classify_read_result_def shelf_def
        resume_or_authenticate_def authenticate_def password_session_def second_factor_def accepting_sdk_simps save_with_policy_def
        backend_write_def keyring_write_def accept_session_save_def names accepting_sdk_poll)
  then obtain so2 d2 w2 where l: "?l = (Inr \<lparr>ts_email = ''me@tuta.io'', ts_access_token = ''t''\<rparr>, (so2, d2), w2)" by (cases ?l) auto
  from required_login_is_persisted [OF field_codec_laws keeps l] show ?thesis unfolding l by auto
qed

end
