(* ===== verification/Config.thy ===== *)
theory Config
  imports SessionStore
begin

text \<open>
  The configuration file (\<open>config.rs\<close>): its fields, defaults and validation, its TOML form, the merge of the settings
  form into the file, and the bridge password. TOML's text format and the parser of IP addresses are parameters; a TOML table
  is an association list.
\<close>

datatype mcp_permission = Disabled | Metadata | Full

definition allows_body :: "mcp_permission \<Rightarrow> bool" where "allows_body p \<longleftrightarrow> p = Full"

definition is_enabled :: "mcp_permission \<Rightarrow> bool" where "is_enabled p \<longleftrightarrow> p \<noteq> Disabled"

record app_config = config +
  ac_imap_port :: nat
  ac_smtp_port :: nat
  ac_bind_addr :: string
  ac_bridge_password :: "string option"
  ac_sync_limit :: nat
  ac_mcp_permission :: mcp_permission
  ac_mcp_port :: nat
  ac_auto_update :: bool

record editable_settings =
  es_email :: string
  es_imap_port :: nat
  es_smtp_port :: nat
  es_api_url :: string
  es_sync_limit :: nat
  es_mcp_permission :: mcp_permission
  es_mcp_port :: nat
  es_auto_update :: bool

definition default_sync_limit :: nat where "default_sync_limit = 500"
definition default_bind_addr :: string where "default_bind_addr = ''127.0.0.1''"
definition default_mcp_port :: nat where "default_mcp_port = 1944"
definition default_api_url :: string where "default_api_url = ''https://app.tuta.com''"
definition default_auto_update :: bool where "default_auto_update = True"

definition default_config :: app_config where
  "default_config = \<lparr>cf_email = [], cf_api_url = default_api_url, cf_pass_path = None, ac_imap_port = 1143, ac_smtp_port = 1025,
     ac_bind_addr = default_bind_addr, ac_bridge_password = None, ac_sync_limit = default_sync_limit, ac_mcp_permission = Disabled,
     ac_mcp_port = default_mcp_port, ac_auto_update = default_auto_update\<rparr>"

section \<open>Ports\<close>

fun zero_port :: "(string \<times> nat) list \<Rightarrow> string option" where
  "zero_port [] = None"
| "zero_port ((name, port) # ps) = (if port = 0 then Some name else zero_port ps)"

fun port_clash :: "(string \<times> nat) list \<Rightarrow> (string \<times> string \<times> nat) option" where
  "port_clash [] = None"
| "port_clash ((a, pa) # ps) = (case find (\<lambda>(b, pb). pa = pb) ps of Some (b, _) \<Rightarrow> Some (a, b, pa) | None \<Rightarrow> port_clash ps)"

definition listening_ports :: "app_config \<Rightarrow> (string \<times> nat) list" where
  "listening_ports c = [(''IMAP'', ac_imap_port c), (''SMTP'', ac_smtp_port c)]
     @ (if ac_mcp_permission c \<noteq> Disabled then [(''MCP'', ac_mcp_port c)] else [])"

definition validate_ports :: "app_config \<Rightarrow> string + unit" where
  "validate_ports c = (case zero_port (listening_ports c) of
     Some name \<Rightarrow> Inl (name @ '' port must be between 1 and 65535'')
   | None \<Rightarrow> (case port_clash (listening_ports c) of
       Some (a, b, p) \<Rightarrow> Inl (a @ '' and '' @ b @ '' ports must differ (both are '' @ show_nat p @ '')'')
     | None \<Rightarrow> Inr ()))"

section \<open>The file's fields\<close>

datatype toml = TString string | TInteger int | TBoolean bool | TOther string

type_synonym toml_table = "(string \<times> toml) list"

definition de_string :: "toml \<Rightarrow> string option" where
  "de_string v = (case v of TString s \<Rightarrow> Some s | _ \<Rightarrow> None)"

definition de_uint :: "nat \<Rightarrow> toml \<Rightarrow> nat option" where
  "de_uint bits v = (case v of TInteger n \<Rightarrow> if 0 \<le> n \<and> n < 2 ^ bits then Some (nat n) else None | _ \<Rightarrow> None)"

definition de_bool :: "toml \<Rightarrow> bool option" where
  "de_bool v = (case v of TBoolean b \<Rightarrow> Some b | _ \<Rightarrow> None)"

definition de_permission :: "toml \<Rightarrow> mcp_permission option" where
  "de_permission v = (case v of TString s \<Rightarrow> map_of [(''disabled'', Disabled), (''metadata'', Metadata), (''full'', Full)] s | _ \<Rightarrow> None)"

definition de_addr :: "(string \<Rightarrow> string option) \<Rightarrow> toml \<Rightarrow> string option" where
  "de_addr parse_ip v = Option.bind (de_string v) parse_ip"

definition se_permission :: "mcp_permission \<Rightarrow> toml" where
  "se_permission p = TString (case p of Disabled \<Rightarrow> ''disabled'' | Metadata \<Rightarrow> ''metadata'' | Full \<Rightarrow> ''full'')"

definition required :: "(toml \<Rightarrow> 'a option) \<Rightarrow> string \<Rightarrow> toml_table \<Rightarrow> 'a option" where
  "required de k t = Option.bind (map_of t k) de"

definition defaulted :: "'a \<Rightarrow> (toml \<Rightarrow> 'a option) \<Rightarrow> string \<Rightarrow> toml_table \<Rightarrow> 'a option" where
  "defaulted d de k t = (case map_of t k of None \<Rightarrow> Some d | Some v \<Rightarrow> de v)"

text \<open>Deserialisation of \<open>Config\<close>: unknown keys are ignored, an ill-typed known key is an error.\<close>

definition config_of_table :: "(string \<Rightarrow> string option) \<Rightarrow> toml_table \<Rightarrow> app_config option" where
  "config_of_table parse_ip t =
    Option.bind (required de_string ''email'' t) (\<lambda>email.
    Option.bind (required (de_uint 16) ''imap_port'' t) (\<lambda>imap.
    Option.bind (required (de_uint 16) ''smtp_port'' t) (\<lambda>smtp.
    Option.bind (defaulted default_bind_addr (de_addr parse_ip) ''bind_addr'' t) (\<lambda>addr.
    Option.bind (defaulted default_api_url de_string ''api_url'' t) (\<lambda>url.
    Option.bind (defaulted None (map_option Some \<circ> de_string) ''bridge_password'' t) (\<lambda>pw.
    Option.bind (defaulted default_sync_limit (de_uint 64) ''sync_limit'' t) (\<lambda>limit.
    Option.bind (defaulted Disabled de_permission ''mcp_permission'' t) (\<lambda>perm.
    Option.bind (defaulted default_mcp_port (de_uint 16) ''mcp_port'' t) (\<lambda>mcp.
    Option.bind (defaulted default_auto_update de_bool ''auto_update'' t) (\<lambda>auto_up.
    Option.bind (defaulted None (map_option Some \<circ> de_string) ''pass_path'' t) (\<lambda>pp.
      Some \<lparr>cf_email = email, cf_api_url = url, cf_pass_path = pp, ac_imap_port = imap, ac_smtp_port = smtp, ac_bind_addr = addr,
        ac_bridge_password = pw, ac_sync_limit = limit, ac_mcp_permission = perm, ac_mcp_port = mcp, ac_auto_update = auto_up\<rparr>)))))))))))"

text \<open>Serialisation. TOML integers are signed 64-bit: a larger limit cannot be written.\<close>

definition table_of_config :: "app_config \<Rightarrow> toml_table option" where
  "table_of_config c = (if 2 ^ 63 \<le> ac_sync_limit c then None else Some (
     [(''email'', TString (cf_email c)), (''imap_port'', TInteger (int (ac_imap_port c))), (''smtp_port'', TInteger (int (ac_smtp_port c)))]
     @ (if ac_bind_addr c = default_bind_addr then [] else [(''bind_addr'', TString (ac_bind_addr c))])
     @ [(''api_url'', TString (cf_api_url c))]
     @ (case ac_bridge_password c of Some p \<Rightarrow> [(''bridge_password'', TString p)] | None \<Rightarrow> [])
     @ [(''sync_limit'', TInteger (int (ac_sync_limit c))), (''mcp_permission'', se_permission (ac_mcp_permission c)),
        (''mcp_port'', TInteger (int (ac_mcp_port c))), (''auto_update'', TBoolean (ac_auto_update c))]
     @ (case cf_pass_path c of Some p \<Rightarrow> [(''pass_path'', TString p)] | None \<Rightarrow> [])))"

definition settings_table :: "editable_settings \<Rightarrow> toml_table option" where
  "settings_table s = (if 2 ^ 63 \<le> es_sync_limit s then None else Some
     [(''email'', TString (es_email s)), (''imap_port'', TInteger (int (es_imap_port s))), (''smtp_port'', TInteger (int (es_smtp_port s))),
      (''api_url'', TString (es_api_url s)), (''sync_limit'', TInteger (int (es_sync_limit s))), (''mcp_permission'', se_permission (es_mcp_permission s)),
      (''mcp_port'', TInteger (int (es_mcp_port s))), (''auto_update'', TBoolean (es_auto_update s))])"

section \<open>Loading and saving\<close>

datatype config_error = DecodeError | EncodeError | PortError string | IoError

record toml_format =
  tm_parse :: "string \<Rightarrow> toml_table option"
  tm_print :: "toml_table \<Rightarrow> string option"
  tm_ip :: "string \<Rightarrow> string option"

text \<open>
  The file as the calls see it: \<open>None\<close> for absent; whether it is unreadable; whether creating its directory fails; whether the
  write fails, and what it then leaves of the file, which \<open>write_private\<close> has truncated.
\<close>

record config_disk =
  cd_content :: "string option"
  cd_unreadable :: bool
  cd_mkdir_fails :: bool
  cd_write_fails :: bool
  cd_torn :: "string option"

definition write_config :: "string \<Rightarrow> config_disk \<Rightarrow> (config_error + unit) \<times> config_disk" where
  "write_config content d = (if cd_mkdir_fails d then (Inl IoError, d)
     else if cd_write_fails d then (Inl IoError, d\<lparr>cd_content := cd_torn d\<rparr>)
     else (Inr (), d\<lparr>cd_content := Some content\<rparr>))"

definition load_config :: "toml_format \<Rightarrow> config_disk \<Rightarrow> config_error + app_config option" where
  "load_config f d = (case cd_content d of None \<Rightarrow> Inr None | Some content \<Rightarrow>
     if cd_unreadable d then Inl IoError else
     case Option.bind (tm_parse f content) (config_of_table (tm_ip f)) of None \<Rightarrow> Inl DecodeError | Some c \<Rightarrow> Inr (Some c))"

definition save_config :: "toml_format \<Rightarrow> app_config \<Rightarrow> config_disk \<Rightarrow> (config_error + unit) \<times> config_disk" where
  "save_config f c d = (if cd_mkdir_fails d then (Inl IoError, d)
     else case Option.bind (table_of_config c) (tm_print f) of None \<Rightarrow> (Inl EncodeError, d) | Some content \<Rightarrow> write_config content d)"

definition merge_settings :: "toml_format \<Rightarrow> string option \<Rightarrow> editable_settings \<Rightarrow> config_error + app_config \<times> string" where
  "merge_settings f existing s =
    (case (case existing of Some content \<Rightarrow> tm_parse f content | None \<Rightarrow> Some []) of None \<Rightarrow> Inl DecodeError | Some table \<Rightarrow>
     case settings_table s of None \<Rightarrow> Inl EncodeError | Some form \<Rightarrow>
     let merged = fold (\<lambda>(k, v). AList.update k v) form table in
     case config_of_table (tm_ip f) merged of None \<Rightarrow> Inl DecodeError | Some c \<Rightarrow>
     case validate_ports c of Inl msg \<Rightarrow> Inl (PortError msg) | Inr _ \<Rightarrow>
     case tm_print f merged of None \<Rightarrow> Inl EncodeError | Some content \<Rightarrow> Inr (c, content))"

definition save_settings :: "toml_format \<Rightarrow> editable_settings \<Rightarrow> config_disk \<Rightarrow> (config_error + app_config) \<times> config_disk" where
  "save_settings f s d = (if cd_unreadable d then (Inl IoError, d)
     else case merge_settings f (cd_content d) s of Inl e \<Rightarrow> (Inl e, d) | Inr (c, content) \<Rightarrow>
     case write_config content d of (Inl e, d1) \<Rightarrow> (Inl e, d1) | (Inr _, d1) \<Rightarrow> (Inr c, d1))"

section \<open>The bridge password\<close>

definition CHARSET :: string where
  "CHARSET = ''ABCDEFGHJKLMNPQRSTUVWXYZabcdefghjkmnpqrstuvwxyz23456789''"

definition password_group :: "(nat \<Rightarrow> nat) \<Rightarrow> nat \<Rightarrow> string" where
  "password_group rng i = map (\<lambda>j. CHARSET ! (rng (5 * i + j) mod length CHARSET)) [0..<5]"

definition generate_bridge_password :: "(nat \<Rightarrow> nat) \<Rightarrow> string" where
  "generate_bridge_password rng = password_group rng 0 @ ''-'' @ password_group rng 1 @ ''-'' @ password_group rng 2 @ ''-'' @ password_group rng 3"

definition regenerate_bridge_password :: "toml_format \<Rightarrow> (nat \<Rightarrow> nat) \<Rightarrow> app_config \<times> config_disk \<Rightarrow> (config_error + string) \<times> app_config \<times> config_disk" where
  "regenerate_bridge_password f rng = (\<lambda>(c, d). let pw = generate_bridge_password rng; c1 = c\<lparr>ac_bridge_password := Some pw\<rparr> in
     case save_config f c1 d of (Inl e, d1) \<Rightarrow> (Inl e, c1, d1) | (Inr _, d1) \<Rightarrow> (Inr pw, c1, d1))"

definition ensure_bridge_password :: "toml_format \<Rightarrow> (nat \<Rightarrow> nat) \<Rightarrow> app_config \<times> config_disk \<Rightarrow> (config_error + string) \<times> app_config \<times> config_disk" where
  "ensure_bridge_password f rng = (\<lambda>(c, d). case ac_bridge_password c of Some pw \<Rightarrow> (Inr pw, c, d)
     | None \<Rightarrow> regenerate_bridge_password f rng (c, d))"

section \<open>Fields and tables\<close>

definition form_keys :: "string list" where
  "form_keys = [''email'', ''imap_port'', ''smtp_port'', ''api_url'', ''sync_limit'', ''mcp_permission'', ''mcp_port'', ''auto_update'']"

lemma form_table_keys: "settings_table s = Some form \<Longrightarrow> map fst form = form_keys"
  by (auto simp: settings_table_def form_keys_def split: if_splits)

lemma config_of_table_cong: "map_of t = map_of t2 \<Longrightarrow> config_of_table ip t = config_of_table ip t2"
  by (simp add: config_of_table_def required_def defaulted_def)

lemma config_fields:
  assumes "config_of_table ip t = Some c"
  shows "required de_string ''email'' t = Some (cf_email c)" "required (de_uint 16) ''imap_port'' t = Some (ac_imap_port c)"
    "required (de_uint 16) ''smtp_port'' t = Some (ac_smtp_port c)" "defaulted default_bind_addr (de_addr ip) ''bind_addr'' t = Some (ac_bind_addr c)"
    "defaulted default_api_url de_string ''api_url'' t = Some (cf_api_url c)"
    "defaulted None (map_option Some \<circ> de_string) ''bridge_password'' t = Some (ac_bridge_password c)"
    "defaulted default_sync_limit (de_uint 64) ''sync_limit'' t = Some (ac_sync_limit c)"
    "defaulted Disabled de_permission ''mcp_permission'' t = Some (ac_mcp_permission c)"
    "defaulted default_mcp_port (de_uint 16) ''mcp_port'' t = Some (ac_mcp_port c)"
    "defaulted default_auto_update de_bool ''auto_update'' t = Some (ac_auto_update c)"
    "defaulted None (map_option Some \<circ> de_string) ''pass_path'' t = Some (cf_pass_path c)"
  using assms by (auto simp: config_of_table_def bind_eq_Some_conv)

lemma de_se [simp]: "de_string (TString s) = Some s" "n < 2 ^ b \<Longrightarrow> de_uint b (TInteger (int n)) = Some n" "de_bool (TBoolean x) = Some x"
  "de_permission (se_permission p) = Some p" "de_addr ip (TString s) = ip s"
  by (auto simp: de_string_def de_uint_def de_bool_def de_permission_def se_permission_def de_addr_def split: mcp_permission.split)

lemma merged_lookup:
  assumes "distinct (map fst form)"
  shows "map_of (fold (\<lambda>(k, v). AList.update k v) form table) k = (case map_of form k of Some v \<Rightarrow> Some v | None \<Rightarrow> map_of table k)"
  using assms
proof (induction form arbitrary: table)
  case (Cons a form)
  then show ?case by (cases a) (auto simp: update_conv' map_of_eq_None_iff image_iff split: option.split)
qed simp

lemma zero_port_None: "zero_port ps = None \<longleftrightarrow> 0 \<notin> set (map snd ps)"
  by (induction ps rule: zero_port.induct) auto

lemma port_clash_None: "port_clash ps = None \<longleftrightarrow> distinct (map snd ps)"
proof (induction ps rule: port_clash.induct)
  case (2 a pa ps)
  show ?case
  proof (cases "find (\<lambda>(b, pb). pa = pb) ps")
    case None
    then have "pa \<notin> snd ` set ps" by (auto simp: find_None_iff)
    with None 2 show ?thesis by simp
  next
    case (Some x)
    then obtain i where "i < length ps" "snd (ps ! i) = pa" by (auto simp: find_Some_iff case_prod_beta)
    then have "pa \<in> snd ` set ps" by (metis image_eqI nth_mem)
    with Some show ?thesis by (cases x) auto
  qed
qed simp

lemma validate_ports_iff: "validate_ports c = Inr () \<longleftrightarrow> 0 \<notin> set (map snd (listening_ports c)) \<and> distinct (map snd (listening_ports c))"
proof -
  have "validate_ports c = Inr () \<longleftrightarrow> zero_port (listening_ports c) = None \<and> port_clash (listening_ports c) = None"
    by (auto simp: validate_ports_def split: option.split)
  then show ?thesis by (simp only: zero_port_None port_clash_None)
qed

lemma form_lookup:
  assumes "settings_table s = Some form"
  shows "map_of form ''email'' = Some (TString (es_email s))" "map_of form ''imap_port'' = Some (TInteger (int (es_imap_port s)))"
    "map_of form ''smtp_port'' = Some (TInteger (int (es_smtp_port s)))" "map_of form ''api_url'' = Some (TString (es_api_url s))"
    "map_of form ''sync_limit'' = Some (TInteger (int (es_sync_limit s)))" "map_of form ''mcp_permission'' = Some (se_permission (es_mcp_permission s))"
    "map_of form ''mcp_port'' = Some (TInteger (int (es_mcp_port s)))" "map_of form ''auto_update'' = Some (TBoolean (es_auto_update s))"
    "es_sync_limit s < 2 ^ 63" "k \<notin> set form_keys \<Longrightarrow> map_of form k = None"
  using assms form_table_keys [OF assms] by (auto simp: settings_table_def map_of_eq_None_iff simp flip: set_map split: if_splits)

definition table_in :: "toml_format \<Rightarrow> config_disk \<Rightarrow> toml_table option" where
  "table_in f d = (case cd_content d of Some content \<Rightarrow> tm_parse f content | None \<Rightarrow> Some [])"

definition prints_tables :: "toml_format \<Rightarrow> bool" where
  "prints_tables f \<longleftrightarrow> (\<forall>t x. tm_print f t = Some x \<longrightarrow> (\<exists>t2. tm_parse f x = Some t2 \<and> map_of t2 = map_of t))"

lemma saved_settings:
  assumes "save_settings f s d = (Inr c, d1)" "prints_tables f"
  obtains t form t1 where "table_in f d = Some t" "settings_table s = Some form" "table_in f d1 = Some t1"
    "map_of t1 = map_of (fold (\<lambda>(k, v). AList.update k v) form t)" "config_of_table (tm_ip f) t1 = Some c" "validate_ports c = Inr ()"
    "cd_unreadable d = False" "cd_unreadable d1 = False" "cd_content d1 \<noteq> None"
proof -
  from assms(1) obtain content where m: "merge_settings f (cd_content d) s = Inr (c, content)" and u: "\<not> cd_unreadable d"
    and d1: "d1 = d\<lparr>cd_content := Some content\<rparr>"
    by (auto simp: save_settings_def write_config_def split: if_splits sum.splits prod.splits)
  from m obtain t form where t: "table_in f d = Some t" "settings_table s = Some form"
    and c: "config_of_table (tm_ip f) (fold (\<lambda>(k, v). AList.update k v) form t) = Some c" "validate_ports c = Inr ()"
    and x: "tm_print f (fold (\<lambda>(k, v). AList.update k v) form t) = Some content"
    by (auto simp: merge_settings_def table_in_def Let_def split: option.splits sum.splits)
  from x assms(2) obtain t1 where t1: "tm_parse f content = Some t1" "map_of t1 = map_of (fold (\<lambda>(k, v). AList.update k v) form t)"
    unfolding prints_tables_def by blast
  show thesis
  proof (rule that [OF t])
    show "table_in f d1 = Some t1" "cd_unreadable d = False" "cd_unreadable d1 = False" "cd_content d1 \<noteq> None"
      using t1(1) u by (simp_all add: table_in_def d1)
    show "config_of_table (tm_ip f) t1 = Some c" using c(1) config_of_table_cong [OF t1(2)] by simp
  qed (use t1(2) c(2) in auto)
qed

section \<open>The properties\<close>

text \<open>
  The configuration file keeps what it is given. What \<open>save_config\<close> writes is what \<open>load_config\<close> reads, for every
  configuration whose ports fit their type, whose limit fits TOML's integers and whose address is in canonical form, provided TOML
  text keeps the table it prints.
\<close>

theorem config_roundtrip:
  assumes "save_config f c d = (Inr (), d1)" "\<not> cd_unreadable d" "prints_tables f" "tm_ip f (ac_bind_addr c) = Some (ac_bind_addr c)"
    "ac_imap_port c < 2 ^ 16" "ac_smtp_port c < 2 ^ 16" "ac_mcp_port c < 2 ^ 16"
  shows "load_config f d1 = Inr (Some c)"
proof -
  from assms(1) obtain t x where t: "table_of_config c = Some t" "tm_print f t = Some x" and d1: "d1 = d\<lparr>cd_content := Some x\<rparr>"
    by (auto simp: save_config_def write_config_def bind_eq_Some_conv split: if_splits option.splits)
  obtain t2 where t2: "tm_parse f x = Some t2" "map_of t2 = map_of t" using assms(3) t(2) unfolding prints_tables_def by blast
  have "ac_sync_limit c < 2 ^ 64" using t(1) by (simp add: table_of_config_def split: if_splits)
  then have "config_of_table (tm_ip f) t = Some c"
    using t(1) assms(4-) by (cases "ac_bridge_password c"; cases "cf_pass_path c"; cases "ac_bind_addr c = default_bind_addr")
      (auto simp: table_of_config_def config_of_table_def required_def defaulted_def split: if_splits)
  then show ?thesis using assms(2) t2(1) config_of_table_cong [OF t2(2)] by (simp add: load_config_def d1)
qed

text \<open>A concrete format for examples, which prints one table only.\<close>

definition one_table :: "toml_table \<Rightarrow> toml_format" where
  "one_table t = \<lparr>tm_parse = (\<lambda>x. if x = ''toml'' then Some t else None), tm_print = (\<lambda>t2. if t2 = t then Some ''toml'' else None), tm_ip = Some\<rparr>"

lemma one_table_prints: "prints_tables (one_table t)"
  by (simp add: prints_tables_def one_table_def)

definition empty_disk :: config_disk where
  "empty_disk = \<lparr>cd_content = None, cd_unreadable = False, cd_mkdir_fails = False, cd_write_fails = False, cd_torn = None\<rparr>"

theorem config_roundtrip_witness:
  "load_config (one_table (the (table_of_config default_config))) (empty_disk\<lparr>cd_content := Some ''toml''\<rparr>) = Inr (Some default_config)"
  by (rule config_roundtrip [where d = empty_disk, OF _ _ one_table_prints])
    (simp_all add: save_config_def write_config_def empty_disk_def one_table_def default_config_def table_of_config_def default_mcp_port_def default_sync_limit_def)

text \<open>
  C17: Saving the settings form changes the form's fields and nothing else. After a save that succeeds, the file loads as the returned
  configuration, whose fields are the form's and whose listening ports are non-zero and distinct; every other key of the file, known
  or not, has the value it had, so the bridge password, the address and the pass path stay. A save that is refused before it writes
  leaves the file alone.
\<close>

theorem settings_merged:
  assumes "prints_tables f" "es_imap_port s < 2 ^ 16" "es_smtp_port s < 2 ^ 16" "es_mcp_port s < 2 ^ 16"
  shows "case save_settings f s d of
      (Inl e, d1) \<Rightarrow> e \<noteq> IoError \<longrightarrow> d1 = d
    | (Inr c, d1) \<Rightarrow> load_config f d1 = Inr (Some c)
        \<and> (cf_email c, ac_imap_port c, ac_smtp_port c, cf_api_url c) = (es_email s, es_imap_port s, es_smtp_port s, es_api_url s)
        \<and> (ac_sync_limit c, ac_mcp_permission c, ac_mcp_port c, ac_auto_update c) = (es_sync_limit s, es_mcp_permission s, es_mcp_port s, es_auto_update s)
        \<and> 0 \<notin> set (map snd (listening_ports c)) \<and> distinct (map snd (listening_ports c))
        \<and> (\<exists>t t1. table_in f d = Some t \<and> table_in f d1 = Some t1 \<and> (\<forall>k. k \<notin> set form_keys \<longrightarrow> map_of t1 k = map_of t k))
        \<and> (\<forall>old. load_config f d = Inr (Some old) \<longrightarrow> (ac_bridge_password c, ac_bind_addr c, cf_pass_path c)
              = (ac_bridge_password old, ac_bind_addr old, cf_pass_path old))"
proof -
  obtain r d1 where sv: "save_settings f s d = (r, d1)" by fastforce
  show ?thesis
  proof (cases r)
    case (Inl e)
    with sv show ?thesis by (auto simp: save_settings_def write_config_def split: if_splits sum.splits prod.splits)
  next
    case (Inr c)
    obtain t form t1 where t: "table_in f d = Some t" "settings_table s = Some form" "table_in f d1 = Some t1"
      and lk: "map_of t1 = map_of (fold (\<lambda>(k, v). AList.update k v) form t)" and c: "config_of_table (tm_ip f) t1 = Some c" "validate_ports c = Inr ()"
      and rd: "cd_unreadable d = False" "cd_unreadable d1 = False" "cd_content d1 \<noteq> None"
      by (rule saved_settings [OF sv [unfolded Inr] assms(1)])
    have "distinct (map fst form)" by (simp add: form_table_keys [OF t(2)] form_keys_def)
    note new = fun_cong [OF lk, unfolded merged_lookup [OF this]] and fl = form_lookup [OF t(2)]
    have kept: "map_of t1 k = map_of t k" if "k \<notin> set form_keys" for k using new fl(10) that by simp
    have "es_sync_limit s < 2 ^ 64" using fl(9) by simp
    with config_fields [OF c(1)] assms(2-) have owned: "(cf_email c, ac_imap_port c, ac_smtp_port c, cf_api_url c) = (es_email s, es_imap_port s, es_smtp_port s, es_api_url s)"
      "(ac_sync_limit c, ac_mcp_permission c, ac_mcp_port c, ac_auto_update c) = (es_sync_limit s, es_mcp_permission s, es_mcp_port s, es_auto_update s)"
      by (simp_all add: required_def defaulted_def new fl(1-8))
    have hid: "(ac_bridge_password c, ac_bind_addr c, cf_pass_path c) = (ac_bridge_password old, ac_bind_addr old, cf_pass_path old)"
      if "load_config f d = Inr (Some old)" for old
    proof -
      from that t(1) have "config_of_table (tm_ip f) t = Some old"
        by (auto simp: load_config_def table_in_def bind_eq_Some_conv split: option.splits if_splits)
      from config_fields [OF this] config_fields [OF c(1)] kept show ?thesis
        by (simp add: defaulted_def form_keys_def split: option.splits)
    qed
    have "load_config f d1 = Inr (Some c)" using t(3) c(1) rd by (auto simp: load_config_def table_in_def split: option.splits)
    with owned kept hid t c(2) [unfolded validate_ports_iff] show ?thesis by (simp add: sv Inr)
  qed
qed

definition sample_settings :: editable_settings where
  "sample_settings = \<lparr>es_email = ''me'', es_imap_port = 2143, es_smtp_port = 2025, es_api_url = ''u'', es_sync_limit = 0, es_mcp_permission = Metadata,
     es_mcp_port = 2944, es_auto_update = False\<rparr>"

theorem settings_merged_witness:
  "\<exists>c d1. save_settings (one_table (the (settings_table sample_settings))) sample_settings empty_disk = (Inr c, d1)
    \<and> load_config (one_table (the (settings_table sample_settings))) d1 = Inr (Some c) \<and> ac_imap_port c = 2143"
proof -
  let ?f = "one_table (the (settings_table sample_settings))"
  have "\<exists>c d1. save_settings ?f sample_settings empty_disk = (Inr c, d1)"
    by (simp add: save_settings_def empty_disk_def merge_settings_def settings_table_def sample_settings_def one_table_def config_of_table_def required_def
        defaulted_def de_uint_def de_string_def de_bool_def validate_ports_def listening_ports_def write_config_def update_conv)
  then obtain c d1 where sv: "save_settings ?f sample_settings empty_disk = (Inr c, d1)" by blast
  with settings_merged [of ?f sample_settings empty_disk] one_table_prints show ?thesis by (simp add: sample_settings_def)
qed

end
