(* ===== verification/Net.thy ===== *)
theory Net
  imports RustStr
begin

text \<open>
  The listeners (\<open>net.rs\<close>): binding with its error messages, and the accept loop the IMAP and SMTP servers share, as a state
  machine over its semaphore. The sockets and the handlers of the connections are outside.
\<close>

section \<open>Listeners\<close>

datatype bind_error = AddrInUse | OtherBindError string

text \<open>\<open>SocketAddr\<close>'s display form\<close>

definition show_addr :: "string \<Rightarrow> nat \<Rightarrow> string" where
  "show_addr ip port = (if CHR '':'' \<in> set ip then ''['' @ ip @ '']'' else ip) @ '':'' @ show_nat port"

definition bind_listener :: "(string \<Rightarrow> nat \<Rightarrow> bind_error + unit) \<Rightarrow> string \<Rightarrow> string \<Rightarrow> nat \<Rightarrow> string + unit" where
  "bind_listener os service ip port = (case os ip port of Inr _ \<Rightarrow> Inr ()
     | Inl AddrInUse \<Rightarrow> Inl (service @ '' address '' @ show_addr ip port @ '' is already in use by another application; choose a different '' @ service @ '' port'')
     | Inl (OtherBindError e) \<Rightarrow> Inl (''Cannot listen for '' @ service @ '' on '' @ show_addr ip port @ '': '' @ e))"

definition bind_local :: "(string \<Rightarrow> nat \<Rightarrow> bind_error + unit) \<Rightarrow> string \<Rightarrow> nat \<Rightarrow> string + unit" where
  "bind_local os service port = bind_listener os service ''127.0.0.1'' port"

section \<open>The accept loop\<close>

definition MAX_CONNECTIONS :: nat where "MAX_CONNECTIONS = 64"

record accept_state =
  al_permits :: nat
  al_reserved :: bool
  al_running :: nat

definition accept_start :: "nat \<Rightarrow> accept_state" where
  "accept_start max_conns = \<lparr>al_permits = max_conns, al_reserved = False, al_running = 0\<rparr>"

text \<open>
  One turn reserves a slot, then accepts, which hands the slot to the task of the connection, or fails, which returns it; a connection that ends
  returns its slot at any time.
\<close>

inductive accept_step :: "accept_state \<Rightarrow> accept_state \<Rightarrow> bool" where
  Reserve: "\<not> al_reserved a \<Longrightarrow> 0 < al_permits a \<Longrightarrow> accept_step a (a\<lparr>al_permits := al_permits a - 1, al_reserved := True\<rparr>)"
| Accepted: "al_reserved a \<Longrightarrow> accept_step a (a\<lparr>al_reserved := False, al_running := al_running a + 1\<rparr>)"
| AcceptFailed: "al_reserved a \<Longrightarrow> accept_step a (a\<lparr>al_reserved := False, al_permits := al_permits a + 1\<rparr>)"
| ConnectionEnded: "0 < al_running a \<Longrightarrow> accept_step a (a\<lparr>al_running := al_running a - 1, al_permits := al_permits a + 1\<rparr>)"

inductive_cases accept_stepE: "accept_step a b"

definition slots :: "accept_state \<Rightarrow> nat" where
  "slots a = al_permits a + (if al_reserved a then 1 else 0) + al_running a"

lemma slots_step: "accept_step a b \<Longrightarrow> slots b = slots a"
  by (induction rule: accept_step.induct) (simp_all add: slots_def)

interpretation accepting: step_invariant accept_step "\<lambda>a. slots a = n" for n
  by unfold_locales (simp add: slots_step)

lemma slots_reachable: "accept_step\<^sup>*\<^sup>* (accept_start n) a \<Longrightarrow> slots a = n"
  by (erule accepting.reached) (simp add: slots_def accept_start_def)

text \<open>
  The accept loop keeps its bound and keeps accepting. Whatever accepts fail and whatever connections end, at most 64 connections run at a time, and
  as long as fewer do, the loop goes on to accept one more.
\<close>

theorem connections_bounded:
  assumes "accept_step\<^sup>*\<^sup>* (accept_start MAX_CONNECTIONS) a"
  shows "al_running a \<le> 64 \<and> (al_running a < 64 \<longrightarrow> (\<exists>b. accept_step\<^sup>*\<^sup>* a b \<and> al_running b = al_running a + 1))"
proof (intro conjI impI)
  have s: "slots a = 64" using slots_reachable [OF assms] by (simp add: MAX_CONNECTIONS_def)
  then show "al_running a \<le> 64" by (simp add: slots_def split: if_splits)
  assume less: "al_running a < 64"
  have one: "\<exists>b. accept_step\<^sup>*\<^sup>* c b \<and> al_running b = al_running c + 1" if "al_reserved c" for c
    using accept_step.Accepted [OF that] by (intro exI [of _ "c\<lparr>al_reserved := False, al_running := al_running c + 1\<rparr>"]) auto
  show "\<exists>b. accept_step\<^sup>*\<^sup>* a b \<and> al_running b = al_running a + 1"
  proof (cases "al_reserved a")
    case False
    let ?c = "a\<lparr>al_permits := al_permits a - 1, al_reserved := True\<rparr>"
    have "accept_step a ?c" using False s less by (intro accept_step.Reserve) (simp_all add: slots_def)
    with one [of ?c] show ?thesis by (auto intro: converse_rtranclp_into_rtranclp)
  qed (rule one)
qed

theorem connections_bounded_witness:
  "\<exists>b. accept_step\<^sup>*\<^sup>* (accept_start MAX_CONNECTIONS) b \<and> al_running b = 1"
  using connections_bounded [OF rtranclp.rtrancl_refl] by (simp add: accept_start_def)

end
