(* ===== verification/Bridge.thy ===== *)
theory Bridge
  imports EventBus Login Config Net
begin

text \<open>
  The life cycle of the bridge (\<open>bridge.rs\<close>) : starting with all its ways to fail, the
  task that runs the servers, stopping, and the figures it reports. A start is two steps, up to the spawn of the task and the
  final write of the status, because the task may end in between. The log and the pulses that tell the GUI to look again are
  left out.
\<close>

datatype bridge_status = BridgeStopped | BridgeStarting | BridgeRunning | BridgeError string

datatype bridge_task = TaskRunning | TaskFinished

record bridge_stats =
  bs_uptime_secs :: "nat option"
  bs_mails_synced :: nat
  bs_ws_status :: ws_state

record 'd bridge =
  br_session_store :: "session_store option"
  br_status :: bridge_status
  br_shutdown_tx :: bool
  br_started_at :: "nat option"
  br_store :: "mail_store option"
  br_backend :: "tuta_session option"
  br_local_store :: bool
  br_task :: "bridge_task option"
  br_ws_state_rx :: "ws_state option"
  br_last_batch_ids :: "(string \<times> string) list"
  br_spawned :: bool
  br_device :: 'd
  br_disk :: local_store

section \<open>Listeners\<close>

definition bind_listeners :: "(string \<Rightarrow> nat \<Rightarrow> bind_error + unit) \<Rightarrow> app_config \<Rightarrow> string + unit" where
  "bind_listeners os cfg = (case bind_listener os ''IMAP'' (ac_bind_addr cfg) (ac_imap_port cfg) of Inl e \<Rightarrow> Inl e | Inr _ \<Rightarrow>
     case bind_listener os ''SMTP'' (ac_bind_addr cfg) (ac_smtp_port cfg) of Inl e \<Rightarrow> Inl e | Inr _ \<Rightarrow>
     if is_enabled (ac_mcp_permission cfg) then bind_local os ''MCP'' (ac_mcp_port cfg) else Inr ())"

section \<open>Starting\<close>

definition ENTITY_EVENT_BATCH_EXPIRE :: int where "ENTITY_EVENT_BATCH_EXPIRE = 44 * 24 * 60 * 60 * 1000"

definition drop_expired :: "int \<Rightarrow> local_store \<Rightarrow> local_store" where
  "drop_expired now_ms ls = (case event_bus_state_min_updated_at_ms ls of
     Inr (Some min_ms) \<Rightarrow> if now_ms - min_ms > ENTITY_EVENT_BATCH_EXPIRE then snd (clear_event_bus_state ls) else ls
   | _ \<Rightarrow> ls)"

definition resume_cursors :: "local_store \<Rightarrow> (string \<times> string) list" where
  "resume_cursors ls = (case load_event_bus_state ls of Inr cursors \<Rightarrow> cursors | Inl _ \<Rightarrow> [])"

record ('d, 'w) boot =
  bo_sdk :: "'w sdk"
  bo_platform :: bool
  bo_pass_dir :: "string option"
  bo_vault :: "'d device"
  bo_codec :: codec
  bo_tls :: "string + unit"
  bo_os :: "string \<Rightarrow> nat \<Rightarrow> bind_error + unit"
  bo_storage_key :: "string + unit"
  bo_user_id :: "string option"
  bo_now :: nat
  bo_now_ms :: int
  bo_show_login :: "login_failure \<Rightarrow> string"
  bo_show_store :: "store_error \<Rightarrow> string"

definition session_store_for :: "('d, 'w) boot \<Rightarrow> app_config \<Rightarrow> 'd bridge \<Rightarrow> session_store" where
  "session_store_for bo cfg b = (case br_session_store b of
     Some so \<Rightarrow> if matches_config so (config.truncate cfg) then so else new_session_store (bo_platform bo) (bo_pass_dir bo) (config.truncate cfg)
   | None \<Rightarrow> new_session_store (bo_platform bo) (bo_pass_dir bo) (config.truncate cfg))"

definition start_failed :: "string \<Rightarrow> 'd bridge \<Rightarrow> (string + unit) \<times> 'd bridge" where
  "start_failed msg b = (Inl msg, b\<lparr>br_status := BridgeError msg\<rparr>)"

text \<open>From the login on: the storage key, the local store, the cursors of the event bus, and the spawn of the task.\<close>

definition start_session :: "('d, 'w) boot \<Rightarrow> tuta_session \<Rightarrow> 'd bridge \<Rightarrow> (string + unit) \<times> 'd bridge" where
  "start_session bo session b = (case bo_storage_key bo of Inl e \<Rightarrow> start_failed (''Storage key derivation failed: '' @ e) b | Inr _ \<Rightarrow>
     case open_store (br_disk b) of (Inl e, ls) \<Rightarrow> start_failed (''Failed to open local store: '' @ bo_show_store bo e) (b\<lparr>br_disk := ls\<rparr>)
     | (Inr _, ls) \<Rightarrow>
       let ls1 = (if verify_key ls then ls else snd (reset ls)) in
       case bo_user_id bo of None \<Rightarrow> start_failed ''Missing user id from session'' (b\<lparr>br_disk := ls1\<rparr>) | Some _ \<Rightarrow>
       let ls2 = drop_expired (bo_now_ms bo) ls1 in
       (Inr (), b\<lparr>br_store := Some new_mail_store, br_backend := Some session, br_local_store := True, br_shutdown_tx := True,
          br_started_at := Some (bo_now bo), br_disk := ls2, br_last_batch_ids := resume_cursors ls2, br_ws_state_rx := Some WsStopped,
          br_task := Some TaskRunning, br_spawned := True\<rparr>))"

text \<open>Before the login: valid ports, a TLS identity, and every listener bound.\<close>

definition preflight :: "('d, 'w) boot \<Rightarrow> app_config \<Rightarrow> string + unit" where
  "preflight bo cfg = (case validate_ports cfg of Inl msg \<Rightarrow> Inl msg | Inr _ \<Rightarrow>
     case bo_tls bo of Inl e \<Rightarrow> Inl (''TLS setup failed: '' @ e) | Inr _ \<Rightarrow> bind_listeners (bo_os bo) cfg)"

definition start :: "('d, 'w) boot \<Rightarrow> app_config \<Rightarrow> string option \<Rightarrow> 'w totp_callback option \<Rightarrow> 'd bridge \<times> 'w \<Rightarrow> (string + unit) \<times> 'd bridge \<times> 'w" where
  "start bo cfg password totp_callback = (\<lambda>(b, w).
     if br_status b = BridgeRunning \<or> br_status b = BridgeStarting then (Inl ''Bridge is already running'', b, w)
     else let b1 = b\<lparr>br_status := BridgeStarting\<rparr> in
     case preflight bo cfg of Inl msg \<Rightarrow> (case start_failed msg b1 of (r, b2) \<Rightarrow> (r, b2, w)) | Inr _ \<Rightarrow>
     case login_with_persistence (bo_sdk bo) (bo_platform bo) (bo_vault bo) (bo_codec bo) (config.truncate cfg) password totp_callback AllowVolatile
            (session_store_for bo cfg b1, br_device b1) w of
       (r, (so, d), w1) \<Rightarrow>
         let b2 = b1\<lparr>br_session_store := Some so, br_device := d\<rparr> in
         case (case r of Inl e \<Rightarrow> start_failed (''Login failed: '' @ bo_show_login bo e) b2 | Inr session \<Rightarrow> start_session bo session b2) of
           (x, b3) \<Rightarrow> (x, b3, w1))"

section \<open>Running and stopping\<close>

datatype server_exit = Returned | ReturnedError string | Crashed string

definition server_exit_message :: "string \<Rightarrow> server_exit \<Rightarrow> string" where
  "server_exit_message service ex = service @ (case ex of Returned \<Rightarrow> '' server stopped unexpectedly''
     | ReturnedError e \<Rightarrow> '' server failed: '' @ e | Crashed e \<Rightarrow> '' server crashed: '' @ e)"

text \<open>The end of the task: everything torn down, then its only write of the status.\<close>

definition task_exit :: "string option \<Rightarrow> 'd bridge \<Rightarrow> 'd bridge" where
  "task_exit server_failure b = b\<lparr>br_status := (case server_failure of Some msg \<Rightarrow> BridgeError msg | None \<Rightarrow> BridgeStopped), br_task := Some TaskFinished\<rparr>"

definition stop :: "'d bridge \<Rightarrow> 'd bridge" where
  "stop b = (let b1 = (if br_task b = Some TaskRunning then task_exit None b else b)
     in b1\<lparr>br_shutdown_tx := False, br_task := None, br_started_at := None, br_ws_state_rx := None, br_backend := None, br_local_store := False\<rparr>)"

definition stats :: "nat \<Rightarrow> 'd bridge \<Rightarrow> bridge_stats" where
  "stats now b = \<lparr>bs_uptime_secs = (if br_status b = BridgeRunning then map_option (\<lambda>t. now - t) (br_started_at b) else None),
     bs_mails_synced = (case br_store b of Some st \<Rightarrow> total_mail_count st | None \<Rightarrow> 0),
     bs_ws_status = (case br_ws_state_rx b of Some s \<Rightarrow> s | None \<Rightarrow> WsStopped)\<rparr>"

definition backend_and_store :: "'d bridge \<Rightarrow> tuta_session option" where
  "backend_and_store b = (if br_local_store b then br_backend b else None)"

definition new_bridge :: "'d \<Rightarrow> local_store \<Rightarrow> 'd bridge" where
  "new_bridge d disk = \<lparr>br_session_store = None, br_status = BridgeStopped, br_shutdown_tx = False, br_started_at = None, br_store = None,
     br_backend = None, br_local_store = False, br_task = None, br_ws_state_rx = None, br_last_batch_ids = [], br_spawned = False,
     br_device = d, br_disk = disk\<rparr>"

text \<open>
  The bridge as a state machine. \<open>start\<close> and \<open>stop\<close> exclude each other (both take the handle mutably); the task ends on its own
  whenever a server does, also between the two steps of a start. While it runs, mails arrive and the WebSocket changes state.
\<close>

inductive bridge_step :: "'d bridge \<times> 'w \<Rightarrow> 'd bridge \<times> 'w \<Rightarrow> bool" where
  Start: "\<not> br_spawned b \<Longrightarrow> start bo cfg password totp_callback (b, w) = (r, b1, w1) \<Longrightarrow> bridge_step (b, w) (b1, w1)"
| Started: "br_spawned b \<Longrightarrow> bridge_step (b, w) (b\<lparr>br_status := BridgeRunning, br_spawned := False\<rparr>, w)"
| ServerExit: "br_task b = Some TaskRunning \<Longrightarrow> bridge_step (b, w) (task_exit (Some (server_exit_message service ex)) b, w)"
| Serve: "br_task b = Some TaskRunning \<Longrightarrow> bridge_step (b, w) (b\<lparr>br_store := Some st, br_ws_state_rx := Some ws, br_disk := ls, br_last_batch_ids := ids\<rparr>, w1)"
| Stop: "\<not> br_spawned b \<Longrightarrow> bridge_step (b, w) (stop b, w)"

inductive_cases bridge_stepE: "bridge_step bw bw1"

section \<open>The outcomes of a start\<close>

text \<open>What a start that fails leaves as it was.\<close>

definition not_started :: "'d bridge \<Rightarrow> 'd bridge \<Rightarrow> bool" where
  "not_started b b1 \<longleftrightarrow> br_task b1 = br_task b \<and> br_shutdown_tx b1 = br_shutdown_tx b \<and> br_started_at b1 = br_started_at b \<and> br_store b1 = br_store b
    \<and> br_backend b1 = br_backend b \<and> br_local_store b1 = br_local_store b \<and> br_ws_state_rx b1 = br_ws_state_rx b
    \<and> br_last_batch_ids b1 = br_last_batch_ids b \<and> br_spawned b1 = br_spawned b"

definition fresh_start :: "('d, 'w) boot \<Rightarrow> 'd bridge \<Rightarrow> bool" where
  "fresh_start bo b1 \<longleftrightarrow> br_status b1 = BridgeStarting \<and> br_task b1 = Some TaskRunning \<and> br_spawned b1 \<and> br_shutdown_tx b1 \<and> br_started_at b1 \<noteq> None
    \<and> br_store b1 = Some new_mail_store \<and> br_backend b1 \<noteq> None \<and> br_local_store b1 \<and> br_ws_state_rx b1 \<noteq> None
    \<and> (\<exists>ls. db_ok ls \<and> br_disk b1 = drop_expired (bo_now_ms bo) ls) \<and> br_last_batch_ids b1 = resume_cursors (br_disk b1)"

lemma opened_db: "open_store s = (Inr (), ls) \<Longrightarrow> db_ok ls" "db_ok (snd (reset s)) = db_ok s"
  by (auto simp: open_store_def on_db_def Let_def split: if_splits)
    (auto simp: reset_def on_db_def on_fs_def split: if_splits)

lemma start_session_outcome:
  assumes "start_session bo session b = (r, b1)" "br_status b = BridgeStarting"
  shows "(\<exists>msg. r = Inl msg \<and> br_status b1 = BridgeError msg \<and> not_started b b1) \<or> r = Inr () \<and> fresh_start bo b1"
  using assms by (auto simp: start_session_def start_failed_def not_started_def fresh_start_def Let_def split: sum.splits prod.splits option.splits
      intro!: exI [of _ "if verify_key ls then ls else snd (reset ls)" for ls] dest: opened_db(1) simp: opened_db(2))

lemma start_outcome:
  assumes "start bo cfg password totp_callback (b, w) = (r, b1, w1)"
  obtains (busy) "br_status b = BridgeRunning \<or> br_status b = BridgeStarting" "r = Inl ''Bridge is already running''" "b1 = b"
  | (failed) msg where "br_status b \<noteq> BridgeRunning" "br_status b \<noteq> BridgeStarting" "r = Inl msg" "br_status b1 = BridgeError msg" "not_started b b1"
  | (started) "br_status b \<noteq> BridgeRunning" "br_status b \<noteq> BridgeStarting" "r = Inr ()" "fresh_start bo b1"
proof (cases "br_status b = BridgeRunning \<or> br_status b = BridgeStarting")
  case True
  with assms show thesis by (intro busy) (auto simp: start_def)
next
  case idle: False
  let ?b1 = "b\<lparr>br_status := BridgeStarting\<rparr>"
  have nf: "not_started b (?b1\<lparr>br_status := BridgeError msg\<rparr>)" for msg by (simp add: not_started_def)
  show thesis
  proof (cases "preflight bo cfg")
    case (Inl msg)
    then have "r = Inl msg" "b1 = ?b1\<lparr>br_status := BridgeError msg\<rparr>"
      using assms idle by (simp_all add: start_def start_failed_def)
    with idle nf [of msg] show thesis by (intro failed) auto
  next
    case pf: (Inr u)
    obtain lr so d wl where l: "login_with_persistence (bo_sdk bo) (bo_platform bo) (bo_vault bo) (bo_codec bo) (config.truncate cfg) password totp_callback
        AllowVolatile (session_store_for bo cfg ?b1, br_device b) w = (lr, (so, d), wl)" by (metis prod.collapse)
    let ?b2 = "?b1\<lparr>br_session_store := Some so, br_device := d\<rparr>"
    let ?x = "case lr of Inl e \<Rightarrow> start_failed (''Login failed: '' @ bo_show_login bo e) ?b2 | Inr session \<Rightarrow> start_session bo session ?b2"
    have "start bo cfg password totp_callback (b, w) = (fst ?x, snd ?x, wl)"
      using idle by (cases lr) (simp_all add: start_def pf l Let_def case_prod_beta)
    then have res: "?x = (r, b1)" using assms by (simp add: prod_eq_iff)
    have kept: "not_started b b1" if "not_started ?b2 b1" using that by (simp add: not_started_def)
    show thesis
    proof (cases lr)
      case (Inl e)
      then have "r = Inl (''Login failed: '' @ bo_show_login bo e)" "br_status b1 = BridgeError (''Login failed: '' @ bo_show_login bo e)" "not_started b b1"
        using res by (auto simp: start_failed_def not_started_def)
      with idle show thesis by (intro failed) auto
    next
      case (Inr session)
      with res have "start_session bo session ?b2 = (r, b1)" by simp
      from start_session_outcome [OF this] idle kept show thesis using failed started by auto
    qed
  qed
qed

section \<open>What the status says\<close>

definition bridge_ok :: "'d bridge \<Rightarrow> bool" where
  "bridge_ok b \<longleftrightarrow> (br_status b = BridgeStarting \<longrightarrow> br_spawned b)
    \<and> (br_task b = Some TaskRunning \<longrightarrow> (br_spawned b \<and> br_status b = BridgeStarting \<or> \<not> br_spawned b \<and> br_status b = BridgeRunning)
        \<and> br_shutdown_tx b \<and> br_started_at b \<noteq> None \<and> br_store b \<noteq> None \<and> br_backend b \<noteq> None \<and> br_local_store b)"

lemma stop_simps [simp]:
  "br_status (stop b) = (if br_task b = Some TaskRunning then BridgeStopped else br_status b)" "br_task (stop b) = None" "br_spawned (stop b) = br_spawned b"
  "br_store (stop b) = br_store b" "br_started_at (stop b) = None" "br_backend (stop b) = None"
  by (cases "br_task b = Some TaskRunning"; simp add: stop_def task_exit_def)+

lemma task_exit_simps [simp]:
  "br_status (task_exit r b) = (case r of Some msg \<Rightarrow> BridgeError msg | None \<Rightarrow> BridgeStopped)" "br_task (task_exit r b) = Some TaskFinished"
  "br_spawned (task_exit r b) = br_spawned b" "br_store (task_exit r b) = br_store b"
  by (simp_all add: task_exit_def)

lemma bridge_ok_step: "bridge_step bw bw1 \<Longrightarrow> bridge_ok (fst bw) \<Longrightarrow> bridge_ok (fst bw1)"
proof (induction rule: bridge_step.induct)
  case (Start b bo cfg password totp_callback w r b1 w1)
  from Start(2) show ?case
  proof (cases rule: start_outcome)
    case busy
    then show ?thesis using Start(3) by simp
  next
    case (failed msg)
    then show ?thesis using Start(1,3) by (simp add: bridge_ok_def not_started_def)
  next
    case started
    then show ?thesis by (simp add: bridge_ok_def fresh_start_def)
  qed
qed (auto simp: bridge_ok_def)

interpretation life_cycle: step_invariant bridge_step "\<lambda>bw. bridge_ok (fst bw)"
  by unfold_locales (rule bridge_ok_step)

lemma bridge_ok_reachable: "bridge_step\<^sup>*\<^sup>* (new_bridge d disk, w) bw \<Longrightarrow> bridge_ok (fst bw)"
  by (erule life_cycle.reached) (simp add: bridge_ok_def new_bridge_def)

lemma drop_expired_fresh:
  assumes "x \<in> set (t_bus (drop_expired now ls))" "db_ok ls"
  shows "now - snd (snd x) \<le> ENTITY_EVENT_BATCH_EXPIRE"
proof (cases "t_bus ls = []")
  case False
  let ?ts = "set (map (\<lambda>(_, _, t). t) (t_bus ls))"
  have m: "event_bus_state_min_updated_at_ms ls = Inr (Some (Min ?ts))" using False assms(2) by (simp add: event_bus_state_min_updated_at_ms_def)
  show ?thesis
  proof (cases "now - Min ?ts > ENTITY_EVENT_BATCH_EXPIRE")
    case True
    then show ?thesis using assms m by (simp add: drop_expired_def clear_event_bus_state_def on_db_def)
  next
    case fresh: False
    then have "x \<in> set (t_bus ls)" using assms(1) m by (simp add: drop_expired_def)
    then have "snd (snd x) \<in> ?ts" by (force simp: case_prod_beta)
    then have "Min ?ts \<le> snd (snd x)" by simp
    with fresh show ?thesis by linarith
  qed
qed (use assms in \<open>auto simp: drop_expired_def event_bus_state_min_updated_at_ms_def\<close>)

section \<open>The properties\<close>

text \<open>A machine that has everything a start needs, and one whose ports are taken.\<close>

definition sample_boot :: "(shelf, unit) boot" where
  "sample_boot = \<lparr>bo_sdk = accepting_sdk, bo_platform = True, bo_pass_dir = None, bo_vault = shelf False, bo_codec = field_codec, bo_tls = Inr (),
     bo_os = (\<lambda>_ _. Inr ()), bo_storage_key = Inr (), bo_user_id = Some ''u'', bo_now = 10, bo_now_ms = 10000, bo_show_login = (\<lambda>_. []), bo_show_store = (\<lambda>_. [])\<rparr>"

definition sample_app_config :: app_config where
  "sample_app_config = default_config\<lparr>cf_email := ''me@tuta.io'', cf_api_url := ''https://app.tuta.com''\<rparr>"

definition old_bridge :: "shelf bridge" where
  "old_bridge = new_bridge sample_shelf (fresh_store\<lparr>t_bus := [(''g'', ''b'', - ENTITY_EVENT_BATCH_EXPIRE)]\<rparr>)"

lemma sample_start:
  obtains b1 where "start sample_boot sample_app_config None None (old_bridge, ()) = (Inr (), b1, ())" "fresh_start sample_boot b1"
proof -
  have cfg: "config.truncate sample_app_config = sample_config"
    by (simp add: sample_app_config_def default_config_def config.truncate_def sample_config_def)
  obtain so1 where load: "run_store True (shelf False) field_codec (load_op AllowVolatile None) (new_session_store True None sample_config, sample_shelf)
      = (Inr (Credentials (Some sample_credentials)), so1, sample_shelf)" using sample_load by (auto simp: load_op_def)
  have login: "login_with_persistence accepting_sdk True (shelf False) field_codec sample_config None None AllowVolatile
      (new_session_store True None sample_config, sample_shelf) () = (Inr \<lparr>ts_email = cf_email sample_config, ts_access_token = cd_access_token sample_credentials\<rparr>, (so1, sample_shelf), ())"
    by (simp add: login_with_persistence_def sample_matches load accepting_sdk_simps resume_or_authenticate_def)
  have pf: "preflight sample_boot sample_app_config = Inr ()"
    by (simp add: preflight_def sample_boot_def sample_app_config_def default_config_def validate_ports_def listening_ports_def bind_listeners_def bind_listener_def is_enabled_def)
  obtain r b1 where r: "start sample_boot sample_app_config None None (old_bridge, ()) = (r, b1, ())" by (metis prod.collapse unit.exhaust)
  have "r = Inr ()"
    using r by (simp add: start_def pf session_store_for_def cfg old_bridge_def new_bridge_def start_session_def open_store_def fresh_store_def on_db_def Let_def)
      (simp add: sample_boot_def login verify_key_def start_session_def open_store_def on_db_def Let_def split: if_splits)
  with r show thesis using that by (cases rule: start_outcome [OF r]) auto
qed

text \<open>
  C16: The status tells the truth about a live bridge. In every reachable state, whatever starts, stops and server failures came before: no
  call leaves the status at starting, so the bridge can be started or stopped again; while the servers live the status is running, or starting
  until the start returns; and live servers can be stopped.
\<close>

theorem bridge_status_truthful:
  assumes "bridge_step\<^sup>*\<^sup>* (new_bridge d disk, w) (b, w1)"
  shows "(br_status b = BridgeStarting \<longrightarrow> br_spawned b)
    \<and> (br_task b = Some TaskRunning \<longrightarrow> br_status b = (if br_spawned b then BridgeStarting else BridgeRunning) \<and> br_shutdown_tx b)"
  using bridge_ok_reachable [OF assms] unfolding bridge_ok_def fst_conv by presburger

theorem bridge_status_truthful_witness:
  "\<exists>b. bridge_step\<^sup>*\<^sup>* (old_bridge, ()) (b, ()) \<and> br_task b = Some TaskRunning \<and> br_status b = BridgeRunning \<and> br_shutdown_tx b"
proof -
  obtain b1 where st: "start sample_boot sample_app_config None None (old_bridge, ()) = (Inr (), b1, ())" "fresh_start sample_boot b1" by (rule sample_start)
  have "bridge_step (old_bridge, ()) (b1, ())" by (rule bridge_step.Start [OF _ st(1)]) (simp add: old_bridge_def new_bridge_def)
  moreover have "bridge_step (b1, ()) (b1\<lparr>br_status := BridgeRunning, br_spawned := False\<rparr>, ())" by (rule bridge_step.Started) (use st(2) in \<open>simp add: fresh_start_def\<close>)
  ultimately have reach: "bridge_step\<^sup>*\<^sup>* (old_bridge, ()) (b1\<lparr>br_status := BridgeRunning, br_spawned := False\<rparr>, ())" by auto
  from bridge_status_truthful [OF reach [unfolded old_bridge_def]] st(2) have "br_status (b1\<lparr>br_status := BridgeRunning, br_spawned := False\<rparr>) = BridgeRunning
      \<and> br_shutdown_tx (b1\<lparr>br_status := BridgeRunning, br_spawned := False\<rparr>)" by (simp add: fresh_start_def)
  with reach st(2) show ?thesis by (intro exI conjI) (auto simp: fresh_start_def)
qed

text \<open>
  C39: A start that fails says why and leaves nothing behind. Whatever goes wrong (the ports, TLS, a listener, the login, the storage key, the
  local store), the status is the error returned, and neither servers nor session nor cursors were installed, so the next start is not refused as
  already running. A start of a bridge that runs is refused and changes nothing.
\<close>

theorem failed_start_reported:
  assumes "start bo cfg password totp_callback (b, w) = (Inl msg, b1, w1)"
  shows "if br_status b = BridgeRunning \<or> br_status b = BridgeStarting then b1 = b
    else br_status b1 = BridgeError msg \<and> not_started b b1"
  using assms by (cases rule: start_outcome) auto

theorem failed_start_reported_witness:
  "\<exists>b1. start (sample_boot\<lparr>bo_tls := Inl ''no key''\<rparr>) sample_app_config None None (old_bridge, ()) = (Inl ''TLS setup failed: no key'', b1, ())
    \<and> br_status b1 = BridgeError ''TLS setup failed: no key'' \<and> not_started old_bridge b1"
proof -
  have "\<exists>b1. start (sample_boot\<lparr>bo_tls := Inl ''no key''\<rparr>) sample_app_config None None (old_bridge, ()) = (Inl ''TLS setup failed: no key'', b1, ())"
    by (simp add: start_def old_bridge_def new_bridge_def preflight_def sample_boot_def start_failed_def sample_app_config_def default_config_def validate_ports_def listening_ports_def)
  then obtain b1 where b1: "start (sample_boot\<lparr>bo_tls := Inl ''no key''\<rparr>) sample_app_config None None (old_bridge, ()) = (Inl ''TLS setup failed: no key'', b1, ())" by blast
  with failed_start_reported [OF b1] show ?thesis by (auto simp: old_bridge_def new_bridge_def)
qed



text \<open>
  A server that fails before the start has returned: its error is overwritten, and since its task has already written the status it will ever write,
  stopping does not help. The bridge then refuses every start as already running.
\<close>

theorem failure_overwritten:
  "\<exists>b. bridge_step\<^sup>*\<^sup>* (old_bridge, ()) (b, ()) \<and> br_task b = Some TaskFinished \<and> br_status b = BridgeRunning \<and> br_status (stop b) = BridgeRunning
    \<and> fst (start bo cfg password totp_callback (stop b, w)) = Inl ''Bridge is already running''"
proof -
  obtain b1 where st: "start sample_boot sample_app_config None None (old_bridge, ()) = (Inr (), b1, ())" "fresh_start sample_boot b1" by (rule sample_start)
  let ?b2 = "task_exit (Some (server_exit_message ''IMAP'' Returned)) b1"
  let ?b3 = "?b2\<lparr>br_status := BridgeRunning, br_spawned := False\<rparr>"
  have "bridge_step (old_bridge, ()) (b1, ())" by (rule bridge_step.Start [OF _ st(1)]) (simp add: old_bridge_def new_bridge_def)
  moreover have "bridge_step (b1, ()) (?b2, ())" by (rule bridge_step.ServerExit) (use st(2) in \<open>simp add: fresh_start_def\<close>)
  moreover have "bridge_step (?b2, ()) (?b3, ())" by (rule bridge_step.Started) (use st(2) in \<open>simp add: fresh_start_def\<close>)
  ultimately have "bridge_step\<^sup>*\<^sup>* (old_bridge, ()) (?b3, ())" by (meson converse_rtranclp_into_rtranclp r_into_rtranclp)
  moreover have "fst (start bo cfg password totp_callback (stop ?b3, w)) = Inl ''Bridge is already running''" by (simp add: start_def)
  ultimately show ?thesis by (intro exI conjI) auto
qed

text \<open>A stopped bridge still reports the mails it had.\<close>

theorem stopped_bridge_counts_mails:
  "br_store b = Some st \<Longrightarrow> bs_mails_synced (stats now (stop b)) = total_mail_count st"
  by (simp add: stats_def)

end
