(* ===== verification/Governor.thy ===== *)
theory Governor
  imports RustStr "HOL-Library.AList"
begin

text \<open>
  The governor of outbound requests (\<open>crates/bridge/src/governed_client.rs\<close>): a semaphore of four permits, a
  deadline before which nothing is sent, and the backoff a throttling response sets. Times are in
  milliseconds. The decisions are functions; the concurrent clients are a step relation in which every
  await is a place where another request may move.
\<close>

section \<open>Backoff\<close>

definition MAX_IN_FLIGHT :: nat where "MAX_IN_FLIGHT = 4"
definition DEFAULT_BACKOFF_BASE :: nat where "DEFAULT_BACKOFF_BASE = 2000"
definition MAX_DEFAULT_BACKOFF :: nat where "MAX_DEFAULT_BACKOFF = 60000"
definition MAX_SERVER_BACKOFF :: nat where "MAX_SERVER_BACKOFF = 300000"

record rest_response =
  rr_status :: nat
  rr_headers :: "(string \<times> string) list"

record governor =
  gv_until :: "nat option"
  gv_throttles :: nat

definition new_governor :: governor where
  "new_governor = \<lparr>gv_until = None, gv_throttles = 0\<rparr>"

definition throttle_delay :: "rest_response \<Rightarrow> nat option option" where
  "throttle_delay resp = (if rr_status resp = 429 \<or> rr_status resp = 503
     then Some (Option.bind (case map_of (rr_headers resp) ''retry-after'' of Some v \<Rightarrow> Some v
                             | None \<Rightarrow> map_of (rr_headers resp) ''suspension-time'') (\<lambda>v. parse_u64 (trim v)))
     else None)"

text \<open>The counter is a \<open>u32\<close> that wraps.\<close>

definition backoff_for :: "nat option \<Rightarrow> governor \<Rightarrow> nat \<times> governor" where
  "backoff_for server_secs g = (case server_secs of
     Some secs \<Rightarrow> (min MAX_SERVER_BACKOFF (max DEFAULT_BACKOFF_BASE (secs * 1000)), g\<lparr>gv_throttles := 0\<rparr>)
   | None \<Rightarrow> (min MAX_DEFAULT_BACKOFF (DEFAULT_BACKOFF_BASE * 2 ^ min (gv_throttles g) 5), g\<lparr>gv_throttles := u32_succ (gv_throttles g)\<rparr>))"

definition note_success :: "governor \<Rightarrow> governor" where
  "note_success g = g\<lparr>gv_throttles := 0\<rparr>"

definition suspend_until :: "nat \<Rightarrow> governor \<Rightarrow> governor" where
  "suspend_until until g = (case gv_until g of
     Some existing \<Rightarrow> if until \<le> existing then g else g\<lparr>gv_until := Some until\<rparr>
   | None \<Rightarrow> g\<lparr>gv_until := Some until\<rparr>)"

text \<open>What a response does at time \<open>now\<close>: the deadline to arm, if it throttles, and the counter.\<close>

definition after_response :: "nat \<Rightarrow> (unit + rest_response) \<Rightarrow> governor \<Rightarrow> nat option \<times> governor" where
  "after_response now result g = (case result of
     Inl _ \<Rightarrow> (None, g)
   | Inr resp \<Rightarrow> (case throttle_delay resp of
       Some server_secs \<Rightarrow> (case backoff_for server_secs g of (backoff, g1) \<Rightarrow> (Some (now + backoff), g1))
     | None \<Rightarrow> (None, if 200 \<le> rr_status resp \<and> rr_status resp < 300 then note_success g else g)))"

section \<open>Concurrent requests\<close>

text \<open>
  A request waits for a permit, checks the gate, may sleep until the deadline it saw and check again,
  is sent, and after a throttling answer arms the gate; it holds its permit from the first check to
  the end.
\<close>

datatype req_phase = Queued | Checking | Sleeping nat | InFlight | Arming nat | Answered

record gov_sys =
  gs_clock :: nat
  gs_gov :: governor
  gs_reqs :: "req_phase list"

definition holds_permit :: "req_phase \<Rightarrow> bool" where
  "holds_permit p = (p \<noteq> Queued \<and> p \<noteq> Answered)"

definition permits_taken :: "gov_sys \<Rightarrow> nat" where
  "permits_taken s = length (filter holds_permit (gs_reqs s))"

definition new_gov_sys :: "nat \<Rightarrow> gov_sys" where
  "new_gov_sys now = \<lparr>gs_clock = now, gs_gov = new_governor, gs_reqs = []\<rparr>"

definition set_phase :: "nat \<Rightarrow> req_phase \<Rightarrow> gov_sys \<Rightarrow> gov_sys" where
  "set_phase i p s = s\<lparr>gs_reqs := (gs_reqs s)[i := p]\<rparr>"

definition at_phase :: "nat \<Rightarrow> req_phase \<Rightarrow> gov_sys \<Rightarrow> bool" where
  "at_phase i p s = (i < length (gs_reqs s) \<and> gs_reqs s ! i = p)"

definition gate_closed :: "gov_sys \<Rightarrow> nat option" where
  "gate_closed s = (case gv_until (gs_gov s) of Some t \<Rightarrow> if gs_clock s < t then Some t else None | None \<Rightarrow> None)"

datatype gov_event = Submit | Acquire nat | Wait nat | Wake nat | Send nat | Receive nat "unit + rest_response" | Arm nat | Tick nat

inductive gov_step :: "gov_sys \<Rightarrow> gov_event \<Rightarrow> gov_sys \<Rightarrow> bool" where
  submit: "gov_step s Submit (s\<lparr>gs_reqs := gs_reqs s @ [Queued]\<rparr>)"
| acquire: "at_phase i Queued s \<Longrightarrow> permits_taken s < MAX_IN_FLIGHT \<Longrightarrow> gov_step s (Acquire i) (set_phase i Checking s)"
| wait: "at_phase i Checking s \<Longrightarrow> gate_closed s = Some t \<Longrightarrow> gov_step s (Wait i) (set_phase i (Sleeping t) s)"
| wake: "at_phase i (Sleeping t) s \<Longrightarrow> t \<le> gs_clock s \<Longrightarrow> gov_step s (Wake i) (set_phase i Checking s)"
| send: "at_phase i Checking s \<Longrightarrow> gate_closed s = None \<Longrightarrow> gov_step s (Send i) (set_phase i InFlight s)"
| receive: "at_phase i InFlight s \<Longrightarrow> after_response (gs_clock s) res (gs_gov s) = (deadline, g)
    \<Longrightarrow> gov_step s (Receive i res) (set_phase i (case deadline of Some t \<Rightarrow> Arming t | None \<Rightarrow> Answered) (s\<lparr>gs_gov := g\<rparr>))"
| arm: "at_phase i (Arming t) s \<Longrightarrow> gov_step s (Arm i) (set_phase i Answered (s\<lparr>gs_gov := suspend_until t (gs_gov s)\<rparr>))"
| tick: "gov_step s (Tick d) (s\<lparr>gs_clock := gs_clock s + d\<rparr>)"

inductive_cases gov_stepE: "gov_step s e s2"

text \<open>A run with the time of each event.\<close>

inductive gov_run :: "gov_sys \<Rightarrow> (nat \<times> gov_event) list \<Rightarrow> gov_sys \<Rightarrow> bool" where
  finish: "gov_run s [] s"
| step: "gov_step s e s1 \<Longrightarrow> gov_run s1 tr s2 \<Longrightarrow> gov_run s ((gs_clock s, e) # tr) s2"

section \<open>Properties\<close>

lemma set_phase_simps [simp]:
  "gs_clock (set_phase i p s) = gs_clock s" "gs_gov (set_phase i p s) = gs_gov s" "gs_reqs (set_phase i p s) = (gs_reqs s)[i := p]"
  by (simp_all add: set_phase_def)

lemma length_filter_update:
  "i < length xs \<Longrightarrow> length (filter P (xs[i := x])) + (if P (xs ! i) then 1 else 0) = length (filter P xs) + (if P x then 1 else 0)"
proof (induction xs arbitrary: i)
  case (Cons y ys)
  show ?case using Cons.IH [of "i - 1"] Cons.prems by (cases i) auto
qed simp

lemma permits_set_phase:
  "at_phase i q s \<Longrightarrow> permits_taken (set_phase i p s) + (if holds_permit q then 1 else 0) = permits_taken s + (if holds_permit p then 1 else 0)"
  using length_filter_update [of i "gs_reqs s" holds_permit p] by (auto simp: permits_taken_def at_phase_def)

lemma permits_keep: "at_phase i q s \<Longrightarrow> holds_permit q \<Longrightarrow> permits_taken (set_phase i p s) \<le> permits_taken s"
  using permits_set_phase [of i q s p] by (simp split: if_splits)

lemma permits_frame [simp]: "permits_taken (s\<lparr>gs_gov := g\<rparr>) = permits_taken s" "at_phase i p (s\<lparr>gs_gov := g\<rparr>) = at_phase i p s"
  by (simp_all add: permits_taken_def at_phase_def)

lemma step_permits:
  assumes "gov_step s e s2" "permits_taken s \<le> MAX_IN_FLIGHT"
  shows "permits_taken s2 \<le> MAX_IN_FLIGHT"
  using assms
proof cases
  case (acquire i)
  then show ?thesis using permits_set_phase [of i Queued s Checking] by (simp add: holds_permit_def)
next
  case (receive i res deadline g)
  then show ?thesis using permits_keep [of i InFlight "s\<lparr>gs_gov := g\<rparr>"] assms(2) le_trans by (fastforce simp: holds_permit_def)
next
  case (arm i t)
  then show ?thesis using permits_keep [of i "Arming t" "s\<lparr>gs_gov := suspend_until t (gs_gov s)\<rparr>"] assms(2) le_trans
    by (fastforce simp: holds_permit_def)
next
  case (wait i t)
  then show ?thesis using permits_keep [of i Checking s "Sleeping t"] assms(2) by (simp add: holds_permit_def)
next
  case (wake i t)
  then show ?thesis using permits_keep [of i "Sleeping t" s Checking] assms(2) by (simp add: holds_permit_def)
next
  case (send i)
  then show ?thesis using permits_keep [of i Checking s InFlight] assms(2) by (simp add: holds_permit_def)
qed (simp_all add: permits_taken_def holds_permit_def)

lemma run_permits: "gov_run s tr s2 \<Longrightarrow> permits_taken s \<le> MAX_IN_FLIGHT \<Longrightarrow> permits_taken s2 \<le> MAX_IN_FLIGHT"
  by (induction rule: gov_run.induct) (auto intro: step_permits)

text \<open>The deadline only moves forward.\<close>

lemma after_response_until: "gv_until (snd (after_response now res g)) = gv_until g"
  by (auto simp: after_response_def backoff_for_def note_success_def split: sum.split option.split)

lemma suspend_until_deadline:
  "\<exists>u. gv_until (suspend_until t g) = Some u \<and> t \<le> u \<and> (\<forall>v. gv_until g = Some v \<longrightarrow> v \<le> u)"
  by (auto simp: suspend_until_def split: option.split)

lemma step_deadline:
  assumes "gov_step s e s2" "gv_until (gs_gov s) = Some t"
  shows "\<exists>u. gv_until (gs_gov s2) = Some u \<and> t \<le> u"
  using assms
proof cases
  case (receive i res deadline g)
  then show ?thesis using assms(2) after_response_until [of "gs_clock s" res "gs_gov s"] by simp
next
  case (arm i u)
  then show ?thesis using assms(2) suspend_until_deadline [of u "gs_gov s"] by auto
qed auto

lemma run_no_early_send:
  "gov_run s tr s2 \<Longrightarrow> gv_until (gs_gov s) = Some t \<Longrightarrow> (n, Send j) \<in> set tr \<Longrightarrow> t \<le> n"
proof (induction arbitrary: t rule: gov_run.induct)
  case (step s e s1 tr s2)
  obtain u where u: "gv_until (gs_gov s1) = Some u" "t \<le> u" using step_deadline [OF step(1, 4)] by blast
  show ?case
  proof (cases "(n, Send j) = (gs_clock s, e)")
    case True
    then have "gate_closed s = None" using step(1) by (auto elim: gov_stepE)
    then show ?thesis using True step(4) by (auto simp: gate_closed_def split: if_splits)
  next
    case False
    then show ?thesis using step(3) [OF u(1)] step(5) u(2) by auto
  qed
qed simp


text \<open>Request 0 is throttled at time 0; request 1 is sent two seconds later.\<close>

definition throttled :: rest_response where
  "throttled = \<lparr>rr_status = 429, rr_headers = []\<rparr>"

definition sample_sys :: "nat \<Rightarrow> nat option \<Rightarrow> req_phase list \<Rightarrow> gov_sys" where
  "sample_sys now until ps = \<lparr>gs_clock = now, gs_gov = \<lparr>gv_until = until, gv_throttles = (if ps = [InFlight] then 0 else 1)\<rparr>, gs_reqs = ps\<rparr>"

lemma sample_steps:
  "gov_step (new_gov_sys 0) Submit ((new_gov_sys 0)\<lparr>gs_reqs := [Queued]\<rparr>)"
  "gov_step ((new_gov_sys 0)\<lparr>gs_reqs := [Queued]\<rparr>) (Acquire 0) ((new_gov_sys 0)\<lparr>gs_reqs := [Checking]\<rparr>)"
  "gov_step ((new_gov_sys 0)\<lparr>gs_reqs := [Checking]\<rparr>) (Send 0) (sample_sys 0 None [InFlight])"
  "gov_step (sample_sys 0 None [InFlight]) (Receive 0 (Inr throttled)) (sample_sys 0 None [Arming 2000])"
  "gov_step (sample_sys 0 None [Arming 2000]) (Arm 0) (sample_sys 0 (Some 2000) [Answered])"
  "gov_step (sample_sys 0 (Some 2000) [Answered]) Submit (sample_sys 0 (Some 2000) [Answered, Queued])"
  "gov_step (sample_sys 0 (Some 2000) [Answered, Queued]) (Acquire 1) (sample_sys 0 (Some 2000) [Answered, Checking])"
  "gov_step (sample_sys 0 (Some 2000) [Answered, Checking]) (Wait 1) (sample_sys 0 (Some 2000) [Answered, Sleeping 2000])"
  "gov_step (sample_sys 0 (Some 2000) [Answered, Sleeping 2000]) (Tick 2000) (sample_sys 2000 (Some 2000) [Answered, Sleeping 2000])"
  "gov_step (sample_sys 2000 (Some 2000) [Answered, Sleeping 2000]) (Wake 1) (sample_sys 2000 (Some 2000) [Answered, Checking])"
  "gov_step (sample_sys 2000 (Some 2000) [Answered, Checking]) (Send 1) (sample_sys 2000 (Some 2000) [Answered, InFlight])"
  by (auto simp: gov_step.simps new_gov_sys_def sample_sys_def at_phase_def permits_taken_def holds_permit_def gate_closed_def set_phase_def
      new_governor_def MAX_IN_FLIGHT_def after_response_def throttle_delay_def throttled_def backoff_for_def suspend_until_def u32_succ_def
      DEFAULT_BACKOFF_BASE_def MAX_DEFAULT_BACKOFF_def)


text \<open>
  The backoff is always between two seconds and five minutes; the server's own wait is obeyed within that
  range and restarts the escalation; without one the waits are 2, 4, 8, 16, 32 and then 60 seconds.
\<close>

theorem backoff_schedule:
  "2000 \<le> fst (backoff_for hint g) \<and> fst (backoff_for hint g) \<le> 300000
   \<and> (case hint of
        Some secs \<Rightarrow> (2 \<le> secs \<and> secs \<le> 300 \<longrightarrow> fst (backoff_for hint g) = secs * 1000) \<and> gv_throttles (snd (backoff_for hint g)) = 0
      | None \<Rightarrow> fst (backoff_for hint g) = (if gv_throttles g < 5 then 2000 * 2 ^ gv_throttles g else 60000))"
proof (cases hint)
  case None
  have "(1 :: nat) \<le> 2 ^ min (gv_throttles g) 5" by simp
  moreover have "gv_throttles g < 5 \<Longrightarrow> (2 :: nat) ^ gv_throttles g \<le> 2 ^ 4" by (intro power_increasing) simp_all
  ultimately show ?thesis using None
    by (auto simp: backoff_for_def DEFAULT_BACKOFF_BASE_def MAX_DEFAULT_BACKOFF_def min_def)
qed (auto simp: backoff_for_def DEFAULT_BACKOFF_BASE_def MAX_SERVER_BACKOFF_def min_def max_def)

text \<open>
  A suspension ends: a request that holds a permit and waits at the gate is sent once the deadline has
  passed; nothing has to happen but time.
\<close>

theorem suspension_ends:
  assumes "at_phase i (Sleeping u) s \<or> at_phase i Checking s"
  shows "\<exists>tr s2. gov_run s tr s2 \<and> at_phase i InFlight s2 \<and> (\<forall>(n, e) \<in> set tr. e \<in> {Wake i, Send i} \<or> (\<exists>d. e = Tick d))"
proof -
  have reach: "\<exists>tr s2. gov_run s tr s2 \<and> at_phase i InFlight s2 \<and> (\<forall>(n, e) \<in> set tr. e \<in> {Wake i, Send i} \<or> (\<exists>d. e = Tick d))"
    if "at_phase i Checking s" for s
  proof -
    let ?t = "case gv_until (gs_gov s) of Some t \<Rightarrow> t | None \<Rightarrow> 0"
    let ?s = "s\<lparr>gs_clock := gs_clock s + ?t\<rparr>"
    have "at_phase i Checking ?s" "gate_closed ?s = None" using that by (auto simp: at_phase_def gate_closed_def split: option.split)
    then have "gov_run s [(gs_clock s, Tick ?t), (gs_clock ?s, Send i)] (set_phase i InFlight ?s)"
      by (intro gov_run.step [OF gov_step.tick] gov_run.step [OF gov_step.send] gov_run.finish)
    moreover have "at_phase i InFlight (set_phase i InFlight ?s)" using that by (simp add: at_phase_def)
    ultimately show ?thesis by (intro exI conjI) auto
  qed
  show ?thesis
    using assms
  proof
    assume sl: "at_phase i (Sleeping u) s"
    let ?s = "s\<lparr>gs_clock := gs_clock s + u\<rparr>"
    have w: "gov_step ?s (Wake i) (set_phase i Checking ?s)" using sl by (intro gov_step.wake) (auto simp: at_phase_def)
    have "at_phase i Checking (set_phase i Checking ?s)" using sl by (simp add: at_phase_def)
    then obtain tr s2 where r: "gov_run (set_phase i Checking ?s) tr s2" "at_phase i InFlight s2"
        "\<forall>(n, e) \<in> set tr. e \<in> {Wake i, Send i} \<or> (\<exists>d. e = Tick d)" using reach by blast
    then have "gov_run s ((gs_clock s, Tick u) # (gs_clock ?s, Wake i) # tr) s2"
      by (intro gov_run.step [OF gov_step.tick] gov_run.step [OF w])
    then show ?thesis using r by (intro exI [of _ "(gs_clock s, Tick u) # (gs_clock ?s, Wake i) # tr"] exI [of _ s2]) auto
  qed (rule reach)
qed

theorem suspension_ends_witness:
  "\<exists>tr s2. gov_run (sample_sys 0 (Some 2000) [Answered, Sleeping 2000]) tr s2 \<and> at_phase 1 InFlight s2"
proof -
  have "at_phase 1 (Sleeping 2000) (sample_sys 0 (Some 2000) [Answered, Sleeping 2000])" by (simp add: at_phase_def sample_sys_def)
  then show ?thesis using suspension_ends [of 1 2000 "sample_sys 0 (Some 2000) [Answered, Sleeping 2000]"] by blast
qed

theorem backoff_schedule_witness:
  "fst (backoff_for (Some 30) new_governor) = 30000"
  using backoff_schedule [of "Some 30" new_governor] by simp

end
