(* ===== verification/Parser.thy ===== *)
theory Parser
  imports Rfc2822
begin

text \<open>
  The message parser (\<open>crates/bridge/src/mail/parser.rs\<close>), which reads submissions and, for a body reloaded from
  disk, the address headers of a rendered message. Offsets found in a lower-cased copy are used to
  slice the original; a slice off a character boundary panics, which is \<open>None\<close> here. The nesting of
  multipart bodies is recursion on shorter and shorter bodies. Characters are read as bytes where
  every special character is ASCII.
\<close>

section \<open>Lines and headers\<close>

text \<open>\<open>s.split_inclusive('\n')\<close> and \<open>s.lines()\<close>\<close>

fun split_inclusive_nl :: "string \<Rightarrow> string list" where
  "split_inclusive_nl [] = []"
| "split_inclusive_nl (c # s) = (if c = LF then [c] # split_inclusive_nl s
     else case split_inclusive_nl s of [] \<Rightarrow> [[c]] | w # ws \<Rightarrow> (c # w) # ws)"

definition strip_line :: "string \<Rightarrow> string" where
  "strip_line l = (case strip_suffix [LF] l of None \<Rightarrow> l
     | Some m \<Rightarrow> (case strip_suffix [CR] m of None \<Rightarrow> m | Some k \<Rightarrow> k))"

definition str_lines :: "string \<Rightarrow> string list" where
  "str_lines s = map strip_line (split_inclusive_nl s)"

definition header_section :: "string \<Rightarrow> string" where
  "header_section raw = (case find_sub (CRLF @ CRLF) raw of Some p \<Rightarrow> take p raw
     | None \<Rightarrow> (case find_sub [LF, LF] raw of Some p \<Rightarrow> take p raw | None \<Rightarrow> raw))"

definition split_headers_body :: "string \<Rightarrow> string \<times> string" where
  "split_headers_body raw =
     (let headers = header_section raw; rest = drop (length headers) raw
      in (headers, case strip_prefix (CRLF @ CRLF) rest of Some x \<Rightarrow> x
           | None \<Rightarrow> (case strip_prefix [LF, LF] rest of Some x \<Rightarrow> x | None \<Rightarrow> [])))"

type_synonym headers = "(string \<times> string) list"

definition push_header :: "unicode \<Rightarrow> headers \<Rightarrow> string \<Rightarrow> string \<Rightarrow> headers" where
  "push_header u hs n v = (if n \<noteq> [] then hs @ [(to_lowercase u n, trim v)] else hs)"

definition header_step :: "unicode \<Rightarrow> string \<Rightarrow> headers \<times> string \<times> string \<Rightarrow> headers \<times> string \<times> string" where
  "header_step u line st = (case st of (hs, n, v) \<Rightarrow>
     if starts_with '' '' line \<or> starts_with [CHR 0x09] line then (hs, n, v @ '' '' @ trim line)
     else case split_once CHR '':'' line of
         Some (name, value) \<Rightarrow> (push_header u hs n v, trim name, value)
       | None \<Rightarrow> (hs, n, v))"

definition parse_headers :: "unicode \<Rightarrow> string \<Rightarrow> headers" where
  "parse_headers u section = (case fold (header_step u) (str_lines section) ([], [], []) of (hs, n, v) \<Rightarrow> push_header u hs n v)"

definition get_header :: "headers \<Rightarrow> string \<Rightarrow> string option" where
  "get_header hs name = map_of hs name"

definition header_or_empty :: "headers \<Rightarrow> string \<Rightarrow> string" where
  "header_or_empty hs name = (case get_header hs name of Some v \<Rightarrow> v | None \<Rightarrow> [])"

section \<open>Encoded words\<close>

definition hex_digit :: "char \<Rightarrow> nat option" where
  "hex_digit c = (let b = byte_of c in if 48 \<le> b \<and> b \<le> 57 then Some (b - 48)
     else if 65 \<le> b \<and> b \<le> 70 then Some (b - 55) else if 97 \<le> b \<and> b \<le> 102 then Some (b - 87) else None)"

text \<open>\<open>u8::from_str_radix(s, 16)\<close> on two bytes; a leading plus is a sign.\<close>

definition hex_pair :: "char \<Rightarrow> char \<Rightarrow> char option" where
  "hex_pair h l = (case hex_digit l of None \<Rightarrow> None
     | Some y \<Rightarrow> if h = CHR ''+'' then Some (char_of y)
         else (case hex_digit h of None \<Rightarrow> None | Some x \<Rightarrow> Some (char_of (16 * x + y))))"

fun q_loop :: "string \<Rightarrow> string" where
  "q_loop [] = []"
| "q_loop (c # s) = (case (if c = CHR ''='' then (case s of h # l # t \<Rightarrow> map_option (\<lambda>x. (x, t)) (hex_pair h l) | _ \<Rightarrow> None) else None) of
     Some (x, t) \<Rightarrow> x # (case s of h # l # t' \<Rightarrow> q_loop t' | _ \<Rightarrow> [])
   | None \<Rightarrow> (if c = CHR ''_'' then CHR '' '' else c) # q_loop s)"

definition decode_q_encoding :: "string \<Rightarrow> string" where
  "decode_q_encoding s = (if utf8_valid (q_loop s) then q_loop s else s)"

text \<open>The text of one encoded word after its \<open>=?\<close>, and the bytes it takes.\<close>

definition decode_word :: "base64 \<Rightarrow> unicode \<Rightarrow> string \<Rightarrow> (string \<times> nat) option" where
  "decode_word b u remaining = (case splitn 4 CHR ''?'' remaining of
     [p0, p1, p2, p3] \<Rightarrow>
       if starts_with ''='' p3 then
         (let encoding = to_uppercase u p1;
              decoded = (if encoding = ''B'' then
                           (case b64_decode b p2 of Some bytes \<Rightarrow> if utf8_valid bytes then Some bytes else None | None \<Rightarrow> None)
                         else if encoding = ''Q'' then Some (decode_q_encoding p2) else None)
          in map_option (\<lambda>text. (text, length p0 + length p1 + length p2 + 2 + 2)) decoded)
       else None
   | _ \<Rightarrow> None)"

lemma find_sub_len: "find_sub p s = Some i \<Longrightarrow> p \<noteq> [] \<Longrightarrow> i < length s"
proof (induction s arbitrary: i)
  case (Cons c s)
  then show ?case by (auto split: if_splits option.splits)
qed (auto split: if_splits)

lemma trim_drop_less: "s \<noteq> [] \<Longrightarrow> length (trim_start (drop (Suc n) s)) < length s"
  using trim_start_len [of "drop (Suc n) s"] by (cases s) simp_all

function decode_words :: "base64 \<Rightarrow> unicode \<Rightarrow> string \<Rightarrow> string" where
  "decode_words b u remaining = (case find_sub ''=?'' remaining of
     None \<Rightarrow> remaining
   | Some start \<Rightarrow> take start remaining @
       (let rem = drop (start + 2) remaining in case decode_word b u rem of
          Some (text, skip) \<Rightarrow>
            (let rest = drop skip rem; stripped = trim_start rest
             in text @ decode_words b u (if starts_with ''=?'' stripped then stripped else rest))
        | None \<Rightarrow> ''=?'' @ decode_words b u rem))"
  by pat_completeness auto
termination
proof (relation "measure (\<lambda>(b, u, s). length s)", goal_cases)
  case (2 b u remaining)
  then show ?case using find_sub_len [OF 2(1)] by (auto simp: trim_drop_less)
next
  case (3 b u remaining)
  then show ?case using find_sub_len [OF 3(1)] by (auto intro!: trim_drop_less)
qed auto

declare decode_words.simps [simp del]

definition decode_header_value :: "base64 \<Rightarrow> unicode \<Rightarrow> string \<Rightarrow> string" where
  "decode_header_value b u s0 = (let s = trim s0 in if \<not> contains_sub s ''=?'' then s else decode_words b u s)"

section \<open>Addresses\<close>

text \<open>\<open>s.rfind('<')\<close>: what stands before and after the last one.\<close>

definition rsplit_once :: "char \<Rightarrow> string \<Rightarrow> (string \<times> string) option" where
  "rsplit_once d s = map_option (\<lambda>(a, b). (rev b, rev a)) (split_once d (rev s))"

fun unescape :: "string \<Rightarrow> string" where
  "unescape [] = []"
| "unescape (c # s) = (if c = BACKSLASH then (case s of [] \<Rightarrow> [] | d # t \<Rightarrow> d # unescape t) else c # unescape s)"

definition unquote :: "string \<Rightarrow> string" where
  "unquote phrase = (case Option.bind (strip_prefix [DQUOTE] phrase) (strip_suffix [DQUOTE]) of
     None \<Rightarrow> trim_matches DQUOTE phrase | Some inner \<Rightarrow> unescape inner)"

definition parse_address_single :: "base64 \<Rightarrow> unicode \<Rightarrow> string \<Rightarrow> string \<times> string" where
  "parse_address_single b u raw0 =
     (let raw = trim raw0 in
      case rsplit_once CHR ''<'' raw of
        Some (before, after) \<Rightarrow> (case split_once CHR ''>'' after of
            Some (addr, _) \<Rightarrow> (decode_header_value b u (unquote (trim before)), trim addr)
          | None \<Rightarrow> ([], raw))
      | None \<Rightarrow> ([], raw))"

definition push_address :: "base64 \<Rightarrow> unicode \<Rightarrow> string \<Rightarrow> (string \<times> string) list" where
  "push_address b u current = (let t = trim current in if t = [] then [] else [parse_address_single b u t])"

fun address_loop :: "base64 \<Rightarrow> unicode \<Rightarrow> int \<Rightarrow> bool \<Rightarrow> string \<Rightarrow> string \<Rightarrow> (string \<times> string) list" where
  "address_loop b u depth q cur [] = push_address b u cur"
| "address_loop b u depth q cur (c # s) =
     (if c = DQUOTE then address_loop b u depth (\<not> q) (cur @ [c]) s
      else if c = BACKSLASH \<and> q then
        (case s of [] \<Rightarrow> address_loop b u depth q (cur @ [c]) [] | d # t \<Rightarrow> address_loop b u depth q (cur @ [c, d]) t)
      else if c = CHR ''<'' \<and> \<not> q then address_loop b u (depth + 1) q (cur @ [c]) s
      else if c = CHR ''>'' \<and> \<not> q then address_loop b u (depth - 1) q (cur @ [c]) s
      else if c = CHR '','' \<and> depth = 0 \<and> \<not> q then push_address b u cur @ address_loop b u depth q [] s
      else address_loop b u depth q (cur @ [c]) s)"

definition parse_address_list :: "base64 \<Rightarrow> unicode \<Rightarrow> string \<Rightarrow> (string \<times> string) list" where
  "parse_address_list b u raw = address_loop b u 0 False [] raw"

record address_headers =
  ah_to :: "(string \<times> string) list"
  ah_cc :: "(string \<times> string) list"
  ah_bcc :: "(string \<times> string) list"
  ah_reply_to :: "(string \<times> string) list"

definition address_header :: "base64 \<Rightarrow> unicode \<Rightarrow> headers \<Rightarrow> string \<Rightarrow> (string \<times> string) list" where
  "address_header b u hs name = (case get_header hs name of Some v \<Rightarrow> parse_address_list b u v | None \<Rightarrow> [])"

definition address_headers_of :: "base64 \<Rightarrow> unicode \<Rightarrow> headers \<Rightarrow> address_headers" where
  "address_headers_of b u hs = \<lparr>ah_to = address_header b u hs ''to'', ah_cc = address_header b u hs ''cc'',
     ah_bcc = address_header b u hs ''bcc'', ah_reply_to = address_header b u hs ''reply-to''\<rparr>"

definition parse_address_headers :: "base64 \<Rightarrow> unicode \<Rightarrow> string \<Rightarrow> address_headers" where
  "parse_address_headers b u raw = address_headers_of b u (parse_headers u (header_section raw))"

text \<open>\<open>msg_ids\<close>: the non-empty ids between angle brackets, or the bare value.\<close>

function bracket_ids :: "string \<Rightarrow> string list" where
  "bracket_ids rest = (case split_once CHR ''<'' rest of None \<Rightarrow> []
     | Some (_, r) \<Rightarrow> (case split_once CHR ''>'' r of None \<Rightarrow> []
         | Some (i, r2) \<Rightarrow> (if trim i \<noteq> [] then [trim i] else []) @ bracket_ids r2))"
  by pat_completeness auto
termination
  by (relation "measure length") (auto dest!: split_once_Some)

declare bracket_ids.simps [simp del]

definition msg_ids :: "string \<Rightarrow> string list" where
  "msg_ids raw = (if bracket_ids raw = [] then (if trim raw \<noteq> [] then [trim raw] else []) else bracket_ids raw)"

definition first_msg_id :: "string \<Rightarrow> string option" where
  "first_msg_id raw = (case msg_ids raw of [] \<Rightarrow> None | i # _ \<Rightarrow> Some i)"

definition last_msg_id :: "string \<Rightarrow> string option" where
  "last_msg_id raw = (if msg_ids raw = [] then None else Some (last (msg_ids raw)))"

section \<open>Parameters\<close>

text \<open>\<open>rest.split(|c| c.is_whitespace() || c == ';').next()\<close>\<close>

fun until_ws_semi :: "string \<Rightarrow> string" where
  "until_ws_semi [] = []"
| "until_ws_semi (c # s) = (if ws_len (c # s) > 0 \<or> c = CHR '';'' then [] else c # until_ws_semi s)"

definition param_value :: "string \<Rightarrow> string option" where
  "param_value rest =
     (let value = (if starts_with [DQUOTE] rest then takeWhile (\<lambda>c. c \<noteq> DQUOTE) (tl rest) else until_ws_semi rest)
      in if value = [] then None else Some value)"

text \<open>\<open>extract_param\<close>: \<open>None\<close> is the panic of the slice, \<open>Some None\<close> an absent parameter.\<close>

definition extract_param :: "unicode \<Rightarrow> string \<Rightarrow> string \<Rightarrow> string option option" where
  "extract_param u header key =
     (let needle = to_lowercase u key @ ''='' in
      case find_sub needle (to_lowercase u header) of None \<Rightarrow> Some None
      | Some pos \<Rightarrow> if char_boundary header (pos + length needle) then Some (param_value (drop (pos + length needle) header)) else None)"

definition extract_boundary :: "unicode \<Rightarrow> string \<Rightarrow> string option option" where
  "extract_boundary u content_type =
     (case find_sub ''boundary='' (to_lowercase u content_type) of None \<Rightarrow> Some None
      | Some pos \<Rightarrow> if char_boundary content_type (pos + 9) then Some (param_value (drop (pos + 9) content_type)) else None)"

section \<open>Parts\<close>

fun trim_start_crlf :: "string \<Rightarrow> string" where
  "trim_start_crlf (c # d # s) = (if c = CR \<and> d = LF then trim_start_crlf s else c # d # s)"
| "trim_start_crlf s = s"

definition finish_part :: "string \<Rightarrow> string" where
  "finish_part current = dropWhile (\<lambda>c. c = LF) (trim_start_crlf current)"

fun mime_loop :: "string \<Rightarrow> bool \<Rightarrow> string \<Rightarrow> string list \<Rightarrow> string list" where
  "mime_loop boundary in_part current [] = []"
| "mime_loop boundary in_part current (line # lines) =
     (if starts_with (''--'' @ boundary @ ''--'') line then (if in_part \<and> current \<noteq> [] then [finish_part current] else [])
      else if starts_with (''--'' @ boundary) line then
        (if in_part \<and> current \<noteq> [] then [finish_part current] else []) @ mime_loop boundary True [] lines
      else if in_part then mime_loop boundary in_part (current @ line @ [LF]) lines
      else mime_loop boundary in_part current lines)"

definition split_mime_parts :: "string \<Rightarrow> string \<Rightarrow> string list" where
  "split_mime_parts body boundary = mime_loop boundary False [] (str_lines body)"

definition without_whitespace :: "string \<Rightarrow> string" where
  "without_whitespace s = concat (filter (\<lambda>ch. ws_len ch = 0) (chars_of s))"

fun qp_loop :: "string \<Rightarrow> string" where
  "qp_loop [] = []"
| "qp_loop (c # s) = (if c = CHR ''='' then
       (case s of
          h # l # t \<Rightarrow> if h = CR \<and> l = LF then qp_loop t
            else if h = LF then qp_loop (l # t)
            else (case hex_pair h l of Some x \<Rightarrow> x # qp_loop t | None \<Rightarrow> qp_loop t)
        | [h] \<Rightarrow> if h = LF then [] else c # qp_loop [h]
        | [] \<Rightarrow> [c])
     else c # qp_loop s)"

definition decode_quoted_printable :: "string \<Rightarrow> string" where
  "decode_quoted_printable s = from_utf8_lossy (qp_loop s)"

definition decode_transfer :: "base64 \<Rightarrow> string \<Rightarrow> string \<Rightarrow> string" where
  "decode_transfer b body cte = (if contains_sub cte ''base64'' then
       (case b64_decode b (without_whitespace body) of Some bytes \<Rightarrow> from_utf8_lossy bytes | None \<Rightarrow> body)
     else if contains_sub cte ''quoted-printable'' then decode_quoted_printable body else body)"

definition html_escape :: "string \<Rightarrow> string" where
  "html_escape s = replace_char (CHR ''>'') ''&gt;'' (replace_char (CHR ''<'') ''&lt;'' (replace_char (CHR ''&'') ''&amp;'' s))"

definition wrap_plain_as_html :: "string \<Rightarrow> string \<Rightarrow> string" where
  "wrap_plain_as_html decoded content_type =
     (if contains_sub content_type ''text/plain'' \<and> \<not> contains_sub content_type ''text/html''
      then ''<pre>'' @ html_escape decoded @ ''</pre>'' else decoded)"

section \<open>Multipart bodies\<close>

record attachment =
  att_filename :: string
  att_mime_type :: string
  att_data :: string

definition part_is_attachment :: "unicode \<Rightarrow> string \<Rightarrow> string \<Rightarrow> bool option" where
  "part_is_attachment u ct cd = (if contains_sub (to_lowercase u cd) ''attachment'' then Some True
     else map_option (\<lambda>n. n \<noteq> None \<and> \<not> contains_sub (to_lowercase u ct) ''text/'') (extract_param u ct ''name''))"

definition attachment_data :: "base64 \<Rightarrow> string \<Rightarrow> string \<Rightarrow> string" where
  "attachment_data b cte part_body = (if contains_sub cte ''base64'' then
       (case b64_decode b (without_whitespace part_body) of Some bytes \<Rightarrow> bytes | None \<Rightarrow> [])
     else if contains_sub cte ''quoted-printable'' then decode_quoted_printable part_body else part_body)"

definition attachment_filename :: "unicode \<Rightarrow> string \<Rightarrow> string \<Rightarrow> string option" where
  "attachment_filename u ct cd = (case extract_param u cd ''filename'' of None \<Rightarrow> None
     | Some (Some n) \<Rightarrow> Some n
     | Some None \<Rightarrow> map_option (\<lambda>n. case n of Some m \<Rightarrow> m | None \<Rightarrow> ''attachment.bin'') (extract_param u ct ''name''))"

definition attachment_mime :: "unicode \<Rightarrow> string \<Rightarrow> string" where
  "attachment_mime u ct = (let m = to_lowercase u (trim (hd (split_on CHR '';'' ct)))
     in if m = [] then ''application/octet-stream'' else m)"

definition part_attachment :: "base64 \<Rightarrow> unicode \<Rightarrow> string \<Rightarrow> string \<Rightarrow> string \<Rightarrow> string \<Rightarrow> attachment option" where
  "part_attachment b u ct cte cd part_body = map_option
     (\<lambda>n. \<lparr>att_filename = decode_header_value b u n, att_mime_type = attachment_mime u ct,
           att_data = attachment_data b cte part_body\<rparr>) (attachment_filename u ct cd)"

text \<open>The locals of the loop over the parts: the HTML part, the text part and the attachments.\<close>

type_synonym multipart_state = "string option \<times> string option \<times> attachment list"

definition add_nested :: "multipart_state \<Rightarrow> string \<times> attachment list \<times> string option \<Rightarrow> multipart_state" where
  "add_nested st nested = (case (st, nested) of ((html, plain, atts), (nbody, natts, ntext)) \<Rightarrow>
     (case ntext of
        Some raw \<Rightarrow> (html, if plain = None then Some raw else plain, atts @ natts)
      | None \<Rightarrow> (if html = None \<and> nbody \<noteq> [] then Some nbody else html, plain, atts @ natts)))"

definition add_text :: "base64 \<Rightarrow> string \<Rightarrow> string \<Rightarrow> string \<Rightarrow> multipart_state \<Rightarrow> multipart_state" where
  "add_text b ct_lower cte part_body st = (case st of (html, plain, atts) \<Rightarrow>
     if contains_sub ct_lower ''text/html'' \<and> html = None then (Some (decode_transfer b part_body cte), plain, atts)
     else if contains_sub ct_lower ''text/plain'' \<and> html = None \<and> plain = None
       then (html, Some (decode_transfer b part_body cte), atts)
     else st)"

definition multipart_result :: "string \<Rightarrow> multipart_state \<Rightarrow> string \<times> attachment list \<times> string option" where
  "multipart_result body st = (case st of
       (Some html, _, atts) \<Rightarrow> (html, atts, None)
     | (None, Some raw, atts) \<Rightarrow> (wrap_plain_as_html raw ''text/plain'', atts, Some raw)
     | (None, None, atts) \<Rightarrow> (body, atts, None))"

text \<open>What the recursion decreases: every part had a delimiter line of its own.\<close>

definition parts_size :: "string list \<Rightarrow> nat" where
  "parts_size ps = sum_list (map (\<lambda>p. length p + 3) ps)"

definition lines_size :: "string list \<Rightarrow> nat" where
  "lines_size ls = sum_list (map (\<lambda>l. length l + 1) ls)"

lemma size_simps [simp]:
  "parts_size [] = 0" "parts_size (p # ps) = length p + 3 + parts_size ps" "parts_size (ps @ qs) = parts_size ps + parts_size qs"
  "lines_size [] = 0" "lines_size (l # ls) = length l + 1 + lines_size ls"
  by (simp_all add: parts_size_def lines_size_def)

lemma split_inclusive_ne: "[] \<notin> set (split_inclusive_nl s)"
  by (induction s) (auto split: list.splits)

lemma suffix_single [simp]: "suffix [c] s \<longleftrightarrow> s \<noteq> [] \<and> last s = c"
  by (cases s rule: rev_cases) (auto simp: suffix_def)

lemma strip_line_simps [simp]: "strip_line [LF] = []" "c \<noteq> LF \<Longrightarrow> strip_line [c] = [c]"
  by (auto simp: strip_line_def strip_suffix_def)

lemma strip_line_Cons: "w \<noteq> [] \<Longrightarrow> length (strip_line (c # w)) \<le> Suc (length (strip_line w))"
  by (cases w rule: rev_cases; cases "butlast w" rule: rev_cases)
    (auto simp: strip_line_def strip_suffix_def split: option.splits if_splits)

lemma str_lines_size: "lines_size (str_lines s) \<le> length s + 1"
proof (induction s)
  case (Cons c s)
  show ?case
  proof (cases "c = LF \<or> split_inclusive_nl s = []")
    case True
    then show ?thesis using Cons by (auto simp: str_lines_def)
  next
    case False
    then obtain w ws where w: "split_inclusive_nl s = w # ws" by (auto simp: neq_Nil_conv)
    then have "w \<noteq> []" using split_inclusive_ne [of s] by auto
    then show ?thesis using Cons False w strip_line_Cons [of w c] by (simp add: str_lines_def)
  qed
qed (simp add: str_lines_def)

lemma finish_part_len: "length (finish_part s) \<le> length s"
proof -
  have "length (trim_start_crlf s) \<le> length s" by (induction s rule: trim_start_crlf.induct) auto
  then show ?thesis unfolding finish_part_def
    using length_dropWhile_le [of "\<lambda>c. c = LF" "trim_start_crlf s"] by (rule order_trans [rotated])
qed

lemma starts_with_len: "starts_with p s \<Longrightarrow> length p \<le> length s"
  by (auto simp: starts_with_prefix prefix_def)

lemma mime_loop_size:
  "parts_size (mime_loop bd in_part current ls) \<le> (if in_part then length current + 3 else 0) + lines_size ls"
proof (induction bd in_part current ls rule: mime_loop.induct)
  case (2 bd in_part current line ls)
  then show ?case
    using finish_part_len [of current] starts_with_len [of "''--'' @ bd" line] by (auto split: if_splits)
qed simp

lemma split_mime_parts_size: "parts_size (split_mime_parts body bd) < length body + 2"
  using mime_loop_size [of bd False "[]" "str_lines body"] str_lines_size [of body] by (simp add: split_mime_parts_def)

lemma split_headers_body_len: "length (snd (split_headers_body raw)) \<le> length raw"
  by (auto simp: split_headers_body_def Let_def strip_prefix_def split: option.splits if_splits)

function extract_multipart_body_and_attachments ::
    "base64 \<Rightarrow> unicode \<Rightarrow> string \<Rightarrow> string \<Rightarrow> (string \<times> attachment list \<times> string option) option"
  and multipart_loop :: "base64 \<Rightarrow> unicode \<Rightarrow> string list \<Rightarrow> multipart_state \<Rightarrow> multipart_state option" where
  "extract_multipart_body_and_attachments b u body content_type = (case extract_boundary u content_type of
     None \<Rightarrow> None
   | Some None \<Rightarrow> Some (body, [], None)
   | Some (Some boundary) \<Rightarrow>
       map_option (multipart_result body) (multipart_loop b u (split_mime_parts body boundary) (None, None, [])))"
| "multipart_loop b u [] st = Some st"
| "multipart_loop b u (part # parts) st =
     (let part_headers = parse_headers u (fst (split_headers_body part));
          part_body = snd (split_headers_body part);
          part_ct = header_or_empty part_headers ''content-type'';
          part_cte = to_lowercase u (header_or_empty part_headers ''content-transfer-encoding'');
          part_cd = header_or_empty part_headers ''content-disposition'';
          part_ct_lower = to_lowercase u part_ct
      in case part_is_attachment u part_ct part_cd of
           None \<Rightarrow> None
         | Some is_attachment \<Rightarrow>
             if contains_sub part_ct_lower ''multipart/'' then
               (case extract_multipart_body_and_attachments b u part_body part_ct of
                  None \<Rightarrow> None
                | Some nested \<Rightarrow> multipart_loop b u parts (add_nested st nested))
             else if is_attachment then
               (case part_attachment b u part_ct part_cte part_cd part_body of
                  None \<Rightarrow> None
                | Some a \<Rightarrow> multipart_loop b u parts (fst st, fst (snd st), snd (snd st) @ [a]))
             else multipart_loop b u parts (add_text b part_ct_lower part_cte part_body st))"
  by pat_completeness auto
termination
  by (relation "measure (\<lambda>x. case x of Inl (b, u, body, ct) \<Rightarrow> length body + 2 | Inr (b, u, ps, st) \<Rightarrow> parts_size ps)")
    (use split_mime_parts_size split_headers_body_len in \<open>auto simp: less_Suc_eq_le trans_le_add1\<close>)

declare extract_multipart_body_and_attachments.simps [simp del]

record parsed_message =
  pm_from_address :: string
  pm_from_name :: string
  pm_to :: "(string \<times> string) list"
  pm_cc :: "(string \<times> string) list"
  pm_bcc :: "(string \<times> string) list"
  pm_reply_to :: "(string \<times> string) list"
  pm_subject :: string
  pm_body_html :: string
  pm_body_text :: "string option"
  pm_is_plaintext :: bool
  pm_message_id :: "string option"
  pm_in_reply_to :: "string option"
  pm_attachments :: "attachment list"

definition reply_parent :: "headers \<Rightarrow> string option" where
  "reply_parent headers = (case Option.bind (get_header headers ''in-reply-to'') first_msg_id of
     Some i \<Rightarrow> Some i | None \<Rightarrow> Option.bind (get_header headers ''references'') last_msg_id)"

definition message_content ::
    "base64 \<Rightarrow> unicode \<Rightarrow> string \<Rightarrow> string \<Rightarrow> string \<Rightarrow> (string \<times> attachment list \<times> string option) option" where
  "message_content b u body content_type cte =
     (let ct_lower = to_lowercase u content_type in
      if contains_sub ct_lower ''multipart/'' then extract_multipart_body_and_attachments b u body content_type
      else (let decoded = decode_transfer b body cte
            in Some (wrap_plain_as_html decoded ct_lower, [],
                 if ct_lower = [] \<or> contains_sub ct_lower ''text/plain'' then Some decoded else None)))"

definition parse_rfc2822 :: "base64 \<Rightarrow> unicode \<Rightarrow> string \<Rightarrow> parsed_message option" where
  "parse_rfc2822 b u raw =
     (let headers = parse_headers u (fst (split_headers_body raw));
          sender = parse_address_single b u (header_or_empty headers ''from'');
          ah = address_headers_of b u headers
      in case message_content b u (snd (split_headers_body raw)) (header_or_empty headers ''content-type'')
                (to_lowercase u (header_or_empty headers ''content-transfer-encoding'')) of
           None \<Rightarrow> None
         | Some (html, atts, plain) \<Rightarrow> Some
             \<lparr>pm_from_address = snd sender, pm_from_name = fst sender,
              pm_to = ah_to ah, pm_cc = ah_cc ah, pm_bcc = ah_bcc ah, pm_reply_to = ah_reply_to ah,
              pm_subject = (case get_header headers ''subject'' of Some s \<Rightarrow> decode_header_value b u s | None \<Rightarrow> []),
              pm_body_html = html, pm_body_text = plain, pm_is_plaintext = (plain \<noteq> None),
              pm_message_id = Option.bind (get_header headers ''message-id'') first_msg_id,
              pm_in_reply_to = reply_parent headers, pm_attachments = atts\<rparr>)"

section \<open>ASCII submissions never panic\<close>

lemma is_ascii_append [simp]: "is_ascii (a @ b) \<longleftrightarrow> is_ascii a \<and> is_ascii b"
  by (simp add: is_ascii_def)

lemma is_ascii_Cons [simp]: "is_ascii (c # s) \<longleftrightarrow> byte_of c < 128 \<and> is_ascii s"
  by (simp add: is_ascii_def)

lemma is_ascii_Nil [simp]: "is_ascii []"
  by (simp add: is_ascii_def)

lemma is_ascii_mono: "set t \<subseteq> set s \<Longrightarrow> is_ascii s \<Longrightarrow> is_ascii t"
  by (auto simp: is_ascii_def list_all_iff)

lemma is_ascii_take_drop [simp]: "is_ascii s \<Longrightarrow> is_ascii (take n s)" "is_ascii s \<Longrightarrow> is_ascii (drop n s)"
  by (blast intro: is_ascii_mono [OF set_take_subset] is_ascii_mono [OF set_drop_subset])+

lemma trim_start_suffix: "suffix (trim_start s) s"
proof (induction s rule: trim_start.induct)
  case (1 s)
  then show ?case by (subst trim_start.simps) (auto intro: suffix_order.order_trans suffix_drop)
qed

lemma trim_start_rev_suffix: "suffix (trim_start_rev s) s"
proof (induction s rule: trim_start_rev.induct)
  case (1 s)
  then show ?case by (subst trim_start_rev.simps) (auto intro: suffix_order.order_trans suffix_drop)
qed

lemma set_trim: "set (trim s) \<subseteq> set s"
proof -
  have "set (trim_start_rev (rev (trim_start s))) \<subseteq> set (rev (trim_start s))" by (intro set_mono_suffix trim_start_rev_suffix)
  also have "\<dots> \<subseteq> set s" using set_mono_suffix [OF trim_start_suffix [of s]] by simp
  finally show ?thesis by (simp add: trim_def trim_end_def)
qed

lemma is_ascii_trim [simp]: "is_ascii s \<Longrightarrow> is_ascii (trim s)"
  by (rule is_ascii_mono [OF set_trim])

lemma is_ascii_split_once: "split_once d s = Some (x, y) \<Longrightarrow> is_ascii s \<Longrightarrow> is_ascii x \<and> is_ascii y"
  by (auto dest: split_once_Some)

lemma is_ascii_lines: "is_ascii s \<Longrightarrow> l \<in> set (str_lines s) \<Longrightarrow> is_ascii l"
proof -
  assume a: "is_ascii s" and "l \<in> set (str_lines s)"
  then obtain k where k: "k \<in> set (split_inclusive_nl s)" "l = strip_line k" by (auto simp: str_lines_def)
  have "concat (split_inclusive_nl s) = s" by (induction s) (auto split: list.splits)
  then have "set k \<subseteq> set s" using k(1) by (metis UN_upper set_concat)
  moreover have "set (strip_line k) \<subseteq> set k"
    by (auto simp: strip_line_def strip_suffix_def dest: in_set_takeD split: option.splits if_splits)
  ultimately show ?thesis using is_ascii_mono [OF _ a] k(2) by blast
qed

definition ascii_values :: "headers \<Rightarrow> bool" where
  "ascii_values hs = list_all (\<lambda>(n, v). is_ascii v) hs"

lemma header_step_ascii:
  assumes "is_ascii line" "ascii_values (fst st)" "is_ascii (snd (snd st))"
  shows "ascii_values (fst (header_step u line st)) \<and> is_ascii (snd (snd (header_step u line st)))"
  using assms is_ascii_split_once [of "CHR '':''" line]
  by (auto simp: header_step_def push_header_def ascii_values_def split: prod.split option.split)

lemma parse_headers_ascii: "is_ascii s \<Longrightarrow> ascii_values (parse_headers u s)"
proof -
  assume a: "is_ascii s"
  have "ascii_values (fst (fold (header_step u) ls st)) \<and> is_ascii (snd (snd (fold (header_step u) ls st)))"
    if "\<forall>l \<in> set ls. is_ascii l" "ascii_values (fst st)" "is_ascii (snd (snd st))" for ls st
    using that
  proof (induction ls arbitrary: st)
    case (Cons l ls)
    then show ?case using header_step_ascii [of l st u] by simp
  qed simp
  from this [of "str_lines s" "([], [], [])"] show ?thesis using is_ascii_lines [OF a]
    by (auto simp: parse_headers_def push_header_def ascii_values_def split: prod.split)
qed

lemma header_or_empty_ascii: "ascii_values hs \<Longrightarrow> is_ascii (header_or_empty hs n)"
  by (auto simp: header_or_empty_def get_header_def ascii_values_def list_all_iff dest: map_of_SomeD split: option.split)

lemma split_headers_body_ascii: "is_ascii raw \<Longrightarrow> is_ascii (fst (split_headers_body raw)) \<and> is_ascii (snd (split_headers_body raw))"
  by (auto simp: split_headers_body_def header_section_def strip_prefix_def Let_def split: option.splits if_splits)

lemma find_sub_bound: "find_sub p s = Some i \<Longrightarrow> i + length p \<le> length s"
proof (induction s arbitrary: i)
  case (Cons c s)
  then show ?case by (auto split: if_splits option.splits dest: starts_with_len)
qed (auto split: if_splits)

lemma ascii_boundary: "is_ascii s \<Longrightarrow> i \<le> length s \<Longrightarrow> char_boundary s i"
  by (auto simp: char_boundary_def is_ascii_def list_all_length cont_byte_def not_le)

lemma lower_len_ascii: "is_ascii s \<Longrightarrow> length (to_lowercase u s) = length s"
  by (simp add: to_lowercase_def to_ascii_lowercase_def)

lemma extract_param_ascii: "is_ascii h \<Longrightarrow> \<exists>v. extract_param u h k = Some v"
  by (auto simp: extract_param_def Let_def lower_len_ascii dest!: find_sub_bound intro: ascii_boundary split: option.split)

lemma extract_boundary_ascii: "is_ascii h \<Longrightarrow> \<exists>v. extract_boundary u h = Some v"
  by (auto simp: extract_boundary_def lower_len_ascii dest!: find_sub_bound intro: ascii_boundary split: option.split)

lemma finish_part_set: "set (finish_part s) \<subseteq> set s"
proof -
  have "set (trim_start_crlf s) \<subseteq> set s" by (induction s rule: trim_start_crlf.induct) auto
  then show ?thesis by (auto simp: finish_part_def dest: set_dropWhileD)
qed

lemma mime_loop_ascii:
  "\<forall>l \<in> set ls. is_ascii l \<Longrightarrow> is_ascii cur \<Longrightarrow> \<forall>p \<in> set (mime_loop bd ip cur ls). is_ascii p"
proof (induction bd ip cur ls rule: mime_loop.induct)
  case (2 bd ip cur line ls)
  have f: "is_ascii (finish_part cur)" using is_ascii_mono [OF finish_part_set "2.prems"(2)] .
  have "is_ascii line" "\<forall>l \<in> set ls. is_ascii l" "is_ascii (cur @ line @ [LF])" using "2.prems" by (simp_all add: LF_def)
  then show ?case using f "2.IH" "2.prems"(2) by (simp only: mime_loop.simps split: if_split) simp
qed simp

lemma split_mime_parts_ascii: "is_ascii body \<Longrightarrow> p \<in> set (split_mime_parts body bd) \<Longrightarrow> is_ascii p"
  unfolding split_mime_parts_def using mime_loop_ascii [OF ballI is_ascii_Nil] is_ascii_lines by blast

lemma part_is_attachment_ascii: "is_ascii ct \<Longrightarrow> \<exists>a. part_is_attachment u ct cd = Some a"
  using extract_param_ascii [of ct u "''name''"] by (auto simp: part_is_attachment_def)

lemma part_attachment_ascii: "is_ascii ct \<Longrightarrow> is_ascii cd \<Longrightarrow> \<exists>a. part_attachment b u ct cte cd body = Some a"
  using extract_param_ascii [of ct u "''name''"] extract_param_ascii [of cd u "''filename''"]
  by (auto simp: part_attachment_def attachment_filename_def split: option.split)

lemma multipart_ascii:
  shows "is_ascii body \<Longrightarrow> is_ascii ct \<Longrightarrow> \<exists>r. extract_multipart_body_and_attachments b u body ct = Some r"
    and "\<forall>p \<in> set parts. is_ascii p \<Longrightarrow> \<exists>r. multipart_loop b u parts st = Some r"
proof (induction b u body ct and b u parts st rule: extract_multipart_body_and_attachments_multipart_loop.induct)
  case (1 b u body ct)
  obtain x where x: "extract_boundary u ct = Some x" using extract_boundary_ascii 1(3) by blast
  show ?case
  proof (cases x)
    case (Some bd)
    then obtain r where "multipart_loop b u (split_mime_parts body bd) (None, None, []) = Some r"
      using 1 x split_mime_parts_ascii [OF "1.prems"(1)] by blast
    then show ?thesis using x Some by (simp add: extract_multipart_body_and_attachments.simps del: split_paired_Ex)
  qed (simp add: x extract_multipart_body_and_attachments.simps)
next
  case (3 b u part parts st)
  let ?hs = "parse_headers u (fst (split_headers_body part))"
  have a: "is_ascii (snd (split_headers_body part))" "ascii_values ?hs"
    using 3 split_headers_body_ascii [of part] by (auto intro: parse_headers_ascii)
  note h = header_or_empty_ascii [OF a(2)]
  let ?ct = "header_or_empty ?hs ''content-type''" and ?cd = "header_or_empty ?hs ''content-disposition''"
  let ?cte = "to_lowercase u (header_or_empty ?hs ''content-transfer-encoding'')"
  obtain x where x: "part_is_attachment u ?ct ?cd = Some x"
    using part_is_attachment_ascii [OF h] by blast
  obtain y where y: "part_attachment b u ?ct ?cte ?cd (snd (split_headers_body part)) = Some y"
    using part_attachment_ascii [OF h h] by blast
  have p: "\<forall>p \<in> set parts. is_ascii p" using "3.prems" by simp
  note ih = "3.IH" [OF refl refl refl refl refl refl x]
  show ?case
  proof (cases "contains_sub (to_lowercase u ?ct) ''multipart/''")
    case True
    obtain z where "extract_multipart_body_and_attachments b u (snd (split_headers_body part)) ?ct = Some z"
      using ih(1) [OF True a(1) h] by blast
    then show ?thesis using ih(2) [OF True _ p] x True by (simp add: Let_def)
  next
    case False
    then show ?thesis using ih(3) [OF False _ y p] ih(4) [OF False _ p] x y by (simp add: Let_def)
  qed
qed (simp del: split_paired_Ex)

lemma parse_ascii_total:
  assumes "is_ascii raw"
  shows "\<exists>m. parse_rfc2822 b u raw = Some m"
proof -
  let ?hs = "parse_headers u (fst (split_headers_body raw))"
  have a: "is_ascii (snd (split_headers_body raw))" "ascii_values ?hs"
    using split_headers_body_ascii [OF assms] parse_headers_ascii by blast+
  obtain r where "message_content b u (snd (split_headers_body raw)) (header_or_empty ?hs ''content-type'')
       (to_lowercase u (header_or_empty ?hs ''content-transfer-encoding'')) = Some r"
    using multipart_ascii(1) [OF a(1) header_or_empty_ascii [OF a(2)], of b u "''content-type''"]
    by (cases "contains_sub (to_lowercase u (header_or_empty ?hs ''content-type'')) ''multipart/''")
      (auto simp: message_content_def Let_def)
  then show ?thesis by (cases r) (simp add: parse_rfc2822_def Let_def)
qed

text \<open>
  C28: Parsing a submission never panics when the submission is ASCII: although every parameter is located
  in a lower-cased copy of its header and sliced out of the original, \<open>parse_rfc2822\<close> returns a message,
  at every nesting depth of multipart bodies.
\<close>

theorem parse_rfc2822_total_ascii:
  assumes "is_ascii raw"
  shows "\<exists>m. parse_rfc2822 b u raw = Some m"
  using assms by (rule parse_ascii_total)

definition sample_submission :: string where
  "sample_submission = ''From: A <a@x>'' @ [LF] @ ''Content-Type: multipart/mixed; boundary=q'' @ [LF, LF]
     @ ''--q'' @ [LF] @ ''Content-Type: text/plain'' @ [LF, LF] @ ''hi'' @ [LF]
     @ ''--q'' @ [LF] @ ''Content-Type: application/pdf; name=d.pdf'' @ [LF, LF] @ ''x'' @ [LF] @ ''--q--''"

theorem parse_rfc2822_total_ascii_witness:
  "\<exists>m. parse_rfc2822 rfc4648 ascii_unicode sample_submission = Some m"
proof -
  have "is_ascii sample_submission" by (simp add: sample_submission_def LF_def)
  then show ?thesis using parse_rfc2822_total_ascii by blast
qed

text \<open>
  Outside ASCII it can panic: U+0130 is two bytes and its lower-case form three, so the offset of
  \<open>boundary=\<close> found in the lower-cased header is one byte too far in the header itself, inside the
  two-byte character the boundary begins with.
\<close>

definition dotted_i_unicode :: unicode where
  "dotted_i_unicode = \<lparr>uni_upper = id,
     uni_lower = replace_sub [CHR 0xC4, CHR 0xB0] [CHR ''i'', CHR 0xCC, CHR 0x87], uni_alnum = (\<lambda>_. True)\<rparr>"

theorem parse_panics_non_ascii:
  "parse_rfc2822 rfc4648 dotted_i_unicode
     (''Content-Type: multipart/mixed; x='' @ [CHR 0xC4, CHR 0xB0] @ ''; boundary='' @ [CHR 0xC3, CHR 0xA9] @ [CHR 0x0A, CHR 0x0A]) = None"
  by code_simp

end
