(* ===== verification/BodyStructure.thy ===== *)
theory BodyStructure
  imports Parser
begin

text \<open>
  The IMAP \<open>BODYSTRUCTURE\<close> of a rendered message (\<open>crates/bridge/src/mail/bodystructure.rs\<close>): the
  parts of the message as a parenthesised expression, by recursion over nested containers. The
  boundary of a container is extracted by the parser, whose slice can panic (\<open>None\<close>).
\<close>

section \<open>Strings and parameters\<close>

definition bs_quoted :: "string \<Rightarrow> string" where
  "bs_quoted s = [DQUOTE] @ concat (map (\<lambda>c. if c = BACKSLASH \<or> c = DQUOTE then [BACKSLASH, c] else [c]) s) @ [DQUOTE]"

definition bs_unquote :: "string \<Rightarrow> string" where
  "bs_unquote s = (let trimmed = trim s in
     if starts_with [DQUOTE] trimmed \<and> trimmed \<noteq> [] \<and> last trimmed = DQUOTE \<and> 2 \<le> length trimmed
     then butlast (tl trimmed) else trimmed)"

definition count_lines :: "string \<Rightarrow> nat" where
  "count_lines body = length (filter (\<lambda>c. c = LF) body)"

definition parse_type_subtype :: "string \<Rightarrow> string \<times> string" where
  "parse_type_subtype content_type =
     (let head = trim (hd (split_on CHR '';'' content_type)) in
      case split_once CHR ''/'' head of Some (t, s) \<Rightarrow> (trim t, trim s) | None \<Rightarrow> (trim head, ''plain''))"

definition subtype_of :: "string \<Rightarrow> string option" where
  "subtype_of content_type =
     (let head = trim (hd (split_on CHR '';'' content_type)) in map_option (\<lambda>(_, s). trim s) (split_once CHR ''/'' head))"

text \<open>The \<open>key=value\<close> items after the first segment of a header value.\<close>

definition param_pair :: "string \<Rightarrow> (string \<times> string) option" where
  "param_pair raw = (case split_once CHR ''='' (trim raw) of None \<Rightarrow> None
     | Some (k, v) \<Rightarrow> let key = trim k; val = bs_unquote (trim v) in if key \<noteq> [] \<and> val \<noteq> [] then Some (key, val) else None)"

definition param_pairs :: "string \<Rightarrow> (string \<times> string) list" where
  "param_pairs h = List.map_filter param_pair (tl (split_on CHR '';'' h))"

definition show_params :: "unicode \<Rightarrow> (string \<times> string) list \<Rightarrow> string" where
  "show_params u pairs = (if pairs = [] then ''NIL''
     else ''('' @ join '' '' (map (\<lambda>(k, v). bs_quoted (to_uppercase u k) @ '' '' @ bs_quoted v) pairs) @ '')'')"

definition build_params :: "unicode \<Rightarrow> string \<Rightarrow> string" where
  "build_params u content_type = show_params u (param_pairs content_type)"

definition build_disposition :: "unicode \<Rightarrow> headers \<Rightarrow> string option" where
  "build_disposition u hs = (case get_header hs ''content-disposition'' of None \<Rightarrow> None
     | Some cd \<Rightarrow> let head = trim (hd (split_on CHR '';'' cd)) in
         if head = [] then None
         else Some (''('' @ bs_quoted (to_uppercase u head) @ '' '' @ show_params u (param_pairs cd) @ '')''))"

section \<open>Parts\<close>

definition single_part_structure :: "unicode \<Rightarrow> string \<Rightarrow> string \<Rightarrow> string \<Rightarrow> headers \<Rightarrow> string" where
  "single_part_structure u content_type cte body hs =
     (case parse_type_subtype content_type of (t, s) \<Rightarrow>
        ''('' @ bs_quoted (to_uppercase u t) @ '' '' @ bs_quoted (to_uppercase u s) @ '' '' @ build_params u content_type
        @ '' NIL NIL '' @ bs_quoted (to_uppercase u cte) @ '' '' @ show_nat (length body)
        @ (if eq_ignore_ascii_case t ''text'' then '' '' @ show_nat (count_lines body) else [])
        @ (case build_disposition u hs of Some d \<Rightarrow> '' NIL '' @ d | None \<Rightarrow> []) @ '')'')"

definition no_boundary_structure :: "string \<Rightarrow> string" where
  "no_boundary_structure body = ''('' @ bs_quoted ''TEXT'' @ '' '' @ bs_quoted ''HTML'' @ '' ('' @ bs_quoted ''CHARSET'' @ '' ''
     @ bs_quoted ''UTF-8'' @ '') NIL NIL '' @ bs_quoted ''7BIT'' @ '' '' @ show_nat (length body) @ '' 0)''"

definition header_or :: "string \<Rightarrow> headers \<Rightarrow> string \<Rightarrow> string" where
  "header_or d hs name = (case get_header hs name of Some v \<Rightarrow> v | None \<Rightarrow> d)"

function bodystructure_for :: "unicode \<Rightarrow> string \<Rightarrow> string \<Rightarrow> string \<Rightarrow> headers \<Rightarrow> string option"
  and part_structures :: "unicode \<Rightarrow> string list \<Rightarrow> string option" where
  "bodystructure_for u content_type cte body hs =
     (if starts_with ''multipart/'' (to_lowercase u content_type) then
        (case extract_boundary u content_type of
           None \<Rightarrow> None
         | Some None \<Rightarrow> Some (no_boundary_structure body)
         | Some (Some boundary) \<Rightarrow>
             let subtype = (case subtype_of content_type of Some s \<Rightarrow> s | None \<Rightarrow> ''mixed'')
             in map_option (\<lambda>out. ''('' @ out @ '' '' @ bs_quoted (to_uppercase u subtype) @ '' (''
                    @ bs_quoted ''BOUNDARY'' @ '' '' @ bs_quoted boundary @ ''))'')
                  (part_structures u (split_mime_parts body boundary)))
      else Some (single_part_structure u content_type cte body hs))"
| "part_structures u [] = Some []"
| "part_structures u (part # parts) =
     (let hs = parse_headers u (fst (split_headers_body part)) in
      case bodystructure_for u (header_or ''text/plain'' hs ''content-type'') (header_or ''7bit'' hs ''content-transfer-encoding'')
             (snd (split_headers_body part)) hs of
        None \<Rightarrow> None
      | Some x \<Rightarrow> map_option (\<lambda>out. x @ out) (part_structures u parts))"
  by pat_completeness auto
termination
  by (relation "measure (\<lambda>x. case x of Inl (u, ct, cte, body, hs) \<Rightarrow> length body + 2 | Inr (u, ps) \<Rightarrow> parts_size ps)")
    (use split_mime_parts_size split_headers_body_len in \<open>auto simp: less_Suc_eq_le trans_le_add1\<close>)

declare bodystructure_for.simps [simp del]

definition compute_bodystructure :: "unicode \<Rightarrow> string \<Rightarrow> string option" where
  "compute_bodystructure u rfc2822 =
     (let hs = parse_headers u (fst (split_headers_body rfc2822))
      in bodystructure_for u (header_or ''text/html; charset=UTF-8'' hs ''content-type'')
           (header_or ''7bit'' hs ''content-transfer-encoding'') (snd (split_headers_body rfc2822)) hs)"

section \<open>Well-formed expressions\<close>

text \<open>
  The reader of an IMAP response: parentheses count outside quoted strings, a backslash escapes the
  next character inside them. \<open>None\<close> is a reply that closes what it did not open or ends inside a
  string.
\<close>

fun scan :: "nat \<Rightarrow> bool \<Rightarrow> string \<Rightarrow> nat option" where
  "scan d q [] = (if q then None else Some d)"
| "scan d q (c # s) =
     (if q then (if c = BACKSLASH then (case s of [] \<Rightarrow> None | _ # t \<Rightarrow> scan d q t) else scan d (c \<noteq> DQUOTE) s)
      else if c = DQUOTE then scan d True s
      else if c = CHR ''('' then scan (d + 1) False s
      else if c = CHR '')'' then (case d of 0 \<Rightarrow> None | Suc e \<Rightarrow> scan e False s)
      else scan d False s)"

definition balanced :: "string \<Rightarrow> bool" where
  "balanced w = (\<forall>d s. scan d False (w @ s) = scan d False s)"

lemma balanced_simps [simp]:
  "balanced []" "balanced a \<Longrightarrow> balanced b \<Longrightarrow> balanced (a @ b)"
  "balanced a \<Longrightarrow> balanced (''('' @ a @ '')'')"
  "c \<noteq> DQUOTE \<Longrightarrow> c \<noteq> CHR ''('' \<Longrightarrow> c \<noteq> CHR '')'' \<Longrightarrow> balanced s \<Longrightarrow> balanced (c # s)"
  by (simp_all add: balanced_def)

lemma balanced_quoted [simp]: "balanced (bs_quoted x)"
proof -
  let ?e = "\<lambda>s. concat (map (\<lambda>c. if c = BACKSLASH \<or> c = DQUOTE then [BACKSLASH, c] else [c]) s)"
  have "scan d True (?e x @ DQUOTE # s) = scan d False s" for d s by (induction x) auto
  then show ?thesis by (simp add: balanced_def bs_quoted_def)
qed

lemma balanced_show_nat [simp]: "balanced (show_nat n)"
proof -
  have "balanced s" if "list_all is_digit s" for s using that
  proof (induction s)
    case (Cons c s)
    then have "c \<noteq> DQUOTE" "c \<noteq> CHR ''(''" "c \<noteq> CHR '')''" by (auto simp: is_digit_def)
    then show ?case using Cons by simp
  qed simp
  then show ?thesis using show_nat_digits by blast
qed

lemma balanced_join: "(\<And>x. x \<in> set xs \<Longrightarrow> balanced x) \<Longrightarrow> balanced sep \<Longrightarrow> balanced (join sep xs)"
  by (induction sep xs rule: join.induct) auto

lemma scan_balanced: "balanced w \<Longrightarrow> scan d False (w @ s) = scan d False s"
  by (simp add: balanced_def)

lemmas scan_parts [simp] = scan_balanced [OF balanced_quoted] scan_balanced [OF balanced_show_nat]

lemma balanced_params [simp]: "balanced (show_params u pairs)"
proof -
  have "balanced (join '' '' (map (\<lambda>(k, v). bs_quoted (to_uppercase u k) @ '' '' @ bs_quoted v) pairs))"
    by (rule balanced_join) (auto simp: balanced_def)
  then show ?thesis by (simp add: show_params_def balanced_def)
qed

lemmas scan_params [simp] = scan_balanced [OF balanced_params]

lemma balanced_disposition: "build_disposition u hs = Some d \<Longrightarrow> balanced d"
  by (auto simp: build_disposition_def Let_def balanced_def split: option.splits if_splits)

lemma balanced_single [simp]: "balanced (single_part_structure u ct cte body hs)"
  using scan_balanced [OF balanced_disposition [of u hs]]
  by (auto simp: single_part_structure_def build_params_def balanced_def split: prod.split option.split)

lemma balanced_no_boundary [simp]: "balanced (no_boundary_structure body)"
  by (simp add: no_boundary_structure_def balanced_def)

lemmas scan_no_boundary [simp] = scan_balanced [OF balanced_no_boundary]

lemma balanced_structure:
  shows "bodystructure_for u ct cte body hs = Some x \<Longrightarrow> balanced x"
    and "part_structures u parts = Some y \<Longrightarrow> balanced y"
proof (induction u ct cte body hs and u parts arbitrary: x and y rule: bodystructure_for_part_structures.induct)
  case (1 u ct cte body hs)
  show ?case
  proof (cases "starts_with ''multipart/'' (to_lowercase u ct)")
    case True
    then show ?thesis using 1 scan_balanced
      by (subst (asm) (1) bodystructure_for.simps) (auto simp: balanced_def Let_def bodystructure_for.simps split: option.splits)
  next
    case False
    then show ?thesis using 1 by (auto simp: bodystructure_for.simps)
  qed
next
  case (3 u part parts)
  then show ?case by (auto simp: Let_def split: option.splits)
qed simp

lemma structure_ascii:
  shows "is_ascii ct \<Longrightarrow> is_ascii body \<Longrightarrow> \<exists>x. bodystructure_for u ct cte body hs = Some x"
    and "\<forall>p \<in> set parts. is_ascii p \<Longrightarrow> \<exists>y. part_structures u parts = Some y"
proof (induction u ct cte body hs and u parts rule: bodystructure_for_part_structures.induct)
  case (1 u ct cte body hs)
  obtain v where v: "extract_boundary u ct = Some v" using extract_boundary_ascii 1 by blast
  show ?case
  proof (cases v)
    case (Some bd)
    then show ?thesis
      using 1 v split_mime_parts_ascii [OF "1.prems"(2)] by (auto simp: bodystructure_for.simps [of u ct] Let_def)
  qed (simp add: bodystructure_for.simps v)
next
  case (3 u part parts)
  let ?hs = "parse_headers u (fst (split_headers_body part))"
  have a: "is_ascii (snd (split_headers_body part))" "ascii_values ?hs"
    using 3 split_headers_body_ascii [of part] by (auto intro: parse_headers_ascii)
  have "is_ascii (header_or ''text/plain'' ?hs ''content-type'')"
    using header_or_empty_ascii [OF a(2), of "''content-type''"]
    by (auto simp: header_or_def header_or_empty_def split: option.splits)
  then obtain x where "bodystructure_for u (header_or ''text/plain'' ?hs ''content-type'') (header_or ''7bit'' ?hs ''content-transfer-encoding'')
      (snd (split_headers_body part)) ?hs = Some x" using 3 a(1) by blast
  moreover obtain y where "part_structures u parts = Some y" using "3.IH"(2) [OF refl calculation] "3.prems" by auto
  ultimately show ?case by (simp add: Let_def)
qed simp



end
