(* ===== verification/MessageRoundtrip.thy ===== *)
theory MessageRoundtrip
  imports Parser
begin

text \<open>
  What the parser reads back from a message the bridge renders: the address lists, the headers and the
  body. A body that is reloaded from disk is a rendered message, and the addresses of the IMAP
  envelope are parsed out of it, so the two modules have to agree on quoting, encoded words and lists.
\<close>

section \<open>Trimming\<close>

definition edge_ok :: "char \<Rightarrow> bool" where
  "edge_ok c = (byte_of c < 128 \<and> \<not> ascii_ws c)"

lemma ws_len_edge: "edge_ok c \<Longrightarrow> ws_len (c # s) = 0 \<and> ws_len_rev (c # s) = 0"
proof -
  assume a: "edge_ok c"
  have "\<not> ws2 (byte_of c) m" "\<not> ws2 m (byte_of c)" "\<not> ws3 (byte_of c) m k" "\<not> ws3 k m (byte_of c)" for m k
    using a by (auto simp: edge_ok_def ws2_def ws3_def)
  then show ?thesis using a by (simp add: ws_len_def ws_len_rev_def edge_ok_def split: list.split)
qed

lemma trim_start_edge [simp]: "edge_ok c \<Longrightarrow> trim_start (c # s) = c # s"
  by (subst trim_start.simps) (simp add: ws_len_edge)

lemma trim_start_rev_edge [simp]: "edge_ok c \<Longrightarrow> trim_start_rev (c # s) = c # s"
  by (subst trim_start_rev.simps) (simp add: ws_len_edge)

lemma trim_start_space [simp]: "trim_start (CHR '' '' # s) = trim_start s"
  by (subst trim_start.simps) (simp add: ws_len_def ascii_ws_def)

lemma trim_start_rev_space [simp]: "trim_start_rev (CHR '' '' # s) = trim_start_rev s"
  by (subst trim_start_rev.simps) (simp add: ws_len_rev_def ascii_ws_def)

lemma trim_Nil [simp]: "trim_start [] = []" "trim_start_rev [] = []" "trim [] = []"
  by (simp_all add: trim_def trim_end_def trim_start.simps [of "[]"] trim_start_rev.simps [of "[]"])

lemma trim_space [simp]: "trim (CHR '' '' # s) = trim s"
  by (simp add: trim_def)

definition edges_ok :: "string \<Rightarrow> bool" where
  "edges_ok s = (s \<noteq> [] \<and> edge_ok (hd s) \<and> edge_ok (last s))"

lemma edges_trim: "edges_ok s \<Longrightarrow> trim s = s \<and> trim (s @ '' '') = s"
proof -
  assume a: "edges_ok s"
  then obtain c t where c: "s = c # t" "edge_ok c" by (cases s) (auto simp: edges_ok_def)
  obtain d r where d: "rev s = d # r" "edge_ok d" using a by (cases s rule: rev_cases) (auto simp: edges_ok_def)
  have "trim_start (s @ z) = s @ z" for z using c by simp
  then show ?thesis using d by (simp add: trim_def trim_end_def rev_swap)
qed

lemma trim_edges: "trim s = s \<Longrightarrow> s \<noteq> [] \<Longrightarrow> is_ascii s \<Longrightarrow> edges_ok s"
proof -
  assume a: "trim s = s" "s \<noteq> []" "is_ascii s"
  have len: "length (trim_start s) = length s"
    using a(1) suffix_length_le [OF trim_start_suffix [of s]] suffix_length_le [OF trim_start_rev_suffix [of "rev (trim_start s)"]]
    by (metis length_rev le_antisym trim_def trim_end_def)
  then have ts: "trim_start s = s" using trim_start_suffix [of s] by (metis suffix_def append_eq_conv_conj length_append add_cancel_left_left length_0_conv append_Nil)
  have e: "edge_ok c" if "c \<in> set s" "\<not> ascii_ws c" for c
    using that a(3) by (auto simp: edge_ok_def is_ascii_def list_all_iff)
  have "\<not> ascii_ws (hd s)"
  proof
    assume w: "ascii_ws (hd s)"
    then obtain c t where c: "s = c # t" "ascii_ws c" using a(2) by (cases s) auto
    have "trim_start s = trim_start t" using c by (subst trim_start.simps) (simp add: ws_len_def)
    then show False using ts c suffix_length_le [OF trim_start_suffix [of t]] by simp
  qed
  moreover have "\<not> ascii_ws (last s)"
  proof
    assume w: "ascii_ws (last s)"
    obtain t c where c: "s = t @ [c]" "ascii_ws c" using a(2) w by (cases s rule: rev_cases) auto
    have "trim_start_rev (rev s) = trim_start_rev (rev t)" using c by (subst trim_start_rev.simps) (simp add: ws_len_rev_def)
    moreover have "length (trim s) = length (trim_start_rev (rev s))" by (simp add: trim_def trim_end_def ts)
    ultimately show False using a(1) c(1) suffix_length_le [OF trim_start_rev_suffix [of "rev t"]] by simp
  qed
  ultimately show ?thesis using a(2) e by (simp add: edges_ok_def)
qed

section \<open>Address lists\<close>

definition plain_char :: "char \<Rightarrow> bool" where
  "plain_char c = (c \<noteq> DQUOTE \<and> c \<notin> set ''<>,'')"

lemma loop_plain:
  "list_all plain_char w \<Longrightarrow> address_loop b u d False cur (w @ s) = address_loop b u d False (cur @ w) s"
  by (induction w arbitrary: cur) (auto simp: plain_char_def)

definition escape_quoted :: "string \<Rightarrow> string" where
  "escape_quoted n = replace_char DQUOTE [BACKSLASH, DQUOTE] (replace_char BACKSLASH [BACKSLASH, BACKSLASH] n)"

lemma escape_quoted_simps [simp]:
  "escape_quoted [] = []"
  "escape_quoted (c # n) = (if c = DQUOTE \<or> c = BACKSLASH then [BACKSLASH, c] else [c]) @ escape_quoted n"
  by (auto simp: escape_quoted_def replace_char_def)

lemma loop_quoted:
  "address_loop b u d True cur (escape_quoted n @ DQUOTE # s) = address_loop b u d False (cur @ escape_quoted n @ [DQUOTE]) s"
  by (induction n arbitrary: cur) auto

lemma unescape_escape: "unescape (escape_quoted n) = n"
  by (induction n) auto

text \<open>
  The mailboxes a header can carry faithfully: a UTF-8 name, an ASCII address; a name of printable
  ASCII is written as it is, so it must have no blanks at its ends and nothing that reads as an
  encoded word.
\<close>

definition mailbox_ok :: "string \<times> string \<Rightarrow> bool" where
  "mailbox_ok na = (case na of (n, a) \<Rightarrow> utf8_valid n \<and> is_ascii a \<and> (n \<noteq> [] \<or> clean_address a \<noteq> [])
     \<and> (is_ascii n \<and> no_line_break n \<longrightarrow> trim n = n \<and> \<not> contains_sub n ''=?''))"

lemma ascii_utf8: "is_ascii s \<Longrightarrow> utf8_valid s"
  by (induction s) auto

lemma mailbox_utf8: "mailbox_ok (n, a) \<Longrightarrow> utf8_valid a"
  by (simp add: mailbox_ok_def ascii_utf8)

lemma clean_address_edges: "is_ascii a \<Longrightarrow> clean_address a \<noteq> [] \<Longrightarrow> edges_ok (clean_address a)"
proof -
  assume a: "is_ascii a" "clean_address a \<noteq> []"
  have "edge_ok c" if c: "c \<in> set (clean_address a)" for c
  proof -
    have "set (clean_address a) \<subseteq> set (concat (chars_of a))" by (auto simp: clean_address_def)
    then have "byte_of c < 128" using a(1) c by (auto simp: concat_chars_of is_ascii_def list_all_iff simp del: set_concat)
    then show ?thesis using clean_address_chars [OF ascii_utf8 [OF a(1)] c] by (simp add: edge_ok_def)
  qed
  then show ?thesis using a(2) by (simp add: edges_ok_def)
qed

lemma clean_address_trim: "is_ascii a \<Longrightarrow> trim (clean_address a) = clean_address a"
  using clean_address_edges edges_trim by (cases "clean_address a = []") auto

lemma clean_address_plain: "utf8_valid a \<Longrightarrow> list_all plain_char (clean_address a)"
  using clean_address_chars [of a] by (fastforce simp: list_all_iff plain_char_def)

lemma b64_plain: "b64_laws b \<Longrightarrow> list_all plain_char (b64_encode b s) \<and> CHR ''?'' \<notin> set (b64_encode b s)"
proof -
  assume "b64_laws b"
  then have "b64_char c" if "c \<in> set (b64_encode b s)" for c using that by (auto simp: b64_laws_def list_all_iff)
  moreover have "b64_char c \<Longrightarrow> plain_char c" for c
    by (auto simp: plain_char_def b64_char_def ascii_alnum_def Let_def)
  moreover have "\<not> b64_char (CHR ''?'')" by (simp add: b64_char_def ascii_alnum_def)
  ultimately show ?thesis by (auto simp: list_all_iff)
qed

text \<open>The three shapes of a display name: quoted, plain, and an encoded word.\<close>

definition display_name :: "base64 \<Rightarrow> string \<Rightarrow> string" where
  "display_name b n = (if needs_quoting n then [DQUOTE] @ escape_quoted n @ [DQUOTE] else encode_header_value b n)"

lemma format_display:
  "format_name_and_address b n a = (if n = [] then clean_address a else display_name b n @ '' <'' @ clean_address a @ ''>'')"
  by (simp add: format_name_and_address_def display_name_def escape_quoted_def Let_def)

lemma plain_display: "\<not> needs_quoting n \<Longrightarrow> b64_laws b \<Longrightarrow> list_all plain_char (encode_header_value b n)"
  using b64_plain [of b n]
  by (auto simp: encode_header_value_def needs_quoting_def is_rfc5322_special_def plain_char_def list_all_iff)

lemma loop_display:
  "b64_laws b \<Longrightarrow> address_loop b u d False cur (display_name b n @ s) = address_loop b u d False (cur @ display_name b n) s"
  using loop_plain [OF plain_display] loop_quoted [of b u d _ n s] by (simp add: display_name_def)

lemma loop_formatted:
  assumes "b64_laws b" "utf8_valid a"
  shows "address_loop b u 0 False cur (format_name_and_address b n a @ s) = address_loop b u 0 False (cur @ format_name_and_address b n a) s"
proof (cases "n = []")
  case True
  then show ?thesis using loop_plain [OF clean_address_plain [OF assms(2)]] by (simp add: format_display)
next
  case False
  have "address_loop b u 0 False cur (display_name b n @ '' <'' @ clean_address a @ ''>'' @ s)
      = address_loop b u 1 False (cur @ display_name b n @ '' <'') (clean_address a @ ''>'' @ s)"
    by (subst loop_display [OF assms(1)]) simp
  also have "\<dots> = address_loop b u 0 False (cur @ display_name b n @ '' <'' @ clean_address a @ ''>'') s"
    by (subst loop_plain [OF clean_address_plain [OF assms(2)]]) simp
  finally show ?thesis using False by (simp add: format_display)
qed

lemma trim_matches_none: "d \<notin> set s \<Longrightarrow> trim_matches d s = s"
  unfolding trim_matches_def by (metis dropWhile_eq_self_iff hd_in_set rev_rev_ident set_rev)

lemma unquote_plain: "DQUOTE \<notin> set s \<Longrightarrow> unquote s = s"
  by (cases s) (auto simp: unquote_def strip_prefix_def trim_matches_none)

lemma unquote_quoted: "unquote ([DQUOTE] @ escape_quoted n @ [DQUOTE]) = n"
  by (simp add: unquote_def strip_prefix_def strip_suffix_def unescape_escape)

lemma decode_words_Nil [simp]: "decode_words b u [] = []"
  by (simp add: decode_words.simps)

lemma splitn_word: "CHR ''?'' \<notin> set x \<Longrightarrow> splitn (Suc (Suc 0)) (CHR ''?'') (x @ ''?='') = [x, ''='']"
  using split_once_append [of "CHR ''?''" x "''=''"] by simp

lemma decode_encoded_word:
  assumes "b64_laws b" "utf8_valid n"
  shows "decode_header_value b u (''=?UTF-8?B?'' @ b64_encode b n @ ''?='') = n"
proof -
  let ?x = "b64_encode b n" and ?w = "''=?UTF-8?B?'' @ b64_encode b n @ ''?=''"
  have q: "CHR ''?'' \<notin> set ?x" using b64_plain [OF assms(1)] by blast
  have "edges_ok ?w" by (simp add: edges_ok_def edge_ok_def ascii_ws_def)
  then have t: "trim ?w = ?w" using edges_trim by blast
  have "decode_word b u (''UTF-8?B?'' @ ?x @ ''?='') = Some (n, length ?x + 10)"
    using assms splitn_word [OF q]
    by (simp add: decode_word_def numeral_eq_Suc b64_laws_def b64_inverse_def to_uppercase_def to_ascii_uppercase_def ascii_upper_char_def Let_def)
  then have "decode_words b u ?w = n"
    by (subst decode_words.simps) simp
  then show ?thesis using t by (simp add: decode_header_value_def contains_sub_def)
qed

lemma display_edges: "mailbox_ok (n, a) \<Longrightarrow> n \<noteq> [] \<Longrightarrow> edges_ok (display_name b n)"
  using trim_edges [of n]
  by (auto simp: mailbox_ok_def display_name_def encode_header_value_def needs_quoting_def no_line_break_def)
    (auto simp: edges_ok_def edge_ok_def ascii_ws_def)

lemma display_decodes:
  assumes "mailbox_ok (n, a)" "b64_laws b"
  shows "decode_header_value b u (unquote (display_name b n)) = n"
proof (cases "is_ascii n \<and> no_line_break n")
  case True
  then have n: "trim n = n" "\<not> contains_sub n ''=?''" using assms(1) by (auto simp: mailbox_ok_def)
  have "unquote (display_name b n) = n"
  proof (cases "needs_quoting n")
    case True
    then show ?thesis using unquote_quoted by (simp add: display_name_def)
  next
    case False
    then have "DQUOTE \<notin> set n" using True by (auto simp: needs_quoting_def no_line_break_def is_rfc5322_special_def)
    then show ?thesis using True False by (simp add: display_name_def encode_header_value_def no_line_break_def unquote_plain)
  qed
  then show ?thesis using n by (simp add: decode_header_value_def)
next
  case False
  then have d: "display_name b n = ''=?UTF-8?B?'' @ b64_encode b n @ ''?=''"
    by (auto simp: display_name_def needs_quoting_def encode_header_value_def no_line_break_def)
  have "DQUOTE \<notin> set (display_name b n)" using b64_plain [OF assms(2), of n] unfolding d by (auto simp: plain_char_def list_all_iff)
  then show ?thesis using decode_encoded_word [OF assms(2)] assms(1) d by (simp add: unquote_plain mailbox_ok_def)
qed

lemma format_edges: "mailbox_ok (n, a) \<Longrightarrow> edges_ok (format_name_and_address b n a)"
proof (cases "n = []")
  case True
  moreover assume "mailbox_ok (n, a)"
  ultimately show ?thesis by (simp add: format_display mailbox_ok_def clean_address_edges)
next
  case False
  moreover assume "mailbox_ok (n, a)"
  ultimately have "edges_ok (display_name b n)" using display_edges by blast
  then have "edges_ok (display_name b n @ '' <'' @ clean_address a @ ''>'')" by (simp add: edges_ok_def edge_ok_def ascii_ws_def)
  then show ?thesis using False by (simp add: format_display)
qed

lemma format_trim: "mailbox_ok (n, a) \<Longrightarrow> trim (format_name_and_address b n a) = format_name_and_address b n a
    \<and> format_name_and_address b n a \<noteq> []"
  using format_edges [of n a b] edges_trim by (auto simp: edges_ok_def)

lemma rsplit_once_append: "d \<notin> set y \<Longrightarrow> rsplit_once d (x @ d # y) = Some (x, y)"
  using split_once_append [of d "rev y" "rev x"] by (simp add: rsplit_once_def)

lemma rsplit_once_none: "d \<notin> set y \<Longrightarrow> rsplit_once d y = None"
  by (simp add: rsplit_once_def split_once_None)

lemma single_roundtrip:
  assumes "mailbox_ok (n, a)" "b64_laws b"
  shows "parse_address_single b u (format_name_and_address b n a) = (n, clean_address a)"
proof -
  have "list_all plain_char (clean_address a)" using mailbox_utf8 [OF assms(1)] clean_address_plain by blast
  then have c: "CHR ''<'' \<notin> set (clean_address a)" "CHR ''>'' \<notin> set (clean_address a)" by (auto simp: list_all_iff plain_char_def)
  have t: "trim (clean_address a) = clean_address a" using assms(1) clean_address_trim by (simp add: mailbox_ok_def)
  show ?thesis
  proof (cases "n = []")
    case True
    then show ?thesis using c t rsplit_once_none [OF c(1)] by (simp add: parse_address_single_def format_display)
  next
    case False
    have "rsplit_once (CHR ''<'') (format_name_and_address b n a) = Some (display_name b n @ '' '', clean_address a @ ''>'')"
      using rsplit_once_append [of "CHR ''<''" "clean_address a @ ''>''" "display_name b n @ '' ''"] c False by (simp add: format_display)
    moreover have "split_once (CHR ''>'') (clean_address a @ ''>'') = Some (clean_address a, [])"
      using split_once_append [OF c(2), of "[]"] by simp
    ultimately show ?thesis
      using format_trim [OF assms(1), of b] edges_trim [OF display_edges [OF assms(1) False, of b]] display_decodes [OF assms] t
      by (simp add: parse_address_single_def)
  qed
qed

lemma push_formatted:
  assumes "mailbox_ok (n, a)" "b64_laws b" "pre = [] \<or> pre = '' ''"
  shows "push_address b u (pre @ format_name_and_address b n a) = [(n, clean_address a)]"
  using format_trim [OF assms(1), of b] single_roundtrip [OF assms(1, 2), of u] assms(3) by (auto simp: push_address_def Let_def)

lemma join_edges: "list_all edges_ok xs \<Longrightarrow> xs \<noteq> [] \<Longrightarrow> edges_ok (join sep xs)"
  by (induction sep xs rule: join.induct) (auto simp: edges_ok_def)

lemma list_edges: "list_all mailbox_ok xs \<Longrightarrow> trim (join '', '' (map (\<lambda>(n, a). format_name_and_address b n a) xs))
    = join '', '' (map (\<lambda>(n, a). format_name_and_address b n a) xs)"
proof (cases "xs = []")
  case False
  assume "list_all mailbox_ok xs"
  then have "list_all edges_ok (map (\<lambda>(n, a). format_name_and_address b n a) xs)"
    using format_edges by (auto simp: list_all_iff)
  then show ?thesis using join_edges edges_trim False by blast
qed simp

lemma loop_roundtrip:
  assumes "list_all mailbox_ok xs" "b64_laws b" "pre = [] \<or> pre = '' ''" "xs \<noteq> []"
  shows "address_loop b u 0 False pre (join '', '' (map (\<lambda>(n, a). format_name_and_address b n a) xs))
    = map (\<lambda>(n, a). (n, clean_address a)) xs"
  using assms
proof (induction xs arbitrary: pre rule: induct_list012)
  case (2 x)
  obtain n a where x: "x = (n, a)" by (cases x)
  then have "mailbox_ok (n, a)" "utf8_valid a" using 2 mailbox_utf8 by auto
  then show ?case using 2 x loop_formatted [of b a u pre n "[]"] push_formatted [of n a b pre u] by simp
next
  case (3 x y zs)
  obtain n a where x: "x = (n, a)" by (cases x)
  then have ok: "mailbox_ok (n, a)" "utf8_valid a" using 3 mailbox_utf8 by auto
  let ?rest = "join '', '' (map (\<lambda>(n, a). format_name_and_address b n a) (y # zs))"
  have "address_loop b u 0 False pre (format_name_and_address b n a @ '', '' @ ?rest)
      = push_address b u (pre @ format_name_and_address b n a) @ address_loop b u 0 False '' '' ?rest"
    by (subst loop_formatted [OF assms(2) ok(2)]) simp
  then show ?case using 3 x push_formatted [OF ok(1) 3(4) 3(5), of u] by simp
qed simp

lemma address_list_parsed:
  assumes "list_all mailbox_ok xs" "b64_laws b"
  shows "parse_address_list b u (join '', '' (map (\<lambda>(n, a). format_name_and_address b n a) xs))
    = map (\<lambda>(n, a). (n, clean_address a)) xs"
  using loop_roundtrip [OF assms, of "[]" u] by (cases xs) (auto simp: parse_address_list_def push_address_def)

text \<open>
  Address lists round trip. The list of mailboxes parsed from a rendered address header is the
  list it was rendered from: names exactly (quoted, encoded or plain), addresses as cleaned by the
  renderer, in order, whatever commas, quotes, backslashes or brackets the names hold.
\<close>

theorem address_list_roundtrip:
  assumes "list_all mailbox_ok xs" "b64_laws b"
  shows "parse_address_list b u (join '', '' (map (\<lambda>(n, a). format_name_and_address b n a) xs))
    = map (\<lambda>(n, a). (n, clean_address a)) xs"
  by (rule address_list_parsed [OF assms])

theorem address_list_roundtrip_witness:
  "parse_address_list rfc4648 ascii_unicode (join '', '' (map (\<lambda>(n, a). format_name_and_address rfc4648 n a)
      [(''Doe, '' @ [DQUOTE] @ ''J>'', ''j@x''), ([], ''b@y''), ([CHR 0xC3, CHR 0xA9], ''c@z'')]))
   = [(''Doe, '' @ [DQUOTE] @ ''J>'', ''j@x''), ([], ''b@y''), ([CHR 0xC3, CHR 0xA9], ''c@z'')]"
proof -
  have "list_all mailbox_ok [(''Doe, '' @ [DQUOTE] @ ''J>'', ''j@x''), ([], ''b@y''), ([CHR 0xC3, CHR 0xA9], ''c@z'')]"
    by code_simp
  from address_list_roundtrip [OF this rfc4648_laws, of ascii_unicode]
  have "parse_address_list rfc4648 ascii_unicode (join '', '' (map (\<lambda>(n, a). format_name_and_address rfc4648 n a)
      [(''Doe, '' @ [DQUOTE] @ ''J>'', ''j@x''), ([], ''b@y''), ([CHR 0xC3, CHR 0xA9], ''c@z'')]))
    = map (\<lambda>(n, a). (n, clean_address a)) [(''Doe, '' @ [DQUOTE] @ ''J>'', ''j@x''), ([], ''b@y''), ([CHR 0xC3, CHR 0xA9], ''c@z'')]" .
  moreover have "map (\<lambda>(n, a). (n, clean_address a)) [(''Doe, '' @ [DQUOTE] @ ''J>'', ''j@x''), ([], ''b@y''), ([CHR 0xC3, CHR 0xA9], ''c@z'')]
     = [(''Doe, '' @ [DQUOTE] @ ''J>'', ''j@x''), ([], ''b@y''), ([CHR 0xC3, CHR 0xA9], ''c@z'')]" by code_simp
  ultimately show ?thesis by (rule trans)
qed

section \<open>Header sections\<close>

text \<open>The two line ends of a message: CRLF as rendered, LF inside a part the parser has split off.\<close>

definition line_end :: "string \<Rightarrow> bool" where
  "line_end e = (e = [CR, LF] \<or> e = [LF])"

definition lines_with :: "string \<Rightarrow> string list \<Rightarrow> string" where
  "lines_with e ls = concat (map (\<lambda>l. l @ e) ls)"

lemma lines_with_simps [simp]:
  "lines_with e [] = []" "lines_with e (l # ls) = l @ e @ lines_with e ls"
  "lines_with e (ls @ ks) = lines_with e ls @ lines_with e ks"
  by (simp_all add: lines_with_def)

lemma split_inclusive_line: "LF \<notin> set l \<Longrightarrow> split_inclusive_nl (l @ LF # s) = (l @ [LF]) # split_inclusive_nl s"
  by (induction l) auto

lemma split_inclusive_last: "LF \<notin> set l \<Longrightarrow> l \<noteq> [] \<Longrightarrow> split_inclusive_nl l = [l]"
proof (induction l)
  case (Cons c l)
  then show ?case by (cases l) auto
qed simp

lemma strip_line_end: "no_line_break l \<Longrightarrow> line_end e \<Longrightarrow> strip_line (l @ e) = l"
  by (cases l rule: rev_cases) (auto simp: strip_line_def strip_suffix_def line_end_def no_line_break_def)

lemma str_lines_line: "no_line_break l \<Longrightarrow> line_end e \<Longrightarrow> str_lines (l @ e @ s) = l # str_lines s"
  using split_inclusive_line [of l s] split_inclusive_line [of "l @ [CR]" s] strip_line_end [of l e]
  by (auto simp: line_end_def str_lines_def no_line_break_def)

lemma str_lines_last: "no_line_break l \<Longrightarrow> l \<noteq> [] \<Longrightarrow> str_lines l = [l]"
  using split_inclusive_last [of l]
  by (cases l rule: rev_cases) (auto simp: str_lines_def no_line_break_def strip_line_def strip_suffix_def)

lemma str_lines_with: "list_all no_line_break ls \<Longrightarrow> line_end e \<Longrightarrow> str_lines (lines_with e ls) = ls"
  by (induction ls) (simp_all add: str_lines_line str_lines_def [of "[]"])

lemma str_lines_join:
  assumes "list_all no_line_break ls" "line_end e" "[] \<notin> set ls" "ls \<noteq> []"
  shows "str_lines (join e ls) = ls"
  using assms(1, 3, 4) by (induction ls rule: induct_list012) (auto simp: str_lines_last str_lines_line assms(2))

lemma find_sub_skip: "p \<noteq> [] \<Longrightarrow> hd p \<notin> set l \<Longrightarrow> find_sub p (l @ s) = map_option (\<lambda>i. i + length l) (find_sub p s)"
  by (induction l) (auto simp: option.map_comp option.map_ident comp_def neq_Nil_conv)

lemma find_blank_line:
  assumes "list_all no_line_break ls" "[] \<notin> set ls" "line_end e" "ls \<noteq> []"
  shows "find_sub (e @ e) (lines_with e ls @ e @ rest) = Some (length (join e ls))"
  using assms(1, 2, 4)
proof (induction ls rule: induct_list012)
  case (2 l)
  then have "hd (e @ e) \<notin> set l" "e \<noteq> []" using assms(3) by (auto simp: line_end_def no_line_break_def)
  then show ?case using find_sub_skip [of "e @ e" l "e @ e @ rest"] assms(3) by (auto simp: line_end_def)
next
  case (3 l k ks)
  then have h: "hd (e @ e) \<notin> set l" "e \<noteq> []" using assms(3) by (auto simp: line_end_def no_line_break_def)
  obtain c t where k: "k = c # t" "c \<noteq> CR" "c \<noteq> LF" using 3 by (cases k) (auto simp: no_line_break_def)
  let ?s = "lines_with e (k # ks) @ e @ rest"
  have "find_sub (e @ e) (e @ ?s) = map_option (\<lambda>i. i + length e) (find_sub (e @ e) ?s)"
    using assms(3) k by (auto simp: line_end_def option.map_comp comp_def)
  then show ?case using 3 find_sub_skip [OF _ h(1), of "e @ ?s"] h(2) by (simp add: option.map_comp comp_def)
qed simp

lemma no_crlf_crlf: "CR \<notin> set s \<Longrightarrow> find_sub [CR, LF, CR, LF] s = None"
  using find_sub_skip [of "[CR, LF, CR, LF]" s "[]"] by simp

lemma lines_join: "ls \<noteq> [] \<Longrightarrow> lines_with e ls = join e ls @ e"
  by (induction ls rule: induct_list012) auto

text \<open>A message of header lines, a blank line and a body; with LF line ends nothing of it holds a CR.\<close>

lemma split_message:
  assumes "list_all no_line_break ls" "[] \<notin> set ls" "ls \<noteq> []" "e = [CR, LF] \<or> (e = [LF] \<and> CR \<notin> set rest)"
  shows "split_headers_body (lines_with e ls @ e @ rest) = (join e ls, rest)"
    and "header_section (lines_with e ls @ e @ rest) = join e ls"
proof -
  let ?raw = "lines_with e ls @ e @ rest"
  have e: "line_end e" using assms(4) by (auto simp: line_end_def)
  have raw: "?raw = join e ls @ e @ e @ rest" using lines_join [OF assms(3)] by simp
  have f: "find_sub (e @ e) ?raw = Some (length (join e ls))" by (rule find_blank_line [OF assms(1, 2) e assms(3)])
  have "CR \<notin> set ?raw" if "e = [LF]" "CR \<notin> set rest"
    using that assms(1) by (auto simp: lines_with_def list_all_iff no_line_break_def)
  then have "e = [LF] \<Longrightarrow> find_sub [CR, LF, CR, LF] ?raw = None" using assms(4) no_crlf_crlf by auto
  then show h: "header_section ?raw = join e ls"
    using f assms(4) raw by (auto simp: header_section_def)
  show "split_headers_body ?raw = (join e ls, rest)"
    unfolding split_headers_body_def Let_def h using raw assms(4) by (auto simp: strip_prefix_def)
qed

definition field_ok :: "string \<times> string \<Rightarrow> bool" where
  "field_ok f = (case f of (n, v) \<Rightarrow> edges_ok n \<and> is_ascii n \<and> CHR '':'' \<notin> set n \<and> no_line_break n \<and> no_line_break v)"

definition field_line :: "string \<times> string \<Rightarrow> string" where
  "field_line f = (case f of (n, v) \<Rightarrow> n @ '': '' @ v)"

definition parsed_field :: "string \<times> string \<Rightarrow> string \<times> string" where
  "parsed_field f = (case f of (n, v) \<Rightarrow> (to_ascii_lowercase n, trim v))"

lemma field_line_facts: "field_ok f \<Longrightarrow> no_line_break (field_line f) \<and> field_line f \<noteq> []"
  by (auto simp: field_ok_def field_line_def edges_ok_def no_line_break_def split: prod.splits) (simp_all add: CR_def LF_def)

lemma header_step_field:
  assumes "field_ok (n, v)"
  shows "header_step u (field_line (n, v)) (hs, n0, v0) = (push_header u hs n0 v0, n, CHR '' '' # v)"
proof -
  obtain c t where c: "n = c # t" "edge_ok c" using assms by (cases n) (auto simp: field_ok_def edges_ok_def)
  have "trim n = n" "CHR '':'' \<notin> set n" using assms edges_trim by (auto simp: field_ok_def)
  then show ?thesis
    using c split_once_append [of "CHR '':''" n "CHR '' '' # v"]
    by (simp add: header_step_def field_line_def edge_ok_def ascii_ws_def) (auto simp: edge_ok_def ascii_ws_def)
qed

lemma fold_fields:
  assumes "list_all field_ok fs" "n0 \<noteq> []" "is_ascii n0"
  shows "case fold (header_step u) (map field_line fs) (hs, n0, v0) of (hs', n, v) \<Rightarrow>
           push_header u hs' n v = hs @ (to_ascii_lowercase n0, trim v0) # map parsed_field fs"
  using assms
proof (induction fs arbitrary: hs n0 v0)
  case (Cons f fs)
  obtain n v where f: "f = (n, v)" "field_ok (n, v)" using Cons.prems by (cases f) auto
  then have "n \<noteq> []" "is_ascii n" by (auto simp: field_ok_def edges_ok_def)
  then show ?case using Cons.IH [of n "push_header u hs n0 v0" "CHR '' '' # v"] Cons.prems f header_step_field [OF f(2)]
    by (simp add: push_header_def parsed_field_def to_lowercase_def)
qed (simp add: push_header_def to_lowercase_def)

lemma parse_header_fields:
  assumes "list_all field_ok fs" "line_end e" "fs \<noteq> []"
  shows "parse_headers u (join e (map field_line fs)) = map parsed_field fs"
proof -
  have "list_all no_line_break (map field_line fs)" "[] \<notin> set (map field_line fs)"
    using assms(1) field_line_facts by (auto simp: list_all_iff) metis
  then have l: "str_lines (join e (map field_line fs)) = map field_line fs" using str_lines_join assms(2, 3) by simp
  obtain n v gs where f: "fs = (n, v) # gs" "field_ok (n, v)" using assms(1, 3) by (cases fs) auto
  then have "n \<noteq> []" "is_ascii n" by (auto simp: field_ok_def edges_ok_def)
  moreover obtain hs' n' v' where r: "fold (header_step u) (map field_line gs) ([], n, CHR '' '' # v) = (hs', n', v')"
    using prod_cases3 by blast
  ultimately have "push_header u hs' n' v' = map parsed_field fs"
    using fold_fields [of gs n u "[]" "CHR '' '' # v"] assms(1) f by (simp add: parsed_field_def)
  then show ?thesis
    unfolding parse_headers_def l using f(1) r header_step_field [OF f(2), of u "[]" "[]" "[]"]
    by (simp add: push_header_def [of u "[]" "[]"])
qed

section \<open>The headers of a rendered message\<close>

definition mailboxes :: "mail_address list \<Rightarrow> (string \<times> string) list" where
  "mailboxes as = map (\<lambda>a. (addr_name a, addr_address a)) as"

definition address_field :: "base64 \<Rightarrow> string \<Rightarrow> (string \<times> string) list \<Rightarrow> (string \<times> string) list" where
  "address_field b name xs = (if xs = [] then [] else [(name, join '', '' (map (\<lambda>(n, a). format_name_and_address b n a) xs))])"

definition id_field :: "mail \<Rightarrow> (string \<times> string) list" where
  "id_field m = (case mail_id m of Some i \<Rightarrow> [(''Message-ID'', ''<'' @ list_id i @ ''.'' @ element_id i @ ''@tutabridge.local>'')] | None \<Rightarrow> [])"

definition quoted_boundary :: "string \<Rightarrow> string \<Rightarrow> string" where
  "quoted_boundary kind bd = ''multipart/'' @ kind @ ''; boundary='' @ [DQUOTE] @ bd @ [DQUOTE]"

definition message_type :: "mail \<Rightarrow> attachment_part list \<Rightarrow> string" where
  "message_type m atts = (if atts = [] then quoted_boundary ''alternative'' (build_alt_boundary m) else quoted_boundary ''mixed'' (build_boundary m))"

definition message_fields :: "base64 \<Rightarrow> mail \<Rightarrow> mail_details \<Rightarrow> attachment_part list \<Rightarrow> (string \<times> string) list" where
  "message_fields b m d atts =
     [(''Date'', format_rfc2822_date (received_ms m)), (''From'', format_address b (sender m)), (''Subject'', encode_header_value b (subject m))]
     @ address_field b ''To'' (mailboxes (to_recipients d)) @ address_field b ''Cc'' (mailboxes (cc_recipients d))
     @ address_field b ''Reply-To'' (reply_to_addresses d) @ id_field m
     @ [(''MIME-Version'', ''1.0''), (''Content-Type'', message_type m atts)]"

definition alternative_body :: "base64 \<Rightarrow> string \<Rightarrow> string \<Rightarrow> string \<Rightarrow> string" where
  "alternative_body b boundary plain html =
     ''--'' @ boundary @ CRLF
     @ ''Content-Type: text/plain; charset=UTF-8'' @ CRLF @ ''Content-Transfer-Encoding: base64'' @ CRLF @ CRLF
     @ base64_encode_body b plain @ CRLF
     @ ''--'' @ boundary @ CRLF
     @ ''Content-Type: text/html; charset=UTF-8'' @ CRLF @ ''Content-Transfer-Encoding: base64'' @ CRLF @ CRLF
     @ base64_encode_body b html @ CRLF @ ''--'' @ boundary @ ''--'' @ CRLF"

definition message_body :: "base64 \<Rightarrow> mail \<Rightarrow> mail_details \<Rightarrow> attachment_part list \<Rightarrow> string" where
  "message_body b m d atts =
     (let html = body_source (Some d); plain = html_to_text html in
      if atts = [] then alternative_body b (build_alt_boundary m) plain html
      else ''This is a multi-part message in MIME format.'' @ CRLF @ ''--'' @ build_boundary m @ CRLF
        @ push_alternative_body b (build_alt_boundary m) plain html
        @ concat (map (render_attachment b (build_boundary m)) atts) @ ''--'' @ build_boundary m @ ''--'' @ CRLF)"

lemma push_alternative_split:
  "push_alternative_body b bd plain html = field_line (''Content-Type'', quoted_boundary ''alternative'' bd) @ CRLF @ CRLF @ alternative_body b bd plain html"
  by (simp add: push_alternative_body_def alternative_body_def field_line_def quoted_boundary_def)

lemma address_field_lines:
  "lines_with [CR, LF] (map field_line (address_field b name xs))
   = (if xs = [] then [] else header_line name (join '', '' (map (\<lambda>(n, a). format_name_and_address b n a) xs)))"
  by (simp add: address_field_def field_line_def header_line_def)

lemma mailboxes_Nil [simp]: "mailboxes as = [] \<longleftrightarrow> as = []"
  by (simp add: mailboxes_def)

lemma format_address_mailboxes: "map (format_address b) as = map (\<lambda>(n, a). format_name_and_address b n a) (mailboxes as)"
  by (simp add: mailboxes_def format_address_def)

lemma rendered_message:
  "mail_to_rfc2822 b m (Some d) atts
   = lines_with CRLF (map field_line (message_fields b m d atts)) @ CRLF @ message_body b m d atts"
proof -
  have "lines_with CRLF (map field_line (id_field m)) = (case mail_id m of Some i \<Rightarrow>
          header_line ''Message-ID'' (''<'' @ list_id i @ ''.'' @ element_id i @ ''@tutabridge.local>'') | None \<Rightarrow> [])"
    by (simp add: id_field_def field_line_def header_line_def split: option.split)
  moreover have "recipient_headers b m (Some d) = lines_with CRLF (map field_line (address_field b ''To'' (mailboxes (to_recipients d))))
      @ lines_with CRLF (map field_line (address_field b ''Cc'' (mailboxes (cc_recipients d))))
      @ lines_with CRLF (map field_line (address_field b ''Reply-To'' (reply_to_addresses d)))"
    by (simp add: recipient_headers_def address_field_lines format_address_mailboxes Let_def)
  ultimately have "message_headers b m (Some d) @ header_line ''Content-Type'' (message_type m atts)
      = lines_with CRLF (map field_line (message_fields b m d atts))"
    by (simp add: message_headers_def message_fields_def field_line_def header_line_def)
  moreover have "mail_to_rfc2822 b m (Some d) atts
      = message_headers b m (Some d) @ header_line ''Content-Type'' (message_type m atts) @ CRLF @ message_body b m d atts"
    by (simp add: mail_to_rfc2822_def message_type_def header_line_def message_body_def push_alternative_split quoted_boundary_def
        field_line_def Let_def)
  ultimately show ?thesis by simp
qed

lemma digits_no_break: "list_all is_digit s \<Longrightarrow> no_line_break s"
  by (auto simp: list_all_iff no_line_break_def is_digit_def CR_def LF_def)

lemma names_no_break: "list_all no_line_break weekdays" "list_all no_line_break months"
  by (simp_all add: weekdays_def months_def no_line_break_def CR_def LF_def)

lemma date_no_break: "no_line_break (format_rfc2822_date ms)"
proof -
  have p: "no_line_break (pad_nat w n)" for w n using pad_nat_digits digits_no_break by blast
  have w: "no_line_break (weekdays ! (n mod 7))" for n
    using names_no_break(1) by (rule list_all_length [THEN iffD1, rule_format]) (simp add: weekdays_def)
  have m: "no_line_break (months ! month_idx n)" for n
    using names_no_break(2) by (rule list_all_length [THEN iffD1, rule_format]) (simp add: months_def month_idx_def)
  have l: "no_line_break '', ''" "no_line_break '' ''" "no_line_break '':''" "no_line_break '' +0000''"
    by (simp_all add: no_line_break_def CR_def LF_def)
  show ?thesis
    by (simp add: format_rfc2822_date_def hms_def Let_def p w m l del: append_Cons append_Nil split: prod.split)
qed

definition id_char :: "char \<Rightarrow> bool" where
  "id_char c = (ascii_alnum c \<or> c = CHR ''-'' \<or> c = CHR ''_'')"

definition ids_ok :: "mail \<Rightarrow> bool" where
  "ids_ok m = (case mail_id m of None \<Rightarrow> True | Some i \<Rightarrow> list_all id_char (list_id i) \<and> list_all id_char (element_id i))"

text \<open>What a message needs for its headers to be read back: mailboxes a header can carry and the server's ids.\<close>

definition message_ok :: "mail \<Rightarrow> mail_details \<Rightarrow> bool" where
  "message_ok m d = (mailbox_ok (addr_name (sender m), addr_address (sender m)) \<and> ids_ok m
     \<and> list_all mailbox_ok (mailboxes (to_recipients d)) \<and> list_all mailbox_ok (mailboxes (cc_recipients d))
     \<and> list_all mailbox_ok (reply_to_addresses d))"

lemma id_no_break: "list_all id_char s \<Longrightarrow> no_line_break s"
proof -
  assume "list_all id_char s"
  moreover have "\<not> id_char CR" "\<not> id_char LF" by (simp_all add: id_char_def ascii_alnum_def CR_def LF_def)
  ultimately show ?thesis by (auto simp: list_all_iff no_line_break_def)
qed

lemma format_no_break:
  assumes "b64_laws b" "utf8_valid a" shows "no_line_break (format_name_and_address b n a)"
proof -
  have "no_line_break (escape_quoted n)" if "needs_quoting n"
    unfolding escape_quoted_def using that by (intro escape_no_break) (auto simp: needs_quoting_def no_line_break_def CR_def LF_def)
  then show ?thesis
    using clean_address_no_break [OF assms(2)] encode_header_value_no_break [OF assms(1), of n] no_line_break_lits
    by (simp add: format_display display_name_def del: append_Cons append_Nil)
qed

lemma no_break_join: "list_all no_line_break xs \<Longrightarrow> no_line_break sep \<Longrightarrow> no_line_break (join sep xs)"
  by (induction sep xs rule: join.induct) (auto simp: no_line_break_def [of "[]"])

lemma lits_no_break [simp]: "no_line_break [] " "no_line_break (c # s) \<longleftrightarrow> c \<noteq> CR \<and> c \<noteq> LF \<and> no_line_break s"
  by (auto simp: no_line_break_def)

lemma not_breaks: "byte_of c \<noteq> 10 \<and> byte_of c \<noteq> 13 \<Longrightarrow> c \<noteq> CR \<and> c \<noteq> LF"
  by (auto simp: CR_def LF_def)

lemma address_field_ok:
  assumes "b64_laws b" "list_all mailbox_ok xs" "field_ok (name, [])"
  shows "list_all field_ok (address_field b name xs)"
proof -
  have "list_all no_line_break (map (\<lambda>(n, a). format_name_and_address b n a) xs)"
    using assms(1, 2) format_no_break mailbox_utf8 by (auto simp: list_all_iff)
  then have "no_line_break (join '', '' (map (\<lambda>(n, a). format_name_and_address b n a) xs))"
    by (rule no_break_join) (simp add: CR_def LF_def)
  then show ?thesis using assms(3) by (auto simp: address_field_def field_ok_def)
qed

lemma boundaries_no_break: "ids_ok m \<Longrightarrow> no_line_break (build_boundary m) \<and> no_line_break (build_alt_boundary m)"
  by (auto simp: ids_ok_def build_boundary_def build_alt_boundary_def id_no_break not_breaks split: option.splits)

lemma field_names_ok:
  "list_all (\<lambda>n. field_ok (n, [])) [''Date'', ''From'', ''Subject'', ''To'', ''Cc'', ''Reply-To'', ''Message-ID'', ''MIME-Version'',
     ''Content-Type'', ''Content-Transfer-Encoding'', ''Content-Disposition'', ''Content-ID'']"
  by code_simp

lemma field_okI: "field_ok (n, []) \<Longrightarrow> no_line_break v \<Longrightarrow> field_ok (n, v)"
  by (simp add: field_ok_def)

lemma message_fields_ok:
  assumes "message_ok m d" "b64_laws b"
  shows "list_all field_ok (message_fields b m d atts)"
proof -
  have i: "ids_ok m" and s: "utf8_valid (addr_address (sender m))" using assms(1) mailbox_utf8 by (auto simp: message_ok_def)
  have "list_all field_ok (id_field m)"
    using i field_names_ok by (auto simp: id_field_def ids_ok_def id_no_break not_breaks intro!: field_okI split: option.splits)
  moreover have "no_line_break (message_type m atts)"
    using boundaries_no_break [OF i] by (simp add: message_type_def quoted_boundary_def not_breaks)
  ultimately show ?thesis
    using assms(1) field_names_ok date_no_break format_no_break [OF assms(2) s] encode_header_value_no_break [OF assms(2)]
      address_field_ok [OF assms(2)]
    by (simp add: message_fields_def message_ok_def format_address_def not_breaks field_okI)
qed

lemma rendered_split:
  assumes "message_ok m d" "b64_laws b"
  shows "split_headers_body (mail_to_rfc2822 b m (Some d) atts) = (join CRLF (map field_line (message_fields b m d atts)), message_body b m d atts)"
    and "header_section (mail_to_rfc2822 b m (Some d) atts) = join CRLF (map field_line (message_fields b m d atts))"
    and "parse_headers u (join CRLF (map field_line (message_fields b m d atts))) = map parsed_field (message_fields b m d atts)"
proof -
  let ?fs = "message_fields b m d atts"
  have f: "list_all field_ok ?fs" "?fs \<noteq> []" using message_fields_ok [OF assms] by (simp_all add: message_fields_def)
  have l: "list_all no_line_break (map field_line ?fs)" "[] \<notin> set (map field_line ?fs)"
    using f(1) field_line_facts by (auto simp: list_all_iff) metis
  note r = split_message [OF l, of "[CR, LF]" "message_body b m d atts"]
  show "split_headers_body (mail_to_rfc2822 b m (Some d) atts) = (join CRLF (map field_line ?fs), message_body b m d atts)"
    using r(1) f(2) by (simp add: rendered_message)
  show "header_section (mail_to_rfc2822 b m (Some d) atts) = join CRLF (map field_line ?fs)"
    using r(2) f(2) by (simp add: rendered_message)
  show "parse_headers u (join CRLF (map field_line ?fs)) = map parsed_field ?fs"
    using parse_header_fields [OF f(1) _ f(2)] by (simp add: line_end_def)
qed

lemma lower_names [simp]:
  "to_ascii_lowercase ''Date'' = ''date''" "to_ascii_lowercase ''From'' = ''from''" "to_ascii_lowercase ''Subject'' = ''subject''"
  "to_ascii_lowercase ''To'' = ''to''" "to_ascii_lowercase ''Cc'' = ''cc''" "to_ascii_lowercase ''Reply-To'' = ''reply-to''"
  "to_ascii_lowercase ''Message-ID'' = ''message-id''" "to_ascii_lowercase ''MIME-Version'' = ''mime-version''"
  "to_ascii_lowercase ''Content-Type'' = ''content-type''"
  "to_ascii_lowercase ''Content-Transfer-Encoding'' = ''content-transfer-encoding''"
  "to_ascii_lowercase ''Content-Disposition'' = ''content-disposition''" "to_ascii_lowercase ''Content-ID'' = ''content-id''"
  by code_simp+

lemma get_header_fields:
  "get_header (hs @ ks) name = (case get_header hs name of Some v \<Rightarrow> Some v | None \<Rightarrow> get_header ks name)"
  "get_header [] name = None"
  "get_header (parsed_field (n, v) # hs) name = (if to_ascii_lowercase n = name then Some (trim v) else get_header hs name)"
  by (auto simp: get_header_def map_of_append map_add_def parsed_field_def split: option.split)

lemma get_address_field:
  "get_header (map parsed_field (address_field b n xs)) name = (if xs \<noteq> [] \<and> to_ascii_lowercase n = name
     then Some (trim (join '', '' (map (\<lambda>(n, a). format_name_and_address b n a) xs))) else None)"
  by (simp add: address_field_def get_header_def parsed_field_def)

lemma get_id_field:
  "name \<noteq> ''message-id'' \<Longrightarrow> get_header (map parsed_field (id_field m)) name = None"
  by (auto simp: id_field_def get_header_def parsed_field_def split: option.split)

lemma message_header_lookup:
  "get_header (map parsed_field (message_fields b m d atts)) ''to'' = get_header (map parsed_field (address_field b ''To'' (mailboxes (to_recipients d)))) ''to''"
  "get_header (map parsed_field (message_fields b m d atts)) ''cc'' = get_header (map parsed_field (address_field b ''Cc'' (mailboxes (cc_recipients d)))) ''cc''"
  "get_header (map parsed_field (message_fields b m d atts)) ''bcc'' = None"
  "get_header (map parsed_field (message_fields b m d atts)) ''reply-to'' = get_header (map parsed_field (address_field b ''Reply-To'' (reply_to_addresses d))) ''reply-to''"
  "get_header (map parsed_field (message_fields b m d atts)) ''from'' = Some (trim (format_address b (sender m)))"
  "get_header (map parsed_field (message_fields b m d atts)) ''subject'' = Some (trim (encode_header_value b (subject m)))"
  "get_header (map parsed_field (message_fields b m d atts)) ''in-reply-to'' = None"
  "get_header (map parsed_field (message_fields b m d atts)) ''references'' = None"
  "get_header (map parsed_field (message_fields b m d atts)) ''message-id'' = get_header (map parsed_field (id_field m)) ''message-id''"
  "get_header (map parsed_field (message_fields b m d atts)) ''content-type'' = Some (trim (message_type m atts))"
  "get_header (map parsed_field (message_fields b m d atts)) ''content-transfer-encoding'' = None"
  unfolding message_fields_def
  by (simp_all add: get_header_fields get_address_field get_id_field split: option.split)

lemma address_header_field:
  assumes "list_all mailbox_ok xs" "b64_laws b"
    "get_header hs name = get_header (map parsed_field (address_field b n xs)) name" "to_ascii_lowercase n = name"
  shows "address_header b u hs name = map (\<lambda>(n, a). (n, clean_address a)) xs"
  using address_list_parsed [OF assms(1, 2), of u] list_edges [OF assms(1), of b] assms(3, 4)
  by (simp add: address_header_def get_address_field)

definition cleaned :: "(string \<times> string) list \<Rightarrow> (string \<times> string) list" where
  "cleaned xs = map (\<lambda>(n, a). (n, clean_address a)) xs"

lemma rendered_addresses:
  assumes "message_ok m d" "b64_laws b"
  shows "address_headers_of b u (map parsed_field (message_fields b m d atts))
    = \<lparr>ah_to = cleaned (mailboxes (to_recipients d)), ah_cc = cleaned (mailboxes (cc_recipients d)),
       ah_bcc = [], ah_reply_to = cleaned (reply_to_addresses d)\<rparr>"
  unfolding address_headers_of_def cleaned_def
  using assms address_header_field [OF _ assms(2) message_header_lookup(1)] address_header_field [OF _ assms(2) message_header_lookup(2)]
    address_header_field [OF _ assms(2) message_header_lookup(4)]
  by (simp add: message_ok_def) (simp add: address_header_def message_header_lookup)

text \<open>
  The recipients survive the disk: from the rendered form of a mail, with or without attachments,
  \<open>parse_address_headers\<close> reads back exactly the To, Cc and Reply-To mailboxes of its details, and no Bcc.
\<close>

theorem rendered_address_headers:
  assumes "message_ok m d" "b64_laws b"
  shows "parse_address_headers b u (mail_to_rfc2822 b m (Some d) atts)
    = \<lparr>ah_to = cleaned (mailboxes (to_recipients d)), ah_cc = cleaned (mailboxes (cc_recipients d)),
       ah_bcc = [], ah_reply_to = cleaned (reply_to_addresses d)\<rparr>"
  using rendered_addresses [OF assms] rendered_split [OF assms] by (simp add: parse_address_headers_def)

definition rendered_mail :: mail where
  "rendered_mail = \<lparr>mail_id = Some \<lparr>list_id = ''L-1'', element_id = ''E_2''\<rparr>, subject = ''Hi'',
     sender = \<lparr>addr_name = ''Ann'', addr_address = ''a@x''\<rparr>, received_ms = 0, unread = True, first_recipient = None, attachments = []\<rparr>"

definition rendered_details :: "string \<Rightarrow> mail_details" where
  "rendered_details html = \<lparr>to_recipients = [\<lparr>addr_name = ''Doe, J.'', addr_address = ''j@x''\<rparr>], cc_recipients = [\<lparr>addr_name = [], addr_address = ''c@z''\<rparr>],
     bcc_recipients = [], reply_tos = [], body_compressed = None, body_text = Some html, sent_ms = 0\<rparr>"

lemma rendered_sample_ok: "message_ok rendered_mail (rendered_details html)"
proof -
  have "mailbox_ok (addr_name (sender rendered_mail), addr_address (sender rendered_mail))" "ids_ok rendered_mail"
    "list_all mailbox_ok [(''Doe, J.'', ''j@x'')]" "list_all mailbox_ok [([], ''c@z'')]" by code_simp+
  then show ?thesis by (simp add: message_ok_def rendered_details_def mailboxes_def reply_to_addresses_def)
qed

theorem rendered_address_headers_witness:
  "ah_to (parse_address_headers rfc4648 ascii_unicode (mail_to_rfc2822 rfc4648 rendered_mail (Some (rendered_details ''<p>hi</p>'')) [])) = [(''Doe, J.'', ''j@x'')]"
proof -
  have "cleaned [(''Doe, J.'', ''j@x'')] = [(''Doe, J.'', ''j@x'')]" by code_simp
  then show ?thesis
    using rendered_address_headers [OF rendered_sample_ok rfc4648_laws, of ascii_unicode "''<p>hi</p>''" "[]"]
    by (simp add: rendered_details_def mailboxes_def)
qed

end
