(* ===== verification/Search.thy ===== *)
theory Search
  imports Dates "HOL-Library.Char_ord" "HOL-Library.List_Lexorder"
begin

text \<open>
  IMAP \<open>SEARCH\<close> (\<open>crates/bridge/src/imap/search.rs\<close>): queries, their evaluation on a message, and the parser. The
  index into the token vector is the list of remaining tokens. The parser is recursive with no bound in
  the code; here it carries fuel, and \<open>search_parse_total\<close> shows how much is enough. Sets of full-text hits
  are lists. Splitting bytes instead of characters into tokens is the same: every special character is
  ASCII, and no byte of a longer character is.
\<close>

section \<open>Queries\<close>

record seq_range =
  sr_start :: nat
  sr_end :: "nat option"

type_synonym seq_set = "seq_range list"

definition seqset_contains :: "seq_set \<Rightarrow> nat \<Rightarrow> bool" where
  "seqset_contains s v = list_ex (\<lambda>r. case sr_end r of None \<Rightarrow> sr_start r \<le> v
     | Some e \<Rightarrow> let (lo, hi) = (if sr_start r \<le> e then (sr_start r, e) else (e, sr_start r)) in lo \<le> v \<and> v \<le> hi) s"

datatype search_key = SkAll | SkAnd "search_key list" | SkOr search_key search_key | SkNot search_key
  | SkSeen | SkUnseen | SkAnswered | SkUnanswered | SkFlagged | SkUnflagged | SkDraft | SkUndraft | SkDeleted | SkUndeleted
  | SkRecent | SkNew | SkOld | SkKeyword | SkUnkeyword
  | SkSubject string | SkFrom string | SkTo string | SkCc string | SkBcc string | SkBody string | SkText string
  | SkHeader string string
  | SkBefore int | SkOn int | SkSince int | SkSentBefore int | SkSentOn int | SkSentSince int
  | SkLarger nat | SkSmaller nat | SkUid seq_set | SkSequence seq_set

record msg_view =
  mv_seq :: nat
  mv_uid :: nat
  mv_element_id :: string
  mv_subject :: string
  mv_from :: string
  mv_to :: string
  mv_cc :: string
  mv_bcc :: string
  mv_headers :: string
  mv_date_ms :: nat
  mv_sent_ms :: nat
  mv_unread :: bool
  mv_deleted :: bool
  mv_size :: nat

type_synonym search_context = "(string \<times> string list) list"

definition body_matches :: "search_context \<Rightarrow> string \<Rightarrow> string \<Rightarrow> bool" where
  "body_matches ctx t e = (case map_of ctx t of None \<Rightarrow> False | Some ids \<Rightarrow> e \<in> set ids)"

fun collect_body_terms_into :: "search_key \<Rightarrow> string list" where
  "collect_body_terms_into (SkAnd ks) = concat (map collect_body_terms_into ks)"
| "collect_body_terms_into (SkOr a b) = collect_body_terms_into a @ collect_body_terms_into b"
| "collect_body_terms_into (SkNot k) = collect_body_terms_into k"
| "collect_body_terms_into (SkBody s) = [s]"
| "collect_body_terms_into (SkText s) = [s]"
| "collect_body_terms_into _ = []"

definition collect_body_terms :: "search_key \<Rightarrow> string list" where
  "collect_body_terms k = remdups_adj (sort (collect_body_terms_into k))"

section \<open>Evaluation\<close>

definition contains_ci :: "unicode \<Rightarrow> string \<Rightarrow> string \<Rightarrow> bool" where
  "contains_ci u h n = (n = [] \<or> contains_sub (to_lowercase u h) (to_lowercase u n))"

fun split_crlf :: "string \<Rightarrow> string list" where
  "split_crlf [] = [[]]"
| "split_crlf [c] = [[c]]"
| "split_crlf (c # d # s) = (if c = CHR 0x0D \<and> d = CHR 0x0A then [] # split_crlf s
     else case split_crlf (d # s) of [] \<Rightarrow> [[c]] | w # ws \<Rightarrow> (c # w) # ws)"

definition header_contains :: "unicode \<Rightarrow> string \<Rightarrow> string \<Rightarrow> string \<Rightarrow> bool" where
  "header_contains u headers name value = list_ex (\<lambda>line. case split_once CHR '':'' line of None \<Rightarrow> False
     | Some (field, v) \<Rightarrow> to_lowercase u (trim field) = to_lowercase u name \<and> (value = [] \<or> contains_ci u v value)) (split_crlf headers)"

definition day_number :: "nat \<Rightarrow> int" where
  "day_number ms = int (ms div 86400000)"

fun search_matches :: "unicode \<Rightarrow> search_key \<Rightarrow> msg_view \<Rightarrow> search_context \<Rightarrow> bool" where
  "search_matches u SkAll m ctx = True"
| "search_matches u (SkAnd ks) m ctx = list_all (\<lambda>k. search_matches u k m ctx) ks"
| "search_matches u (SkOr a b) m ctx = (search_matches u a m ctx \<or> search_matches u b m ctx)"
| "search_matches u (SkNot k) m ctx = (\<not> search_matches u k m ctx)"
| "search_matches u SkSeen m ctx = (\<not> mv_unread m)"
| "search_matches u SkUnseen m ctx = mv_unread m"
| "search_matches u SkAnswered m ctx = False"
| "search_matches u SkUnanswered m ctx = True"
| "search_matches u SkFlagged m ctx = False"
| "search_matches u SkUnflagged m ctx = True"
| "search_matches u SkDraft m ctx = False"
| "search_matches u SkUndraft m ctx = True"
| "search_matches u SkDeleted m ctx = mv_deleted m"
| "search_matches u SkUndeleted m ctx = (\<not> mv_deleted m)"
| "search_matches u SkRecent m ctx = False"
| "search_matches u SkNew m ctx = False"
| "search_matches u SkOld m ctx = True"
| "search_matches u SkKeyword m ctx = False"
| "search_matches u SkUnkeyword m ctx = True"
| "search_matches u (SkSubject s) m ctx = contains_ci u (mv_subject m) s"
| "search_matches u (SkFrom s) m ctx = contains_ci u (mv_from m) s"
| "search_matches u (SkTo s) m ctx = contains_ci u (mv_to m) s"
| "search_matches u (SkCc s) m ctx = contains_ci u (mv_cc m) s"
| "search_matches u (SkBcc s) m ctx = contains_ci u (mv_bcc m) s"
| "search_matches u (SkBody s) m ctx = body_matches ctx s (mv_element_id m)"
| "search_matches u (SkText s) m ctx = (contains_ci u (mv_headers m) s \<or> body_matches ctx s (mv_element_id m))"
| "search_matches u (SkHeader n v) m ctx = header_contains u (mv_headers m) n v"
| "search_matches u (SkBefore d) m ctx = (day_number (mv_date_ms m) < d)"
| "search_matches u (SkOn d) m ctx = (day_number (mv_date_ms m) = d)"
| "search_matches u (SkSince d) m ctx = (d \<le> day_number (mv_date_ms m))"
| "search_matches u (SkSentBefore d) m ctx = (day_number (mv_sent_ms m) < d)"
| "search_matches u (SkSentOn d) m ctx = (day_number (mv_sent_ms m) = d)"
| "search_matches u (SkSentSince d) m ctx = (d \<le> day_number (mv_sent_ms m))"
| "search_matches u (SkLarger n) m ctx = (n < mv_size m)"
| "search_matches u (SkSmaller n) m ctx = (mv_size m < n)"
| "search_matches u (SkUid s) m ctx = seqset_contains s (mv_uid m)"
| "search_matches u (SkSequence s) m ctx = seqset_contains s (mv_seq m)"

section \<open>Tokens\<close>

datatype token = LParen | RParen | Atom string | Quoted string

text \<open>The content of a quoted string after its opening quote, and what follows the closing one.\<close>

fun read_quoted :: "string \<Rightarrow> string \<times> string" where
  "read_quoted [] = ([], [])"
| "read_quoted (c # s) = (if c = CHR 0x5C then (case s of [] \<Rightarrow> ([], []) | d # t \<Rightarrow> (d # fst (read_quoted t), snd (read_quoted t)))
     else if c = CHR 0x22 then ([], s) else (c # fst (read_quoted s), snd (read_quoted s)))"

definition atom_stop :: "char \<Rightarrow> bool" where
  "atom_stop c = (c = CHR '' '' \<or> c = CHR 0x09 \<or> c = CHR ''('' \<or> c = CHR '')'' \<or> c = CHR 0x22)"

lemma read_quoted_esc: "read_quoted (CHR 0x5C # d # s) = (d # fst (read_quoted s), snd (read_quoted s))"
    "read_quoted [CHR 0x5C] = ([], [])" "read_quoted (CHR 0x22 # s) = ([], s)"
  by simp_all

lemma read_quoted_char: "c \<noteq> CHR 0x5C \<Longrightarrow> c \<noteq> CHR 0x22 \<Longrightarrow> read_quoted (c # s) = (c # fst (read_quoted s), snd (read_quoted s))"
  by simp

declare read_quoted.simps(2) [simp del]

lemma read_quoted_len: "length (snd (read_quoted s)) \<le> length s"
proof (induction s rule: read_quoted.induct)
  case (2 c s)
  consider "c = CHR 0x5C" "s = []" | d t where "c = CHR 0x5C" "s = d # t" | "c = CHR 0x22" | "c \<noteq> CHR 0x5C" "c \<noteq> CHR 0x22" by (cases s) auto
  then show ?case by cases (use 2 in \<open>auto simp: read_quoted_esc read_quoted_char intro: le_SucI\<close>)
qed simp

function tokenize :: "string \<Rightarrow> token list" where
  "tokenize [] = []"
| "tokenize (c # s) = (if c = CHR '' '' \<or> c = CHR 0x09 \<or> c = CHR 0x0D \<or> c = CHR 0x0A then tokenize s
     else if c = CHR ''('' then LParen # tokenize s
     else if c = CHR '')'' then RParen # tokenize s
     else if c = CHR 0x22 then Quoted (fst (read_quoted s)) # tokenize (snd (read_quoted s))
     else Atom (c # takeWhile (\<lambda>x. \<not> atom_stop x) s) # tokenize (dropWhile (\<lambda>x. \<not> atom_stop x) s))"
  by pat_completeness auto
termination
  by (relation "measure length") (auto simp: read_quoted_len le_imp_less_Suc length_dropWhile_le)

section \<open>The parser\<close>

definition fold_and :: "search_key list \<Rightarrow> search_key" where
  "fold_and ks = (case ks of [] \<Rightarrow> SkAll | [k] \<Rightarrow> k | _ \<Rightarrow> SkAnd ks)"

definition next_arg :: "token list \<Rightarrow> string option \<times> token list" where
  "next_arg ts = (case ts of Atom s # r \<Rightarrow> (Some s, r) | Quoted s # r \<Rightarrow> (Some s, r) | _ \<Rightarrow> (None, ts))"

definition str_key :: "(string \<Rightarrow> search_key) \<Rightarrow> token list \<Rightarrow> search_key \<times> token list" where
  "str_key ctor ts = (case next_arg ts of (Some s, r) \<Rightarrow> (ctor s, r) | (None, r) \<Rightarrow> (ctor [], r))"

definition date_key :: "unicode \<Rightarrow> (int \<Rightarrow> search_key) \<Rightarrow> token list \<Rightarrow> search_key \<times> token list" where
  "date_key u ctor ts = (case next_arg ts of (None, r) \<Rightarrow> (SkAll, r)
     | (Some s, r) \<Rightarrow> (case parse_imap_date u s of Some d \<Rightarrow> (ctor d, r) | None \<Rightarrow> (SkAll, r)))"

definition size_key :: "(nat \<Rightarrow> search_key) \<Rightarrow> token list \<Rightarrow> search_key \<times> token list" where
  "size_key ctor ts = (case next_arg ts of (None, r) \<Rightarrow> (SkAll, r)
     | (Some s, r) \<Rightarrow> (case parse_u64 s of Some n \<Rightarrow> (ctor n, r) | None \<Rightarrow> (SkAll, r)))"

definition is_seqset :: "string \<Rightarrow> bool" where
  "is_seqset s = (s \<noteq> [] \<and> list_all (\<lambda>c. is_digit c \<or> c = CHR '':'' \<or> c = CHR '','' \<or> c = CHR ''*'') s)"

definition parse_seq_part :: "string \<Rightarrow> seq_set" where
  "parse_seq_part part = (if part = [] then [] else case split_once CHR '':'' part of
     Some (a, b) \<Rightarrow> [\<lparr>sr_start = (if a = ''*'' then 0 else case parse_u32 a of Some n \<Rightarrow> n | None \<Rightarrow> 0),
        sr_end = (if b = ''*'' then None else parse_u32 b)\<rparr>]
   | None \<Rightarrow> if part = ''*'' then [\<lparr>sr_start = 0, sr_end = None\<rparr>]
       else (case parse_u32 part of Some n \<Rightarrow> [\<lparr>sr_start = n, sr_end = Some n\<rparr>] | None \<Rightarrow> []))"

definition parse_seqset :: "string \<Rightarrow> seq_set" where
  "parse_seqset s = concat (map parse_seq_part (split_on CHR '','' s))"

text \<open>The keys of \<open>parse_atom_key\<close> that do not call the parser again.\<close>

definition leaf_key :: "unicode \<Rightarrow> string \<Rightarrow> string \<Rightarrow> token list \<Rightarrow> search_key \<times> token list" where
  "leaf_key u key atom ts = (
     if key = ''ALL'' then (SkAll, ts) else if key = ''ANSWERED'' then (SkAnswered, ts)
     else if key = ''UNANSWERED'' then (SkUnanswered, ts) else if key = ''SEEN'' then (SkSeen, ts)
     else if key = ''UNSEEN'' then (SkUnseen, ts) else if key = ''FLAGGED'' then (SkFlagged, ts)
     else if key = ''UNFLAGGED'' then (SkUnflagged, ts) else if key = ''DELETED'' then (SkDeleted, ts)
     else if key = ''UNDELETED'' then (SkUndeleted, ts) else if key = ''DRAFT'' then (SkDraft, ts)
     else if key = ''UNDRAFT'' then (SkUndraft, ts) else if key = ''RECENT'' then (SkRecent, ts)
     else if key = ''NEW'' then (SkNew, ts) else if key = ''OLD'' then (SkOld, ts)
     else if key = ''SUBJECT'' then str_key SkSubject ts else if key = ''FROM'' then str_key SkFrom ts
     else if key = ''TO'' then str_key SkTo ts else if key = ''CC'' then str_key SkCc ts
     else if key = ''BCC'' then str_key SkBcc ts else if key = ''BODY'' then str_key SkBody ts
     else if key = ''TEXT'' then str_key SkText ts
     else if key = ''KEYWORD'' then (SkKeyword, snd (next_arg ts))
     else if key = ''UNKEYWORD'' then (SkUnkeyword, snd (next_arg ts))
     else if key = ''HEADER'' then
       (case next_arg ts of (n, r) \<Rightarrow> (case next_arg r of (v, r2) \<Rightarrow>
          (SkHeader (case n of Some x \<Rightarrow> x | None \<Rightarrow> []) (case v of Some x \<Rightarrow> x | None \<Rightarrow> []), r2)))
     else if key = ''BEFORE'' then date_key u SkBefore ts else if key = ''ON'' then date_key u SkOn ts
     else if key = ''SINCE'' then date_key u SkSince ts else if key = ''SENTBEFORE'' then date_key u SkSentBefore ts
     else if key = ''SENTON'' then date_key u SkSentOn ts else if key = ''SENTSINCE'' then date_key u SkSentSince ts
     else if key = ''LARGER'' then size_key SkLarger ts else if key = ''SMALLER'' then size_key SkSmaller ts
     else if key = ''UID'' then (case next_arg ts of (None, r) \<Rightarrow> (SkUid [], r) | (Some s, r) \<Rightarrow> (SkUid (parse_seqset s), r))
     else if is_seqset atom then (SkSequence (parse_seqset atom), ts) else (SkAll, ts))"

definition or_all :: "search_key option \<Rightarrow> search_key" where
  "or_all k = (case k of Some x \<Rightarrow> x | None \<Rightarrow> SkAll)"

fun parse_key :: "nat \<Rightarrow> unicode \<Rightarrow> token list \<Rightarrow> (search_key option \<times> token list) option"
  and parse_key_list :: "nat \<Rightarrow> unicode \<Rightarrow> bool \<Rightarrow> token list \<Rightarrow> (search_key list \<times> token list) option"
  and parse_atom_key :: "nat \<Rightarrow> unicode \<Rightarrow> string \<Rightarrow> token list \<Rightarrow> (search_key \<times> token list) option" where
  "parse_key 0 u ts = None"
| "parse_key (Suc n) u ts = (case ts of
     [] \<Rightarrow> Some (None, [])
   | LParen # r \<Rightarrow> map_option (\<lambda>(ks, r2). (Some (fold_and ks), r2)) (parse_key_list n u True r)
   | RParen # r \<Rightarrow> Some (None, r)
   | Quoted _ # r \<Rightarrow> Some (Some SkAll, r)
   | Atom a # r \<Rightarrow> map_option (\<lambda>(k, r2). (Some k, r2)) (parse_atom_key n u a r))"
| "parse_key_list 0 u g ts = None"
| "parse_key_list (Suc n) u g ts = (case ts of
     [] \<Rightarrow> Some ([], [])
   | RParen # r \<Rightarrow> if g then Some ([], r) else parse_key_list n u g r
   | _ \<Rightarrow> (case parse_key n u ts of None \<Rightarrow> None
       | Some (None, r) \<Rightarrow> Some ([], r)
       | Some (Some k, r) \<Rightarrow> map_option (\<lambda>(ks, r2). (k # ks, r2)) (parse_key_list n u g r)))"
| "parse_atom_key 0 u a ts = None"
| "parse_atom_key (Suc n) u a ts =
     (let key = to_uppercase u a in
      if key = ''OR'' then (case parse_key n u ts of None \<Rightarrow> None
        | Some (k1, r) \<Rightarrow> map_option (\<lambda>(k2, r2). (SkOr (or_all k1) (or_all k2), r2)) (parse_key n u r))
      else if key = ''NOT'' then map_option (\<lambda>(k, r). (SkNot (or_all k), r)) (parse_key n u ts)
      else if key = ''CHARSET'' then map_option (\<lambda>(k, r). (or_all k, r)) (parse_key n u (snd (next_arg ts)))
      else Some (leaf_key u key a ts))"

definition search_parse :: "nat \<Rightarrow> unicode \<Rightarrow> string \<Rightarrow> search_key option" where
  "search_parse n u args = map_option (\<lambda>(ks, _). fold_and ks) (parse_key_list n u False (tokenize args))"

section \<open>The parser ends\<close>

lemma next_arg_len: "length (snd (next_arg ts)) \<le> length ts"
  by (auto simp: next_arg_def split: list.split token.split)

lemma arg_key_len:
  "length (snd (str_key f ts)) \<le> length ts" "length (snd (date_key u g ts)) \<le> length ts" "length (snd (size_key h ts)) \<le> length ts"
  using next_arg_len [of ts] by (auto simp: str_key_def date_key_def size_key_def split: prod.splits option.split)

lemma header_args_len: "length (snd (case next_arg ts of (n, r) \<Rightarrow> case next_arg r of (v, r2) \<Rightarrow> (F n v, r2))) \<le> length ts"
  using next_arg_len [of ts] next_arg_len [of "snd (next_arg ts)"] by (auto simp: case_prod_beta)

lemma uid_args_len: "length (snd (case next_arg ts of (None, r) \<Rightarrow> (F, r) | (Some s, r) \<Rightarrow> (G s, r))) \<le> length ts"
  using next_arg_len [of ts] by (auto split: prod.split option.split)

lemma leaf_key_len: "length (snd (leaf_key u key a ts)) \<le> length ts"
  unfolding leaf_key_def using next_arg_len [of ts] by (simp add: arg_key_len header_args_len uid_args_len)

lemma parse_shrinks:
  "parse_key n u ts = Some (k, r) \<Longrightarrow> length r \<le> length ts \<and> (ts \<noteq> [] \<longrightarrow> length r < length ts)"
  "parse_key_list n u g ts = Some (ks, r) \<Longrightarrow> length r \<le> length ts"
  "parse_atom_key n u a ts = Some (k', r) \<Longrightarrow> length r \<le> length ts"
proof (induction n u ts and n u g ts and n u a ts arbitrary: k r and ks r and k' r rule: parse_key_parse_key_list_parse_atom_key.induct)
  case (2 n u ts)
  then show ?case by (auto split: list.splits token.splits intro: le_imp_less_Suc le_SucI)
next
  case (4 n u g ts)
  then show ?case by (fastforce split: list.splits token.splits if_splits option.splits intro: le_SucI)
next
  case (6 n u a ts)
  then show ?case using leaf_key_len [of u "to_uppercase u a" a ts] next_arg_len [of ts]
    by (fastforce simp: Let_def split: if_splits option.splits)
qed simp_all

lemma parse_key_list_cons:
  "t \<noteq> RParen \<Longrightarrow> parse_key_list (Suc n) u g (t # ts) = (case parse_key n u (t # ts) of None \<Rightarrow> None
     | Some (None, r) \<Rightarrow> Some ([], r)
     | Some (Some k, r) \<Rightarrow> map_option (\<lambda>(ks, r2). (k # ks, r2)) (parse_key_list n u g r))"
  by (cases t) simp_all

text \<open>Two steps of recursion per token, and one to see the end.\<close>

lemma parse_fuel:
  shows "2 * length ts + 1 \<le> n \<Longrightarrow> parse_key n u ts \<noteq> None"
    and "2 * length ts + 2 \<le> n \<Longrightarrow> parse_key_list n u g ts \<noteq> None"
    and "2 * length ts + 2 \<le> n \<Longrightarrow> parse_atom_key n u a ts \<noteq> None"
proof (induction n arbitrary: ts g a)
  case (Suc n)
  { case 1
    then show ?case using Suc.IH(2,3) by (auto split: list.split token.split) blast+
  next
    case 2
    show ?case
    proof (cases ts)
      case (Cons t r)
      show ?thesis
      proof (cases "t = RParen")
        case True
        then show ?thesis using Suc.IH(2) [of r g] 2 Cons by (cases g) simp_all
      next
        case False
        obtain k r' where k: "parse_key n u ts = Some (k, r')" using Suc.IH(1) [of ts] 2 by auto
        then have "parse_key_list n u g r' \<noteq> None" using Suc.IH(2) [of r' g] parse_shrinks(1) [OF k] Cons 2 by simp
        then show ?thesis using k unfolding Cons parse_key_list_cons [OF False] by (auto split: option.split)
      qed
    qed simp
  next
    case 3
    obtain k r where k: "parse_key n u ts = Some (k, r)" using Suc.IH(1) [of ts] 3 by auto
    then have "parse_key n u r \<noteq> None" using Suc.IH(1) [of r] parse_shrinks(1) [OF k] 3 by simp
    moreover have "parse_key n u (snd (next_arg ts)) \<noteq> None" using Suc.IH(1) 3 next_arg_len [of ts] by simp
    ultimately show ?case using k by (auto simp: Let_def)
  }
qed simp_all

lemma parse_more_fuel:
  shows "parse_key n u ts = Some x \<Longrightarrow> n \<le> m \<Longrightarrow> parse_key m u ts = Some x"
    and "parse_key_list n u g ts = Some y \<Longrightarrow> n \<le> m \<Longrightarrow> parse_key_list m u g ts = Some y"
    and "parse_atom_key n u a ts = Some z \<Longrightarrow> n \<le> m \<Longrightarrow> parse_atom_key m u a ts = Some z"
proof (induction n arbitrary: m ts g a x y z)
  case (Suc n)
  { case 1
    then obtain k where k: "m = Suc k" "n \<le> k" by (cases m) auto
    note up = Suc.IH(2) [OF _ k(2)] Suc.IH(3) [OF _ k(2)]
    show ?case
    proof (cases ts)
      case (Cons t r)
      then show ?thesis using 1 k(1) by (cases t) (auto dest: up)
    qed (use 1 k in simp)
  next
    case 2
    then obtain k where k: "m = Suc k" "n \<le> k" by (cases m) auto
    show ?case
    proof (cases ts)
      case (Cons t r)
      show ?thesis
      proof (cases "t = RParen")
        case True
        then show ?thesis using Suc.IH(2) [of g r y k] 2 Cons k by (auto split: if_splits)
      next
        case False
        note up = Suc.IH(1) [OF _ k(2)] Suc.IH(2) [OF _ k(2)]
        from 2(1) obtain q r' where q: "parse_key n u (t # r) = Some (q, r')"
          unfolding Cons parse_key_list_cons [OF False] by (auto split: option.splits)
        show ?thesis using 2(1) up(1) [OF q] q unfolding Cons k(1) parse_key_list_cons [OF False]
          by (cases q) (auto dest: up(2))
      qed
    qed (use 2 k in simp)
  next
    case 3
    then obtain k where k: "m = Suc k" "n \<le> k" by (cases m) auto
    note up = Suc.IH(1) [OF _ k(2)]
    show ?case
    proof (cases "to_uppercase u a = ''OR''")
      case True
      then obtain k1 r where r: "parse_key n u ts = Some (k1, r)" using 3(1) by (auto simp: Let_def split: option.splits)
      then show ?thesis using 3(1) True up [OF r] unfolding k(1) by (auto simp: Let_def dest: up)
    next
      case False
      then show ?thesis using 3(1) unfolding k(1) by (auto simp: Let_def dest: up split: if_splits)
    qed
  }
qed simp_all

lemma parse_keys_stable:
  assumes "2 * length ts + 2 \<le> n"
  shows "parse_key_list n u g ts = parse_key_list (2 * length ts + 2) u g ts"
proof -
  obtain y where "parse_key_list (2 * length ts + 2) u g ts = Some y" using parse_fuel(2) [of ts "2 * length ts + 2" u g] by auto
  then show ?thesis using parse_more_fuel(2) [OF _ assms, of u g] by simp
qed

section \<open>Writing a query\<close>

text \<open>The day number as an IMAP date, and sets, as a client writes them.\<close>

definition show_range :: "seq_range \<Rightarrow> string" where
  "show_range r = show_nat (sr_start r) @ CHR '':'' # (case sr_end r of None \<Rightarrow> ''*'' | Some e \<Rightarrow> show_nat e)"

definition show_seqset :: "seq_set \<Rightarrow> string" where
  "show_seqset s = join '','' (map show_range s)"

definition wf_seqset :: "seq_set \<Rightarrow> bool" where
  "wf_seqset s = (s \<noteq> [] \<and> list_all (\<lambda>r. sr_start r \<le> u32_max \<and> (case sr_end r of None \<Rightarrow> True | Some e \<Rightarrow> e \<le> u32_max)) s)"

text \<open>The tokens of a query; \<open>writable\<close> queries have one.\<close>

fun query_tokens :: "search_key \<Rightarrow> token list" where
  "query_tokens SkAll = [Atom ''ALL'']"
| "query_tokens (SkAnd ks) = LParen # concat (map query_tokens ks) @ [RParen]"
| "query_tokens (SkOr a b) = Atom ''OR'' # query_tokens a @ query_tokens b"
| "query_tokens (SkNot k) = Atom ''NOT'' # query_tokens k"
| "query_tokens SkSeen = [Atom ''SEEN'']"
| "query_tokens SkUnseen = [Atom ''UNSEEN'']"
| "query_tokens SkAnswered = [Atom ''ANSWERED'']"
| "query_tokens SkUnanswered = [Atom ''UNANSWERED'']"
| "query_tokens SkFlagged = [Atom ''FLAGGED'']"
| "query_tokens SkUnflagged = [Atom ''UNFLAGGED'']"
| "query_tokens SkDraft = [Atom ''DRAFT'']"
| "query_tokens SkUndraft = [Atom ''UNDRAFT'']"
| "query_tokens SkDeleted = [Atom ''DELETED'']"
| "query_tokens SkUndeleted = [Atom ''UNDELETED'']"
| "query_tokens SkRecent = [Atom ''RECENT'']"
| "query_tokens SkNew = [Atom ''NEW'']"
| "query_tokens SkOld = [Atom ''OLD'']"
| "query_tokens SkKeyword = [Atom ''KEYWORD'', Atom ''x'']"
| "query_tokens SkUnkeyword = [Atom ''UNKEYWORD'', Atom ''x'']"
| "query_tokens (SkSubject s) = [Atom ''SUBJECT'', Quoted s]"
| "query_tokens (SkFrom s) = [Atom ''FROM'', Quoted s]"
| "query_tokens (SkTo s) = [Atom ''TO'', Quoted s]"
| "query_tokens (SkCc s) = [Atom ''CC'', Quoted s]"
| "query_tokens (SkBcc s) = [Atom ''BCC'', Quoted s]"
| "query_tokens (SkBody s) = [Atom ''BODY'', Quoted s]"
| "query_tokens (SkText s) = [Atom ''TEXT'', Quoted s]"
| "query_tokens (SkHeader n v) = [Atom ''HEADER'', Quoted n, Quoted v]"
| "query_tokens (SkBefore d) = [Atom ''BEFORE'', Quoted (show_imap_date (nat d))]"
| "query_tokens (SkOn d) = [Atom ''ON'', Quoted (show_imap_date (nat d))]"
| "query_tokens (SkSince d) = [Atom ''SINCE'', Quoted (show_imap_date (nat d))]"
| "query_tokens (SkSentBefore d) = [Atom ''SENTBEFORE'', Quoted (show_imap_date (nat d))]"
| "query_tokens (SkSentOn d) = [Atom ''SENTON'', Quoted (show_imap_date (nat d))]"
| "query_tokens (SkSentSince d) = [Atom ''SENTSINCE'', Quoted (show_imap_date (nat d))]"
| "query_tokens (SkLarger n) = [Atom ''LARGER'', Atom (show_nat n)]"
| "query_tokens (SkSmaller n) = [Atom ''SMALLER'', Atom (show_nat n)]"
| "query_tokens (SkUid s) = [Atom ''UID'', Atom (show_seqset s)]"
| "query_tokens (SkSequence s) = [Atom (show_seqset s)]"

definition writable_day :: "int \<Rightarrow> bool" where
  "writable_day d = (0 \<le> d \<and> d \<le> 2 ^ 62)"

fun writable :: "search_key \<Rightarrow> bool" where
  "writable (SkAnd ks) = list_all writable ks"
| "writable (SkOr a b) = (writable a \<and> writable b)"
| "writable (SkNot k) = writable k"
| "writable (SkBefore d) = writable_day d"
| "writable (SkOn d) = writable_day d"
| "writable (SkSince d) = writable_day d"
| "writable (SkSentBefore d) = writable_day d"
| "writable (SkSentOn d) = writable_day d"
| "writable (SkSentSince d) = writable_day d"
| "writable (SkLarger n) = (n \<le> u64_max)"
| "writable (SkSmaller n) = (n \<le> u64_max)"
| "writable (SkUid s) = wf_seqset s"
| "writable (SkSequence s) = wf_seqset s"
| "writable _ = True"

section \<open>Reading it back\<close>

text \<open>What the parser reads with enough fuel.\<close>

definition parses :: "unicode \<Rightarrow> token list \<Rightarrow> search_key \<Rightarrow> token list \<Rightarrow> bool" where
  "parses u ts k r = (\<exists>n. parse_key n u ts = Some (Some k, r))"

definition parses_list :: "unicode \<Rightarrow> bool \<Rightarrow> token list \<Rightarrow> search_key list \<Rightarrow> token list \<Rightarrow> bool" where
  "parses_list u g ts ks r = (\<exists>n. parse_key_list n u g ts = Some (ks, r))"

definition same_search :: "unicode \<Rightarrow> search_key \<Rightarrow> search_key \<Rightarrow> bool" where
  "same_search u a b = (\<forall>m ctx. search_matches u a m ctx = search_matches u b m ctx)"

lemma same_fold_and: "list_all2 (same_search u) ks' ks \<Longrightarrow> same_search u (fold_and ks') (SkAnd ks)"
proof -
  assume s: "list_all2 (same_search u) ks' ks"
  have "search_matches u (fold_and ks') m ctx = list_all (\<lambda>k. search_matches u k m ctx) ks'" for m ctx
    by (auto simp: fold_and_def split: list.split)
  moreover have "list_all (\<lambda>k. search_matches u k m ctx) ks' = list_all (\<lambda>k. search_matches u k m ctx) ks" for m ctx
    using s by (induction rule: list_all2_induct) (simp_all add: same_search_def)
  ultimately show ?thesis by (simp add: same_search_def)
qed

lemma parses_group: "parses_list u True ts ks r \<Longrightarrow> parses u (LParen # ts) (fold_and ks) r"
  unfolding parses_def parses_list_def by (elim exE, rule_tac x = "Suc n" in exI) simp

lemma parses_list_step:
  assumes "parses u (t # ts) k r" "t \<noteq> RParen" "parses_list u g r ks r2"
  shows "parses_list u g (t # ts) (k # ks) r2"
proof -
  obtain a b where "parse_key a u (t # ts) = Some (Some k, r)" "parse_key_list b u g r = Some (ks, r2)"
    using assms by (auto simp: parses_def parses_list_def)
  then have "parse_key (max a b) u (t # ts) = Some (Some k, r)" "parse_key_list (max a b) u g r = Some (ks, r2)"
    using parse_more_fuel(1,2) by (meson max.cobounded1 max.cobounded2)+
  then have "parse_key_list (Suc (max a b)) u g (t # ts) = Some (k # ks, r2)" unfolding parse_key_list_cons [OF assms(2)] by simp
  then show ?thesis unfolding parses_list_def by blast
qed

lemma parses_atom: "parse_atom_key n u a ts = Some (k, r) \<Longrightarrow> parses u (Atom a # ts) k r"
  unfolding parses_def by (rule exI [of _ "Suc n"]) simp

lemma parses_or:
  assumes "parses u ts k1 r" "parses u r k2 r2"
  shows "parses u (Atom ''OR'' # ts) (SkOr k1 k2) r2"
proof -
  obtain a b where "parse_key a u ts = Some (Some k1, r)" "parse_key b u r = Some (Some k2, r2)"
    using assms by (auto simp: parses_def)
  then have "parse_key (max a b) u ts = Some (Some k1, r)" "parse_key (max a b) u r = Some (Some k2, r2)"
    using parse_more_fuel(1) by (meson max.cobounded1 max.cobounded2)+
  then have "parse_atom_key (Suc (max a b)) u ''OR'' ts = Some (SkOr k1 k2, r2)"
    by (simp add: or_all_def to_uppercase_def is_ascii_def to_ascii_uppercase_def ascii_upper_char_def)
  then show ?thesis by (rule parses_atom)
qed

lemma parses_not: "parses u ts k r \<Longrightarrow> parses u (Atom ''NOT'' # ts) (SkNot k) r"
  unfolding parses_def [of u ts]
  by (elim exE, rule_tac n = "Suc n" in parses_atom)
     (simp add: or_all_def to_uppercase_def is_ascii_def to_ascii_uppercase_def ascii_upper_char_def)

lemma parses_leaf:
  "to_uppercase u a \<notin> {''OR'', ''NOT'', ''CHARSET''} \<Longrightarrow> leaf_key u (to_uppercase u a) a ts = (k, r) \<Longrightarrow> parses u (Atom a # ts) k r"
  by (rule parses_atom [of 1]) (simp add: Let_def)

lemmas upper_simps = to_uppercase_def is_ascii_def to_ascii_uppercase_def ascii_upper_char_def

lemma leaf_digit: "is_digit (hd key) \<Longrightarrow> leaf_key u key a ts = (if is_seqset a then (SkSequence (parse_seqset a), ts) else (SkAll, ts))"
proof -
  assume h: "is_digit (hd key)"
  have "key \<noteq> w" if "\<not> is_digit (hd w)" for w using h that by auto
  then show ?thesis by (simp add: leaf_key_def is_digit_def)
qed

lemma show_nat_chars: "c \<in> set (show_nat n) \<Longrightarrow> is_digit c" "show_nat n \<noteq> []" "is_digit (hd (show_nat n))"
  using show_nat_digits [of n] by (auto simp: list_all_iff)

lemma digit_not: "is_digit c \<Longrightarrow> c \<noteq> CHR '':'' \<and> c \<noteq> CHR '','' \<and> c \<noteq> CHR ''*'' \<and> c \<noteq> CHR '' '' \<and> \<not> atom_stop c
    \<and> c \<noteq> CHR 0x0D \<and> c \<noteq> CHR 0x0A"
  by (auto simp: is_digit_def atom_stop_def)

lemma range_chars: "c \<in> set (show_range r) \<Longrightarrow> is_digit c \<or> c = CHR '':'' \<or> c = CHR ''*''"
  using show_nat_chars(1) by (auto simp: show_range_def split: option.splits)

lemma parse_u32_show: "n \<le> u32_max \<Longrightarrow> parse_u32 (show_nat n) = Some n"
  unfolding parse_u32_def by (rule parse_unsigned_show_nat)

lemma show_nat_not_star: "show_nat n \<noteq> ''*''"
  using show_nat_chars(3) [of n] digit_not by fastforce

lemma parse_show_range:
  assumes "sr_start r \<le> u32_max" "case sr_end r of None \<Rightarrow> True | Some e \<Rightarrow> e \<le> u32_max"
  shows "parse_seq_part (show_range r) = [r]"
proof -
  have "CHR '':'' \<notin> set (show_nat (sr_start r))" using show_nat_chars(1) digit_not by blast
  from split_once_append [OF this] have "split_once CHR '':'' (show_range r)
      = Some (show_nat (sr_start r), case sr_end r of None \<Rightarrow> ''*'' | Some e \<Rightarrow> show_nat e)" by (simp add: show_range_def)
  moreover have "show_range r \<noteq> []" by (simp add: show_range_def)
  ultimately show ?thesis using assms
    by (cases r; cases "sr_end r") (simp_all add: parse_seq_part_def show_nat_not_star parse_u32_show)
qed

lemma parse_show_seqset: "wf_seqset s \<Longrightarrow> parse_seqset (show_seqset s) = s"
proof -
  assume s: "wf_seqset s"
  have "split_on CHR '','' (show_seqset s) = map show_range s" unfolding show_seqset_def
    by (rule split_on_join) (use s range_chars digit_not in \<open>fastforce simp: wf_seqset_def\<close>)+
  moreover have "list_all (\<lambda>r. parse_seq_part (show_range r) = [r]) s"
    using s by (auto simp: wf_seqset_def list_all_iff intro!: parse_show_range)
  then have "concat (map (parse_seq_part \<circ> show_range) s) = s" by (induction s) simp_all
  ultimately show ?thesis by (simp add: parse_seqset_def)
qed

lemma join_chars: "c \<in> set (join sep xs) \<Longrightarrow> c \<in> set sep \<or> (\<exists>x \<in> set xs. c \<in> set x)"
  by (induction sep xs rule: join.induct) auto

lemma join_hd: "xs \<noteq> [] \<Longrightarrow> hd xs \<noteq> [] \<Longrightarrow> hd (join sep xs) = hd (hd xs) \<and> join sep xs \<noteq> []"
  by (cases xs; cases "tl xs") auto

lemma seqset_text:
  assumes "wf_seqset s"
  shows "is_seqset (show_seqset s)" "is_digit (hd (show_seqset s))" "to_uppercase u (show_seqset s) = show_seqset s"
    "\<forall>c \<in> set (show_seqset s). \<not> atom_stop c \<and> c \<noteq> CHR 0x0D \<and> c \<noteq> CHR 0x0A"
proof -
  obtain r rs where s: "s = r # rs" using assms by (cases s) (auto simp: wf_seqset_def)
  have h: "hd (show_seqset s) = hd (show_range r)" "show_seqset s \<noteq> []"
    using join_hd [of "map show_range s" "'',''"] by (simp_all add: s show_seqset_def show_range_def)
  then show d: "is_digit (hd (show_seqset s))" using show_nat_chars(2,3) [of "sr_start r"] by (simp add: show_range_def)
  have c: "c \<in> set (show_seqset s) \<Longrightarrow> is_digit c \<or> c = CHR '':'' \<or> c = CHR ''*'' \<or> c = CHR '',''" for c
    using join_chars [of c "'',''" "map show_range s"] range_chars by (auto simp: show_seqset_def)
  then show "is_seqset (show_seqset s)" using h(2) by (auto simp: is_seqset_def list_all_iff)
  show "\<forall>c \<in> set (show_seqset s). \<not> atom_stop c \<and> c \<noteq> CHR 0x0D \<and> c \<noteq> CHR 0x0A"
    using c digit_not by (fastforce simp: atom_stop_def)
  have "c \<in> set (show_seqset s) \<Longrightarrow> byte_of c < 128 \<and> ascii_upper_char c = c" for c
    using c [of c] by (auto simp: is_digit_def ascii_upper_char_def)
  then show "to_uppercase u (show_seqset s) = show_seqset s"
    by (simp add: upper_simps(1) is_ascii_def list_all_iff to_ascii_uppercase_def map_idI)
qed

lemma day_arg:
  assumes "writable_day d"
  shows "date_key u f (Quoted (show_imap_date (nat d)) # r) = (f d, r)"
proof -
  have "nat d \<le> 2 ^ 63 - 720000" using assms by (auto simp: writable_day_def)
  then show ?thesis using show_imap_date_parses [of "nat d" u] assms by (simp add: date_key_def next_arg_def writable_day_def)
qed

lemma size_arg: "n \<le> u64_max \<Longrightarrow> size_key f (Atom (show_nat n) # r) = (f n, r)"
  using parse_unsigned_show_nat [of n u64_max] by (simp add: size_key_def next_arg_def parse_u64_def)

lemma str_arg: "str_key f (Quoted s # r) = (f s, r)"
  by (simp add: str_key_def next_arg_def)

lemma query_hd: "\<exists>t r. query_tokens k = t # r \<and> t \<noteq> RParen"
  by (cases k) auto

fun is_leaf :: "search_key \<Rightarrow> bool" where
  "is_leaf (SkAnd _) = False"
| "is_leaf (SkOr _ _) = False"
| "is_leaf (SkNot _) = False"
| "is_leaf (SkSequence _) = False"
| "is_leaf _ = True"

lemma upper_word: "list_all (\<lambda>c. byte_of c < 97) w \<Longrightarrow> to_uppercase u w = w"
proof -
  assume w: "list_all (\<lambda>c. byte_of c < 97) w"
  then have "is_ascii w" by (auto simp: is_ascii_def list_all_iff)
  moreover have "map ascii_upper_char w = w" using w by (auto simp: list_all_iff ascii_upper_char_def intro!: map_idI)
  ultimately show ?thesis by (simp add: to_uppercase_def to_ascii_uppercase_def)
qed

lemma parses_word:
  "list_all (\<lambda>c. byte_of c < 97) a \<Longrightarrow> a \<notin> {''OR'', ''NOT'', ''CHARSET''} \<Longrightarrow> leaf_key u a a ts = (k, r) \<Longrightarrow> parses u (Atom a # ts) k r"
  using parses_leaf [of u a ts k r] by (simp add: upper_word)

lemma parses_leaf_query: "is_leaf k \<Longrightarrow> writable k \<Longrightarrow> parses u (query_tokens k @ r) k r"
  by (cases k) (simp_all add: parses_word leaf_key_def next_arg_def str_arg day_arg size_arg parse_show_seqset)

lemma parses_and:
  assumes "list_all writable ks"
    and "\<And>k r. k \<in> set ks \<Longrightarrow> writable k \<Longrightarrow> \<exists>k'. parses u (query_tokens k @ r) k' r \<and> same_search u k' k"
  shows "\<exists>ks'. parses_list u True (concat (map query_tokens ks) @ RParen # r) ks' r \<and> list_all2 (same_search u) ks' ks"
  using assms
proof (induction ks)
  case Nil
  have "parse_key_list 1 u True (RParen # r) = Some ([], r)" by simp
  then have "parses_list u True (RParen # r) [] r" unfolding parses_list_def by blast
  then show ?case by (intro exI [of _ "[]"]) simp
next
  case (Cons k ks)
  obtain ks' where ks': "parses_list u True (concat (map query_tokens ks) @ RParen # r) ks' r" "list_all2 (same_search u) ks' ks"
    using Cons by auto
  obtain k' where k': "parses u (query_tokens k @ concat (map query_tokens ks) @ RParen # r) k' (concat (map query_tokens ks) @ RParen # r)"
      "same_search u k' k" using Cons.prems(2) [of k] Cons.prems(1) by fastforce
  obtain t q where t: "query_tokens k = t # q" "t \<noteq> RParen" using query_hd by blast
  have "parses_list u True (concat (map query_tokens (k # ks)) @ RParen # r) (k' # ks') r"
    using parses_list_step [OF _ t(2) ks'(1)] k'(1) t(1) by simp
  then show ?case using ks'(2) k'(2) by (intro exI [of _ "k' # ks'"]) simp
qed

lemma size_in_and: "k \<in> set ks \<Longrightarrow> size k < size (SkAnd ks)"
  by (induction ks) auto

lemma parses_query: "writable k \<Longrightarrow> \<exists>k'. parses u (query_tokens k @ r) k' r \<and> same_search u k' k"
proof (induction k arbitrary: r rule: measure_induct_rule [of size])
  case (less k)
  consider "is_leaf k" | ks where "k = SkAnd ks" | a b where "k = SkOr a b" | a where "k = SkNot a" | s where "k = SkSequence s"
    by (cases k) auto
  then show ?case
  proof cases
    case 1
    then show ?thesis using parses_leaf_query less.prems by (intro exI [of _ k]) (simp add: same_search_def)
  next
    case 2
    have "list_all writable ks" using less.prems 2 by simp
    from parses_and [OF this, of u r] less.IH size_in_and 2 obtain ks'
      where "parses_list u True (concat (map query_tokens ks) @ RParen # r) ks' r" "list_all2 (same_search u) ks' ks" by blast
    then show ?thesis using 2 parses_group same_fold_and by (intro exI [of _ "fold_and ks'"]) simp
  next
    case 3
    obtain a' where "parses u (query_tokens a @ query_tokens b @ r) a' (query_tokens b @ r)" "same_search u a' a"
      using less.IH [of a] less.prems 3 by fastforce
    moreover obtain b' where "parses u (query_tokens b @ r) b' r" "same_search u b' b" using less.IH [of b] less.prems 3 by fastforce
    ultimately show ?thesis using 3 by (intro exI [of _ "SkOr a' b'"]) (simp add: parses_or same_search_def)
  next
    case 4
    then obtain k' where "parses u (query_tokens a @ r) k' r" "same_search u k' a" using less.IH [of a] less.prems by fastforce
    then show ?thesis using 4 by (intro exI [of _ "SkNot k'"]) (simp add: parses_not same_search_def)
  next
    case 5
    then have s: "wf_seqset s" using less.prems by simp
    have "leaf_key u (to_uppercase u (show_seqset s)) (show_seqset s) r = (SkSequence s, r)"
      using seqset_text [OF s] by (simp add: leaf_digit parse_show_seqset [OF s])
    moreover have "to_uppercase u (show_seqset s) \<notin> {''OR'', ''NOT'', ''CHARSET''}"
      using seqset_text(2,3) [OF s] by (auto simp: is_digit_def)
    ultimately have "parses u (Atom (show_seqset s) # r) (SkSequence s) r" by (intro parses_leaf)
    then show ?thesis using 5 by (intro exI [of _ "SkSequence s"]) (simp add: same_search_def)
  qed
qed

section \<open>Text\<close>

definition quote_chars :: "string \<Rightarrow> string" where
  "quote_chars s = concat (map (\<lambda>c. if c = CHR 0x5C \<or> c = CHR 0x22 then [CHR 0x5C, c] else [c]) s)"

fun show_token :: "token \<Rightarrow> string" where
  "show_token LParen = ''(''"
| "show_token RParen = '')''"
| "show_token (Atom a) = a"
| "show_token (Quoted s) = CHR 0x22 # quote_chars s @ [CHR 0x22]"

definition show_query :: "search_key \<Rightarrow> string" where
  "show_query k = concat (map (\<lambda>t. show_token t @ '' '') (query_tokens k))"

definition plain_atom :: "string \<Rightarrow> bool" where
  "plain_atom a = (a \<noteq> [] \<and> list_all (\<lambda>c. \<not> atom_stop c \<and> c \<noteq> CHR 0x0D \<and> c \<noteq> CHR 0x0A) a)"

definition plain_token :: "token \<Rightarrow> bool" where
  "plain_token t = (case t of Atom a \<Rightarrow> plain_atom a | _ \<Rightarrow> True)"

lemma read_quoted_back: "read_quoted (quote_chars s @ CHR 0x22 # r) = (s, r)"
proof (induction s)
  case Nil
  then show ?case by (simp add: quote_chars_def read_quoted_esc)
next
  case (Cons c s)
  have q: "quote_chars (c # s) = (if c = CHR 0x5C \<or> c = CHR 0x22 then [CHR 0x5C, c] else [c]) @ quote_chars s" by (simp add: quote_chars_def)
  show ?case unfolding q using Cons.IH by (simp add: read_quoted_esc read_quoted_char)
qed

lemma tokenize_show: "plain_token t \<Longrightarrow> tokenize (show_token t @ CHR '' '' # r) = t # tokenize r"
proof (cases t)
  case (Atom a)
  assume "plain_token t"
  then obtain c s where a: "a = c # s" and c: "\<not> atom_stop c" "c \<noteq> CHR 0x0D" "c \<noteq> CHR 0x0A" and s: "\<forall>x \<in> set s. \<not> atom_stop x"
    using Atom by (cases a) (auto simp: plain_token_def plain_atom_def list_all_iff)
  have "takeWhile (\<lambda>x. \<not> atom_stop x) (s @ CHR '' '' # r) = s" "dropWhile (\<lambda>x. \<not> atom_stop x) (s @ CHR '' '' # r) = CHR '' '' # r"
    using s by (auto simp: takeWhile_append2 dropWhile_append2 atom_stop_def)
  then show ?thesis using c by (simp add: Atom a atom_stop_def)
qed (simp_all add: read_quoted_back)

lemma tokenize_tokens: "list_all plain_token ts \<Longrightarrow> tokenize (concat (map (\<lambda>t. show_token t @ '' '') ts)) = ts"
  by (induction ts) (simp_all add: tokenize_show)

lemma plain_nat: "plain_atom (show_nat n)"
  using show_nat_chars digit_not by (fastforce simp: plain_atom_def list_all_iff)

lemma plain_seqset: "wf_seqset s \<Longrightarrow> plain_atom (show_seqset s)"
  using seqset_text [of s] by (auto simp: plain_atom_def list_all_iff is_seqset_def)

lemma plain_query: "writable k \<Longrightarrow> list_all plain_token (query_tokens k)"
proof (induction k)
  case (SkAnd ks)
  then show ?case by (auto simp: list_all_iff plain_token_def)
qed (simp_all add: plain_token_def plain_nat plain_seqset, simp_all add: plain_atom_def atom_stop_def)

section \<open>Properties\<close>

text \<open>
  Parsing a search argument ends, for every text a client can send, unbalanced and nested groups included: two
  levels of recursion per token are enough, and a larger bound does not change the query.
\<close>

theorem search_parse_total:
  "\<exists>k. \<forall>n \<ge> 2 * length (tokenize args) + 2. search_parse n u args = Some k"
proof -
  let ?n = "2 * length (tokenize args) + 2"
  obtain ks r where "parse_key_list ?n u False (tokenize args) = Some (ks, r)"
    using parse_fuel(2) [of "tokenize args" ?n u False] by auto
  then have "\<forall>n \<ge> ?n. search_parse n u args = Some (fold_and ks)"
    using parse_keys_stable [of "tokenize args" _ u False] by (simp add: search_parse_def)
  then show ?thesis by blast
qed

theorem search_parse_total_witness:
  "\<exists>k. \<forall>n \<ge> 2 * length (tokenize '')) NOT (OR ('') + 2. search_parse n \<lparr>uni_upper = id, uni_lower = id, uni_alnum = (\<lambda>_. True)\<rparr> '')) NOT (OR ('' = Some k"
  by (rule search_parse_total)

text \<open>
  C20: Parsing a written query gives a query that matches exactly the same messages: every combination of
  and, or and not, every flag, text, header, date, size and set criterion, with any text as an argument.
\<close>

theorem search_roundtrip:
  assumes "writable k"
  shows "\<exists>k' n0. \<forall>n \<ge> n0. search_parse n u (show_query k) = Some k' \<and> (\<forall>m ctx. search_matches u k' m ctx = search_matches u k m ctx)"
proof -
  have tok: "tokenize (show_query k) = query_tokens k" unfolding show_query_def by (rule tokenize_tokens [OF plain_query [OF assms]])
  obtain k' where k': "parses u (query_tokens k @ []) k' []" "same_search u k' k" using parses_query [OF assms] by blast
  obtain t q where t: "query_tokens k = t # q" "t \<noteq> RParen" using query_hd by blast
  have "parse_key_list 1 u False [] = Some ([], [])" by simp
  then have "parses_list u False [] [] []" unfolding parses_list_def by blast
  then have "parses_list u False (query_tokens k) [k'] []" using parses_list_step [OF _ t(2)] k'(1) t(1) by simp
  then obtain n0 where "parse_key_list n0 u False (query_tokens k) = Some ([k'], [])" unfolding parses_list_def by blast
  then have "\<forall>n \<ge> n0. parse_key_list n u False (query_tokens k) = Some ([k'], [])" using parse_more_fuel(2) by blast
  then have "\<forall>n \<ge> n0. search_parse n u (show_query k) = Some k'" unfolding search_parse_def tok by (simp add: fold_and_def)
  then show ?thesis using k'(2) unfolding same_search_def by blast
qed

theorem search_roundtrip_witness:
  "let k = SkAnd [SkNot (SkSubject [CHR 0x22, CHR ''a'']), SkOr (SkUid [\<lparr>sr_start = 3, sr_end = None\<rparr>]) (SkSince 19000)]
   in \<exists>k' n0. \<forall>n \<ge> n0. search_parse n \<lparr>uni_upper = id, uni_lower = id, uni_alnum = (\<lambda>_. True)\<rparr> (show_query k) = Some k'"
  using search_roundtrip [of "SkAnd [SkNot (SkSubject [CHR 0x22, CHR ''a'']), SkOr (SkUid [\<lparr>sr_start = 3, sr_end = None\<rparr>]) (SkSince 19000)]"
      "\<lparr>uni_upper = id, uni_lower = id, uni_alnum = (\<lambda>_. True)\<rparr>"]
  by (auto simp: wf_seqset_def writable_day_def Let_def)

text \<open>The negation of a criterion the parser does not know hides every message.\<close>

theorem search_not_unknown_hides:
  "search_parse 8 u ''NOT X-GM-RAW'' = Some (SkNot SkAll) \<and> \<not> search_matches u (SkNot SkAll) m ctx"
proof -
  have t: "tokenize ''NOT X-GM-RAW'' = [Atom ''NOT'', Atom ''X-GM-RAW'']" by (simp add: atom_stop_def)
  have leaf: "leaf_key u (to_uppercase u ''X-GM-RAW'') ''X-GM-RAW'' [] = (SkAll, [])"
    by (simp add: upper_simps leaf_key_def is_seqset_def is_digit_def)
  have up: "to_uppercase u ''X-GM-RAW'' = ''X-GM-RAW''" "to_uppercase u ''NOT'' = ''NOT''" by (simp_all add: upper_simps)
  have "8 = Suc (Suc (Suc (Suc (Suc (Suc (Suc (Suc 0)))))))" by simp
  then show ?thesis using leaf by (simp only: search_parse_def t) (simp add: up or_all_def fold_and_def)
qed

end
