(* ===== verification/Utf7.thy ===== *)
theory Utf7
  imports RustStr Base64
begin

text \<open>
  Modified UTF-7 for IMAP mailbox names (\<open>crates/bridge/src/imap/utf7.rs\<close>). A text is read as its characters,
  each a Unicode scalar value; the wire form is bytes. The modified base64 engine is a parameter.
\<close>

section \<open>Definitions\<close>

definition is_direct :: "nat \<Rightarrow> bool" where
  "is_direct c = (0x20 \<le> c \<and> c \<le> 0x7E \<and> c \<noteq> 0x26)"

text \<open>\<open>char::encode_utf16\<close> and \<open>u16::to_be_bytes\<close>\<close>

definition encode_utf16 :: "nat \<Rightarrow> nat list" where
  "encode_utf16 c = (if c < 0x10000 then [c] else [0xD800 + (c - 0x10000) div 0x400, 0xDC00 + (c - 0x10000) mod 0x400])"

definition unit_bytes :: "nat \<Rightarrow> string" where
  "unit_bytes u = [char_of (u div 256), char_of (u mod 256)]"

definition flush :: "base64 \<Rightarrow> nat list \<Rightarrow> string" where
  "flush b shifted = (if shifted = [] then [] else CHR ''&'' # b64_encode b (concat (map unit_bytes shifted)) @ ''-'')"

fun encode_loop :: "base64 \<Rightarrow> nat list \<Rightarrow> nat list \<Rightarrow> string" where
  "encode_loop b shifted [] = flush b shifted"
| "encode_loop b shifted (c # cs) =
     (if c = 0x26 then flush b shifted @ ''&-'' @ encode_loop b [] cs
      else if is_direct c then flush b shifted @ char_of c # encode_loop b [] cs
      else encode_loop b (shifted @ encode_utf16 c) cs)"

text \<open>\<open>u16::from_be_bytes\<close> on chunks of two, and \<open>String::from_utf16\<close>\<close>

fun units_of :: "string \<Rightarrow> nat list" where
  "units_of (a # b # s) = (byte_of a * 256 + byte_of b) # units_of s"
| "units_of _ = []"

fun from_utf16 :: "nat list \<Rightarrow> nat list option" where
  "from_utf16 [] = Some []"
| "from_utf16 (u # us) = (if u < 0xD800 \<or> 0xDFFF < u then map_option (Cons u) (from_utf16 us)
     else if 0xDC00 \<le> u then None
     else case us of [] \<Rightarrow> None
       | v # vs \<Rightarrow> if 0xDC00 \<le> v \<and> v \<le> 0xDFFF
           then map_option (Cons (0x10000 + (u - 0xD800) * 0x400 + (v - 0xDC00))) (from_utf16 vs) else None)"

definition decode_chunk :: "base64 \<Rightarrow> string \<Rightarrow> nat list option" where
  "decode_chunk b chunk = (if chunk = [] then Some [0x26]
     else case b64_decode b chunk of None \<Rightarrow> None
       | Some d \<Rightarrow> if length d mod 2 \<noteq> 0 then None else from_utf16 (units_of d))"

function decode_bytes :: "base64 \<Rightarrow> string \<Rightarrow> nat list option" where
  "decode_bytes b [] = Some []"
| "decode_bytes b (c # s) =
     (if c = CHR ''&'' then
        (case split_once CHR ''-'' s of None \<Rightarrow> None
         | Some (chunk, rest) \<Rightarrow> (case decode_chunk b chunk of None \<Rightarrow> None
             | Some w \<Rightarrow> map_option ((@) w) (decode_bytes b rest)))
      else map_option (Cons (byte_of c)) (decode_bytes b s))"
  by pat_completeness auto
termination
  by (relation "measure (\<lambda>(b, s). length s)") (auto dest!: split_once_Some)

text \<open>The characters of a UTF-8 string, and back.\<close>

definition utf8_bytes :: "nat \<Rightarrow> string" where
  "utf8_bytes c = (if c < 0x80 then [char_of c]
     else if c < 0x800 then [char_of (0xC0 + c div 64), char_of (0x80 + c mod 64)]
     else if c < 0x10000 then [char_of (0xE0 + c div 4096), char_of (0x80 + c div 64 mod 64), char_of (0x80 + c mod 64)]
     else [char_of (0xF0 + c div 262144), char_of (0x80 + c div 4096 mod 64), char_of (0x80 + c div 64 mod 64), char_of (0x80 + c mod 64)])"

definition utf7_encode :: "base64 \<Rightarrow> string \<Rightarrow> string" where
  "utf7_encode b s = encode_loop b [] (map code_point (chars_of s))"

definition utf7_decode :: "base64 \<Rightarrow> string \<Rightarrow> string option" where
  "utf7_decode b s = map_option (\<lambda>cs. concat (map utf8_bytes cs)) (decode_bytes b s)"

section \<open>The engine\<close>

text \<open>What the modified base64 engine provides: decoding inverts encoding, nothing encodes to nothing, and the alphabet has no dash.\<close>

definition utf7_engine :: "base64 \<Rightarrow> bool" where
  "utf7_engine b = (b64_inverse b \<and> b64_encode b [] = [] \<and>
     (\<forall>s. list_all (\<lambda>c. 0x20 < byte_of c \<and> byte_of c < 0x7F \<and> c \<noteq> CHR ''-'') (b64_encode b s)))"

lemma utf7_engine_rfc4648: "utf7_engine rfc4648"
proof -
  have "b64_char c \<Longrightarrow> 0x20 < byte_of c \<and> byte_of c < 0x7F \<and> c \<noteq> CHR ''-''" for c
    by (auto simp: b64_char_def ascii_alnum_def Let_def)
  then show ?thesis using rfc4648_laws by (auto simp: utf7_engine_def b64_laws_def list_all_iff) (simp add: rfc4648_def)
qed

lemma engine_nonempty: "utf7_engine b \<Longrightarrow> s \<noteq> [] \<Longrightarrow> b64_encode b s \<noteq> []"
  unfolding utf7_engine_def b64_inverse_def by (metis option.inject)

section \<open>UTF-16\<close>

definition scalar :: "nat \<Rightarrow> bool" where
  "scalar c = (c < 0x110000 \<and> \<not> (0xD800 \<le> c \<and> c \<le> 0xDFFF))"

lemma utf16_units: "scalar c \<Longrightarrow> u \<in> set (encode_utf16 c) \<Longrightarrow> u < 65536"
  by (auto simp: encode_utf16_def scalar_def split: if_splits)

lemma from_utf16_encode: "scalar c \<Longrightarrow> from_utf16 (encode_utf16 c @ us) = map_option (Cons c) (from_utf16 us)"
proof -
  assume c: "scalar c"
  show ?thesis
  proof (cases "c < 0x10000")
    case True
    then show ?thesis using c by (auto simp: encode_utf16_def scalar_def)
  next
    case False
    let ?d = "c - 0x10000"
    have d: "?d < 0x100000" using c False by (simp add: scalar_def)
    then have "?d div 0x400 < 0x400" by simp
    moreover have "?d mod 0x400 \<le> 0x3FF" using mod_less_divisor [of "0x400" ?d] by simp
    moreover have "0x10000 + ?d div 0x400 * 0x400 + ?d mod 0x400 = c" using False by simp
    ultimately show ?thesis using False by (simp add: encode_utf16_def)
  qed
qed

lemma from_utf16_all: "list_all scalar cs \<Longrightarrow> from_utf16 (concat (map encode_utf16 cs)) = Some cs"
  by (induction cs) (simp_all add: from_utf16_encode)

lemma units_of_bytes: "list_all (\<lambda>u. u < 65536) us \<Longrightarrow> units_of (concat (map unit_bytes us)) = us"
  by (induction us) (auto simp: unit_bytes_def)

lemma length_unit_bytes: "length (concat (map unit_bytes us)) = 2 * length us"
  by (induction us) (simp_all add: unit_bytes_def)

section \<open>Decoding an encoding\<close>

lemma decode_flush:
  assumes "utf7_engine b" "list_all scalar ds"
  shows "decode_bytes b (flush b (concat (map encode_utf16 ds)) @ s) = map_option ((@) ds) (decode_bytes b s)"
proof (cases "ds = []")
  case True
  then show ?thesis by (cases "decode_bytes b s") (simp_all add: flush_def)
next
  case False
  let ?us = "concat (map encode_utf16 ds)"
  let ?e = "b64_encode b (concat (map unit_bytes ?us))"
  obtain d ds' where ds: "ds = d # ds'" using False by (cases ds) auto
  have ne: "(?us = []) = False" by (simp add: ds encode_utf16_def)
  have bnd: "list_all (\<lambda>u. u < 65536) ?us" using assms(2) utf16_units by (auto simp: list_all_iff)
  have "length (concat (map unit_bytes ?us)) \<noteq> 0" unfolding length_unit_bytes using ne by simp
  then have "concat (map unit_bytes ?us) \<noteq> []" by fastforce
  then have e: "?e \<noteq> []" by (rule engine_nonempty [OF assms(1)])
  have dash: "CHR ''-'' \<notin> set ?e" using assms(1) by (auto simp: utf7_engine_def list_all_iff)
  have "decode_chunk b ?e = Some ds"
    using assms(1) e by (simp add: decode_chunk_def utf7_engine_def b64_inverse_def length_unit_bytes units_of_bytes [OF bnd] from_utf16_all [OF assms(2)])
  moreover have "flush b ?us @ s = CHR ''&'' # ?e @ CHR ''-'' # s" by (simp only: flush_def ne if_False append.simps append_assoc)
  ultimately show ?thesis using split_once_append [OF dash, of s] by simp
qed

lemma decode_encode_loop:
  "utf7_engine b \<Longrightarrow> list_all scalar ds \<Longrightarrow> list_all scalar cs \<Longrightarrow>
    decode_bytes b (encode_loop b (concat (map encode_utf16 ds)) cs) = Some (ds @ cs)"
proof (induction cs arbitrary: ds)
  case Nil
  then show ?case using decode_flush [of b ds "[]"] by simp
next
  case (Cons c cs)
  have t: "decode_bytes b (encode_loop b [] cs) = Some cs" using Cons.IH [of "[]"] Cons.prems by simp
  consider "c = 0x26" | "c \<noteq> 0x26" "is_direct c" | "c \<noteq> 0x26" "\<not> is_direct c" by blast
  then show ?case
  proof cases
    case 1
    then show ?thesis using decode_flush [OF Cons.prems(1,2), of "''&-'' @ encode_loop b [] cs"] t by (simp add: decode_chunk_def)
  next
    case 2
    have b: "byte_of (char_of c) = c" using 2 by (simp add: is_direct_def)
    have "char_of c \<noteq> CHR ''&''"
    proof
      assume "char_of c = CHR ''&''"
      then have "byte_of (char_of c) = byte_of (CHR ''&'')" by (simp only:)
      then show False using b 2(1) by simp
    qed
    then show ?thesis using 2 b decode_flush [OF Cons.prems(1,2), of "char_of c # encode_loop b [] cs"] t by simp
  next
    case 3
    then show ?thesis using Cons.IH [of "ds @ [c]"] Cons.prems by simp
  qed
qed

section \<open>UTF-8\<close>

lemma char_of_byte: "n = byte_of c \<Longrightarrow> char_of n = c"
  by simp

lemma lead_mod:
  fixes x :: nat
  shows "x < 64 \<Longrightarrow> (128 + x) mod 64 = x" "x < 32 \<Longrightarrow> (192 + x) mod 32 = x" "x < 16 \<Longrightarrow> (224 + x) mod 16 = x" "x < 8 \<Longrightarrow> (240 + x) mod 8 = x"
  using mod_mult_self1 [of x 2 64] mod_mult_self1 [of x 6 32] mod_mult_self1 [of x 14 16] mod_mult_self1 [of x 30 8]
  by (simp_all add: add.commute)

lemma low_six:
  fixes n z :: nat
  assumes "z < 64"
  shows "(n * 64 + z) div 64 = n" "(n * 64 + z) mod 64 = z"
  using assms by simp_all

lemma utf8_two:
  assumes "0xC2 \<le> byte_of a" "byte_of a \<le> 0xDF" "cont_byte (byte_of b)"
  shows "utf8_bytes (code_point [a, b]) = [a, b] \<and> scalar (code_point [a, b])"
proof -
  define x y where "x = byte_of a - 0xC0" and "y = byte_of b - 0x80"
  have xy: "byte_of a = 0xC0 + x" "byte_of b = 0x80 + y" "2 \<le> x" "x < 32" "y < 64"
    using assms by (auto simp: x_def y_def cont_byte_def)
  have m: "byte_of a mod 32 = x" "byte_of b mod 64 = y" using xy by (simp_all add: lead_mod)
  have "x * 64 + y < 0x800" "0x80 \<le> x * 64 + y" using xy by simp_all
  moreover have "(x * 64 + y) div 64 = x" "(x * 64 + y) mod 64 = y" using xy by simp_all
  ultimately show ?thesis using xy(1,2) [symmetric]
    by (simp add: m utf8_bytes_def scalar_def char_of_byte)
qed

lemma utf8_three:
  assumes "0xE0 \<le> byte_of a" "byte_of a \<le> 0xEF" "second_ok (byte_of a) (byte_of b)" "cont_byte (byte_of c)"
  shows "utf8_bytes (code_point [a, b, c]) = [a, b, c] \<and> scalar (code_point [a, b, c])"
proof -
  define x y z where "x = byte_of a - 0xE0" and "y = byte_of b - 0x80" and "z = byte_of c - 0x80"
  have x: "byte_of a = 0xE0 + x" "byte_of b = 0x80 + y" "byte_of c = 0x80 + z" "x < 16" "y < 64" "z < 64"
      "x = 0 \<Longrightarrow> 32 \<le> y" "x = 13 \<Longrightarrow> y < 32"
    using assms by (auto simp: x_def y_def z_def cont_byte_def second_ok_def split: if_splits)
  have m: "byte_of a mod 16 = x" "byte_of b mod 64 = y" "byte_of c mod 64 = z" using x(1-6) by (simp_all add: lead_mod)
  let ?n = "x * 4096 + y * 64 + z"
  have n: "?n < 0x10000" using x(4-6) by simp
  have lo: "0x800 \<le> ?n" using x(7) by (cases "x = 0") auto
  have su: "\<not> (0xD800 \<le> ?n \<and> ?n \<le> 0xDFFF)"
  proof (cases "x = 13")
    case True
    then show ?thesis using x(6,8) by simp
  next
    case False
    then consider "x \<le> 12" | "14 \<le> x" by linarith
    then show ?thesis using x(5,6) by cases auto
  qed
  have "?n = (x * 64 + y) * 64 + z" by simp
  then have "?n div 64 = x * 64 + y" "?n mod 64 = z" by (simp_all only: low_six [OF x(6)])
  moreover from this(1) have "?n div 4096 = x" "?n div 64 mod 64 = y"
    using low_six [OF x(5), of x] by (simp_all add: div_mult2_eq [of _ 64 64, simplified])
  ultimately have "?n div 4096 = x" "?n div 64 mod 64 = y" "?n mod 64 = z" by blast+
  then show ?thesis using n lo su x(1-3) [symmetric]
    by (simp add: m utf8_bytes_def scalar_def char_of_byte)
qed

lemma utf8_four:
  assumes "0xF0 \<le> byte_of a" "byte_of a \<le> 0xF4" "second_ok (byte_of a) (byte_of b)" "cont_byte (byte_of c)" "cont_byte (byte_of d)"
  shows "utf8_bytes (code_point [a, b, c, d]) = [a, b, c, d] \<and> scalar (code_point [a, b, c, d])"
proof -
  define x y z w where "x = byte_of a - 0xF0" and "y = byte_of b - 0x80" and "z = byte_of c - 0x80" and "w = byte_of d - 0x80"
  have x: "byte_of a = 0xF0 + x" "byte_of b = 0x80 + y" "byte_of c = 0x80 + z" "byte_of d = 0x80 + w" "x < 5" "y < 64" "z < 64" "w < 64"
      "x = 0 \<Longrightarrow> 16 \<le> y" "x = 4 \<Longrightarrow> y < 16"
    using assms by (auto simp: x_def y_def z_def w_def cont_byte_def second_ok_def split: if_splits)
  have m: "byte_of a mod 8 = x" "byte_of b mod 64 = y" "byte_of c mod 64 = z" "byte_of d mod 64 = w" using x(1-8) by (simp_all add: lead_mod)
  let ?n = "x * 262144 + y * 4096 + z * 64 + w"
  have lo: "0x10000 \<le> ?n" using x(9) by (cases "x = 0") auto
  have hi: "?n < 0x110000"
  proof (cases "x = 4")
    case True
    then show ?thesis using x(7,8,10) by simp
  next
    case False
    then have "x \<le> 3" using x(5) by simp
    then show ?thesis using x(6-8) by simp
  qed
  have "?n = ((x * 64 + y) * 64 + z) * 64 + w" by simp
  then have d1: "?n div 64 = (x * 64 + y) * 64 + z" "?n mod 64 = w" by (simp_all only: low_six [OF x(8)])
  then have d2: "?n div 4096 = x * 64 + y" "?n div 64 mod 64 = z"
    using low_six [OF x(7), of "x * 64 + y"] by (simp_all only: div_mult2_eq [of _ 64 64, simplified])
  then have "?n div 262144 = x" "?n div 4096 mod 64 = y"
    using low_six [OF x(6), of x] by (simp_all only: div_mult2_eq [of _ 4096 64, simplified])
  then have "?n div 262144 = x" "?n div 4096 mod 64 = y" "?n div 64 mod 64 = z" "?n mod 64 = w" using d1 d2 by blast+
  then show ?thesis using lo hi x(1-4) [symmetric]
    by (simp add: m utf8_bytes_def scalar_def char_of_byte)
qed

lemma chars_of_step:
  "byte_of c < 0xC0 \<Longrightarrow> chars_of (c # s) = [c] # chars_of s"
  "0xC0 \<le> byte_of c \<Longrightarrow> byte_of c < 0xE0 \<Longrightarrow> chars_of (c # c1 # s) = [c, c1] # chars_of s"
  "0xE0 \<le> byte_of c \<Longrightarrow> byte_of c < 0xF0 \<Longrightarrow> chars_of (c # c1 # c2 # s) = [c, c1, c2] # chars_of s"
  "0xF0 \<le> byte_of c \<Longrightarrow> chars_of (c # c1 # c2 # c3 # s) = [c, c1, c2, c3] # chars_of s"
  by (simp_all add: chars_of.simps utf8_width_def)

lemma chars_valid: "utf8_valid s \<Longrightarrow> ch \<in> set (chars_of s) \<Longrightarrow> utf8_bytes (code_point ch) = ch \<and> scalar (code_point ch)"
proof (induction s rule: utf8_valid.induct)
  case (2 c s)
  let ?a = "byte_of c"
  consider "?a < 0x80" | "0xC2 \<le> ?a" "?a \<le> 0xDF" | "0xE0 \<le> ?a" "?a \<le> 0xEF" | "0xF0 \<le> ?a" "?a \<le> 0xF4"
    using "2.prems"(1) by (auto simp: Let_def split: if_splits)
  then show ?case
  proof cases
    case 1
    then have "utf8_bytes (code_point [c]) = [c] \<and> scalar (code_point [c])" by (simp add: utf8_bytes_def scalar_def)
    then show ?thesis using 1 2 by (auto simp: chars_of_step)
  next
    case two: 2
    then obtain c1 s1 where s: "s = c1 # s1" "second_ok ?a (byte_of c1)" "utf8_valid s1" using "2.prems"(1) by (auto simp: Let_def split: list.splits)
    moreover have "cont_byte (byte_of c1)" using s(2) two by (simp add: second_ok_def)
    ultimately show ?thesis using two 2 utf8_two [of c c1] by (auto simp: chars_of_step)
  next
    case 3
    then obtain c1 c2 s2 where s: "s = c1 # c2 # s2" "second_ok ?a (byte_of c1)" "cont_byte (byte_of c2)" "utf8_valid s2"
      using "2.prems"(1) by (auto simp: Let_def split: list.splits)
    then show ?thesis using 3 2 utf8_three [of c c1 c2] by (auto simp: chars_of_step)
  next
    case 4
    then obtain c1 c2 c3 s3 where s: "s = c1 # c2 # c3 # s3" "second_ok ?a (byte_of c1)" "cont_byte (byte_of c2)" "cont_byte (byte_of c3)" "utf8_valid s3"
      using "2.prems"(1) by (auto simp: Let_def split: list.splits)
    then show ?thesis using 4 2 utf8_four [of c c1 c2 c3] by (auto simp: chars_of_step)
  qed
qed simp

lemma utf8_chars_back: "utf8_valid s \<Longrightarrow> concat (map utf8_bytes (map code_point (chars_of s))) = s"
  using chars_valid [of s] concat_chars_of [of s] by (simp add: map_idI)

text \<open>Every byte of an encoding is printable ASCII.\<close>

definition printable :: "char \<Rightarrow> bool" where
  "printable c = (0x20 \<le> byte_of c \<and> byte_of c \<le> 0x7E)"

lemma flush_printable: "utf7_engine b \<Longrightarrow> list_all printable (flush b us)"
proof -
  assume "utf7_engine b"
  then have "c \<in> set (b64_encode b s) \<Longrightarrow> printable c" for c s
    unfolding utf7_engine_def list_all_iff printable_def by fastforce
  then show ?thesis by (auto simp: flush_def list_all_iff) (simp_all add: printable_def)
qed

lemma encode_printable: "utf7_engine b \<Longrightarrow> list_all printable (encode_loop b us cs)"
  by (induction b us cs rule: encode_loop.induct) (auto simp: flush_printable is_direct_def printable_def)

section \<open>Properties\<close>

text \<open>
  C27: A mailbox name survives modified UTF-7: whatever Unicode text the name is, its encoding is printable ASCII
  and decodes to the name.
\<close>

theorem utf7_roundtrip:
  assumes "utf7_engine b" "utf8_valid s"
  shows "utf7_decode b (utf7_encode b s) = Some s \<and> list_all printable (utf7_encode b s)"
proof -
  have "list_all scalar (map code_point (chars_of s))" using chars_valid [OF assms(2)] by (auto simp: list_all_iff)
  then have "decode_bytes b (utf7_encode b s) = Some (map code_point (chars_of s))"
    using decode_encode_loop [OF assms(1), of "[]"] by (simp add: utf7_encode_def)
  then show ?thesis using utf8_chars_back [OF assms(2)] encode_printable [OF assms(1)]
    by (simp add: utf7_decode_def utf7_encode_def)
qed

theorem utf7_roundtrip_witness:
  "utf8_valid [CHR 0xC3, CHR 0xA9, CHR ''&''] \<and>
    utf7_decode rfc4648 (utf7_encode rfc4648 [CHR 0xC3, CHR 0xA9, CHR ''&'']) = Some [CHR 0xC3, CHR 0xA9, CHR ''&'']"
proof -
  have v: "utf8_valid [CHR 0xC3, CHR 0xA9, CHR ''&'']" by (simp add: second_ok_def cont_byte_def)
  show ?thesis using v utf7_roundtrip [OF utf7_engine_rfc4648 v] by blast
qed

text \<open>A name that is not ASCII is not refused: its bytes are read as Latin-1.\<close>

theorem utf7_decode_latin1: "utf7_decode b [CHR 0xC3, CHR 0xA9] = Some [CHR 0xC3, CHR 0x83, CHR 0xC2, CHR 0xA9]"
  by (simp add: utf7_decode_def utf8_bytes_def char_of_byte)

end
