(* ===== verification/ImapText.thy ===== *)
theory ImapText
  imports BodyStructure MessageRoundtrip Search Utf7 Backend "HOL-Library.Monad_Syntax"
begin

text \<open>
  The text layer of the IMAP server: the functions of \<open>crates/bridge/src/imap/session.rs\<close> that read the
  arguments of a command and write the items of a FETCH response, and the redaction of logged lines
  of \<open>imap/mod.rs\<close>. They are pure; the session that calls them is the theory after this one.
\<close>

section \<open>Commands and arguments\<close>

text \<open>\<open>s.splitn(n, ' ').collect()\<close>, then the i-th word or a default.\<close>

definition word_or :: "string \<Rightarrow> nat \<Rightarrow> string list \<Rightarrow> string" where
  "word_or d i ws = (if i < length ws then ws ! i else d)"

definition parse_command :: "string \<Rightarrow> string \<times> string \<times> string" where
  "parse_command line = (let parts = splitn 3 CHR '' '' line in (word_or ''*'' 0 parts, word_or [] 1 parts, word_or [] 2 parts))"

fun quoted_token :: "string \<Rightarrow> string \<times> string" where
  "quoted_token [] = ([], [])"
| "quoted_token (c # s) = (if c = BACKSLASH then (case s of [] \<Rightarrow> ([], []) | d # t \<Rightarrow> apfst (Cons d) (quoted_token t))
     else if c = DQUOTE then ([], s) else apfst (Cons c) (quoted_token s))"

definition parse_imap_token :: "string \<Rightarrow> string \<times> string" where
  "parse_imap_token s = (if starts_with [DQUOTE] s then quoted_token (tl s) else span_nonws s)"

definition parse_login_args :: "string \<Rightarrow> string \<times> string" where
  "parse_login_args args = (let (user, rest) = parse_imap_token (trim args) in (user, fst (parse_imap_token (trim_start rest))))"

definition parse_seq_num :: "string \<Rightarrow> nat \<Rightarrow> nat" where
  "parse_seq_num s mx = (if s = ''*'' then mx else case parse_u32 s of Some n \<Rightarrow> n | None \<Rightarrow> 0)"

definition parse_fetch_args :: "string \<Rightarrow> string \<times> string" where
  "parse_fetch_args args = (case find_sub ''('' args of
     Some p \<Rightarrow> (trim (take p args), trim (drop p args))
   | None \<Rightarrow> (let parts = splitn 2 CHR '' '' args in (word_or [] 0 parts, word_or [] 1 parts)))"

definition parse_store_args :: "string \<Rightarrow> string \<times> string" where
  "parse_store_args args = (let parts = splitn 2 CHR '' '' args in (word_or [] 0 parts, word_or [] 1 parts))"

text \<open>\<open>u.split(|c| c == '(' || c == ')' || c.is_whitespace())\<close>\<close>

function item_tokens :: "string \<Rightarrow> string \<Rightarrow> string list" where
  "item_tokens cur [] = [cur]"
| "item_tokens cur (c # s) = (if c = CHR ''('' \<or> c = CHR '')'' then cur # item_tokens [] s
     else if 0 < ws_len (c # s) then cur # item_tokens [] (drop (ws_len (c # s)) (c # s))
     else item_tokens (cur @ [c]) s)"
  by pat_completeness auto
termination
  by (relation "measure (\<lambda>(cur, s). length s)") (auto simp: ws_len_def)

definition needs_body :: "string \<Rightarrow> bool" where
  "needs_body items = (let u = to_ascii_uppercase items in
     contains_sub u ''BODY[]'' \<or> contains_sub u ''BODY.PEEK[]'' \<or> ''RFC822'' \<in> set (item_tokens [] u))"

definition fetch_items_use_content :: "string \<Rightarrow> bool" where
  "fetch_items_use_content items = (let u = to_ascii_uppercase items in
     contains_sub u ''BODY'' \<or> contains_sub u ''RFC822'' \<or> contains_sub u ''ENVELOPE'')"

record append_request =
  ar_tag :: string
  ar_mailbox :: string
  ar_literal_size :: nat

definition append_first_token :: "string \<Rightarrow> string option" where
  "append_first_token args = (let s = trim_start args in
     case strip_prefix [DQUOTE] s of
       Some rest \<Rightarrow> map_option fst (split_once DQUOTE rest)
     | None \<Rightarrow> (let w = fst (span_nonws s) in if w \<noteq> [] then Some w else None))"

definition trim_end_plus :: "string \<Rightarrow> string" where
  "trim_end_plus s = rev (dropWhile (\<lambda>c. c = CHR ''+'') (rev s))"

definition append_literal_size :: "string \<Rightarrow> nat option" where
  "append_literal_size args = (case rsplit_once CHR ''{'' args of None \<Rightarrow> None
     | Some (_, after) \<Rightarrow> (case split_once CHR ''}'' after of None \<Rightarrow> None
         | Some (size_text, _) \<Rightarrow> parse_u64 (trim_end_plus size_text)))"

definition parse_append :: "string \<Rightarrow> append_request option" where
  "parse_append line = (case parse_command line of (tag, cmd, args) \<Rightarrow>
     if \<not> eq_ignore_ascii_case cmd ''APPEND'' then None
     else case append_first_token args of None \<Rightarrow> None
       | Some mailbox \<Rightarrow> (case append_literal_size args of None \<Rightarrow> None
           | Some n \<Rightarrow> Some \<lparr>ar_tag = tag, ar_mailbox = mailbox, ar_literal_size = n\<rparr>))"

definition redact_credentials :: "string \<Rightarrow> bool \<Rightarrow> string" where
  "redact_credentials line awaiting_auth =
     (if awaiting_auth then ''<credentials>''
      else case split_whitespace line of
        tag # verb # rest \<Rightarrow>
          if eq_ignore_ascii_case verb ''LOGIN'' then tag @ '' '' @ verb @ '' <credentials>''
          else if eq_ignore_ascii_case verb ''AUTHENTICATE'' then
            (case rest of mechanism # _ # _ \<Rightarrow> tag @ '' '' @ verb @ '' '' @ mechanism @ '' <credentials>'' | _ \<Rightarrow> line)
          else line
      | _ \<Rightarrow> line)"

section \<open>Envelopes\<close>

definition imap_string :: "string \<Rightarrow> string" where
  "imap_string s = (if s = [] then [DQUOTE, DQUOTE]
     else if list_ex (\<lambda>c. c = CR \<or> c = LF \<or> 128 \<le> byte_of c) s then ''{'' @ show_nat (length s) @ ''}'' @ CRLF @ s
     else [DQUOTE] @ replace_char DQUOTE [BACKSLASH, DQUOTE] (replace_char BACKSLASH [BACKSLASH, BACKSLASH] s) @ [DQUOTE])"

definition format_envelope_mailbox :: "string \<Rightarrow> string \<Rightarrow> string" where
  "format_envelope_mailbox name address =
     (let (user, domain) = (case split_once CHR ''@'' address of Some x \<Rightarrow> x | None \<Rightarrow> (address, []));
          n = (if name = [] then ''NIL'' else imap_string name)
      in ''('' @ n @ '' NIL '' @ imap_string user @ '' '' @ imap_string domain @ '')'')"

definition envelope_address_list :: "(string \<times> string) list \<Rightarrow> string" where
  "envelope_address_list mbs = (if mbs = [] then ''NIL''
     else ''('' @ join '' '' (map (\<lambda>(n, a). format_envelope_mailbox n a) mbs) @ '')'')"

record cached_mail =
  cm_mail :: mail
  cm_body_loaded :: bool
  cm_uid :: nat
  cm_deleted :: bool

definition build_envelope :: "cached_mail \<Rightarrow> address_headers \<Rightarrow> string" where
  "build_envelope cached addresses =
     (let m = cm_mail cached;
          frm = envelope_address_list [(addr_name (sender m), addr_address (sender m))];
          reply_to = (if ah_reply_to addresses = [] then frm else envelope_address_list (ah_reply_to addresses));
          msg_id = (case mail_id m of Some i \<Rightarrow> ''<'' @ list_id i @ ''.'' @ element_id i @ ''@tutabridge.local>'' | None \<Rightarrow> [])
      in ''('' @ [DQUOTE] @ format_rfc2822_date (received_ms m) @ [DQUOTE] @ '' '' @ imap_string (subject m) @ '' '' @ frm @ '' '' @ frm
         @ '' '' @ reply_to @ '' '' @ envelope_address_list (ah_to addresses) @ '' '' @ envelope_address_list (ah_cc addresses)
         @ '' NIL NIL '' @ imap_string msg_id @ '')'')"

text \<open>\<open>address_headers\<close>: exact from the details, parsed from a body reloaded from disk, else the first recipient.\<close>

definition mail_address_headers :: "base64 \<Rightarrow> unicode \<Rightarrow> mail \<Rightarrow> body_entry option \<Rightarrow> address_headers" where
  "mail_address_headers b u m body = (case body of
     Some entry \<Rightarrow> (case be_details entry of
         Some d \<Rightarrow> \<lparr>ah_to = mailboxes (to_recipients d), ah_cc = mailboxes (cc_recipients d), ah_bcc = mailboxes (bcc_recipients d),
                   ah_reply_to = reply_to_addresses d\<rparr>
       | None \<Rightarrow> parse_address_headers b u (be_rfc2822 entry))
   | None \<Rightarrow> \<lparr>ah_to = (case first_recipient m of Some a \<Rightarrow> mailboxes [a] | None \<Rightarrow> []), ah_cc = [], ah_bcc = [], ah_reply_to = []\<rparr>)"

definition join_mailboxes :: "base64 \<Rightarrow> (string \<times> string) list \<Rightarrow> string" where
  "join_mailboxes b mbs = join '', '' (map (\<lambda>(n, a). format_name_and_address b n a) mbs)"

section \<open>FETCH responses\<close>

definition parse_header_fields_section :: "string \<Rightarrow> (string \<times> string list \<times> bool) option" where
  "parse_header_fields_section items =
     (let upper = to_ascii_uppercase items in
      case find_sub ''HEADER.FIELDS'' upper of None \<Rightarrow> None
      | Some start \<Rightarrow>
        let negate = starts_with ''HEADER.FIELDS.NOT'' (drop start upper) in
        (case find_sub ''('' (drop start upper) of None \<Rightarrow> None
         | Some o1 \<Rightarrow> let opn = start + o1 in
           (case find_sub '')'' (drop opn upper) of None \<Rightarrow> None
            | Some c1 \<Rightarrow> let close = opn + c1 in
                Some ((if negate then ''HEADER.FIELDS.NOT'' else ''HEADER.FIELDS'') @ '' '' @ take (close + 1 - opn) (drop opn items),
                      map (trim_matches DQUOTE) (split_whitespace (take (close - (opn + 1)) (drop (opn + 1) upper))), negate))))"

text \<open>\<open>s.split_inclusive("\r\n")\<close>\<close>

fun split_inclusive_crlf :: "string \<Rightarrow> string \<Rightarrow> string list" where
  "split_inclusive_crlf cur [] = (if cur = [] then [] else [cur])"
| "split_inclusive_crlf cur [c] = [cur @ [c]]"
| "split_inclusive_crlf cur (c # d # s) = (if c = CR \<and> d = LF then (cur @ [c, d]) # split_inclusive_crlf [] s
     else split_inclusive_crlf (cur @ [c]) (d # s))"

definition filter_line :: "unicode \<Rightarrow> string list \<Rightarrow> bool \<Rightarrow> string \<Rightarrow> bool \<times> string \<Rightarrow> bool \<times> string" where
  "filter_line u flds negate line st = (case st of (keep0, out) \<Rightarrow>
     let keep = (if \<not> starts_with '' '' line \<and> \<not> starts_with [CHR 0x09] line
                 then (to_uppercase u (trim (hd (split_on CHR '':'' line))) \<in> set flds) \<noteq> negate else keep0)
     in (keep, if keep then out @ line else out))"

definition filter_header_fields :: "unicode \<Rightarrow> string \<Rightarrow> string list \<Rightarrow> bool \<Rightarrow> string" where
  "filter_header_fields u rfc flds negate =
     (let header_len = (case find_sub (CRLF @ CRLF) rfc of Some p \<Rightarrow> p + 2 | None \<Rightarrow> length rfc)
      in snd (fold (filter_line u flds negate) (split_inclusive_crlf [] (take header_len rfc)) (False, [])) @ CRLF)"

definition trim_parens :: "string \<Rightarrow> string" where
  "trim_parens s = rev (dropWhile (\<lambda>c. c = CHR ''('' \<or> c = CHR '')'') (rev (dropWhile (\<lambda>c. c = CHR ''('' \<or> c = CHR '')'') s)))"

definition has_rfc822_full :: "string \<Rightarrow> bool" where
  "has_rfc822_full items_upper = list_ex (\<lambda>t. trim_parens t = ''RFC822'') (split_whitespace items_upper)"

definition literal :: "string \<Rightarrow> string" where
  "literal s = ''{'' @ show_nat (length s) @ ''}'' @ CRLF @ s"

definition mail_flags :: "cached_mail \<Rightarrow> string" where
  "mail_flags cached = join '' '' ((if \<not> unread (cm_mail cached) then [[BACKSLASH] @ ''Seen''] else [])
     @ (if cm_deleted cached then [[BACKSLASH] @ ''Deleted''] else []))"

text \<open>The BODY, HEADER.FIELDS and HEADER items, of which one is answered.\<close>

definition section_parts :: "unicode \<Rightarrow> string \<Rightarrow> string option \<Rightarrow> string list" where
  "section_parts u items rfc =
     (let iu = to_ascii_uppercase items in
      if contains_sub iu ''BODY[]'' \<or> contains_sub iu ''BODY.PEEK[]'' then
        (case rfc of Some r \<Rightarrow> [''BODY[] '' @ literal r] | None \<Rightarrow> [])
      else case parse_header_fields_section items of
        Some (sect, flds, negate) \<Rightarrow>
          (case rfc of Some r \<Rightarrow> [''BODY['' @ sect @ ''] '' @ literal (filter_header_fields u r flds negate)] | None \<Rightarrow> [])
      | None \<Rightarrow> if contains_sub iu ''HEADER'' then
          (case rfc of Some r \<Rightarrow>
             [(if contains_sub iu ''RFC822.HEADER'' then ''RFC822.HEADER'' else ''BODY[HEADER]'') @ '' '' @ literal (extract_headers r)]
           | None \<Rightarrow> [])
        else [])"

text \<open>\<open>None\<close> is a panic of \<open>compute_bodystructure\<close>.\<close>

definition structure_part :: "unicode \<Rightarrow> string option \<Rightarrow> string option" where
  "structure_part u rfc = (case rfc of Some r \<Rightarrow> compute_bodystructure u r
     | None \<Rightarrow> Some (''('' @ bs_quoted ''TEXT'' @ '' '' @ bs_quoted ''HTML'' @ '' ('' @ bs_quoted ''CHARSET'' @ '' '' @ bs_quoted ''UTF-8''
         @ '') NIL NIL '' @ bs_quoted ''BASE64'' @ '' 0 0)''))"

definition build_fetch_response ::
    "base64 \<Rightarrow> unicode \<Rightarrow> nat \<Rightarrow> cached_mail \<Rightarrow> string \<Rightarrow> bool \<Rightarrow> body_entry option \<Rightarrow> string option" where
  "build_fetch_response b u seq cached items uid_mode body =
     (let iu = to_ascii_uppercase items;
          rfc = (case body of Some e \<Rightarrow> Some (be_rfc2822 e)
                 | None \<Rightarrow> if fetch_items_use_content items then Some (mail_to_rfc2822 b (cm_mail cached) None []) else None);
          structure = (if contains_sub iu ''BODYSTRUCTURE'' then map_option (\<lambda>x. [''BODYSTRUCTURE '' @ x]) (structure_part u rfc) else Some [])
      in map_option (\<lambda>st. ''* '' @ show_nat seq @ '' FETCH ('' @ join '' ''
           ((if uid_mode \<or> contains_sub iu ''UID'' then [''UID '' @ show_nat (cm_uid cached)] else [])
            @ (if contains_sub iu ''FLAGS'' then [''FLAGS ('' @ mail_flags cached @ '')''] else [])
            @ (if contains_sub iu ''INTERNALDATE'' then [''INTERNALDATE '' @ [DQUOTE] @ format_internal_date (received_ms (cm_mail cached)) @ [DQUOTE]] else [])
            @ (if contains_sub iu ''RFC822.SIZE'' then [''RFC822.SIZE '' @ show_nat (case rfc of Some r \<Rightarrow> length r | None \<Rightarrow> 0)] else [])
            @ (if contains_sub iu ''ENVELOPE'' then [''ENVELOPE '' @ build_envelope cached (mail_address_headers b u (cm_mail cached) body)] else [])
            @ st @ section_parts u items rfc
            @ (if has_rfc822_full iu then (case rfc of Some r \<Rightarrow> [''RFC822 '' @ literal r] | None \<Rightarrow> []) else []))
           @ '')'' @ CRLF) structure)"

section \<open>Reading a response back\<close>

text \<open>
  The client's side of an address list: an nstring is \<open>NIL\<close>, a quoted string or a literal of declared
  length, a mailbox four of them in parentheses, a list \<open>NIL\<close> or mailboxes in parentheses (as many as
  the fuel allows).
\<close>

definition read_literal :: "string \<Rightarrow> (string \<times> string) option" where
  "read_literal s = (case split_once CHR ''}'' s of None \<Rightarrow> None
     | Some (ds, r) \<Rightarrow> (case (parse_digits ds, strip_prefix CRLF r) of
         (Some n, Some x) \<Rightarrow> if n \<le> length x then Some (take n x, drop n x) else None | _ \<Rightarrow> None))"

definition read_nstring :: "string \<Rightarrow> (string option \<times> string) option" where
  "read_nstring s = (if starts_with [DQUOTE] s then Some (apfst Some (quoted_token (tl s)))
     else if starts_with ''{'' s then map_option (apfst Some) (read_literal (tl s))
     else map_option (\<lambda>r. (None, r)) (strip_prefix ''NIL'' s))"

type_synonym env_mailbox = "string option \<times> string option \<times> string option"

definition read_mailbox :: "string \<Rightarrow> (env_mailbox \<times> string) option" where
  "read_mailbox s = do {
     s1 \<leftarrow> strip_prefix ''('' s; (n, s2) \<leftarrow> read_nstring s1;
     s3 \<leftarrow> strip_prefix '' NIL '' s2; (l, s4) \<leftarrow> read_nstring s3;
     s5 \<leftarrow> strip_prefix '' '' s4; (h, s6) \<leftarrow> read_nstring s5;
     s7 \<leftarrow> strip_prefix '')'' s6; Some ((n, l, h), s7) }"

fun read_mailboxes :: "nat \<Rightarrow> string \<Rightarrow> (env_mailbox list \<times> string) option" where
  "read_mailboxes 0 s = None"
| "read_mailboxes (Suc f) s = (case read_mailbox s of None \<Rightarrow> None
     | Some (m, r) \<Rightarrow> (case strip_prefix '' '' r of
         Some r1 \<Rightarrow> map_option (apfst (Cons m)) (read_mailboxes f r1)
       | None \<Rightarrow> map_option (\<lambda>r1. ([m], r1)) (strip_prefix '')'' r)))"

definition read_address_list :: "nat \<Rightarrow> string \<Rightarrow> (env_mailbox list \<times> string) option" where
  "read_address_list f s = (case strip_prefix ''NIL'' s of Some r \<Rightarrow> Some ([], r)
     | None \<Rightarrow> (case strip_prefix ''('' s of Some r \<Rightarrow> read_mailboxes f r | None \<Rightarrow> None))"

lemma strip_prefix_append [simp]: "strip_prefix p (p @ s) = Some s"
  by (simp add: strip_prefix_def)

lemma quoted_token_escape: "quoted_token (escape_quoted s @ DQUOTE # r) = (s, r)"
  by (induction s) auto

lemma read_literal_back: "read_literal (show_nat (length s) @ ''}'' @ CRLF @ s @ r) = Some (s, r)"
proof -
  have "CHR ''}'' \<notin> set (show_nat n)" for n using show_nat_digits [of n] by (auto simp: list_all_iff is_digit_def)
  then have "split_once (CHR ''}'') (show_nat (length s) @ CHR ''}'' # (CRLF @ s @ r)) = Some (show_nat (length s), CRLF @ s @ r)"
    by (rule split_once_append)
  then show ?thesis using parse_digits_show_nat by (simp add: read_literal_def strip_prefix_def)
qed

lemma read_imap_string: "read_nstring (imap_string s @ r) = Some (Some s, r)"
proof (cases "s = [] \<or> \<not> list_ex (\<lambda>c. c = CR \<or> c = LF \<or> 128 \<le> byte_of c) s")
  case True
  then have "imap_string s = DQUOTE # escape_quoted s @ [DQUOTE]" by (auto simp: imap_string_def escape_quoted_def replace_char_def)
  then show ?thesis by (simp add: read_nstring_def quoted_token_escape)
next
  case False
  then have "imap_string s = CHR ''{'' # show_nat (length s) @ ''}'' @ CRLF @ s" by (simp add: imap_string_def)
  then show ?thesis using read_literal_back [of s r] by (simp add: read_nstring_def)
qed

definition env_mailbox_of :: "string \<times> string \<Rightarrow> env_mailbox" where
  "env_mailbox_of na = (case na of (n, a) \<Rightarrow> (if n = [] then None else Some n,
     case split_once CHR ''@'' a of Some (user, domain) \<Rightarrow> (Some user, Some domain) | None \<Rightarrow> (Some a, Some [])))"

lemma read_name: "read_nstring ((if n = [] then ''NIL'' else imap_string n) @ r) = Some (if n = [] then None else Some n, r)"
proof -
  have "read_nstring (''NIL'' @ r) = Some (None, r)" by (simp add: read_nstring_def strip_prefix_def)
  then show ?thesis using read_imap_string [of n r] by simp
qed

lemma read_format: "read_mailbox (format_envelope_mailbox n a @ r) = Some (env_mailbox_of (n, a), r)"
proof -
  obtain user domain where ud: "(case split_once CHR ''@'' a of Some x \<Rightarrow> x | None \<Rightarrow> (a, [])) = (user, domain)" by fastforce
  let ?n = "if n = [] then ''NIL'' else imap_string n"
  have f: "format_envelope_mailbox n a = ''('' @ ?n @ '' NIL '' @ imap_string user @ '' '' @ imap_string domain @ '')''"
    using ud by (simp add: format_envelope_mailbox_def)
  have e: "env_mailbox_of (n, a) = (if n = [] then None else Some n, Some user, Some domain)"
    using ud by (auto simp: env_mailbox_of_def split: option.splits)
  show ?thesis unfolding f e read_mailbox_def append.assoc
    by (simp add: read_name read_imap_string del: append_Cons append_Nil)
qed

lemma read_join:
  "mbs \<noteq> [] \<Longrightarrow> length mbs \<le> f \<Longrightarrow>
   read_mailboxes f (join '' '' (map (\<lambda>(n, a). format_envelope_mailbox n a) mbs) @ '')'' @ r) = Some (map env_mailbox_of mbs, r)"
proof (induction mbs arbitrary: f rule: induct_list012)
  case (2 m)
  then obtain g where "f = Suc g" by (cases f) auto
  then show ?case using read_format by (cases m) (simp add: strip_prefix_def)
next
  case (3 m k ks)
  then obtain g where g: "f = Suc g" by (cases f) auto
  obtain n a where m: "m = (n, a)" by (cases m)
  let ?rest = "join '' '' (map (\<lambda>(n, a). format_envelope_mailbox n a) (k # ks)) @ '')'' @ r"
  have "read_mailbox (format_envelope_mailbox n a @ CHR '' '' # ?rest) = Some (env_mailbox_of (n, a), CHR '' '' # ?rest)" by (rule read_format)
  then show ?case using 3 g m by (simp add: strip_prefix_def)
qed simp

text \<open>
  The addresses of an ENVELOPE reach the client intact: an IMAP reader of the written list gets back
  each name and each address, split at its first \<open>@\<close>, for names and addresses with any bytes (quotes,
  backslashes, line breaks and 8-bit text go through escapes and literals), and stops exactly at the
  end of the list.
\<close>

theorem envelope_addresses_readable:
  assumes "length mbs \<le> f"
  shows "read_address_list f (envelope_address_list mbs @ r) = Some (map env_mailbox_of mbs, r)"
proof (cases "mbs = []")
  case True
  then show ?thesis by (simp add: envelope_address_list_def read_address_list_def strip_prefix_def)
next
  case False
  then show ?thesis using read_join [OF False assms, of r]
    by (simp add: envelope_address_list_def read_address_list_def strip_prefix_def)
qed

theorem envelope_addresses_readable_witness:
  "read_address_list 2 (envelope_address_list [([DQUOTE, CR, LF], ''a@b''), ([], [CHR 0xC3, CHR 0xA9])] @ ''!'')
   = Some ([(Some [DQUOTE, CR, LF], Some ''a'', Some ''b''), (None, Some [CHR 0xC3, CHR 0xA9], Some [])], ''!'')"
  using envelope_addresses_readable [of "[([DQUOTE, CR, LF], ''a@b''), ([], [CHR 0xC3, CHR 0xA9])]" 2 "''!''"]
  by (simp add: env_mailbox_of_def)

section \<open>Logged lines\<close>

lemma parse_command_split:
  "parse_command line = (case split_once (CHR '' '') line of None \<Rightarrow> (line, [], [])
     | Some (t, r) \<Rightarrow> (case split_once (CHR '' '') r of None \<Rightarrow> (t, r, []) | Some (c, a) \<Rightarrow> (t, c, a)))"
  by (auto simp: parse_command_def numeral_3_eq_3 word_or_def Let_def numeral_2_eq_2 split: option.split)

lemma parse_command_line:
  assumes "parse_command line = (tag, cmd, args)" "cmd \<noteq> []"
  shows "CHR '' '' \<notin> set tag \<and> CHR '' '' \<notin> set cmd
    \<and> (line = tag @ CHR '' '' # cmd \<and> args = [] \<or> line = tag @ CHR '' '' # cmd @ CHR '' '' # args)"
  using assms by (auto simp: parse_command_split split_once_None dest!: split_once_Some split: option.splits)

lemma span_word:
  "list_all edge_ok w \<Longrightarrow> span_nonws (w @ CHR '' '' # s) = (w, CHR '' '' # s) \<and> span_nonws w = (w, [])"
proof (induction w)
  case Nil
  have "ws_len (CHR '' '' # s) = 1" by (simp add: ws_len_def ascii_ws_def)
  then show ?case by simp
next
  case (Cons c w)
  then show ?case by (simp add: ws_len_edge)
qed

lemma split_whitespace_word:
  assumes "list_all edge_ok w" "w \<noteq> []"
  shows "split_whitespace (w @ CHR '' '' # s) = w # split_whitespace s" "split_whitespace w = [w]"
proof -
  obtain c t where w: "w = c # t" "edge_ok c" "list_all edge_ok t" using assms by (cases w) auto
  have sp: "split_whitespace (CHR '' '' # s) = split_whitespace s" by (subst (1 2) split_whitespace.simps) simp
  show "split_whitespace (w @ CHR '' '' # s) = w # split_whitespace s"
    by (subst split_whitespace.simps) (use w span_word [OF w(3), of s] sp in simp)
  show "split_whitespace w = [w]"
    by (subst split_whitespace.simps) (use w span_word [OF w(3), of s] in \<open>simp add: split_whitespace.simps [of "[]"]\<close>)
qed

lemma ascii_upper_edge: "ascii_upper_char c \<in> set ''LOGIN'' \<Longrightarrow> edge_ok c"
  by (cases "97 \<le> byte_of c \<and> byte_of c \<le> 122") (auto simp: ascii_upper_char_def edge_ok_def ascii_ws_def)

lemma lower_upper: "to_ascii_uppercase w = ''LOGIN'' \<Longrightarrow> to_ascii_lowercase w = ''login''"
proof -
  have l: "ascii_lower_char c = ascii_lower_char (ascii_upper_char c)" for c
  proof (cases "97 \<le> byte_of c \<and> byte_of c \<le> 122")
    case True
    then have r: "byte_of c - 32 < (256 :: nat)" "65 \<le> byte_of c - (32 :: nat)" "byte_of c - 32 \<le> (90 :: nat)" by linarith+
    then have "byte_of (char_of (byte_of c - 32) :: char) = byte_of c - 32" by simp
    then show ?thesis using True r by (simp add: ascii_lower_char_def ascii_upper_char_def)
  qed (auto simp: ascii_upper_char_def)
  have "to_ascii_lowercase w = to_ascii_lowercase (to_ascii_uppercase w)"
    by (simp add: to_ascii_lowercase_def to_ascii_uppercase_def l [symmetric])
  moreover have "to_ascii_lowercase ''LOGIN'' = ''login''" by code_simp
  ultimately show "to_ascii_uppercase w = ''LOGIN'' \<Longrightarrow> to_ascii_lowercase w = ''login''" by simp
qed

text \<open>
  The bridge password of a login never reaches the log: a line that the session executes as LOGIN, sent
  with an ordinary tag and an ASCII verb, is logged without any of its arguments; and the line that
  answers an AUTHENTICATE challenge is logged as a constant.
\<close>

theorem login_is_redacted:
  assumes "parse_command line = (tag, cmd, args)" "to_uppercase u cmd = ''LOGIN''" "is_ascii cmd"
    "list_all edge_ok tag" "tag \<noteq> []"
  shows "redact_credentials line False = tag @ '' '' @ cmd @ '' <credentials>'' \<and> redact_credentials line True = ''<credentials>''"
proof -
  have up: "to_ascii_uppercase cmd = ''LOGIN''" using assms(2, 3) by (simp add: to_uppercase_def)
  then have "ascii_upper_char c \<in> set ''LOGIN''" if "c \<in> set cmd" for c
    using that by (metis image_eqI list.set_map to_ascii_uppercase_def)
  then have e: "list_all edge_ok cmd" using ascii_upper_edge by (auto simp: list_all_iff)
  have ne: "cmd \<noteq> []" using up by (auto simp: to_ascii_uppercase_def)
  obtain ws where "split_whitespace line = tag # cmd # ws"
    using parse_command_line [OF assms(1) ne] split_whitespace_word [OF e ne] split_whitespace_word [OF assms(4, 5)] by auto
  moreover have "eq_ignore_ascii_case cmd ''LOGIN''" using lower_upper [OF up] by (simp add: eq_ignore_ascii_case_def) code_simp
  ultimately show ?thesis by (simp add: redact_credentials_def)
qed

theorem login_is_redacted_witness:
  "redact_credentials ''a1 login me secret'' False = ''a1 login <credentials>''"
proof -
  have "parse_command ''a1 login me secret'' = (''a1'', ''login'', ''me secret'')" "to_uppercase ascii_unicode ''login'' = ''LOGIN''"
    "is_ascii ''login''" "list_all edge_ok ''a1''" by code_simp+
  from login_is_redacted [OF this] show ?thesis by simp
qed

text \<open>
  An empty tag defeats it: the session splits the line at single spaces, the redaction at runs of
  white space, so after a leading blank the verb is taken for the tag.
\<close>

theorem login_logged_after_blank:
  "parse_command '' LOGIN me secret'' = ([], ''LOGIN'', ''me secret'')
   \<and> redact_credentials '' LOGIN me secret'' False = '' LOGIN me secret''"
  by code_simp

end
