(* ===== verification/ImapSession.thy ===== *)
theory ImapSession
  imports ImapText
begin

text \<open>
  One IMAP session (\<open>ImapSession\<close> in \<open>crates/bridge/src/imap/session.rs\<close>): its state machine, the view of the
  selected folder and every command. A command acts on the session and on the system (mail store,
  disk store, server); its result is the list of response lines, \<open>None\<close> when the task panics, which
  only the structure of a FETCH can do. The session id only tags log lines and is left out; awaiting
  a lock of the store is not a point where another task is modelled to run, awaiting the server is a
  call on the opaque world.
\<close>

section \<open>State\<close>

datatype imap_state = NotAuthenticated | Authenticated | Selected | Logout

record imap_session =
  is_local :: bool
  is_state :: imap_state
  is_folder :: "folder_info option"
  is_mails :: "cached_mail list"
  is_uid_next :: nat
  is_idle_tag :: "string option"
  is_auth_tag :: "string option"
  is_password_hash :: "string option"

definition new_session :: "string option \<Rightarrow> bool \<Rightarrow> imap_session" where
  "new_session password_hash loc = \<lparr>is_local = loc, is_state = NotAuthenticated, is_folder = None, is_mails = [],
     is_uid_next = 1, is_idle_tag = None, is_auth_tag = None, is_password_hash = password_hash\<rparr>"

text \<open>What the commands need besides the bridge's environment: the UTF-7 engine and the full-text engine.\<close>

record 'w imap_env =
  ie_env :: "'w env"
  ie_utf7 :: base64
  ie_fts :: fts_engine

abbreviation ie_b64 :: "'w imap_env \<Rightarrow> base64" where "ie_b64 ie \<equiv> en_base64 (ie_env ie)"
abbreviation ie_uni :: "'w imap_env \<Rightarrow> unicode" where "ie_uni ie \<equiv> en_unicode (ie_env ie)"

type_synonym 'w conn = "imap_session \<times> 'w sys"
type_synonym reply = "string list"

text \<open>Response lines: a tagged line and its CRLF.\<close>

definition tagged :: "string \<Rightarrow> string \<Rightarrow> string" where
  "tagged tag t = tag @ '' '' @ t @ CRLF"

definition untagged :: "string \<Rightarrow> string" where
  "untagged t = ''* '' @ t @ CRLF"

definition no_mailbox :: "string \<Rightarrow> reply" where
  "no_mailbox tag = [tagged tag ''NO No mailbox selected'']"

definition not_authenticated :: "string \<Rightarrow> reply" where
  "not_authenticated tag = [tagged tag ''NO Not authenticated'']"

section \<open>Authentication\<close>

definition auth_failed :: "string \<Rightarrow> string \<Rightarrow> reply" where
  "auth_failed tag why = [tagged tag (''NO [AUTHENTICATIONFAILED] '' @ why)]"

definition plain_password :: "string \<Rightarrow> string option" where
  "plain_password decoded = (case splitn 3 (CHR 0x00) decoded of
     [_, _, p] \<Rightarrow> Some (from_utf8_lossy p) | [_, p] \<Rightarrow> Some (from_utf8_lossy p) | _ \<Rightarrow> None)"

definition password_ok :: "imap_session \<Rightarrow> string \<Rightarrow> bool" where
  "password_ok ss password = (case is_password_hash ss of Some expected \<Rightarrow> password = expected | None \<Rightarrow> True)"

definition handle_auth_response :: "'w imap_env \<Rightarrow> string \<Rightarrow> imap_session \<Rightarrow> reply \<times> imap_session" where
  "handle_auth_response ie line ss0 = (case is_auth_tag ss0 of
     None \<Rightarrow> ([], ss0)
   | Some tag \<Rightarrow>
       let ss = ss0\<lparr>is_auth_tag := None\<rparr> in
       (case b64_decode (ie_b64 ie) (trim line) of
          None \<Rightarrow> (auth_failed tag ''Invalid base64'', ss)
        | Some decoded \<Rightarrow> (case plain_password decoded of
            None \<Rightarrow> (auth_failed tag ''Invalid PLAIN data'', ss)
          | Some password \<Rightarrow>
              if \<not> password_ok ss password then (auth_failed tag ''Invalid credentials'', ss)
              else ([tagged tag ''OK AUTHENTICATE completed''], ss\<lparr>is_state := Authenticated\<rparr>))))"

definition cmd_login :: "string \<Rightarrow> string \<Rightarrow> imap_session \<Rightarrow> reply \<times> imap_session" where
  "cmd_login tag args ss = (if is_password_hash ss \<noteq> None \<and> \<not> password_ok ss (snd (parse_login_args args))
     then (auth_failed tag ''Invalid credentials'', ss)
     else ([tagged tag ''OK LOGIN completed''], ss\<lparr>is_state := Authenticated\<rparr>))"

definition cmd_capability :: "string \<Rightarrow> reply" where
  "cmd_capability tag = [untagged ''CAPABILITY IMAP4rev1 AUTH=PLAIN IDLE NAMESPACE UIDPLUS MOVE'', tagged tag ''OK CAPABILITY completed'']"

definition cmd_logout :: "string \<Rightarrow> imap_session \<Rightarrow> reply \<times> imap_session" where
  "cmd_logout tag ss = ([untagged ''BYE TutaBridge signing off'', tagged tag ''OK LOGOUT completed''], ss\<lparr>is_state := Logout\<rparr>)"

definition end_idle :: "imap_session \<Rightarrow> reply \<times> imap_session" where
  "end_idle ss = (case is_idle_tag ss of
     Some tag \<Rightarrow> ([tagged tag ''OK IDLE terminated''], ss\<lparr>is_idle_tag := None\<rparr>) | None \<Rightarrow> ([], ss))"

section \<open>Folders\<close>

definition decode_mailbox :: "'w imap_env \<Rightarrow> string \<Rightarrow> string" where
  "decode_mailbox ie raw = (case utf7_decode (ie_utf7 ie) raw of Some n \<Rightarrow> n | None \<Rightarrow> raw)"

definition find_mailbox :: "'w imap_env \<Rightarrow> string \<Rightarrow> 'w sys \<Rightarrow> folder_info option" where
  "find_mailbox ie raw sy = folder_by_imap_path (decode_mailbox ie raw) (sy_store sy)"

definition list_line :: "'w imap_env \<Rightarrow> folder_info \<Rightarrow> string" where
  "list_line ie f = untagged (''LIST ('' @ (case fi_special_use f of Some x \<Rightarrow> x | None \<Rightarrow> []) @ '') '' @ [DQUOTE] @ ''/'' @ [DQUOTE] @ '' ''
     @ [DQUOTE] @ utf7_encode (ie_utf7 ie) (fi_imap_path f) @ [DQUOTE])"

definition cmd_list :: "'w imap_env \<Rightarrow> string \<Rightarrow> string \<Rightarrow> imap_session \<Rightarrow> 'w sys \<Rightarrow> reply" where
  "cmd_list ie tag args ss sy =
     (if is_state ss = NotAuthenticated then not_authenticated tag
      else if trim args = [DQUOTE, DQUOTE, CHR '' '', DQUOTE, DQUOTE] \<or> trim args = []
      then [untagged (''LIST ('' @ [BACKSLASH] @ ''Noselect) '' @ [DQUOTE] @ ''/'' @ [DQUOTE] @ '' '' @ [DQUOTE, DQUOTE]), tagged tag ''OK LIST completed'']
      else map (list_line ie) (ms_folder_list (sy_store sy)) @ [tagged tag ''OK LIST completed''])"

text \<open>\<open>refresh_mails\<close>: the folder's mails in UID order; \<open>uid + 1\<close> is 32-bit arithmetic.\<close>

definition cached_of :: "stored_mail \<Rightarrow> cached_mail" where
  "cached_of sm = \<lparr>cm_mail = sm_mail sm, cm_body_loaded = sm_body_loaded sm, cm_uid = sm_uid sm, cm_deleted = False\<rparr>"

definition bump_uid :: "nat \<Rightarrow> nat \<Rightarrow> nat" where
  "bump_uid uid uid_next = (if uid_next \<le> uid then u32_succ uid else uid_next)"

definition refresh_mails :: "string \<Rightarrow> 'w conn \<Rightarrow> 'w conn" where
  "refresh_mails fid c = (case c of (ss, sy) \<Rightarrow>
     let stored = sort_key sm_uid (get_folder fid (sy_store sy))
     in (ss\<lparr>is_mails := map cached_of stored, is_uid_next := fold bump_uid (map sm_uid stored) (is_uid_next ss)\<rparr>, sy))"

definition cmd_select :: "'w imap_env \<Rightarrow> string \<Rightarrow> string \<Rightarrow> 'w conn \<Rightarrow> reply \<times> 'w conn" where
  "cmd_select ie tag args c = (case c of (ss, sy) \<Rightarrow>
     if is_state ss = NotAuthenticated then (not_authenticated tag, c)
     else case find_mailbox ie (trim_matches DQUOTE (trim args)) sy of
       None \<Rightarrow> ([tagged tag ''NO [NONEXISTENT] Mailbox does not exist''], c)
     | Some folder \<Rightarrow>
         let c1 = refresh_mails (fi_id folder) (ss\<lparr>is_folder := Some folder, is_state := Selected\<rparr>, sy); ss1 = fst c1;
             first_unseen = (case position (\<lambda>m. unread (cm_mail m)) (is_mails ss1) of Some i \<Rightarrow> i + 1 | None \<Rightarrow> 0)
         in ([untagged (show_nat (length (is_mails ss1)) @ '' EXISTS''), untagged ''0 RECENT'',
              untagged (''FLAGS ('' @ [BACKSLASH] @ ''Seen '' @ [BACKSLASH] @ ''Answered '' @ [BACKSLASH] @ ''Flagged '' @ [BACKSLASH] @ ''Deleted ''
                @ [BACKSLASH] @ ''Draft)''),
              untagged (''OK [PERMANENTFLAGS ('' @ [BACKSLASH] @ ''Seen '' @ [BACKSLASH] @ ''Flagged)] Limited''),
              untagged ''OK [UIDVALIDITY 1] UIDs valid'',
              untagged (''OK [UIDNEXT '' @ show_nat (is_uid_next ss1) @ ''] Predicted next UID'')]
             @ (if 0 < first_unseen then [untagged (''OK [UNSEEN '' @ show_nat first_unseen @ ''] First unseen'')] else [])
             @ [tagged tag ''OK [READ-WRITE] SELECT completed''], c1))"

definition cmd_status :: "'w imap_env \<Rightarrow> string \<Rightarrow> string \<Rightarrow> imap_session \<Rightarrow> 'w sys \<Rightarrow> reply" where
  "cmd_status ie tag args ss sy =
     (if is_state ss = NotAuthenticated then not_authenticated tag
      else let raw = fst (parse_imap_token (trim args));
               stored = (case find_mailbox ie raw sy of Some f \<Rightarrow> get_folder (fi_id f) (sy_store sy) | None \<Rightarrow> [])
        in [untagged (''STATUS '' @ [DQUOTE] @ raw @ [DQUOTE] @ '' (MESSAGES '' @ show_nat (length stored) @ '' UNSEEN ''
              @ show_nat (length (filter (\<lambda>m. unread (sm_mail m)) stored)) @ '' RECENT 0 UIDNEXT '' @ show_nat (is_uid_next ss) @ '' UIDVALIDITY 1)''),
            tagged tag ''OK STATUS completed''])"

definition cmd_close :: "string \<Rightarrow> imap_session \<Rightarrow> reply \<times> imap_session" where
  "cmd_close tag ss = ([tagged tag ''OK CLOSE completed''], ss\<lparr>is_state := Authenticated, is_folder := None, is_mails := []\<rparr>)"

section \<open>Sequence sets\<close>

definition seq_to_index :: "cached_mail list \<Rightarrow> nat \<Rightarrow> bool \<Rightarrow> nat option" where
  "seq_to_index ms num uid_mode = (if uid_mode then position (\<lambda>m. cm_uid m = num) ms
     else if 1 \<le> num \<and> num \<le> length ms then Some (num - 1) else None)"

definition set_max :: "cached_mail list \<Rightarrow> bool \<Rightarrow> nat" where
  "set_max ms uid_mode = (if uid_mode then fold max (map cm_uid ms) 0 else length ms mod 2 ^ 32)"

text \<open>One part of the set, as the range of numbers the loop runs over.\<close>

definition part_range :: "nat \<Rightarrow> string \<Rightarrow> nat \<times> nat" where
  "part_range mx part0 = (let part = trim part0 in
     case split_once CHR '':'' part of
       Some (a, b) \<Rightarrow> (let s = parse_seq_num a mx; e = parse_seq_num b mx in if s \<le> e then (s, e) else (e, s))
     | None \<Rightarrow> (let n = parse_seq_num part mx in (n, n)))"

definition resolve_sequence_set :: "cached_mail list \<Rightarrow> string \<Rightarrow> bool \<Rightarrow> nat list" where
  "resolve_sequence_set ms seq_set uid_mode =
     (let mx = set_max ms uid_mode
      in remdups_adj (sort (concat (map (\<lambda>part. case part_range mx part of (lo, hi) \<Rightarrow>
           List.map_filter (\<lambda>n. seq_to_index ms n uid_mode) [lo..<Suc hi]) (split_on CHR '','' seq_set)))))"

section \<open>FETCH\<close>

text \<open>\<open>persist_body\<close>: the body to the disk cache, then the mark in the metadata.\<close>

definition persist_body :: "'w imap_env \<Rightarrow> imap_session \<Rightarrow> string \<Rightarrow> string \<Rightarrow> 'w sys \<Rightarrow> 'w sys" where
  "persist_body ie ss e rfc sy = (if \<not> is_local ss then sy
     else case on_local (write_eml (en_crypto (ie_env ie)) (en_iv (ie_env ie) (sy_world sy)) e rfc) sy of
       (Inl _, sy1) \<Rightarrow> sy1 | (Inr _, sy1) \<Rightarrow> snd (on_local (mark_has_details e) sy1))"

definition set_loaded :: "nat \<Rightarrow> imap_session \<Rightarrow> imap_session" where
  "set_loaded idx ss = ss\<lparr>is_mails := (is_mails ss)[idx := (is_mails ss ! idx)\<lparr>cm_body_loaded := True\<rparr>]\<rparr>"

definition store_body_lookup :: "'w imap_env \<Rightarrow> string \<Rightarrow> 'w sys \<Rightarrow> body_entry option \<times> 'w sys" where
  "store_body_lookup ie e sy = (case get_body (en_crypto (ie_env ie)) (sy_local sy) e (sy_store sy) of (r, st) \<Rightarrow> (r, sy\<lparr>sy_store := st\<rparr>))"

definition warm_body :: "string \<Rightarrow> 'w sys \<Rightarrow> body_entry option \<times> 'w sys" where
  "warm_body e sy = (case bc_cached e (ms_bodies (sy_store sy)) of (r, c) \<Rightarrow> (r, on_store (\<lambda>st. st\<lparr>ms_bodies := c\<rparr>) sy))"

definition fetch_failed :: "'w imap_env \<Rightarrow> string option \<Rightarrow> 'w sys \<Rightarrow> 'w sys" where
  "fetch_failed ie eid sy = (case eid of Some e \<Rightarrow> on_store (mark_body_fetch_failed (en_now (ie_env ie) (sy_world sy)) e) sy | None \<Rightarrow> sy)"

definition on_cooldown :: "'w imap_env \<Rightarrow> string option \<Rightarrow> 'w sys \<Rightarrow> bool \<times> 'w sys" where
  "on_cooldown ie eid sy = (case eid of None \<Rightarrow> (False, sy)
     | Some e \<Rightarrow> (case body_fetch_on_cooldown (en_now (ie_env ie) (sy_world sy)) e (sy_store sy) of (r, st) \<Rightarrow> (r, sy\<lparr>sy_store := st\<rparr>)))"

text \<open>The body fetched from the server, rendered, stored; \<open>Inl\<close> is the text of the NO response.\<close>

definition fetch_on_demand :: "'w imap_env \<Rightarrow> nat \<Rightarrow> 'w conn \<Rightarrow> (string + unit) \<times> 'w conn" where
  "fetch_on_demand ie idx c = (case c of (ss, sy) \<Rightarrow>
     let m = cm_mail (is_mails ss ! idx); eid = eid_of m; bk = en_backend (ie_env ie) in
     case call (bk_load_mail_details bk m) sy of
       (Inl _, sy1) \<Rightarrow> (Inl ''could not fetch message body, try again later'', ss, fetch_failed ie eid sy1)
     | (Inr details, sy1) \<Rightarrow> (case call (bk_load_attachments bk m) sy1 of
           (Inl _, sy2) \<Rightarrow> (Inl ''message attachments cannot be fetched'', ss, fetch_failed ie eid sy2)
         | (Inr atts, sy2) \<Rightarrow>
             let rfc = mail_to_rfc2822 (ie_b64 ie) m details atts;
                 sy3 = (case (eid, is_folder ss) of
                    (Some e, Some folder) \<Rightarrow> on_store (update_complete_mail (fi_id folder) e details rfc) (persist_body ie ss e rfc sy2)
                  | _ \<Rightarrow> sy2)
             in (Inr (), set_loaded idx ss, sy3)))"

definition ensure_body :: "'w imap_env \<Rightarrow> string \<Rightarrow> nat \<Rightarrow> 'w conn \<Rightarrow> (string + unit) \<times> 'w conn" where
  "ensure_body ie items idx c = (case c of (ss, sy) \<Rightarrow>
     let eid = eid_of (cm_mail (is_mails ss ! idx)) in
     if \<not> (needs_body items \<and> \<not> cm_body_loaded (is_mails ss ! idx)) then (Inr (), c)
     else case (case eid of Some e \<Rightarrow> store_body_lookup ie e sy | None \<Rightarrow> (None, sy)) of (found, sy1) \<Rightarrow>
       if found \<noteq> None then (Inr (), set_loaded idx ss, sy1)
       else case on_cooldown ie eid sy1 of (cool, sy2) \<Rightarrow>
         if cool then (Inl ''message body temporarily unavailable, try again later'', ss, sy2)
         else fetch_on_demand ie idx (ss, sy2))"

definition response_body :: "'w imap_env \<Rightarrow> string \<Rightarrow> cached_mail \<Rightarrow> 'w sys \<Rightarrow> body_entry option \<times> 'w sys" where
  "response_body ie items cached sy = (case eid_of (cm_mail cached) of None \<Rightarrow> (None, sy)
     | Some e \<Rightarrow> if needs_body items \<and> cm_body_loaded cached then store_body_lookup ie e sy
         else if fetch_items_use_content items then warm_body e sy else (None, sy))"

text \<open>The loop over the messages; an unavailable body ends the command with a NO and nothing else.\<close>

fun fetch_loop :: "'w imap_env \<Rightarrow> string \<Rightarrow> string \<Rightarrow> bool \<Rightarrow> nat list \<Rightarrow> reply \<Rightarrow> 'w conn \<Rightarrow> reply option \<times> 'w conn" where
  "fetch_loop ie tag items uid_mode [] acc c =
     (Some (acc @ [tagged tag (''OK '' @ (if uid_mode then ''UID FETCH'' else ''FETCH'') @ '' completed'')]), c)"
| "fetch_loop ie tag items uid_mode (idx # rest) acc c =
     (if length (is_mails (fst c)) \<le> idx then fetch_loop ie tag items uid_mode rest acc c
      else case ensure_body ie items idx c of
        (Inl why, c1) \<Rightarrow> (Some [tagged tag (''NO [UNAVAILABLE] '' @ why)], c1)
      | (Inr _, ss1, sy1) \<Rightarrow>
          let cached = is_mails ss1 ! idx in
          (case response_body ie items cached sy1 of (body, sy2) \<Rightarrow>
             (case build_fetch_response (ie_b64 ie) (ie_uni ie) (idx + 1) cached items uid_mode body of
                None \<Rightarrow> (None, ss1, sy2)
              | Some resp \<Rightarrow> fetch_loop ie tag items uid_mode rest (acc @ [resp]) (ss1, sy2))))"

definition cmd_fetch :: "'w imap_env \<Rightarrow> string \<Rightarrow> string \<Rightarrow> bool \<Rightarrow> 'w conn \<Rightarrow> reply option \<times> 'w conn" where
  "cmd_fetch ie tag args uid_mode c =
     (if is_state (fst c) \<noteq> Selected then (Some (no_mailbox tag), c)
      else case parse_fetch_args args of (seq_set, items) \<Rightarrow>
        fetch_loop ie tag items uid_mode (resolve_sequence_set (is_mails (fst c)) seq_set uid_mode) [] c)"

section \<open>SEARCH\<close>

definition resolve_body_search :: "'w imap_env \<Rightarrow> search_key \<Rightarrow> imap_session \<Rightarrow> 'w sys \<Rightarrow> search_context" where
  "resolve_body_search ie query ss sy = (if \<not> is_local ss then []
     else List.map_filter (\<lambda>t. case search_body (ie_uni ie) (ie_fts ie) t (sy_local sy) of Inr ids \<Rightarrow> Some (t, ids) | Inl _ \<Rightarrow> None)
       (collect_body_terms query))"

definition build_search_view :: "'w imap_env \<Rightarrow> nat \<Rightarrow> cached_mail \<Rightarrow> body_entry option \<Rightarrow> msg_view" where
  "build_search_view ie idx cached body =
     (let m = cm_mail cached; b = ie_b64 ie;
          rfc = (case body of Some e \<Rightarrow> be_rfc2822 e | None \<Rightarrow> mail_to_rfc2822 b m None []);
          addresses = mail_address_headers b (ie_uni ie) m body
      in \<lparr>mv_seq = (idx + 1) mod 2 ^ 32, mv_uid = cm_uid cached,
          mv_element_id = (case eid_of m of Some e \<Rightarrow> e | None \<Rightarrow> []), mv_subject = subject m, mv_from = format_address b (sender m),
          mv_to = join_mailboxes b (ah_to addresses), mv_cc = join_mailboxes b (ah_cc addresses), mv_bcc = join_mailboxes b (ah_bcc addresses),
          mv_headers = extract_headers rfc, mv_date_ms = received_ms m,
          mv_sent_ms = (case Option.bind body be_details of Some d \<Rightarrow> sent_ms d | None \<Rightarrow> received_ms m),
          mv_unread = unread m, mv_deleted = cm_deleted cached, mv_size = length rfc\<rparr>)"

fun search_loop :: "'w imap_env \<Rightarrow> search_key \<Rightarrow> search_context \<Rightarrow> bool \<Rightarrow> nat \<Rightarrow> cached_mail list \<Rightarrow> 'w sys \<Rightarrow> nat list \<times> 'w sys" where
  "search_loop ie query ctx uid_mode i [] sy = ([], sy)"
| "search_loop ie query ctx uid_mode i (cached # rest) sy =
     (case (case eid_of (cm_mail cached) of Some e \<Rightarrow> warm_body e sy | None \<Rightarrow> (None, sy)) of (body, sy1) \<Rightarrow>
      case search_loop ie query ctx uid_mode (i + 1) rest sy1 of (ids, sy2) \<Rightarrow>
        ((if search_matches (ie_uni ie) query (build_search_view ie i cached body) ctx
          then [if uid_mode then cm_uid cached else (i + 1) mod 2 ^ 32] else []) @ ids, sy2))"

text \<open>\<open>search::parse\<close> with fuel that is always enough.\<close>

definition parse_query :: "'w imap_env \<Rightarrow> string \<Rightarrow> search_key" where
  "parse_query ie args = (case search_parse (2 * length (tokenize args) + 2) (ie_uni ie) args of Some k \<Rightarrow> k | None \<Rightarrow> SkAll)"

definition cmd_search :: "'w imap_env \<Rightarrow> string \<Rightarrow> string \<Rightarrow> bool \<Rightarrow> 'w conn \<Rightarrow> reply \<times> 'w conn" where
  "cmd_search ie tag args uid_mode c = (case c of (ss, sy) \<Rightarrow>
     if is_state ss \<noteq> Selected then (no_mailbox tag, c)
     else let query = parse_query ie args; ctx = resolve_body_search ie query ss sy in
       case search_loop ie query ctx uid_mode 0 (is_mails ss) sy of (ids, sy1) \<Rightarrow>
         ([untagged (''SEARCH '' @ join '' '' (map show_nat ids)),
           tagged tag (''OK '' @ (if uid_mode then ''UID SEARCH'' else ''SEARCH'') @ '' completed'')], ss, sy1))"

section \<open>STORE, EXPUNGE, MOVE\<close>

definition upd_indices :: "nat list \<Rightarrow> (cached_mail \<Rightarrow> cached_mail) \<Rightarrow> imap_session \<Rightarrow> imap_session" where
  "upd_indices is f ss = ss\<lparr>is_mails := map (\<lambda>(i, m). if i \<in> set is then f m else m) (enumerate 0 (is_mails ss))\<rparr>"

definition ids_at :: "nat list \<Rightarrow> cached_mail list \<Rightarrow> id_tuple list" where
  "ids_at is ms = List.map_filter (\<lambda>i. if i < length ms then mail_id (cm_mail (ms ! i)) else None) is"

definition cmd_store :: "'w imap_env \<Rightarrow> string \<Rightarrow> string \<Rightarrow> bool \<Rightarrow> 'w conn \<Rightarrow> reply \<times> 'w conn" where
  "cmd_store ie tag args uid_mode c = (case c of (ss, sy) \<Rightarrow>
     if is_state ss \<noteq> Selected then (no_mailbox tag, c)
     else
       let up = to_uppercase (ie_uni ie) args; indices = resolve_sequence_set (is_mails ss) (fst (parse_store_args args)) uid_mode;
           adding = contains_sub up ''+FLAGS''; removing = contains_sub up ''-FLAGS'';
           seen = contains_sub up ([BACKSLASH] @ ''SEEN'');
           ss1 = (if seen then upd_indices indices (\<lambda>m. m\<lparr>cm_mail := (cm_mail m)\<lparr>unread := \<not> adding\<rparr>\<rparr>) ss else ss);
           ids = ids_at indices (is_mails ss1);
           sy1 = (if seen \<and> ids \<noteq> [] then snd (call (bk_set_unread_status (en_backend (ie_env ie)) ids (\<not> adding)) sy) else sy);
           ss2 = (if contains_sub up ([BACKSLASH] @ ''DELETED'') then upd_indices indices (\<lambda>m. m\<lparr>cm_deleted := \<not> removing\<rparr>) ss1 else ss1)
       in ([tagged tag (''OK '' @ (if uid_mode then ''UID STORE'' else ''STORE'') @ '' completed'')], ss2, sy1))"

text \<open>The loop that removes messages and announces each by its number at that moment.\<close>

fun expunge_loop :: "(cached_mail \<Rightarrow> bool) \<Rightarrow> nat \<Rightarrow> cached_mail list \<Rightarrow> nat list \<times> cached_mail list" where
  "expunge_loop gone seq [] = ([], [])"
| "expunge_loop gone seq (m # ms) = (if gone m then apfst (Cons seq) (expunge_loop gone seq ms)
     else apsnd (Cons m) (expunge_loop gone (seq + 1) ms))"

definition expunge_line :: "nat \<Rightarrow> string" where
  "expunge_line n = untagged (show_nat n @ '' EXPUNGE'')"

definition cmd_expunge :: "'w imap_env \<Rightarrow> string \<Rightarrow> 'w conn \<Rightarrow> reply \<times> 'w conn" where
  "cmd_expunge ie tag c = (case c of (ss, sy) \<Rightarrow>
     if is_state ss \<noteq> Selected then (no_mailbox tag, c)
     else
       let ids = List.map_filter (\<lambda>m. mail_id (cm_mail m)) (filter cm_deleted (is_mails ss)); bk = en_backend (ie_env ie) in
       case (if ids = [] then (Inr (), sy)
             else case is_folder ss of
               Some f \<Rightarrow> if fi_kind f = KTrash \<or> fi_kind f = KSpam then call (bk_delete_mails bk ids f) sy else call (bk_trash_mails bk ids) sy
             | None \<Rightarrow> call (bk_trash_mails bk ids) sy) of
         (Inl _, sy1) \<Rightarrow> ([tagged tag ''NO EXPUNGE failed''], ss, sy1)
       | (Inr _, sy1) \<Rightarrow> (case expunge_loop cm_deleted 1 (is_mails ss) of (nums, kept) \<Rightarrow>
           (map expunge_line nums @ [tagged tag ''OK EXPUNGE completed''], ss\<lparr>is_mails := kept\<rparr>, sy1)))"

definition has_moved :: "id_tuple list \<Rightarrow> cached_mail \<Rightarrow> bool" where
  "has_moved ids m = (case mail_id (cm_mail m) of Some i \<Rightarrow> element_id i \<in> element_id ` set ids | None \<Rightarrow> False)"

definition cmd_move :: "'w imap_env \<Rightarrow> string \<Rightarrow> string \<Rightarrow> bool \<Rightarrow> 'w conn \<Rightarrow> reply \<times> 'w conn" where
  "cmd_move ie tag args uid_mode c = (case c of (ss, sy) \<Rightarrow>
     let label = (if uid_mode then ''UID MOVE'' else ''MOVE'') in
     if is_state ss \<noteq> Selected then (no_mailbox tag, c)
     else case (case split_once CHR '' '' (trim args) of Some x \<Rightarrow> x | None \<Rightarrow> (trim args, [])) of (seq_set, rest) \<Rightarrow>
       (case find_mailbox ie (fst (parse_imap_token (trim rest))) sy of
          None \<Rightarrow> ([tagged tag ''NO [TRYCREATE] Mailbox does not exist''], c)
        | Some target \<Rightarrow>
            let ids = ids_at (resolve_sequence_set (is_mails ss) seq_set uid_mode) (is_mails ss) in
            if ids = [] then ([tagged tag (''OK '' @ label @ '' completed'')], c)
            else case call (bk_move_mails (en_backend (ie_env ie)) ids target) sy of
              (Inl _, sy1) \<Rightarrow> ([tagged tag (''NO '' @ label @ '' failed'')], ss, sy1)
            | (Inr _, sy1) \<Rightarrow> (case expunge_loop (has_moved ids) 1 (is_mails ss) of (nums, kept) \<Rightarrow>
                (map expunge_line nums @ [tagged tag (''OK '' @ label @ '' completed'')], ss\<lparr>is_mails := kept\<rparr>, sy1))))"

definition cmd_copy :: "string \<Rightarrow> reply" where
  "cmd_copy tag = [tagged tag ''NO [CANNOT] COPY is not supported; use MOVE'']"

section \<open>Dispatch\<close>

definition pure_reply :: "reply \<Rightarrow> 'w conn \<Rightarrow> reply option \<times> 'w conn" where
  "pure_reply r c = (Some r, c)"

definition session_reply :: "reply \<times> imap_session \<Rightarrow> 'w sys \<Rightarrow> reply option \<times> 'w conn" where
  "session_reply x sy = (Some (fst x), snd x, sy)"

definition conn_reply :: "reply \<times> 'w conn \<Rightarrow> reply option \<times> 'w conn" where
  "conn_reply x = (Some (fst x), snd x)"

definition cmd_uid :: "'w imap_env \<Rightarrow> string \<Rightarrow> string \<Rightarrow> 'w conn \<Rightarrow> reply option \<times> 'w conn" where
  "cmd_uid ie tag args c =
     (if is_state (fst c) \<noteq> Selected then pure_reply (no_mailbox tag) c
      else let parts = splitn 2 CHR '' '' args; subcmd = to_uppercase (ie_uni ie) (word_or [] 0 parts); subargs = word_or [] 1 parts in
        if subcmd = ''FETCH'' then cmd_fetch ie tag subargs True c
        else if subcmd = ''SEARCH'' then conn_reply (cmd_search ie tag subargs True c)
        else if subcmd = ''STORE'' then conn_reply (cmd_store ie tag subargs True c)
        else if subcmd = ''MOVE'' then conn_reply (cmd_move ie tag subargs True c)
        else if subcmd = ''COPY'' then pure_reply (cmd_copy tag) c
        else pure_reply [tagged tag ''BAD Unknown UID subcommand''] c)"

definition handle_command :: "'w imap_env \<Rightarrow> string \<Rightarrow> 'w conn \<Rightarrow> reply option \<times> 'w conn" where
  "handle_command ie line c = (case c of (ss, sy) \<Rightarrow> case parse_command line of (tag, cmd0, args) \<Rightarrow>
     let cmd = to_uppercase (ie_uni ie) cmd0 in
     if cmd = ''CAPABILITY'' then pure_reply (cmd_capability tag) c
     else if cmd = ''NOOP'' then pure_reply [tagged tag ''OK NOOP completed''] c
     else if cmd = ''LOGOUT'' then session_reply (cmd_logout tag ss) sy
     else if cmd = ''LOGIN'' then session_reply (cmd_login tag args ss) sy
     else if cmd = ''AUTHENTICATE'' then
       (if eq_ignore_ascii_case (trim args) ''PLAIN'' then session_reply ([''+ '' @ CRLF], ss\<lparr>is_auth_tag := Some tag\<rparr>) sy
        else pure_reply [tagged tag ''NO Unsupported mechanism''] c)
     else if cmd = ''LIST'' \<or> cmd = ''LSUB'' then pure_reply (cmd_list ie tag args ss sy) c
     else if cmd = ''SELECT'' \<or> cmd = ''EXAMINE'' then conn_reply (cmd_select ie tag args c)
     else if cmd = ''STATUS'' then pure_reply (cmd_status ie tag args ss sy) c
     else if cmd = ''FETCH'' then cmd_fetch ie tag args False c
     else if cmd = ''UID'' then cmd_uid ie tag args c
     else if cmd = ''CLOSE'' then session_reply (cmd_close tag ss) sy
     else if cmd = ''EXPUNGE'' then conn_reply (cmd_expunge ie tag c)
     else if cmd = ''SEARCH'' then conn_reply (cmd_search ie tag args False c)
     else if cmd = ''STORE'' then conn_reply (cmd_store ie tag args False c)
     else if cmd = ''MOVE'' then conn_reply (cmd_move ie tag args False c)
     else if cmd = ''COPY'' then pure_reply (cmd_copy tag) c
     else if cmd = ''IDLE'' then session_reply ([''+ idling'' @ CRLF], ss\<lparr>is_idle_tag := Some tag\<rparr>) sy
     else if cmd = ''NAMESPACE'' then pure_reply [untagged (''NAMESPACE (('' @ [DQUOTE, DQUOTE] @ '' '' @ [DQUOTE] @ ''/'' @ [DQUOTE] @ '')) NIL NIL''),
         tagged tag ''OK NAMESPACE completed''] c
     else pure_reply [tagged tag ''BAD Unknown command''] c)"

section \<open>Updates while idle\<close>

definition departed :: "stored_mail list \<Rightarrow> cached_mail \<Rightarrow> bool" where
  "departed new_list m = (case eid_of (cm_mail m) of Some e \<Rightarrow> e \<notin> set (List.map_filter (\<lambda>sm. eid_of (sm_mail sm)) new_list) | None \<Rightarrow> False)"

definition expunge_numbers :: "(cached_mail \<Rightarrow> bool) \<Rightarrow> cached_mail list \<Rightarrow> nat list" where
  "expunge_numbers gone ms = map (\<lambda>(i, m). i + 1) (filter (\<lambda>(i, m). gone m) (enumerate 0 ms))"

definition added_count :: "cached_mail list \<Rightarrow> stored_mail list \<Rightarrow> nat" where
  "added_count old new_list = length (filter (\<lambda>sm. case eid_of (sm_mail sm) of
     Some e \<Rightarrow> e \<notin> set (List.map_filter (\<lambda>m. eid_of (cm_mail m)) old) | None \<Rightarrow> False) new_list)"

definition check_new_mail :: "'w conn \<Rightarrow> reply \<times> 'w conn" where
  "check_new_mail c = (case c of (ss, sy) \<Rightarrow> case is_folder ss of None \<Rightarrow> ([], c)
     | Some folder \<Rightarrow>
         let new_list = get_folder (fi_id folder) (sy_store sy); expunges = expunge_numbers (departed new_list) (is_mails ss) in
         if expunges = [] \<and> added_count (is_mails ss) new_list = 0 \<and> length new_list = length (is_mails ss) then ([], c)
         else let c1 = refresh_mails (fi_id folder) c
           in (map expunge_line (rev (sort expunges)) @ [untagged (show_nat (length (is_mails (fst c1))) @ '' EXISTS'')], c1))"

section \<open>APPEND\<close>

definition append_targets_sent :: "'w imap_env \<Rightarrow> string \<Rightarrow> 'w sys \<Rightarrow> bool" where
  "append_targets_sent ie mailbox sy = (case find_mailbox ie mailbox sy of
     Some f \<Rightarrow> fi_special_use f = Some ([BACKSLASH] @ ''Sent'') | None \<Rightarrow> False)"

text \<open>\<open>sent_copy_uid\<close>: \<open>later\<close> are the states of the store at its next changes before the deadline.\<close>

definition sent_copy_uid :: "'w imap_env \<Rightarrow> string \<Rightarrow> string \<Rightarrow> mail_store list \<Rightarrow> 'w sys \<Rightarrow> nat option \<times> 'w sys" where
  "sent_copy_uid ie mailbox message_id later sy =
     (case call (bk_sent_mail_element_id (en_backend (ie_env ie)) message_id) sy of
        (None, sy1) \<Rightarrow> (None, sy1)
      | (Some e, sy1) \<Rightarrow> (case find_mailbox ie mailbox sy1 of
          None \<Rightarrow> (None, sy1)
        | Some sent \<Rightarrow> ((case List.map_filter (mail_in_folder (fi_id sent) e) (sy_store sy1 # later) of copy # _ \<Rightarrow> Some (sm_uid copy) | [] \<Rightarrow> None), sy1)))"

definition MAX_APPEND_BYTES :: nat where
  "MAX_APPEND_BYTES = 26214400"

text \<open>\<open>handle_append\<close> on the bytes the client sends next: replies, system and the bytes left.\<close>

definition line_end_at :: "string \<Rightarrow> nat" where
  "line_end_at inp = (case find_sub [LF] inp of Some i \<Rightarrow> i + 1 | None \<Rightarrow> length inp)"

datatype 'w append_result = AppendReply reply "'w sys" string | AppendIoError | AppendPanic

definition handle_append :: "'w imap_env \<Rightarrow> append_request \<Rightarrow> mail_store list \<Rightarrow> string \<Rightarrow> 'w sys \<Rightarrow> 'w append_result" where
  "handle_append ie req later inp sy =
     (if \<not> append_targets_sent ie (ar_mailbox req) sy then AppendReply
        [tagged (ar_tag req) ''NO [CANNOT] APPEND is only supported for the Sent folder; Tuta saves sent mail automatically''] sy inp
      else if MAX_APPEND_BYTES < ar_literal_size req then AppendReply [tagged (ar_tag req) ''NO message too large''] sy inp
      else if length inp < ar_literal_size req then AppendIoError
      else let buf = take (ar_literal_size req) inp; rest = drop (ar_literal_size req) inp in
        if \<not> utf8_valid (take (line_end_at rest) rest) then AppendIoError
        else case parse_rfc2822 (ie_b64 ie) (ie_uni ie) (from_utf8_lossy buf) of
          None \<Rightarrow> AppendPanic
        | Some pm \<Rightarrow>
            (case (case pm_message_id pm of Some i \<Rightarrow> sent_copy_uid ie (ar_mailbox req) i later sy | None \<Rightarrow> (None, sy)) of (uid, sy1) \<Rightarrow>
               AppendReply [''+ OK'' @ CRLF, tagged (ar_tag req) (case uid of Some n \<Rightarrow> ''OK [APPENDUID 1 '' @ show_nat n @ ''] APPEND completed''
                 | None \<Rightarrow> ''OK APPEND completed'')] sy1 (drop (line_end_at rest) rest)))"

section \<open>The connection\<close>

text \<open>
  One turn of \<open>run_connection_loop\<close> that reads a line: the client's bytes still to be read are part of the
  state. A line that is not UTF-8 is a read error.
\<close>

datatype 'w turn = More reply "'w conn" string | Ended reply "'w conn" | IoError | Panicked

definition conn_turn :: "'w imap_env \<Rightarrow> mail_store list \<Rightarrow> 'w conn \<Rightarrow> string \<Rightarrow> 'w turn" where
  "conn_turn ie later c inp = (case c of (ss, sy) \<Rightarrow>
     if inp = [] then Ended [] c
     else let line = take (line_end_at inp) inp; rest = drop (line_end_at inp) inp; trimmed = trim_end line in
       if \<not> utf8_valid line then IoError
       else if is_idle_tag ss \<noteq> None then
         (if eq_ignore_ascii_case trimmed ''DONE'' then (case end_idle ss of (r, ss1) \<Rightarrow> More r (ss1, sy) rest) else More [] c rest)
       else if is_auth_tag ss \<noteq> None then
         (case handle_auth_response ie trimmed ss of (r, ss1) \<Rightarrow> if is_state ss1 = Logout then Ended r (ss1, sy) else More r (ss1, sy) rest)
       else case parse_append trimmed of
         Some req \<Rightarrow> (case handle_append ie req later rest sy of
             AppendReply r sy1 rest1 \<Rightarrow> More r (ss, sy1) rest1 | AppendIoError \<Rightarrow> IoError | AppendPanic \<Rightarrow> Panicked)
       | None \<Rightarrow> (case handle_command ie trimmed c of
             (None, _) \<Rightarrow> Panicked
           | (Some r, c1) \<Rightarrow> if is_state (fst c1) = Logout then Ended r c1 else More r c1 rest))"

text \<open>
  A connection: turns, updates pushed while the session is idle, and the other tasks of the bridge,
  which change the system at any time. The list collects everything sent to the client.
\<close>

inductive conn_steps :: "'w imap_env \<Rightarrow> 'w conn \<times> string \<Rightarrow> reply \<Rightarrow> 'w conn \<times> string \<Rightarrow> bool" for ie where
  start: "conn_steps ie s [] s"
| turn: "conn_steps ie s r (c, inp) \<Longrightarrow> conn_turn ie later c inp = More r2 c2 inp2 \<Longrightarrow> conn_steps ie s (r @ r2) (c2, inp2)"
| push: "conn_steps ie s r (c, inp) \<Longrightarrow> is_idle_tag (fst c) \<noteq> None \<Longrightarrow> check_new_mail c = (r2, c2) \<Longrightarrow> conn_steps ie s (r @ r2) (c2, inp)"
| others: "conn_steps ie s r ((ss, sy), inp) \<Longrightarrow> conn_steps ie s r ((ss, sy2), inp)"

end
