(* ===== verification/ImapAuth.thy ===== *)
theory ImapAuth
  imports ImapSession
begin

text \<open>
  What a client that has not logged in can get from a connection. The specification is a small machine
  that answers lines without any access to the stores or the server; the connection implements it
  until the password is presented.
\<close>

section \<open>The machine before the login\<close>

definition needs_login :: "string list" where
  "needs_login = [''LIST'', ''LSUB'', ''SELECT'', ''EXAMINE'', ''STATUS'']"

definition needs_mailbox :: "string list" where
  "needs_mailbox = [''FETCH'', ''UID'', ''EXPUNGE'', ''SEARCH'', ''STORE'', ''MOVE'']"

definition preauth_reply :: "string \<Rightarrow> string \<Rightarrow> string \<Rightarrow> reply" where
  "preauth_reply tag cmd args =
     (if cmd = ''CAPABILITY'' then cmd_capability tag
      else if cmd = ''NOOP'' then [tagged tag ''OK NOOP completed'']
      else if cmd = ''LOGIN'' then auth_failed tag ''Invalid credentials''
      else if cmd = ''AUTHENTICATE'' then
        (if eq_ignore_ascii_case (trim args) ''PLAIN'' then [''+ '' @ CRLF] else [tagged tag ''NO Unsupported mechanism''])
      else if cmd \<in> set needs_login then not_authenticated tag
      else if cmd \<in> set needs_mailbox then no_mailbox tag
      else if cmd = ''COPY'' then cmd_copy tag
      else if cmd = ''IDLE'' then [''+ idling'' @ CRLF]
      else if cmd = ''NAMESPACE'' then [untagged (''NAMESPACE (('' @ [DQUOTE, DQUOTE] @ '' '' @ [DQUOTE] @ ''/'' @ [DQUOTE] @ '')) NIL NIL''), tagged tag ''OK NAMESPACE completed'']
      else [tagged tag ''BAD Unknown command''])"

definition preauth_command :: "unicode \<Rightarrow> string \<Rightarrow> imap_session \<Rightarrow> reply \<times> imap_session" where
  "preauth_command u line ss = (case parse_command line of (tag, cmd0, args) \<Rightarrow>
     let cmd = to_uppercase u cmd0 in
     (preauth_reply tag cmd args,
      if cmd = ''AUTHENTICATE'' \<and> eq_ignore_ascii_case (trim args) ''PLAIN'' then ss\<lparr>is_auth_tag := Some tag\<rparr>
      else if cmd = ''IDLE'' then ss\<lparr>is_idle_tag := Some tag\<rparr> else ss))"

definition preauth_auth :: "base64 \<Rightarrow> string \<Rightarrow> string \<Rightarrow> reply" where
  "preauth_auth b tag line = (case b64_decode b (trim line) of
     None \<Rightarrow> auth_failed tag ''Invalid base64''
   | Some decoded \<Rightarrow> auth_failed tag (if plain_password decoded = None then ''Invalid PLAIN data'' else ''Invalid credentials''))"

definition preauth_line :: "base64 \<Rightarrow> unicode \<Rightarrow> string \<Rightarrow> imap_session \<Rightarrow> reply \<times> imap_session" where
  "preauth_line b u line ss = (case is_idle_tag ss of
     Some tag \<Rightarrow> if eq_ignore_ascii_case line ''DONE'' then ([tagged tag ''OK IDLE terminated''], ss\<lparr>is_idle_tag := None\<rparr>) else ([], ss)
   | None \<Rightarrow> (case is_auth_tag ss of
       Some tag \<Rightarrow> (preauth_auth b tag line, ss\<lparr>is_auth_tag := None\<rparr>)
     | None \<Rightarrow> preauth_command u line ss))"

fun preauth_run :: "base64 \<Rightarrow> unicode \<Rightarrow> string list \<Rightarrow> imap_session \<Rightarrow> reply \<times> imap_session" where
  "preauth_run b u [] ss = ([], ss)"
| "preauth_run b u (l # ls) ss = (case preauth_line b u l ss of (r, ss1) \<Rightarrow> apfst ((@) r) (preauth_run b u ls ss1))"

text \<open>The lines of the client's input, as the connection reads them.\<close>

lemma line_end_at_pos: "inp \<noteq> [] \<Longrightarrow> 0 < line_end_at inp \<and> length inp - line_end_at inp < length inp"
  by (cases inp) (auto simp: line_end_at_def split: option.split)

function stream_lines :: "string \<Rightarrow> string list" where
  "stream_lines inp = (if inp = [] then [] else trim_end (take (line_end_at inp) inp) # stream_lines (drop (line_end_at inp) inp))"
  by pat_completeness auto
termination
  by (relation "measure length") (auto dest: line_end_at_pos)

declare stream_lines.simps [simp del]

text \<open>A line that neither presents the password nor is a CLOSE, a LOGOUT or an APPEND.\<close>

definition harmless :: "'w imap_env \<Rightarrow> string \<Rightarrow> string \<Rightarrow> bool" where
  "harmless ie p line = (parse_append line = None
     \<and> Option.bind (b64_decode (ie_b64 ie) (trim line)) plain_password \<noteq> Some p
     \<and> (case parse_command line of (tag, cmd0, args) \<Rightarrow>
         let cmd = to_uppercase (ie_uni ie) cmd0 in cmd \<notin> {''CLOSE'', ''LOGOUT''} \<and> \<not> (cmd = ''LOGIN'' \<and> snd (parse_login_args args) = p)))"

definition locked :: "string \<Rightarrow> imap_session \<Rightarrow> bool" where
  "locked p ss = (is_state ss = NotAuthenticated \<and> is_password_hash ss = Some p \<and> is_folder ss = None \<and> is_mails ss = [])"

lemma preauth_locked: "locked p ss \<Longrightarrow> locked p (snd (preauth_line b u line ss))"
  by (auto simp: locked_def preauth_line_def preauth_command_def Let_def split: option.split prod.split)

lemma locked_commands:
  assumes "locked p ss"
  shows "cmd_list ie tag args ss sy = not_authenticated tag" "cmd_select ie tag args (ss, sy) = (not_authenticated tag, ss, sy)"
    "cmd_status ie tag args ss sy = not_authenticated tag" "cmd_fetch ie tag args um (ss, sy) = (Some (no_mailbox tag), ss, sy)"
    "cmd_uid ie tag args (ss, sy) = (Some (no_mailbox tag), ss, sy)" "cmd_expunge ie tag (ss, sy) = (no_mailbox tag, ss, sy)"
    "cmd_search ie tag args um (ss, sy) = (no_mailbox tag, ss, sy)" "cmd_store ie tag args um (ss, sy) = (no_mailbox tag, ss, sy)"
    "cmd_move ie tag args um (ss, sy) = (no_mailbox tag, ss, sy)"
    "snd (parse_login_args args) \<noteq> p \<Longrightarrow> cmd_login tag args ss = (auth_failed tag ''Invalid credentials'', ss)"
    "check_new_mail (ss, sy) = ([], ss, sy)"
  using assms by (simp_all add: locked_def cmd_list_def cmd_select_def cmd_status_def cmd_fetch_def cmd_uid_def cmd_expunge_def cmd_search_def
      cmd_store_def cmd_move_def cmd_login_def password_ok_def pure_reply_def check_new_mail_def)

lemma locked_command:
  assumes "locked p ss" "harmless ie p line"
  shows "handle_command ie line (ss, sy) = (case preauth_command (ie_uni ie) line ss of (r, ss1) \<Rightarrow> (Some r, ss1, sy))"
proof -
  obtain tag cmd0 args where pc: "parse_command line = (tag, cmd0, args)" by (cases "parse_command line") auto
  define cmd where "cmd = to_uppercase (ie_uni ie) cmd0"
  have h: "cmd \<noteq> ''CLOSE''" "cmd \<noteq> ''LOGOUT''" "cmd = ''LOGIN'' \<Longrightarrow> snd (parse_login_args args) \<noteq> p"
    using assms(2) pc by (auto simp: harmless_def cmd_def Let_def)
  note c = locked_commands [OF assms(1)]
  show ?thesis
    using h unfolding handle_command_def preauth_command_def pc prod.case Let_def cmd_def [symmetric]
    by (simp add: c preauth_reply_def needs_login_def needs_mailbox_def pure_reply_def session_reply_def conn_reply_def)
qed

lemma locked_auth:
  assumes "locked p ss" "harmless ie p line" "is_auth_tag ss = Some tag"
  shows "handle_auth_response ie line ss = (preauth_auth (ie_b64 ie) tag line, ss\<lparr>is_auth_tag := None\<rparr>)"
  using assms by (auto simp: handle_auth_response_def preauth_auth_def locked_def harmless_def password_ok_def Let_def split: option.split)

lemma locked_turn:
  assumes "locked p ss" "harmless ie p (trim_end (take (line_end_at inp) inp))" "conn_turn ie later (ss, sy) inp = More r c2 inp2"
  shows "inp \<noteq> [] \<and> inp2 = drop (line_end_at inp) inp \<and> snd c2 = sy
    \<and> preauth_line (ie_b64 ie) (ie_uni ie) (trim_end (take (line_end_at inp) inp)) ss = (r, fst c2)"
proof -
  let ?l = "trim_end (take (line_end_at inp) inp)"
  have a: "parse_append ?l = None" using assms(2) by (simp add: harmless_def)
  have n: "is_state ss = NotAuthenticated" using assms(1) by (simp add: locked_def)
  show ?thesis
    using assms(3) locked_command [OF assms(1, 2), of sy] locked_auth [OF assms(1, 2)] a n
    by (auto simp: conn_turn_def preauth_line_def end_idle_def Let_def split: if_splits option.splits prod.splits)
qed

lemma preauth_run_append:
  "preauth_run b u (ls @ ks) ss = (case preauth_run b u ls ss of (r, ss1) \<Rightarrow> apfst ((@) r) (preauth_run b u ks ss1))"
  by (induction ls arbitrary: ss) (auto simp: apfst_def map_prod_def split: prod.split)

lemma locked_new [simp]: "locked p (new_session (Some p) loc)"
  by (simp add: locked_def new_session_def)

lemma locked_run:
  assumes "conn_steps ie ((ss0, sy0), inp0) r s" "locked p ss0" "list_all (harmless ie p) (stream_lines inp0)"
  shows "\<exists>ls. stream_lines inp0 = ls @ stream_lines (snd s) \<and> preauth_run (ie_b64 ie) (ie_uni ie) ls ss0 = (r, fst (fst s)) \<and> locked p (fst (fst s))"
  using assms
proof (induction "((ss0, sy0), inp0)" r s rule: conn_steps.induct)
  case start
  then show ?case by (intro exI [of _ "[]"]) simp
next
  case (turn r c inp later r2 c2 inp2)
  then obtain ls where ls: "stream_lines inp0 = ls @ stream_lines inp" "preauth_run (ie_b64 ie) (ie_uni ie) ls ss0 = (r, fst c)" "locked p (fst c)"
    by auto
  let ?l = "trim_end (take (line_end_at inp) inp)"
  have ne: "inp \<noteq> []" using turn(3) by (auto simp: conn_turn_def split: prod.splits)
  then have sl: "stream_lines inp = ?l # stream_lines (drop (line_end_at inp) inp)" by (subst stream_lines.simps) simp
  then have "harmless ie p ?l" using turn.prems(2) ls(1) by simp
  from locked_turn [OF ls(3) this, of later "snd c" r2 c2 inp2] turn(3)
  have t: "inp2 = drop (line_end_at inp) inp" "preauth_line (ie_b64 ie) (ie_uni ie) ?l (fst c) = (r2, fst c2)" by auto
  have "locked p (fst c2)" using preauth_locked [OF ls(3), of "ie_b64 ie" "ie_uni ie" ?l] t(2) by simp
  moreover have "preauth_run (ie_b64 ie) (ie_uni ie) (ls @ [?l]) ss0 = (r @ r2, fst c2)" using ls(2) t(2) by (simp add: preauth_run_append)
  ultimately show ?case using ls(1) sl t(1) by (intro exI [of _ "ls @ [?l]"]) simp
next
  case (push r c inp r2 c2)
  then obtain ls where ls: "stream_lines inp0 = ls @ stream_lines inp" "preauth_run (ie_b64 ie) (ie_uni ie) ls ss0 = (r, fst c)" "locked p (fst c)"
    by auto
  then show ?case using push(4) locked_commands(11) [OF ls(3), of "snd c"] by (intro exI [of _ ls]) auto
next
  case (others r ss sy inp sy2)
  then show ?case by auto
qed


definition sample_imap_env :: "unit imap_env" where
  "sample_imap_env = \<lparr>ie_env = sample_env offline (\<lambda>_. None), ie_utf7 = rfc4648, ie_fts = \<lparr>fts_wf = (\<lambda>_. True), fts_matches = (\<lambda>_ _. False)\<rparr>\<rparr>"

definition sample_input :: string where
  "sample_input = ''a LOGIN me guess'' @ [CHR 0x0D, CHR 0x0A] @ ''b SELECT INBOX'' @ [CHR 0x0D, CHR 0x0A]"

lemma sample_stream:
  "line_end_at sample_input = 18" "stream_lines sample_input = [''a LOGIN me guess'', ''b SELECT INBOX'']"
  "list_all (harmless sample_imap_env ''secret'') [''a LOGIN me guess'', ''b SELECT INBOX'']"
  by code_simp+


text \<open>
  CLOSE is not harmless: it needs no login and leaves the session authenticated, whatever the password.
\<close>

theorem close_bypasses_login:
  "handle_command sample_imap_env ''a CLOSE'' (new_session (Some p) loc, sy)
   = (Some [tagged ''a'' ''OK CLOSE completed''], (new_session (Some p) loc)\<lparr>is_state := Authenticated\<rparr>, sy)"
proof -
  have "parse_command ''a CLOSE'' = (''a'', ''CLOSE'', [])" "to_uppercase (ie_uni sample_imap_env) ''CLOSE'' = ''CLOSE''" by code_simp+
  then show ?thesis by (simp add: handle_command_def session_reply_def cmd_close_def new_session_def)
qed

end
