(* ===== verification/ImapView.thy ===== *)
theory ImapView
  imports ImapSession
begin

text \<open>
  The client's picture of the selected folder. A client numbers the messages from one and follows the
  server's EXPUNGE and EXISTS lines; here those lines are replayed on the list of messages the
  session showed before, and compared with the list the session holds after.
\<close>

section \<open>Replaying EXPUNGE\<close>

definition drop_number :: "nat \<Rightarrow> 'a list \<Rightarrow> 'a list" where
  "drop_number n xs = take (n - 1) xs @ drop n xs"

definition client_view :: "nat list \<Rightarrow> 'a list \<Rightarrow> 'a list" where
  "client_view nums xs = fold drop_number nums xs"

lemma client_view_simps [simp]:
  "client_view [] xs = xs" "client_view (n # ns) xs = client_view ns (drop_number n xs)"
  "client_view (ns @ ks) xs = client_view ks (client_view ns xs)"
  by (simp_all add: client_view_def)

lemma expunge_loop_kept: "snd (expunge_loop gone seq ms) = filter (\<lambda>m. \<not> gone m) ms"
  by (induction ms arbitrary: seq) auto

lemma expunge_loop_replay:
  "client_view (fst (expunge_loop gone (length pre + 1) ms)) (pre @ ms) = pre @ snd (expunge_loop gone (length pre + 1) ms)"
proof (induction ms arbitrary: pre)
  case (Cons m ms)
  show ?case
  proof (cases "gone m")
    case True
    have "drop_number (length pre + 1) (pre @ m # ms) = pre @ ms" by (simp add: drop_number_def)
    then show ?thesis using True Cons [of pre] by simp
  next
    case False
    then show ?thesis using Cons [of "pre @ [m]"] by simp
  qed
qed simp

lemma expunge_replay: "client_view (fst (expunge_loop gone 1 ms)) ms = filter (\<lambda>m. \<not> gone m) ms"
  using expunge_loop_replay [of gone "[]" ms] by (simp add: expunge_loop_kept)

text \<open>
  After EXPUNGE or MOVE the client's numbering is the server's: whatever the server answered, removing
  the announced numbers one after the other from the view before gives exactly the view after.
\<close>

theorem expunge_in_sync:
  assumes "cmd_expunge ie tag (ss, sy) = (r, c2) \<or> cmd_move ie tag args uid_mode (ss, sy) = (r, c2)"
  shows "\<exists>nums t. r = map expunge_line nums @ [tagged tag t] \<and> client_view nums (is_mails ss) = is_mails (fst c2)"
proof -
  have quiet: "\<exists>nums t. [tagged tag x] = map expunge_line nums @ [tagged tag t] \<and> client_view nums ms = ms" for x ms
    by (intro exI [of _ "[]"] exI [of _ x]) simp
  have loop: "\<exists>nums t. map expunge_line (fst (expunge_loop gone 1 ms)) @ [tagged tag x] = map expunge_line nums @ [tagged tag t]
      \<and> client_view nums ms = snd (expunge_loop gone 1 ms)" for gone ms x
    using expunge_replay [of gone ms] expunge_loop_kept [of gone 1 ms] by (intro exI [of _ "fst (expunge_loop gone 1 ms)"] exI [of _ x]) simp
  show ?thesis
    using assms
  proof
    assume "cmd_expunge ie tag (ss, sy) = (r, c2)"
    then show ?thesis using quiet loop
      by (auto simp del: One_nat_def simp: cmd_expunge_def no_mailbox_def Let_def case_prod_beta split: if_splits sum.splits option.splits)
  next
    assume "cmd_move ie tag args uid_mode (ss, sy) = (r, c2)"
    then show ?thesis using quiet loop
      by (auto simp del: One_nat_def simp: cmd_move_def no_mailbox_def Let_def case_prod_beta split: if_splits sum.splits option.splits)
  qed
qed

definition sample_cached :: "string \<Rightarrow> nat \<Rightarrow> bool \<Rightarrow> cached_mail" where
  "sample_cached e u d = \<lparr>cm_mail = sample_mail e, cm_body_loaded = False, cm_uid = u, cm_deleted = d\<rparr>"

lemma sample_cached_simps [simp]:
  "cm_mail (sample_cached e u d) = sample_mail e" "cm_body_loaded (sample_cached e u d) = False" "cm_uid (sample_cached e u d) = u"
  "cm_deleted (sample_cached e u d) = d"
  by (simp_all add: sample_cached_def)

definition sample_selected :: "cached_mail list \<Rightarrow> imap_session" where
  "sample_selected ms = (new_session None True)\<lparr>is_state := Selected, is_folder := Some (sample_folder ''a''), is_mails := ms\<rparr>"

definition sample_online :: "unit imap_env" where
  "sample_online = \<lparr>ie_env = sample_env (offline\<lparr>bk_trash_mails := \<lambda>i w. (Inr (), w)\<rparr>) (\<lambda>_. None), ie_utf7 = rfc4648,
     ie_fts = \<lparr>fts_wf = (\<lambda>_. True), fts_matches = (\<lambda>_ _. False)\<rparr>\<rparr>"

theorem expunge_in_sync_witness:
  "\<exists>nums t. [expunge_line 1, expunge_line 2, tagged ''a'' ''OK EXPUNGE completed''] = map expunge_line nums @ [tagged ''a'' t]
     \<and> client_view nums [sample_cached ''x'' 1 True, sample_cached ''y'' 2 False, sample_cached ''z'' 3 True] = [sample_cached ''y'' 2 False]"
proof -
  let ?ms = "[sample_cached ''x'' 1 True, sample_cached ''y'' 2 False, sample_cached ''z'' 3 True]"
  have "cmd_expunge sample_online ''a'' (sample_selected ?ms, fresh_sys ())
    = ([expunge_line 1, expunge_line 2, tagged ''a'' ''OK EXPUNGE completed''], sample_selected [sample_cached ''y'' 2 False], fresh_sys ())"
    by (simp add: cmd_expunge_def sample_selected_def sample_cached_def sample_online_def map_filter_def call_def sample_folder_def numeral_2_eq_2)
  from expunge_in_sync [OF disjI1, OF this] show ?thesis by (simp add: sample_selected_def)
qed

section \<open>Updates pushed while idle\<close>

lemma expunge_numbers_simps [simp]:
  "expunge_numbers gone [] = []"
  "expunge_numbers gone (ms @ [m]) = expunge_numbers gone ms @ (if gone m then [length ms + 1] else [])"
  by (simp_all add: expunge_numbers_def enumerate_append_eq)

lemma expunge_numbers_range: "n \<in> set (expunge_numbers gone ms) \<Longrightarrow> 1 \<le> n \<and> n \<le> length ms"
  by (induction ms rule: rev_induct) (auto split: if_splits)

lemma expunge_numbers_sorted: "sorted_wrt (<) (expunge_numbers gone ms)"
proof (induction ms rule: rev_induct)
  case (snoc m ms)
  then show ?case using expunge_numbers_range [of _ gone ms] by (fastforce simp: sorted_wrt_append)
qed simp

lemma expunge_numbers_sort: "sort (expunge_numbers gone ms) = expunge_numbers gone ms"
  using expunge_numbers_sorted by (intro sort_key_id_if_sorted) (simp add: strict_sorted_imp_sorted)

lemma client_view_snoc:
  "sorted_wrt (>) ns \<Longrightarrow> \<forall>n \<in> set ns. 1 \<le> n \<and> n \<le> length xs \<Longrightarrow> client_view ns (xs @ [m]) = client_view ns xs @ [m]"
proof (induction ns arbitrary: xs)
  case (Cons n ns)
  have "length (drop_number n xs) = length xs - 1" using Cons.prems(2) by (auto simp: drop_number_def)
  moreover have "drop_number n (xs @ [m]) = drop_number n xs @ [m]" using Cons.prems(2) by (auto simp: drop_number_def)
  moreover have "\<forall>k \<in> set ns. 1 \<le> k \<and> k \<le> length xs - 1" using Cons.prems by fastforce
  ultimately show ?case using Cons by simp
qed simp

lemma descending_replay: "client_view (rev (expunge_numbers gone ms)) ms = filter (\<lambda>m. \<not> gone m) ms"
proof (induction ms rule: rev_induct)
  case (snoc m ms)
  show ?case
  proof (cases "gone m")
    case True
    have "drop_number (length ms + 1) (ms @ [m]) = ms" by (simp add: drop_number_def)
    then show ?thesis using True snoc by simp
  next
    case False
    have "sorted_wrt (>) (rev (expunge_numbers gone ms))" using expunge_numbers_sorted [of gone ms] by (simp add: sorted_wrt_rev)
    then show ?thesis using False snoc client_view_snoc expunge_numbers_range by fastforce
  qed
qed simp

text \<open>The new list continues the old view: mails that stayed kept their UIDs, new ones got higher UIDs.\<close>

definition old_eids :: "cached_mail list \<Rightarrow> string set" where
  "old_eids ms = {e. \<exists>m \<in> set ms. eid_of (cm_mail m) = Some e}"

definition continues :: "cached_mail list \<Rightarrow> stored_mail list \<Rightarrow> bool" where
  "continues ms new_list = (sorted_wrt (<) (map cm_uid ms) \<and> distinct (map sm_uid new_list)
     \<and> (\<forall>m \<in> set ms. eid_of (cm_mail m) \<noteq> None) \<and> (\<forall>sm \<in> set new_list. eid_of (sm_mail sm) \<noteq> None)
     \<and> (\<forall>m \<in> set ms. \<forall>sm \<in> set new_list. eid_of (sm_mail sm) = eid_of (cm_mail m) \<longrightarrow> sm_uid sm = cm_uid m)
     \<and> (\<forall>m \<in> set ms. \<forall>sm \<in> set new_list. (\<forall>k \<in> set ms. eid_of (sm_mail sm) \<noteq> eid_of (cm_mail k)) \<longrightarrow> cm_uid m < sm_uid sm))"

lemma sort_split:
  fixes xs ys :: "nat list"
  assumes "\<forall>x \<in> set xs. \<forall>y \<in> set ys. x \<le> y" "mset zs = mset xs + mset ys"
  shows "sort zs = sort xs @ sort ys"
proof (rule properties_for_sort)
  show "mset (sort xs @ sort ys) = mset zs" using assms(2) by simp
  show "sorted (sort xs @ sort ys)" using assms(1) by (auto simp: sorted_append)
qed

lemma departed_eid:
  "eid_of (cm_mail m) = Some e \<Longrightarrow> departed new_list m = (\<forall>sm \<in> set new_list. eid_of (sm_mail sm) \<noteq> Some e)"
  by (auto simp: departed_def map_filter_def image_iff)

lemma kept_uids:
  assumes "continues ms new_list"
  shows "map cm_uid (filter (\<lambda>m. \<not> departed new_list m) ms) = take (length (filter (\<lambda>m. \<not> departed new_list m) ms)) (map sm_uid (sort_key sm_uid new_list))"
proof -
  let ?kept = "filter (\<lambda>m. \<not> departed new_list m) ms"
  let ?old = "\<lambda>sm. \<exists>m \<in> set ms. eid_of (sm_mail sm) = eid_of (cm_mail m)"
  let ?xs = "map sm_uid (filter ?old new_list)" and ?ys = "map sm_uid (filter (\<lambda>sm. \<not> ?old sm) new_list)"
  have "mset (map sm_uid new_list) = mset ?xs + mset ?ys" by (induction new_list) auto
  moreover have "x \<le> y" if x: "x \<in> set ?xs" and y: "y \<in> set ?ys" for x y
  proof -
    obtain s m where s: "s \<in> set new_list" "m \<in> set ms" "eid_of (sm_mail s) = eid_of (cm_mail m)" "x = sm_uid s" using x by auto
    obtain k where k: "k \<in> set new_list" "\<not> ?old k" "y = sm_uid k" using y by auto
    have "x = cm_uid m" using s assms by (auto simp: continues_def)
    moreover have "cm_uid m < y" using s(2) k assms by (auto simp: continues_def)
    ultimately show ?thesis by simp
  qed
  ultimately have s: "sort (map sm_uid new_list) = sort ?xs @ sort ?ys" using sort_split by blast
  have stay: "\<not> departed new_list m \<longleftrightarrow> (\<exists>sm \<in> set new_list. eid_of (sm_mail sm) = eid_of (cm_mail m))" if m: "m \<in> set ms" for m
  proof -
    obtain e where "eid_of (cm_mail m) = Some e" using m assms by (auto simp: continues_def)
    then show ?thesis by (auto simp: departed_eid)
  qed
  have same: "sm_uid sm = cm_uid m" if "m \<in> set ms" "sm \<in> set new_list" "eid_of (sm_mail sm) = eid_of (cm_mail m)" for m sm
    using that assms by (simp add: continues_def)
  have "set (map cm_uid ?kept) = set ?xs"
  proof (intro equalityI subsetI)
    fix x assume "x \<in> set (map cm_uid ?kept)"
    then obtain m where m: "m \<in> set ms" "\<not> departed new_list m" "x = cm_uid m" by auto
    then obtain sm where sm: "sm \<in> set new_list" "eid_of (sm_mail sm) = eid_of (cm_mail m)" using stay by blast
    have "sm_uid sm = x" using same m sm by blast
    then show "x \<in> set ?xs" using sm m(1) by force
  next
    fix x assume "x \<in> set ?xs"
    then obtain sm m where m: "sm \<in> set new_list" "m \<in> set ms" "eid_of (sm_mail sm) = eid_of (cm_mail m)" "x = sm_uid sm" by auto
    then have "cm_uid m = x" "\<not> departed new_list m" using same stay by metis+
    then show "x \<in> set (map cm_uid ?kept)" using m(2) by auto
  qed
  moreover have "distinct ?xs" using assms by (auto simp: continues_def intro: distinct_map_filter)
  moreover have w: "sorted_wrt (<) (map cm_uid ?kept)" using assms by (simp add: continues_def sorted_wrt_map sorted_wrt_filter)
  ultimately have "map cm_uid ?kept = sort ?xs"
    using strict_sorted_imp_sorted [OF w] sorted_distinct_set_unique [of "map cm_uid ?kept" "sort ?xs"] by (simp add: strict_sorted_iff)
  moreover have "map sm_uid (sort_key sm_uid new_list) = sort (map sm_uid new_list)"
    by (rule properties_for_sort [symmetric]) simp_all
  ultimately have "map sm_uid (sort_key sm_uid new_list) = map cm_uid ?kept @ sort ?ys" using s by (simp only:)
  then show ?thesis by simp
qed



end
