(* ===== verification/ImapFetch.thy ===== *)
theory ImapFetch
  imports ImapView
begin

text \<open>
  What a client relies on when it names messages and asks for their bodies: the messages a sequence set
  stands for, and what a FETCH answers when the server cannot deliver a body.
\<close>

section \<open>Sequence sets\<close>

text \<open>The number under which a client addresses the message at an index, and the parts of a set that name it.\<close>

definition number_of :: "cached_mail list \<Rightarrow> bool \<Rightarrow> nat \<Rightarrow> nat" where
  "number_of ms uid_mode i = (if uid_mode then cm_uid (ms ! i) else i + 1)"

definition names :: "cached_mail list \<Rightarrow> bool \<Rightarrow> string \<Rightarrow> nat \<Rightarrow> bool" where
  "names ms uid_mode part i =
     (let n = number_of ms uid_mode i; largest = set_max ms uid_mode;
          (a, b) = (case split_once CHR '':'' (trim part) of Some ends \<Rightarrow> ends | None \<Rightarrow> (trim part, trim part));
          s = parse_seq_num a largest; e = parse_seq_num b largest
      in min s e \<le> n \<and> n \<le> max s e)"

lemma names_range:
  "names ms uid_mode part i = (fst (part_range (set_max ms uid_mode) part) \<le> number_of ms uid_mode i
     \<and> number_of ms uid_mode i \<le> snd (part_range (set_max ms uid_mode) part))"
  by (auto simp: names_def part_range_def Let_def split: option.split)

lemma seq_to_index_iff:
  assumes "uid_mode \<Longrightarrow> distinct (map cm_uid ms)"
  shows "seq_to_index ms n uid_mode = Some i \<longleftrightarrow> i < length ms \<and> number_of ms uid_mode i = n"
proof (cases uid_mode)
  case True
  then have "cm_uid (ms ! j) \<noteq> cm_uid (ms ! i)" if "j < i" "i < length ms" for j
    using that assms by (auto simp: distinct_conv_nth)
  then show ?thesis using True by (auto simp: seq_to_index_def number_of_def position_Some)
qed (auto simp: seq_to_index_def number_of_def)

lemma remdups_adj_sorted: "sorted xs \<Longrightarrow> sorted_wrt (<) (remdups_adj (xs :: nat list))"
  by (induction xs rule: remdups_adj.induct) (auto simp: less_le)

lemma mem_map_filter: "y \<in> set (List.map_filter f xs) \<longleftrightarrow> (\<exists>x \<in> set xs. f x = Some y)"
  by (force simp: map_filter_def)

lemma range_indices:
  assumes "uid_mode \<Longrightarrow> distinct (map cm_uid ms)"
  shows "set (List.map_filter (\<lambda>n. seq_to_index ms n uid_mode) [lo..<Suc hi])
    = {i. i < length ms \<and> lo \<le> number_of ms uid_mode i \<and> number_of ms uid_mode i \<le> hi}"
proof -
  have "seq_to_index ms n uid_mode = Some i \<longleftrightarrow> i < length ms \<and> number_of ms uid_mode i = n" for n i
    by (rule seq_to_index_iff) (rule assms)
  then show ?thesis by (simp add: set_eq_iff mem_map_filter del: upt_Suc) auto
qed

text \<open>
  C29: A sequence set stands for the messages it names: an index is in the result exactly when the message
  exists and its number, or its UID, lies in one of the comma-separated ranges, whichever end comes
  first and with the largest number for the star; every message comes once, in mailbox order.
\<close>

theorem sequence_set_exact:
  assumes "uid_mode \<Longrightarrow> distinct (map cm_uid ms)"
  shows "sorted_wrt (<) (resolve_sequence_set ms seq_set uid_mode)
    \<and> set (resolve_sequence_set ms seq_set uid_mode) = {i. i < length ms \<and> (\<exists>part \<in> set (split_on CHR '','' seq_set). names ms uid_mode part i)}"
proof
  show "sorted_wrt (<) (resolve_sequence_set ms seq_set uid_mode)"
    by (simp add: resolve_sequence_set_def Let_def remdups_adj_sorted)
  show "set (resolve_sequence_set ms seq_set uid_mode)
      = {i. i < length ms \<and> (\<exists>part \<in> set (split_on CHR '','' seq_set). names ms uid_mode part i)}"
    unfolding resolve_sequence_set_def Let_def remdups_adj_set set_sort set_concat set_map
    by (auto simp: names_range range_indices [OF assms] case_prod_beta simp del: upt_Suc)
qed

theorem sequence_set_exact_witness:
  "set (resolve_sequence_set [sample_cached ''x'' 3 False, sample_cached ''y'' 5 False, sample_cached ''z'' 9 False] ''*:4'' True) = {1, 2}"
proof -
  let ?ms = "[sample_cached ''x'' 3 False, sample_cached ''y'' 5 False, sample_cached ''z'' 9 False]"
  have "show_nat 4 = ''4''" by code_simp
  then have "parse_u32 ''4'' = Some 4" using parse_u32_show [of 4] by simp
  then have n: "parse_seq_num ''4'' 9 = 4" "parse_seq_num ''*'' 9 = 9" by (simp_all add: parse_seq_num_def)
  have s: "trim ''*:4'' = ''*:4''" "split_once CHR '':'' ''*:4'' = Some (''*'', ''4'')" by code_simp+
  have p: "split_on CHR '','' ''*:4'' = [''*:4'']" by code_simp
  have "set_max ?ms True = 9" by (simp add: set_max_def sample_cached_def)
  then have m: "names ?ms True ''*:4'' i = (4 \<le> cm_uid (?ms ! i) \<and> cm_uid (?ms ! i) \<le> 9)" for i
    using n s by (simp add: names_def number_of_def Let_def)
  have "{i. i < length ?ms \<and> (4 \<le> cm_uid (?ms ! i) \<and> cm_uid (?ms ! i) \<le> 9)} = {1, 2}"
    by (auto simp: sample_cached_def less_Suc_eq)
  moreover have "set (resolve_sequence_set ?ms ''*:4'' True) = {i. i < length ?ms \<and> (\<exists>part \<in> {''*:4''}. names ?ms True part i)}"
    using sequence_set_exact [of True ?ms "''*:4''"] p by (simp add: sample_cached_def)
  ultimately show ?thesis by (simp only: m bex_simps simp_thms)
qed

section \<open>Bodies that cannot be fetched\<close>

lemma bc_get_again:
  assumes "cache_inv (bc_state c)" "bc_get cr ls e c = (None, c1)"
  shows "\<exists>c2. bc_get cr ls e c1 = (None, c2)"
proof -
  let ?c = "snd (bc_cached e c)"
  have i: "cache_inv (bc_state ?c)" using assms(1) by (rule cache.inv_look)
  have n: "cache_content c e = None" "fst (bc_cached e c) = None"
    using assms cache.look_val [of c e] by (auto simp: bc_get_def split: prod.splits option.splits)
  have r: "bc_has_store ?c \<Longrightarrow> read_eml cr e ls \<noteq> Inr (Some rfc)" for rfc
    using assms(2) n(2) cache.look_after_ins [OF i, of e "\<lparr>be_details = None, be_rfc2822 = rfc\<rparr>"]
    by (auto simp: bc_get_def case_prod_beta split: option.splits if_splits)
  then have "c1 = ?c" using assms(2) n(2)
    by (auto simp: bc_get_def case_prod_beta split: option.splits if_splits sum.splits)
  moreover have "fst (bc_cached e ?c) = None" using n assms(1) i by (simp add: cache.look_val cache.look_content)
  ultimately show ?thesis using r
    by (auto simp: bc_get_def case_prod_beta bc_cached_conv split: option.splits sum.splits)
qed

lemma fetch_on_demand_failed:
  assumes "fetch_on_demand ie idx (ss, sy) = (Inl why, c)" "eid_of (cm_mail (is_mails ss ! idx)) = Some e"
  shows "\<exists>w. c = (ss, sy\<lparr>sy_world := w, sy_store := mark_body_fetch_failed (en_now (ie_env ie) w) e (sy_store sy)\<rparr>)"
  using assms by (auto simp: fetch_on_demand_def fetch_failed_def on_store_def call_def Let_def case_prod_beta split: sum.splits)

lemma ensure_body_failed:
  assumes "ensure_body ie items idx (ss, sy) = (Inl why, c)" "eid_of (cm_mail (is_mails ss ! idx)) = Some e"
    "why \<noteq> ''message body temporarily unavailable, try again later''"
  shows "\<exists>w b st. \<not> cm_body_loaded (is_mails ss ! idx) \<and> bc_get (en_crypto (ie_env ie)) (sy_local sy) e (ms_bodies (sy_store sy)) = (None, b)
    \<and> c = (ss, sy\<lparr>sy_world := w, sy_store := mark_body_fetch_failed (en_now (ie_env ie) w) e st\<rparr>) \<and> ms_bodies st = b"
proof -
  obtain r b where get: "bc_get (en_crypto (ie_env ie)) (sy_local sy) e (ms_bodies (sy_store sy)) = (r, b)" by fastforce
  define sy1 where "sy1 = sy\<lparr>sy_store := (sy_store sy)\<lparr>ms_bodies := b\<rparr>\<rparr>"
  obtain cool st where cd: "body_fetch_on_cooldown (en_now (ie_env ie) (sy_world sy)) e (sy_store sy1) = (cool, st)" by fastforce
  have w: "sy_world sy1 = sy_world sy" "sy1\<lparr>sy_store := st\<rparr> = sy\<lparr>sy_store := st\<rparr>" by (simp_all add: sy1_def)
  have n: "\<not> cm_body_loaded (is_mails ss ! idx)" "r = None" "\<not> cool" "fetch_on_demand ie idx (ss, sy\<lparr>sy_store := st\<rparr>) = (Inl why, c)"
    using assms get cd w by (auto simp: ensure_body_def store_body_lookup_def get_body_def on_cooldown_def sy1_def Let_def split: if_splits)
  have "ms_bodies st = b" using cd by (auto simp: body_fetch_on_cooldown_def sy1_def split: option.splits if_splits)
  then show ?thesis using fetch_on_demand_failed [OF n(4) assms(2)] n get by auto
qed

text \<open>
  When the server fails on a body, FETCH answers NO and nothing else, and the mail cools down: for the
  next thirty seconds a FETCH of it answers NO again without calling the server.
\<close>

theorem failed_fetch_backs_off:
  assumes "ms_wf (sy_store sy)" "idx < length (is_mails ss)" "eid_of (cm_mail (is_mails ss ! idx)) = Some e"
    and failed: "ensure_body ie items idx (ss, sy) = (Inl why, c1)" "c1 = (ss1, sy1)"
    and server: "why \<noteq> ''message body temporarily unavailable, try again later''"
    and soon: "sy_store sy2 = sy_store sy1" "sy_local sy2 = sy_local sy1"
      "en_now (ie_env ie) (sy_world sy2) < en_now (ie_env ie) (sy_world sy1) + BODY_FETCH_COOLDOWN"
    and again: "needs_body items2"
  shows "fetch_loop ie tag items uid_mode (idx # rest) acc (ss, sy) = (Some [tagged tag (''NO [UNAVAILABLE] '' @ why)], ss, sy1)
    \<and> (\<exists>st. fetch_loop ie tag2 items2 uid_mode2 (idx # rest2) acc2 (ss, sy2)
        = (Some [tagged tag2 ''NO [UNAVAILABLE] message body temporarily unavailable, try again later''], ss, sy2\<lparr>sy_store := st\<rparr>))"
proof -
  let ?now = "en_now (ie_env ie)" and ?cr = "en_crypto (ie_env ie)"
  obtain w c st where f: "\<not> cm_body_loaded (is_mails ss ! idx)" "bc_get ?cr (sy_local sy) e (ms_bodies (sy_store sy)) = (None, c)"
      "c1 = (ss, sy\<lparr>sy_world := w, sy_store := mark_body_fetch_failed (?now w) e st\<rparr>)" "ms_bodies st = c"
    using ensure_body_failed [OF failed(1) assms(3) server] by blast
  obtain c2 where "bc_get ?cr (sy_local sy) e c = (None, c2)"
    using bc_get_again [OF _ f(2)] assms(1) by (auto simp: ms_wf_iff)
  then have "ensure_body ie items2 idx (ss, sy2)
      = (Inl ''message body temporarily unavailable, try again later'', ss, sy2\<lparr>sy_store := (sy_store sy2)\<lparr>ms_bodies := c2\<rparr>\<rparr>)"
    using again f failed(2) assms(3) soon
    by (simp add: ensure_body_def store_body_lookup_def get_body_def on_cooldown_def body_fetch_on_cooldown_def mark_body_fetch_failed_def)
  then show ?thesis using failed f(3) assms(2) by auto
qed

theorem failed_fetch_backs_off_witness:
  "\<exists>sy1 st. fetch_loop sample_online ''a'' ''BODY[]'' False [0] [] (sample_selected [sample_cached ''x'' 1 False], fresh_sys ())
       = (Some [tagged ''a'' ''NO [UNAVAILABLE] could not fetch message body, try again later''], sample_selected [sample_cached ''x'' 1 False], sy1)
     \<and> fetch_loop sample_online ''b'' ''BODY[]'' False [0] [] (sample_selected [sample_cached ''x'' 1 False], sy1)
       = (Some [tagged ''b'' ''NO [UNAVAILABLE] message body temporarily unavailable, try again later''],
          sample_selected [sample_cached ''x'' 1 False], sy1\<lparr>sy_store := st\<rparr>)"
proof -
  define ss where "ss = sample_selected [sample_cached ''x'' 1 False]"
  have nb: "needs_body ''BODY[]''" by code_simp
  have m: "is_mails ss ! 0 = sample_cached ''x'' 1 False" "0 < length (is_mails ss)" by (simp_all add: ss_def sample_selected_def)
  have "fst (bc_get plain_crypto fresh_store ''x'' (ms_bodies new_mail_store)) = None"
    by (simp add: new_mail_store_def bc_get_def bc_cached_def bc_cached_state_def new_body_cache_def with_capacity_def)
  then obtain b where b: "bc_get plain_crypto fresh_store ''x'' (ms_bodies new_mail_store) = (None, b)" by (metis prod.collapse)
  have "ms_cooldown new_mail_store = []" by (simp add: new_mail_store_def)
  then have "\<exists>sy1. ensure_body sample_online ''BODY[]'' 0 (ss, fresh_sys ()) = (Inl ''could not fetch message body, try again later'', ss, sy1)"
    using nb b by (simp add: m Let_def ensure_body_def store_body_lookup_def get_body_def on_cooldown_def body_fetch_on_cooldown_def
        fetch_on_demand_def call_def sample_online_def offline_def)
  then obtain sy1 where f: "ensure_body sample_online ''BODY[]'' 0 (ss, fresh_sys ()) = (Inl ''could not fetch message body, try again later'', ss, sy1)" ..
  have wf: "ms_wf (sy_store (fresh_sys ()))" by (simp add: ms_wf_new)
  have e: "eid_of (cm_mail (is_mails ss ! 0)) = Some ''x''" by (simp add: m)
  have soon: "en_now (ie_env sample_online) (sy_world sy1) < en_now (ie_env sample_online) (sy_world sy1) + BODY_FETCH_COOLDOWN"
    by (simp add: BODY_FETCH_COOLDOWN_def)
  from failed_fetch_backs_off [OF wf m(2) e f refl _ refl refl soon nb]
  show ?thesis unfolding ss_def [symmetric] by (intro exI [of _ sy1]) (simp del: fetch_loop.simps)
qed

end
