(* ===== verification/ImapInvariant.thy ===== *)
theory ImapInvariant
  imports ImapFetch
begin

text \<open>
  An invariant of every IMAP session, kept by each command, each pushed update and so by every run of a
  connection.
\<close>

text \<open>
  The view stays in UID order, so that sequence numbers and UIDs order the messages alike; a mailbox is
  selected whenever the session is in the selected state or shows messages; the session waits for the
  end of an IDLE or for credentials, never for both; password and store are those it started with.
\<close>

definition session_ok :: "string option \<Rightarrow> bool \<Rightarrow> imap_session \<Rightarrow> bool" where
  "session_ok p loc ss = (is_password_hash ss = p \<and> is_local ss = loc
     \<and> (is_state ss = Selected \<or> is_mails ss \<noteq> [] \<longrightarrow> is_folder ss \<noteq> None)
     \<and> sorted (map cm_uid (is_mails ss)) \<and> (is_idle_tag ss = None \<or> is_auth_tag ss = None))"

lemma session_ok_mails:
  "session_ok p loc ss \<Longrightarrow> map cm_uid ms = map cm_uid (is_mails ss) \<Longrightarrow> session_ok p loc (ss\<lparr>is_mails := ms\<rparr>)"
  by (auto simp: session_ok_def dest: map_eq_imp_length_eq)

lemma session_ok_kept:
  "session_ok p loc ss \<Longrightarrow> session_ok p loc (ss\<lparr>is_mails := filter P (is_mails ss)\<rparr>)"
  by (auto simp: session_ok_def sorted_filter)

lemma session_ok_set_loaded: "session_ok p loc ss \<Longrightarrow> session_ok p loc (set_loaded idx ss)"
  unfolding set_loaded_def
proof (rule session_ok_mails)
  show "map cm_uid ((is_mails ss)[idx := (is_mails ss ! idx)\<lparr>cm_body_loaded := True\<rparr>]) = map cm_uid (is_mails ss)"
    by (cases "idx < length (is_mails ss)") (auto simp: list_eq_iff_nth_eq nth_list_update)
qed

lemma session_ok_upd_indices:
  "session_ok p loc ss \<Longrightarrow> (\<And>m. cm_uid (f m) = cm_uid m) \<Longrightarrow> session_ok p loc (upd_indices is f ss)"
  unfolding upd_indices_def by (rule session_ok_mails) (auto intro!: nth_equalityI simp: nth_enumerate_eq)

lemma session_ok_refresh:
  "session_ok p loc ss \<Longrightarrow> is_folder ss \<noteq> None \<Longrightarrow> session_ok p loc (fst (refresh_mails fid (ss, sy)))"
proof -
  have "cm_uid \<circ> cached_of = sm_uid" by (simp add: fun_eq_iff cached_of_def)
  then show "session_ok p loc ss \<Longrightarrow> is_folder ss \<noteq> None \<Longrightarrow> session_ok p loc (fst (refresh_mails fid (ss, sy)))"
    by (simp add: session_ok_def refresh_mails_def Let_def)
qed

section \<open>Commands\<close>

lemma ensure_body_ok:
  assumes "session_ok p loc ss" "ensure_body ie items idx (ss, sy) = (r, ss1, sy1)"
  shows "session_ok p loc ss1"
proof -
  have "ss1 = ss \<or> ss1 = set_loaded idx ss"
    using assms(2) by (auto simp: ensure_body_def fetch_on_demand_def Let_def case_prod_beta split: if_splits sum.splits)
  then show ?thesis using assms(1) session_ok_set_loaded by auto
qed

lemma fetch_loop_ok:
  "session_ok p loc (fst c) \<Longrightarrow> session_ok p loc (fst (snd (fetch_loop ie tag items uid_mode idxs acc c)))"
proof (induction ie tag items uid_mode idxs acc c rule: fetch_loop.induct)
  case (2 ie tag items uid_mode idx rest acc c)
  obtain r ss1 sy1 where e: "ensure_body ie items idx c = (r, ss1, sy1)" by (cases "ensure_body ie items idx c") auto
  have ok: "session_ok p loc ss1" using ensure_body_ok [of p loc "fst c" ie items idx "snd c"] e 2(3) by simp
  show ?case using 2 e ok by (auto simp: Let_def split: sum.splits option.splits prod.splits)
qed simp

lemma commands_ok:
  assumes "session_ok p loc (fst c)"
  shows "session_ok p loc (fst (snd (cmd_fetch ie tag args uid_mode c)))"
    "session_ok p loc (fst (snd (cmd_search ie tag args uid_mode c)))"
    "session_ok p loc (fst (snd (cmd_store ie tag args uid_mode c)))"
    "session_ok p loc (fst (snd (cmd_expunge ie tag c)))"
    "session_ok p loc (fst (snd (cmd_move ie tag args uid_mode c)))"
    "session_ok p loc (fst (snd (cmd_select ie tag args c)))"
proof -
  obtain ss sy where c: "c = (ss, sy)" by (cases c)
  have ok: "session_ok p loc ss" using assms c by simp
  show "session_ok p loc (fst (snd (cmd_fetch ie tag args uid_mode c)))"
    using assms by (simp add: cmd_fetch_def fetch_loop_ok split: prod.splits)
  show "session_ok p loc (fst (snd (cmd_search ie tag args uid_mode c)))"
    using ok by (simp add: c cmd_search_def Let_def split: prod.splits)
  show "session_ok p loc (fst (snd (cmd_store ie tag args uid_mode c)))"
    using ok by (simp add: c cmd_store_def Let_def session_ok_upd_indices)
  show "session_ok p loc (fst (snd (cmd_expunge ie tag c)))"
    using ok session_ok_kept expunge_loop_kept [of cm_deleted 1 "is_mails ss"]
    by (auto simp: c cmd_expunge_def Let_def split: sum.splits prod.splits)
  show "session_ok p loc (fst (snd (cmd_move ie tag args uid_mode c)))"
  proof -
    have "session_ok p loc (ss\<lparr>is_mails := snd (expunge_loop gone 1 (is_mails ss))\<rparr>)" for gone
      using ok session_ok_kept by (simp add: expunge_loop_kept)
    then show ?thesis using ok
      by (auto simp del: One_nat_def simp: c cmd_move_def Let_def case_prod_beta split: sum.splits option.splits)
  qed
  show "session_ok p loc (fst (snd (cmd_select ie tag args c)))"
  proof (cases "is_state ss = NotAuthenticated \<or> find_mailbox ie (trim_matches DQUOTE (trim args)) sy = None")
    case False
    then obtain f where f: "find_mailbox ie (trim_matches DQUOTE (trim args)) sy = Some f" by auto
    have "session_ok p loc (ss\<lparr>is_folder := Some f, is_state := Selected\<rparr>)" using ok by (simp add: session_ok_def)
    then show ?thesis using False f by (simp add: c cmd_select_def Let_def session_ok_refresh)
  qed (use ok in \<open>auto simp: c cmd_select_def\<close>)
qed

lemma uid_ok: "session_ok p loc (fst c) \<Longrightarrow> session_ok p loc (fst (snd (cmd_uid ie tag args c)))"
  by (simp add: cmd_uid_def Let_def pure_reply_def conn_reply_def commands_ok)

lemma handle_command_ok:
  assumes "session_ok p loc (fst c)" "is_idle_tag (fst c) = None" "is_auth_tag (fst c) = None"
  shows "session_ok p loc (fst (snd (handle_command ie line c)))"
proof -
  obtain ss sy where c: "c = (ss, sy)" by (cases c)
  have "session_ok p loc (snd (cmd_logout tag ss))" "session_ok p loc (snd (cmd_login tag args ss))"
    "session_ok p loc (snd (cmd_close tag ss))" "session_ok p loc (ss\<lparr>is_auth_tag := Some tag\<rparr>)"
    "session_ok p loc (ss\<lparr>is_idle_tag := Some tag\<rparr>)" for tag args
    using assms by (auto simp: c session_ok_def cmd_logout_def cmd_login_def cmd_close_def)
  then show ?thesis using assms(1)
    by (simp add: handle_command_def c pure_reply_def conn_reply_def session_reply_def Let_def commands_ok uid_ok split: prod.split)
qed

lemma turn_ok:
  assumes "conn_turn ie later c inp = More r c2 inp2" "session_ok p loc (fst c)"
  shows "session_ok p loc (fst c2)"
proof -
  obtain ss sy where c: "c = (ss, sy)" by (cases c)
  have "session_ok p loc (snd (end_idle ss))" "session_ok p loc (snd (handle_auth_response ie l ss))" for l
    using assms(2) by (auto simp: c session_ok_def end_idle_def handle_auth_response_def Let_def split: option.split)
  moreover have "session_ok p loc (fst (snd (handle_command ie l (ss, sy))))" if "is_idle_tag ss = None" "is_auth_tag ss = None" for l
    using handle_command_ok [of p loc c] assms(2) that by (simp add: c)
  ultimately show ?thesis using assms
    by (auto simp: c conn_turn_def Let_def case_prod_beta split: if_splits option.splits append_result.splits)
qed

lemma push_ok: "session_ok p loc (fst c) \<Longrightarrow> session_ok p loc (fst (snd (check_new_mail c)))"
  by (cases c) (auto simp: check_new_mail_def Let_def session_ok_refresh split: option.split)

text \<open>
  C10: Whatever the client sends, whatever the other tasks of the bridge do meanwhile and whatever updates
  are pushed, the session keeps its invariant.
\<close>

theorem session_invariant:
  assumes "conn_steps ie ((new_session p loc, sy), inp) r ((ss2, sy2), inp2)"
  shows "session_ok p loc ss2"
proof -
  have "session_ok p loc (fst (fst s2))" if "conn_steps ie s r s2" "session_ok p loc (fst (fst s))" for s r s2
    using that
  proof (induction rule: conn_steps.induct)
    case (turn s r c inp later r2 c2 inp2)
    then show ?case using turn_ok by simp
  next
    case (push s r c inp r2 c2)
    then show ?case using push_ok [of p loc c] by simp
  qed simp_all
  from this [OF assms] show ?thesis by (simp add: session_ok_def new_session_def)
qed

theorem session_invariant_witness:
  "\<exists>r ss2. conn_steps sample_online ((new_session None True, fresh_sys ()), ''a IDLE'' @ CRLF) r ((ss2, fresh_sys ()), [])
     \<and> is_idle_tag ss2 = Some ''a'' \<and> session_ok None True ss2"
proof -
  let ?s = "new_session None True" and ?l = "''a IDLE'' @ CRLF"
  have l: "line_end_at ?l = 8" "utf8_valid ?l" "trim_end ?l = ''a IDLE''" "parse_append ''a IDLE'' = None" by code_simp+
  have "parse_command ''a IDLE'' = (''a'', ''IDLE'', [])" "to_uppercase (ie_uni sample_online) ''IDLE'' = ''IDLE''" by code_simp+
  then have "handle_command sample_online ''a IDLE'' (?s, fresh_sys ()) = (Some [''+ idling'' @ CRLF], ?s\<lparr>is_idle_tag := Some ''a''\<rparr>, fresh_sys ())"
    by (simp add: handle_command_def session_reply_def)
  then have "conn_turn sample_online [] (?s, fresh_sys ()) ?l = More [''+ idling'' @ CRLF] (?s\<lparr>is_idle_tag := Some ''a''\<rparr>, fresh_sys ()) []"
    using l by (simp add: conn_turn_def new_session_def CRLF_def)
  note run = conn_steps.turn [OF conn_steps.start this]
  from session_invariant [OF run] show ?thesis
    using run by (intro exI [of _ "[''+ idling'' @ CRLF]"] exI [of _ "?s\<lparr>is_idle_tag := Some ''a''\<rparr>"]) simp
qed

end
