(* ===== verification/TutaClient.thy ===== *)
theory TutaClient
  imports Backend Parser
begin

text \<open>
  The client side of \<open>tuta.rs\<close>: listing a folder page by page, choosing the sender, sending a parsed submission as
  a draft, and the two caches of the session, one that maps submitted Message-IDs to the ids the server assigned (so
  that replies thread) and one that keeps the attachments of mails sent to oneself. Tuta's SDK and server are a record
  of functions on an opaque world; times are in seconds. Initialisation vectors and random aggregate ids, which nothing
  reads, are left out.
\<close>

record set_entry = mail_set_entry +
  se_id :: "id_tuple option"

record draft_recipient =
  dr_name :: string
  dr_mail_address :: string

record draft_attachment =
  da_owner_enc_session_key :: string
  da_owner_key_version :: nat
  da_enc_file_name :: string
  da_enc_mime_type :: string
  da_reference_tokens :: string

record draft_data =
  dd_subject :: string
  dd_body_text :: string
  dd_sender_mail_address :: string
  dd_sender_name :: string
  dd_compressed_body_text :: "string option"
  dd_to :: "draft_recipient list"
  dd_cc :: "draft_recipient list"
  dd_bcc :: "draft_recipient list"
  dd_added_attachments :: "draft_attachment list"

record draft_create_data =
  dc_previous_message_id :: "string option"
  dc_conversation_type :: int
  dc_owner_enc_session_key :: string
  dc_owner_key_version :: nat
  dc_draft_data :: draft_data

record send_draft_data =
  sd_mail_session_key :: string
  sd_mail :: id_tuple
  sd_attachment_key_data :: "(id_tuple \<times> string) list"
  sd_plaintext :: bool

record 'w facade =
  fa_now :: "'w \<Rightarrow> nat"
  fa_load_all :: "string \<Rightarrow> 'w \<Rightarrow> (api_call_error + set_entry list) \<times> 'w"
  fa_load_range :: "string \<Rightarrow> string \<Rightarrow> nat \<Rightarrow> 'w \<Rightarrow> (api_call_error + set_entry list) \<times> 'w"
  fa_load_multiple :: "string \<Rightarrow> string list \<Rightarrow> 'w \<Rightarrow> (api_call_error + mail list) \<times> 'w"
  fa_hash_order :: "(string \<times> string list) list \<Rightarrow> (string \<times> string list) list"
  fa_load_mail :: "id_tuple \<Rightarrow> 'w \<Rightarrow> (api_call_error + mail) \<times> 'w"
  fa_conversation_message_id :: "mail \<Rightarrow> 'w \<Rightarrow> (api_call_error + string) \<times> 'w"
  fa_load_attachments :: "mail \<Rightarrow> 'w \<Rightarrow> (attachment_error + attachment_part list) \<times> 'w"
  fa_group_id_for_mail_address :: "string \<Rightarrow> 'w \<Rightarrow> (api_call_error + string) \<times> 'w"
  fa_sym_group_key :: "string \<Rightarrow> 'w \<Rightarrow> (api_call_error + string \<times> nat) \<times> 'w"
  fa_generate_keys :: "nat \<Rightarrow> 'w \<Rightarrow> string list \<times> 'w"
  fa_encrypt_data :: "string \<Rightarrow> string \<Rightarrow> string option"
  fa_encrypt_key :: "string \<Rightarrow> string \<Rightarrow> string"
  fa_upload :: "string \<Rightarrow> (string \<times> string) list \<Rightarrow> 'w \<Rightarrow> (api_call_error + string list) \<times> 'w"
  fa_create_draft :: "draft_create_data \<Rightarrow> 'w \<Rightarrow> (api_call_error + id_tuple) \<times> 'w"
  fa_send_draft :: "send_draft_data \<Rightarrow> 'w \<Rightarrow> (api_call_error + string) \<times> 'w"

section \<open>Listing a folder\<close>

definition SERVER_PAGE :: nat where "SERVER_PAGE = 1000"

text \<open>The paging loop. It ends because a page that is not the last adds entries.\<close>

function load_pages :: "'w facade \<Rightarrow> string \<Rightarrow> nat \<Rightarrow> string \<Rightarrow> set_entry list \<Rightarrow> 'w \<Rightarrow> (api_call_error + set_entry list) \<times> 'w" where
  "load_pages fa entries_list_id limit start out w =
    (if limit \<le> length out then (Inr out, w)
     else let want = min (limit - length out) SERVER_PAGE in
     case fa_load_range fa entries_list_id start want w of
       (Inl e, w1) \<Rightarrow> (Inl e, w1)
     | (Inr page, w1) \<Rightarrow>
         if page = [] then (Inr out, w1)
         else if length page < want then (Inr (out @ page), w1)
         else (case se_id (last page) of
             None \<Rightarrow> (Inr (out @ page), w1)
           | Some ident \<Rightarrow> load_pages fa entries_list_id limit (element_id ident) (out @ page) w1))"
  by pat_completeness auto

termination
  by (relation "measure (\<lambda>(fa, l, limit, start, out, w). limit - length out)") (auto simp flip: length_greater_0_conv)

declare load_pages.simps [simp del]

definition load_entries :: "'w facade \<Rightarrow> string \<Rightarrow> nat \<Rightarrow> 'w \<Rightarrow> (api_call_error + set_entry list) \<times> 'w" where
  "load_entries fa entries_list_id limit w =
    (if limit = 0 then fa_load_all fa entries_list_id w
     else if limit \<le> SERVER_PAGE then fa_load_range fa entries_list_id [] limit w
     else load_pages fa entries_list_id limit [] [] w)"

text \<open>\<open>by_list.entry(list).or_default().push(element)\<close> for every entry\<close>

fun push_group :: "string \<Rightarrow> string \<Rightarrow> (string \<times> string list) list \<Rightarrow> (string \<times> string list) list" where
  "push_group l e [] = [(l, [e])]"
| "push_group l e ((k, es) # gs) = (if k = l then (k, es @ [e]) # gs else (k, es) # push_group l e gs)"

definition group_by_list :: "set_entry list \<Rightarrow> (string \<times> string list) list" where
  "group_by_list entries = fold (\<lambda>e. push_group (list_id (se_mail e)) (element_id (se_mail e))) entries []"

fun load_groups :: "'w facade \<Rightarrow> (string \<times> string list) list \<Rightarrow> 'w \<Rightarrow> mail list \<times> 'w" where
  "load_groups fa [] w = ([], w)"
| "load_groups fa ((l, es) # gs) w = (case fa_load_multiple fa l es w of (r, w1) \<Rightarrow>
     case load_groups fa gs w1 of (ms, w2) \<Rightarrow> ((case r of Inr batch \<Rightarrow> batch | Inl _ \<Rightarrow> []) @ ms, w2))"

definition load_mail_ids_for_folder :: "'w facade \<Rightarrow> string \<Rightarrow> nat \<Rightarrow> 'w \<Rightarrow> (api_call_error + mail list) \<times> 'w" where
  "load_mail_ids_for_folder fa entries_list_id limit w = (case load_entries fa entries_list_id limit w of
     (Inl e, w1) \<Rightarrow> (Inl e, w1)
   | (Inr entries, w1) \<Rightarrow> (case load_groups fa (fa_hash_order fa (group_by_list entries)) w1 of (ms, w2) \<Rightarrow> (Inr ms, w2)))"

section \<open>The caches\<close>

text \<open>Both caches evict the oldest entry when a new key would exceed the cap.\<close>

fun oldest :: "('e \<Rightarrow> nat) \<Rightarrow> (string \<times> 'e) list \<Rightarrow> string option" where
  "oldest at [] = None"
| "oldest at ((k, e) # c) = (case oldest at c of None \<Rightarrow> Some k
     | Some k2 \<Rightarrow> if at e \<le> at (the (map_of c k2)) then Some k else Some k2)"

definition soft_insert :: "nat \<Rightarrow> ('e \<Rightarrow> nat) \<Rightarrow> string \<Rightarrow> 'e \<Rightarrow> (string \<times> 'e) list \<Rightarrow> (string \<times> 'e) list" where
  "soft_insert cap at k e c =
    (let c1 = (if cap \<le> length c \<and> map_of c k = None
               then (case oldest at c of Some old \<Rightarrow> AList.delete old c | None \<Rightarrow> c) else c)
     in AList.update k e c1)"

record cached_attachment =
  ca_filename :: string
  ca_mime_type :: string
  ca_data :: string

record self_send_entry =
  ss_stored_at :: nat
  ss_attachments :: "cached_attachment list"

record sent_id_entry =
  si_stored_at :: nat
  si_tuta_message_id :: string
  si_element_id :: string

record tuta_client =
  tc_email :: string
  tc_self_send :: "(string \<times> self_send_entry) list"
  tc_sent_ids :: "(string \<times> sent_id_entry) list"

definition SELF_SEND_CACHE_TTL :: nat where "SELF_SEND_CACHE_TTL = 60 * 60"
definition SELF_SEND_CACHE_MAX_ENTRIES :: nat where "SELF_SEND_CACHE_MAX_ENTRIES = 50"
definition SENT_ID_CACHE_TTL :: nat where "SENT_ID_CACHE_TTL = 60 * 60"
definition SENT_ID_CACHE_MAX_ENTRIES :: nat where "SENT_ID_CACHE_MAX_ENTRIES = 200"
definition CONVERSATION_TYPE_NEW :: int where "CONVERSATION_TYPE_NEW = 0"
definition CONVERSATION_TYPE_REPLY :: int where "CONVERSATION_TYPE_REPLY = 1"

definition remember_sent_message_id :: "nat \<Rightarrow> string \<Rightarrow> string \<Rightarrow> string \<Rightarrow> tuta_client \<Rightarrow> tuta_client" where
  "remember_sent_message_id now submitted_id tuta_id eid c = c\<lparr>tc_sent_ids := soft_insert SENT_ID_CACHE_MAX_ENTRIES si_stored_at submitted_id
     \<lparr>si_stored_at = now, si_tuta_message_id = tuta_id, si_element_id = eid\<rparr> (tc_sent_ids c)\<rparr>"

definition sent_entry :: "nat \<Rightarrow> string \<Rightarrow> tuta_client \<Rightarrow> sent_id_entry option" where
  "sent_entry now submitted_id c = (case map_of (tc_sent_ids c) submitted_id of
     Some e \<Rightarrow> if now - si_stored_at e \<le> SENT_ID_CACHE_TTL then Some e else None | None \<Rightarrow> None)"

definition lookup_sent_message_id :: "nat \<Rightarrow> string \<Rightarrow> tuta_client \<Rightarrow> string option" where
  "lookup_sent_message_id now submitted_id c = map_option si_tuta_message_id (sent_entry now submitted_id c)"

definition sent_mail_element_id :: "nat \<Rightarrow> string \<Rightarrow> tuta_client \<Rightarrow> string option" where
  "sent_mail_element_id now submitted_id c = map_option si_element_id (sent_entry now submitted_id c)"

definition is_self_recipient :: "parsed_message \<Rightarrow> string \<Rightarrow> bool" where
  "is_self_recipient msg own_email = (eq_ignore_ascii_case (pm_from_address msg) own_email \<and>
     (\<exists>(_, addr) \<in> set (pm_to msg @ pm_cc msg @ pm_bcc msg). to_ascii_lowercase addr = to_ascii_lowercase own_email))"

definition self_send_cache_key :: "unicode \<Rightarrow> string \<Rightarrow> string \<Rightarrow> string \<Rightarrow> string" where
  "self_send_cache_key u subj sndr recipient =
     to_lowercase u (trim subj) @ ''|'' @ to_lowercase u (trim sndr) @ ''|'' @ to_lowercase u (trim recipient)"

definition cache_self_send_attachments :: "unicode \<Rightarrow> nat \<Rightarrow> parsed_message \<Rightarrow> tuta_client \<Rightarrow> tuta_client" where
  "cache_self_send_attachments u now msg c = c\<lparr>tc_self_send := soft_insert SELF_SEND_CACHE_MAX_ENTRIES ss_stored_at
     (self_send_cache_key u (pm_subject msg) (pm_from_address msg) (tc_email c))
     \<lparr>ss_stored_at = now, ss_attachments = map (\<lambda>a. \<lparr>ca_filename = att_filename a, ca_mime_type = att_mime_type a, ca_data = att_data a\<rparr>)
        (pm_attachments msg)\<rparr> (tc_self_send c)\<rparr>"

definition synthetic_file_for_cached :: "cached_attachment \<Rightarrow> tutanota_file" where
  "synthetic_file_for_cached a = \<lparr>file_name = ca_filename a, file_mime = Some (ca_mime_type a), file_cid = None\<rparr>"

definition try_self_send_cache :: "unicode \<Rightarrow> nat \<Rightarrow> mail \<Rightarrow> tuta_client \<Rightarrow> attachment_part list option \<times> tuta_client" where
  "try_self_send_cache u now m c =
    (if \<not> eq_ignore_ascii_case (addr_address (sender m)) (tc_email c) then (None, c)
     else case first_recipient m of None \<Rightarrow> (None, c) | Some r \<Rightarrow>
     if \<not> eq_ignore_ascii_case (addr_address r) (tc_email c) then (None, c)
     else let key = self_send_cache_key u (subject m) (addr_address (sender m)) (addr_address r) in
     case map_of (tc_self_send c) key of None \<Rightarrow> (None, c) | Some e \<Rightarrow>
       if SELF_SEND_CACHE_TTL < now - ss_stored_at e then (None, c\<lparr>tc_self_send := AList.delete key (tc_self_send c)\<rparr>)
       else (Some (map (\<lambda>a. (synthetic_file_for_cached a, ca_data a)) (ss_attachments e)), c))"

definition load_attachments :: "'w facade \<Rightarrow> unicode \<Rightarrow> mail \<Rightarrow> tuta_client \<times> 'w
    \<Rightarrow> (attachment_error + attachment_part list) \<times> tuta_client \<times> 'w" where
  "load_attachments fa u m = (\<lambda>(c, w). if attachments m = [] then (Inr [], c, w)
     else case try_self_send_cache u (fa_now fa w) m c of (cached, c1) \<Rightarrow>
       (case cached of
          Some parts \<Rightarrow> if length parts = length (attachments m) then (Inr parts, c1, w)
            else (case fa_load_attachments fa m w of (r, w1) \<Rightarrow> (r, c1, w1))
        | None \<Rightarrow> (case fa_load_attachments fa m w of (r, w1) \<Rightarrow> (r, c1, w1))))"

section \<open>Threading\<close>

definition parse_bridge_local_id :: "string \<Rightarrow> (string \<times> string) option" where
  "parse_bridge_local_id ident = (case strip_suffix ''@tutabridge.local'' ident of None \<Rightarrow> None | Some rest \<Rightarrow>
     case split_once CHR ''.'' rest of None \<Rightarrow> None | Some (l, e) \<Rightarrow> if l = [] \<or> e = [] then None else Some (l, e))"

definition load_mail_by_id :: "'w facade \<Rightarrow> string \<Rightarrow> string \<Rightarrow> 'w \<Rightarrow> (api_call_error + mail option) \<times> 'w" where
  "load_mail_by_id fa l e w = (case fa_load_mail fa \<lparr>list_id = l, element_id = e\<rparr> w of
     (Inr m, w1) \<Rightarrow> (Inr (Some m), w1)
   | (Inl err, w1) \<Rightarrow> if err = ServerResponseError NotFoundError then (Inr None, w1) else (Inl err, w1))"

definition load_conversation_entry_message_id :: "'w facade \<Rightarrow> string \<Rightarrow> string \<Rightarrow> 'w \<Rightarrow> (api_call_error + string option) \<times> 'w" where
  "load_conversation_entry_message_id fa l e w = (case load_mail_by_id fa l e w of
     (Inl err, w1) \<Rightarrow> (Inl err, w1)
   | (Inr None, w1) \<Rightarrow> (Inr None, w1)
   | (Inr (Some m), w1) \<Rightarrow> (case fa_conversation_message_id fa m w1 of
        (Inr mid, w2) \<Rightarrow> (Inr (Some mid), w2)
      | (Inl err, w2) \<Rightarrow> if err = ServerResponseError NotFoundError then (Inr None, w2) else (Inl err, w2)))"

definition resolve_previous_message :: "'w facade \<Rightarrow> string \<Rightarrow> tuta_client \<Rightarrow> 'w \<Rightarrow> (string option \<times> int) \<times> 'w" where
  "resolve_previous_message fa in_reply_to c w = (case lookup_sent_message_id (fa_now fa w) in_reply_to c of
     Some tuta_id \<Rightarrow> ((Some tuta_id, CONVERSATION_TYPE_REPLY), w)
   | None \<Rightarrow> (case parse_bridge_local_id in_reply_to of
       Some (l, e) \<Rightarrow> (case load_conversation_entry_message_id fa l e w of
          (Inr (Some mid), w1) \<Rightarrow> ((Some mid, CONVERSATION_TYPE_REPLY), w1)
        | (_, w1) \<Rightarrow> ((None, CONVERSATION_TYPE_NEW), w1))
     | None \<Rightarrow> ((None, CONVERSATION_TYPE_NEW), w)))"

section \<open>Sending\<close>

definition resolve_sender :: "'w facade \<Rightarrow> string \<Rightarrow> string \<Rightarrow> 'w \<Rightarrow> (api_call_error + string \<times> string) \<times> 'w" where
  "resolve_sender fa own_email requested w =
    (let own = (\<lambda>w. case fa_group_id_for_mail_address fa own_email w of
           (Inr g, w1) \<Rightarrow> (Inr (own_email, g), w1) | (Inl e, w1) \<Rightarrow> (Inl e, w1))
     in if requested \<noteq> [] \<and> \<not> eq_ignore_ascii_case requested own_email
        then (case fa_group_id_for_mail_address fa requested w of
            (Inr g, w1) \<Rightarrow> (Inr (requested, g), w1)
          | (Inl e, w1) \<Rightarrow> if e = ServerResponseError NotFoundError then own w1 else (Inl e, w1))
        else own w)"

definition build_draft_recipients :: "(string \<times> string) list \<Rightarrow> draft_recipient list" where
  "build_draft_recipients rs = map (\<lambda>(name, addr). \<lparr>dr_name = (if name = [] then addr else name), dr_mail_address = addr\<rparr>) rs"

definition draft_body :: "parsed_message \<Rightarrow> string" where
  "draft_body msg = (case (pm_is_plaintext msg, pm_body_text msg) of
     (True, Some t) \<Rightarrow> plaintext_to_tuta_html t | _ \<Rightarrow> pm_body_html msg)"

definition build_draft_data :: "parsed_message \<Rightarrow> string \<Rightarrow> draft_attachment list \<Rightarrow> draft_data" where
  "build_draft_data msg sender_email added = \<lparr>dd_subject = pm_subject msg, dd_body_text = draft_body msg,
     dd_sender_mail_address = sender_email, dd_sender_name = (if pm_from_name msg = [] then sender_email else pm_from_name msg),
     dd_compressed_body_text = Some (draft_body msg), dd_to = build_draft_recipients (pm_to msg), dd_cc = build_draft_recipients (pm_cc msg),
     dd_bcc = build_draft_recipients (pm_bcc msg), dd_added_attachments = added\<rparr>"

fun draft_attachments :: "'w facade \<Rightarrow> string \<Rightarrow> nat \<Rightarrow> (attachment \<times> string \<times> string) list \<Rightarrow> api_call_error + draft_attachment list" where
  "draft_attachments fa gk ver [] = Inr []"
| "draft_attachments fa gk ver ((a, sk, tokens) # rest) =
     (case fa_encrypt_data fa sk (att_filename a) of None \<Rightarrow> Inl InternalSdkError | Some n \<Rightarrow>
      case fa_encrypt_data fa sk (att_mime_type a) of None \<Rightarrow> Inl InternalSdkError | Some t \<Rightarrow>
      case draft_attachments fa gk ver rest of Inl e \<Rightarrow> Inl e | Inr ds \<Rightarrow>
        Inr (\<lparr>da_owner_enc_session_key = fa_encrypt_key fa gk sk, da_owner_key_version = ver, da_enc_file_name = n, da_enc_mime_type = t,
              da_reference_tokens = tokens\<rparr> # ds))"

definition build_added_attachments :: "'w facade \<Rightarrow> attachment list \<Rightarrow> string \<Rightarrow> string \<Rightarrow> nat \<Rightarrow> 'w
    \<Rightarrow> (api_call_error + draft_attachment list \<times> string list) \<times> 'w" where
  "build_added_attachments fa atts group_id gk ver w =
    (if atts = [] then (Inr ([], []), w) else
     case fa_generate_keys fa (length atts) w of (keys, w1) \<Rightarrow>
     case fa_upload fa group_id (zip keys (map att_data atts)) w1 of (Inl e, w2) \<Rightarrow> (Inl e, w2) | (Inr tokens, w2) \<Rightarrow>
     if length tokens \<noteq> length atts then (Inl InternalSdkError, w2) else
     case draft_attachments fa gk ver (zip atts (zip keys tokens)) of Inl e \<Rightarrow> (Inl e, w2) | Inr ds \<Rightarrow> (Inr (ds, keys), w2))"

definition build_attachment_key_data :: "'w facade \<Rightarrow> id_tuple \<Rightarrow> string list \<Rightarrow> 'w \<Rightarrow> (api_call_error + (id_tuple \<times> string) list) \<times> 'w" where
  "build_attachment_key_data fa draft_id keys w = (case fa_load_mail fa draft_id w of (Inl e, w1) \<Rightarrow> (Inl e, w1) | (Inr m, w1) \<Rightarrow>
     if length (attachments m) \<noteq> length keys then (Inl InternalSdkError, w1) else (Inr (zip (attachments m) keys), w1))"

definition build_send_draft_data :: "string \<Rightarrow> id_tuple \<Rightarrow> (id_tuple \<times> string) list \<Rightarrow> bool \<Rightarrow> send_draft_data" where
  "build_send_draft_data session_key draft_id key_data plaintext =
     \<lparr>sd_mail_session_key = session_key, sd_mail = draft_id, sd_attachment_key_data = key_data, sd_plaintext = plaintext\<rparr>"

text \<open>From the resolved sender to the server's Message-ID and the draft's id.\<close>

definition submit_draft :: "'w facade \<Rightarrow> tuta_client \<Rightarrow> parsed_message \<Rightarrow> string \<Rightarrow> string \<Rightarrow> 'w
    \<Rightarrow> (api_call_error + string \<times> id_tuple) \<times> 'w" where
  "submit_draft fa c msg session_key requested w =
    (case resolve_sender fa (tc_email c) requested w of (Inl e, w1) \<Rightarrow> (Inl e, w1) | (Inr (sender_email, group_id), w1) \<Rightarrow>
     case fa_sym_group_key fa group_id w1 of (Inl e, w2) \<Rightarrow> (Inl e, w2) | (Inr (gk, ver), w2) \<Rightarrow>
     case build_added_attachments fa (pm_attachments msg) group_id gk ver w2 of (Inl e, w3) \<Rightarrow> (Inl e, w3) | (Inr (added, keys), w3) \<Rightarrow>
     case (case pm_in_reply_to msg of Some irt \<Rightarrow> resolve_previous_message fa irt c w3 | None \<Rightarrow> ((None, CONVERSATION_TYPE_NEW), w3)) of
       ((previous, ctype), w4) \<Rightarrow>
     case fa_create_draft fa \<lparr>dc_previous_message_id = previous, dc_conversation_type = ctype,
            dc_owner_enc_session_key = fa_encrypt_key fa gk session_key, dc_owner_key_version = ver,
            dc_draft_data = build_draft_data msg sender_email added\<rparr> w4 of (Inl e, w5) \<Rightarrow> (Inl e, w5) | (Inr draft_id, w5) \<Rightarrow>
     case (if keys = [] then (Inr [], w5) else build_attachment_key_data fa draft_id keys w5) of (Inl e, w6) \<Rightarrow> (Inl e, w6) | (Inr kd, w6) \<Rightarrow>
     case fa_send_draft fa (build_send_draft_data session_key draft_id kd (pm_is_plaintext msg)) w6 of
       (Inl e, w7) \<Rightarrow> (Inl e, w7) | (Inr message_id, w7) \<Rightarrow> (Inr (message_id, draft_id), w7))"

definition send_mail :: "'w facade \<Rightarrow> unicode \<Rightarrow> parsed_message \<Rightarrow> tuta_client \<times> 'w \<Rightarrow> (api_call_error + unit) \<times> tuta_client \<times> 'w" where
  "send_mail fa u msg = (\<lambda>(c, w).
     let c1 = (if pm_attachments msg \<noteq> [] \<and> is_self_recipient msg (tc_email c) then cache_self_send_attachments u (fa_now fa w) msg c else c)
     in case fa_generate_keys fa 1 w of (ks, w1) \<Rightarrow>
        case submit_draft fa c1 msg (concat ks) (pm_from_address msg) w1 of
          (Inl e, w2) \<Rightarrow> (Inl e, c1, w2)
        | (Inr (message_id, draft_id), w2) \<Rightarrow> (Inr (), (case pm_message_id msg of
            Some submitted_id \<Rightarrow> remember_sent_message_id (fa_now fa w2) submitted_id message_id (element_id draft_id) c1
          | None \<Rightarrow> c1), w2))"

section \<open>Paging equals one long page\<close>

definition entry_key :: "set_entry \<Rightarrow> string" where
  "entry_key e = element_id (the (se_id e))"

definition after :: "string \<Rightarrow> set_entry list \<Rightarrow> set_entry list" where
  "after start es = tl (dropWhile (\<lambda>e. entry_key e \<noteq> start) es)"

text \<open>The server's list, newest first: a range is the entries after the cursor, the empty cursor is the newest end.\<close>

definition serves :: "'w facade \<Rightarrow> string \<Rightarrow> set_entry list \<Rightarrow> bool" where
  "serves fa l es = (distinct (map entry_key es) \<and> (\<forall>e \<in> set es. se_id e \<noteq> None \<and> entry_key e \<noteq> []) \<and>
     (\<forall>w. fst (fa_load_all fa l w) = Inr es) \<and>
     (\<forall>start n w. fst (fa_load_range fa l start n w) = Inr (take n (if start = [] then es else after start es))))"

lemma after_append: "distinct (map entry_key (xs @ e # ys)) \<Longrightarrow> after (entry_key e) (xs @ e # ys) = ys"
  by (induction xs) (auto simp: after_def)

definition cursor :: "set_entry list \<Rightarrow> string" where
  "cursor out = (if out = [] then [] else entry_key (last out))"

lemma serves_id: "serves fa l es \<Longrightarrow> e \<in> set es \<Longrightarrow> \<exists>i. se_id e = Some i"
  by (auto simp: serves_def)

lemma serves_range: "serves fa l es \<Longrightarrow> fst (fa_load_range fa l start n w) = Inr (take n (if start = [] then es else after start es))"
  unfolding serves_def by blast

lemma serves_page:
  assumes "serves fa l (out @ rest)" "fa_load_range fa l (cursor out) n w = (r, w1)"
  shows "r = Inr (take n rest)"
proof -
  have range: "r = Inr (take n (if cursor out = [] then out @ rest else after (cursor out) (out @ rest)))"
    using serves_range [OF assms(1), of "cursor out" n w] assms(2) by simp
  show ?thesis
  proof (cases out rule: rev_cases)
    case (snoc xs e)
    then have "after (entry_key e) (out @ rest) = rest" "entry_key e \<noteq> []"
      using assms(1) after_append [of xs e rest] by (simp_all add: serves_def)
    then show ?thesis using range snoc by (simp add: cursor_def)
  qed (use range in \<open>simp add: cursor_def\<close>)
qed

lemma load_pages_prefix:
  assumes "serves fa l (out @ rest)" "length out \<le> limit" "start = cursor out"
  shows "fst (load_pages fa l limit start out w) = Inr (take limit (out @ rest))"
  using assms
proof (induction fa l limit start out w arbitrary: rest rule: load_pages.induct)
  case (1 fa l limit start out w)
  show ?case
  proof (cases "limit \<le> length out")
    case False
    define want where "want = min (limit - length out) SERVER_PAGE"
    obtain r w1 where lr: "fa_load_range fa l start want w = (r, w1)" by fastforce
    have r: "r = Inr (take want rest)" using serves_page [OF 1(2)] lr 1(4) by simp
    have want: "0 < want" "want \<le> limit - length out" using False by (auto simp: want_def SERVER_PAGE_def)
    show ?thesis
    proof (cases "want \<le> length rest")
      case True
      let ?page = "take want rest"
      have page: "length ?page = want" "?page \<noteq> []" using True want by auto
      obtain i where i: "se_id (last ?page) = Some i"
        using serves_id [OF 1(2), of "last ?page"] in_set_takeD [OF last_in_set [OF page(2)]] by auto
      have full: "\<not> length ?page < want" using page(1) by simp
      have "fst (load_pages fa l limit (element_id i) (out @ ?page) w1) = Inr (take limit ((out @ ?page) @ drop want rest))"
      proof (rule 1(1) [OF False want_def lr [symmetric] r page(2) full i])
        show "serves fa l ((out @ ?page) @ drop want rest)" using 1(2) by simp
        show "length (out @ ?page) \<le> limit" using page(1) want(2) False by simp
        show "element_id i = cursor (out @ ?page)" using page(2) i by (simp add: cursor_def entry_key_def)
      qed
      then show ?thesis using False lr r page i
        by (subst load_pages.simps) (simp add: want_def [symmetric] Let_def)
    next
      case short: False
      then have "take want rest = rest" "take limit (out @ rest) = out @ rest" using want by auto
      then show ?thesis using False lr r short
        by (subst load_pages.simps) (simp add: want_def [symmetric] Let_def)
    qed
  qed (use 1 in \<open>simp add: load_pages.simps\<close>)
qed

lemma load_entries_prefix:
  assumes "serves fa l es"
  shows "fst (load_entries fa l limit w) = Inr (if limit = 0 then es else take limit es)"
  using assms load_pages_prefix [of fa l "[]" es limit "[]" w]
  by (auto simp: load_entries_def serves_def cursor_def)

text \<open>Grouping by list and loading the groups in any order loses and repeats nothing.\<close>

definition group_ids :: "(string \<times> string list) list \<Rightarrow> (string \<times> string) list" where
  "group_ids gs = concat (map (\<lambda>(l, es). map (Pair l) es) gs)"

lemma group_ids_push: "mset (group_ids (push_group l e gs)) = add_mset (l, e) (mset (group_ids gs))"
  by (induction l e gs rule: push_group.induct) (auto simp: group_ids_def)

lemma group_ids_by_list: "mset (group_ids (group_by_list entries)) = mset (map (\<lambda>e. (list_id (se_mail e), element_id (se_mail e))) entries)"
proof -
  have "mset (group_ids (fold (\<lambda>e. push_group (list_id (se_mail e)) (element_id (se_mail e))) entries gs))
      = mset (map (\<lambda>e. (list_id (se_mail e), element_id (se_mail e))) entries) + mset (group_ids gs)" for gs
    by (induction entries arbitrary: gs) (simp_all add: group_ids_push)
  then show ?thesis by (simp add: group_by_list_def group_ids_def)
qed

lemma group_ids_perm: "mset gs = mset gs2 \<Longrightarrow> mset (group_ids gs) = mset (group_ids gs2)"
  by (simp add: group_ids_def mset_concat flip: sum_mset_sum_list)

lemma load_groups_all:
  assumes "\<forall>l es w. fst (fa_load_multiple fa l es w) = Inr (map (fetch l) es)"
  shows "fst (load_groups fa gs w) = map (\<lambda>(l, e). fetch l e) (group_ids gs)"
  using assms by (induction gs arbitrary: w) (auto simp: group_ids_def case_prod_beta)

section \<open>What the caches keep\<close>

lemma oldest_min:
  assumes "distinct (map fst c)" "c \<noteq> []"
  shows "\<exists>k e. oldest at c = Some k \<and> map_of c k = Some e \<and> (\<forall>k2 e2. map_of c k2 = Some e2 \<longrightarrow> at e \<le> at e2)"
  using assms
proof (induction c)
  case (Cons a c)
  obtain k e where a: "a = (k, e)" by (cases a)
  show ?case
  proof (cases "c = []")
    case False
    then obtain k2 e2 where min: "oldest at c = Some k2" "map_of c k2 = Some e2" "\<forall>k3 e3. map_of c k3 = Some e3 \<longrightarrow> at e2 \<le> at e3"
      using Cons by auto
    have "k2 \<noteq> k" using Cons.prems(1) min(2) a by (auto dest: map_of_SomeD simp: image_iff)
    then show ?thesis using min a by (auto intro: order_trans)
  qed (simp add: a)
qed simp

lemma length_card: "distinct (map fst c) \<Longrightarrow> length c = card (dom (map_of c))"
  by (metis distinct_card dom_map_of_conv_image_fst length_map list.set_map)

text \<open>A cache that evicts its oldest entry at a positive cap.\<close>

locale soft_cache =
  fixes cap :: nat and at :: "'e \<Rightarrow> nat"
  assumes cap: "0 < cap"
begin

lemma insert_cases:
  assumes "distinct (map fst c)"
  obtains (kept) "length c < cap \<or> map_of c k \<noteq> None" "map_of (soft_insert cap at k e c) = (map_of c)(k \<mapsto> e)"
  | (evicted) old eo where "cap \<le> length c" "map_of c old = Some eo" "\<forall>k2 e2. map_of c k2 = Some e2 \<longrightarrow> at eo \<le> at e2"
      "map_of (soft_insert cap at k e c) = (map_of c)(old := None, k \<mapsto> e)"
proof (cases "cap \<le> length c \<and> map_of c k = None")
  case True
  then have "c \<noteq> []" using cap by auto
  from oldest_min [OF assms this, of at] obtain old eo
    where old: "oldest at c = Some old" "map_of c old = Some eo" "\<forall>k2 e2. map_of c k2 = Some e2 \<longrightarrow> at eo \<le> at e2" by blast
  have "soft_insert cap at k e c = AList.update k e (AList.delete old c)" using True old(1) by (simp add: soft_insert_def)
  then have "map_of (soft_insert cap at k e c) = (map_of c)(old := None, k \<mapsto> e)" by (simp add: update_conv' delete_conv')
  with True old(2,3) show ?thesis by (intro evicted) simp_all
next
  case False
  then have "soft_insert cap at k e c = AList.update k e c" by (simp add: soft_insert_def del: de_Morgan_conj)
  with False show ?thesis by (intro kept) (auto simp: update_conv')
qed

lemma insert_distinct: "distinct (map fst c) \<Longrightarrow> distinct (map fst (soft_insert cap at k e c))"
  by (simp add: soft_insert_def Let_def distinct_update distinct_delete split: option.split)

lemma insert_bounded:
  assumes "distinct (map fst c)" "length c \<le> cap"
  shows "length (soft_insert cap at k e c) \<le> cap"
proof -
  let ?d = "dom (map_of c)"
  have card: "card ?d \<le> cap" using assms length_card [OF assms(1)] by simp
  have "card (dom (map_of (soft_insert cap at k e c))) \<le> cap"
  proof (cases rule: insert_cases [OF assms(1), of k e])
    case 1
    then show ?thesis using card length_card [OF assms(1)] by (auto simp: card_insert_if finite_dom_map_of domI)
  next
    case (2 old eo)
    then have "card (?d - {old}) < card ?d" by (intro card_Diff1_less) (auto simp: finite_dom_map_of)
    then have "card (insert k (?d - {old})) \<le> cap" using card by (simp add: card_insert_if finite_dom_map_of)
    then show ?thesis using 2(4) by simp
  qed
  then show ?thesis using length_card [OF insert_distinct [OF assms(1)], of k e] by simp
qed

lemma insert_found: "map_of (soft_insert cap at k e c) k = Some e"
  by (simp add: soft_insert_def Let_def update_conv')

text \<open>A series of inserts no longer than the cap evicts only what is older than it.\<close>

lemma series_kept:
  assumes "distinct (map fst c)" "\<forall>k e. map_of c k = Some e \<longrightarrow> (k \<in> P \<longleftrightarrow> t0 \<le> at e)" "P \<subseteq> dom (map_of c)" "card P + length xs \<le> cap"
    and "distinct (map fst xs)" "fst ` set xs \<inter> P = {}" "\<forall>x \<in> set xs. t0 \<le> at (snd x)"
  shows "(\<forall>k \<in> P. map_of (fold (\<lambda>(k, e). soft_insert cap at k e) xs c) k = map_of c k)
    \<and> (\<forall>x \<in> set xs. map_of (fold (\<lambda>(k, e). soft_insert cap at k e) xs c) (fst x) = Some (snd x))"
  using assms
proof (induction xs arbitrary: c P)
  case (Cons x xs)
  obtain k e where x: "x = (k, e)" by (cases x)
  let ?c = "soft_insert cap at k e c"
  have fin: "finite P" using Cons.prems(3) finite_dom_map_of finite_subset by blast
  have k: "k \<notin> P" using Cons.prems(6) x by auto
  have keep: "\<forall>k2 \<in> P. map_of ?c k2 = map_of c k2" and others: "\<forall>k2 e2. map_of ?c k2 = Some e2 \<longrightarrow> k2 = k \<and> e2 = e \<or> map_of c k2 = Some e2"
  proof (atomize (full), cases rule: insert_cases [OF Cons.prems(1), of k e])
    case 1
    then show "(\<forall>k2 \<in> P. map_of ?c k2 = map_of c k2) \<and> (\<forall>k2 e2. map_of ?c k2 = Some e2 \<longrightarrow> k2 = k \<and> e2 = e \<or> map_of c k2 = Some e2)"
      using k by auto
  next
    case (2 old eo)
    have "card P < card (dom (map_of c))" using 2(1) Cons.prems(4) length_card [OF Cons.prems(1)] by simp
    then have "\<not> dom (map_of c) \<subseteq> P" using card_mono [OF fin] by (meson not_le)
    then obtain k2 e2 where "map_of c k2 = Some e2" "k2 \<notin> P" by blast
    then have "at eo < t0" using Cons.prems(2) 2(3) by (metis le_trans not_le)
    then have "old \<notin> P" using Cons.prems(2) 2(2) by auto
    then show "(\<forall>k2 \<in> P. map_of ?c k2 = map_of c k2) \<and> (\<forall>k2 e2. map_of ?c k2 = Some e2 \<longrightarrow> k2 = k \<and> e2 = e \<or> map_of c k2 = Some e2)"
      using k 2(4) by auto
  qed
  have "(\<forall>k2 \<in> insert k P. map_of (fold (\<lambda>(k, e). soft_insert cap at k e) xs ?c) k2 = map_of ?c k2)
      \<and> (\<forall>x \<in> set xs. map_of (fold (\<lambda>(k, e). soft_insert cap at k e) xs ?c) (fst x) = Some (snd x))"
  proof (rule Cons.IH)
    show "\<forall>k2 e2. map_of ?c k2 = Some e2 \<longrightarrow> (k2 \<in> insert k P \<longleftrightarrow> t0 \<le> at e2)"
      using others insert_found [of k e c] Cons.prems(2,7) x by fastforce
    show "insert k P \<subseteq> dom (map_of ?c)"
      using Cons.prems(3) keep insert_found [of k e c] by (auto simp: subset_iff domIff)
    show "card (insert k P) + length xs \<le> cap" using Cons.prems(4,6) x fin by (auto simp: card_insert_if)
  qed (use Cons.prems x insert_distinct in \<open>auto\<close>)
  then show ?case using keep x insert_found [of k e c] by auto
qed simp

end

interpretation sent_ids: soft_cache SENT_ID_CACHE_MAX_ENTRIES si_stored_at
  by unfold_locales (simp add: SENT_ID_CACHE_MAX_ENTRIES_def)

interpretation self_sends: soft_cache SELF_SEND_CACHE_MAX_ENTRIES ss_stored_at
  by unfold_locales (simp add: SELF_SEND_CACHE_MAX_ENTRIES_def)

lemma self_send_hit:
  assumes "eq_ignore_ascii_case (addr_address (sender m)) (tc_email c)" "first_recipient m = Some r" "addr_address r = tc_email c"
    and "map_of (tc_self_send c) (self_send_cache_key u (subject m) (addr_address (sender m)) (tc_email c)) = Some e"
    and "now - ss_stored_at e \<le> SELF_SEND_CACHE_TTL"
  shows "try_self_send_cache u now m c = (Some (map (\<lambda>a. (synthetic_file_for_cached a, ca_data a)) (ss_attachments e)), c)"
  using assms by (simp add: try_self_send_cache_def eq_ignore_ascii_case_def Let_def)

definition submitted_parts :: "parsed_message \<Rightarrow> attachment_part list" where
  "submitted_parts msg = map (\<lambda>a. (\<lparr>file_name = att_filename a, file_mime = Some (att_mime_type a), file_cid = None\<rparr>, att_data a)) (pm_attachments msg)"

lemma cached_then_loaded:
  assumes "is_self_recipient msg (tc_email c)" "subject m = pm_subject msg" "addr_address (sender m) = pm_from_address msg"
    and "first_recipient m = Some r" "addr_address r = tc_email c" "attachments m \<noteq> []" "length (attachments m) = length (pm_attachments msg)"
    and "fa_now fa w - now \<le> SELF_SEND_CACHE_TTL" "tc_self_send c2 = tc_self_send (cache_self_send_attachments u now msg c)" "tc_email c2 = tc_email c"
  shows "load_attachments fa u m (c2, w) = (Inr (submitted_parts msg), c2, w)"
proof -
  let ?e = "\<lparr>ss_stored_at = now, ss_attachments = map (\<lambda>a. \<lparr>ca_filename = att_filename a, ca_mime_type = att_mime_type a, ca_data = att_data a\<rparr>)
        (pm_attachments msg)\<rparr>"
  have "try_self_send_cache u (fa_now fa w) m c2 = (Some (map (\<lambda>a. (synthetic_file_for_cached a, ca_data a)) (ss_attachments ?e)), c2)"
  proof (rule self_send_hit)
    show "map_of (tc_self_send c2) (self_send_cache_key u (subject m) (addr_address (sender m)) (tc_email c2)) = Some ?e"
      using assms(2,3,9,10) by (simp add: cache_self_send_attachments_def self_sends.insert_found)
  qed (use assms in \<open>simp_all add: is_self_recipient_def\<close>)
  then show ?thesis using assms(6,7)
    by (simp add: load_attachments_def submitted_parts_def synthetic_file_for_cached_def comp_def)
qed

lemma submit_draft_sent:
  assumes "submit_draft fa c msg sk req w = (Inr (mid, draft), w2)"
  shows "\<exists>sd w1. fa_send_draft fa sd w1 = (Inr mid, w2) \<and> sd_mail sd = draft"
  using assms by (auto simp: submit_draft_def build_send_draft_data_def split: sum.splits prod.splits if_splits)

section \<open>Properties\<close>


text \<open>
  C18: A patch series threads. In a series of at most 200 sends with distinct Message-IDs, begun after everything else in
  the cache, every one of them can still be resolved to the id the server assigned while it is younger than an hour,
  however full the cache was.
\<close>

theorem patch_series_threads:
  assumes "distinct (map fst (tc_sent_ids c))" "\<forall>k e. map_of (tc_sent_ids c) k = Some e \<longrightarrow> si_stored_at e < since"
    and "length series \<le> 200" "distinct (map (\<lambda>(t, sid, mid, eid). sid) series)" "\<forall>(t, sid, mid, eid) \<in> set series. since \<le> t"
    and "(t, sid, mid, eid) \<in> set series" "now - t \<le> 3600"
  shows "lookup_sent_message_id now sid (fold (\<lambda>(t, sid, mid, eid). remember_sent_message_id t sid mid eid) series c) = Some mid"
proof -
  let ?xs = "map (\<lambda>(t, sid, mid, eid). (sid, \<lparr>si_stored_at = t, si_tuta_message_id = mid, si_element_id = eid\<rparr>)) series"
  have ids: "tc_sent_ids (fold (\<lambda>(t, sid, mid, eid). remember_sent_message_id t sid mid eid) series c)
      = fold (\<lambda>(k, e). soft_insert SENT_ID_CACHE_MAX_ENTRIES si_stored_at k e) ?xs (tc_sent_ids c)"
    by (induction series arbitrary: c) (auto simp: remember_sent_message_id_def)
  have "\<forall>x \<in> set ?xs. map_of (fold (\<lambda>(k, e). soft_insert SENT_ID_CACHE_MAX_ENTRIES si_stored_at k e) ?xs (tc_sent_ids c)) (fst x) = Some (snd x)"
  proof (rule sent_ids.series_kept [of _ "{}" since, THEN conjunct2])
    show "\<forall>k e. map_of (tc_sent_ids c) k = Some e \<longrightarrow> (k \<in> {}) = (since \<le> si_stored_at e)" using assms(2) by (auto simp: not_le)
    show "distinct (map fst ?xs)" using assms(4) by (simp add: comp_def split_def)
    show "\<forall>x \<in> set ?xs. since \<le> si_stored_at (snd x)" using assms(5) by auto
  qed (use assms(1,3) in \<open>simp_all add: SENT_ID_CACHE_MAX_ENTRIES_def\<close>)
  with assms(6) have "map_of (fold (\<lambda>(k, e). soft_insert SENT_ID_CACHE_MAX_ENTRIES si_stored_at k e) ?xs (tc_sent_ids c)) sid
      = Some \<lparr>si_stored_at = t, si_tuta_message_id = mid, si_element_id = eid\<rparr>" by fastforce
  then show ?thesis using assms(7) ids by (simp add: lookup_sent_message_id_def sent_entry_def SENT_ID_CACHE_TTL_def)
qed

theorem patch_series_threads_witness:
  "lookup_sent_message_id 20 ''a'' (fold (\<lambda>(t, sid, mid, eid). remember_sent_message_id t sid mid eid)
     [(10, ''a'', ''srv1'', ''e1''), (11, ''b'', ''srv2'', ''e2'')] \<lparr>tc_email = ''me'', tc_self_send = [], tc_sent_ids = []\<rparr>) = Some ''srv1''"
  by (rule patch_series_threads [where t = 10 and since = 10 and eid = "''e1''"]) simp_all

text \<open>A server for examples: its world is the clock, its folder holds the given entries, every call succeeds.\<close>

definition sample_facade :: "set_entry list \<Rightarrow> nat facade" where
  "sample_facade es = \<lparr>fa_now = id, fa_load_all = (\<lambda>l w. (Inr es, w)),
     fa_load_range = (\<lambda>l start n w. (Inr (take n (if start = [] then es else after start es)), w)),
     fa_load_multiple = (\<lambda>l ids w. (Inr (map sample_mail ids), w)), fa_hash_order = rev,
     fa_load_mail = (\<lambda>i w. (Inr (sample_mail (element_id i)), w)), fa_conversation_message_id = (\<lambda>m w. (Inr ''conv'', w)),
     fa_load_attachments = (\<lambda>m w. (Inr [], w)), fa_group_id_for_mail_address = (\<lambda>a w. (Inr ''group'', w)),
     fa_sym_group_key = (\<lambda>g w. (Inr (''gk'', 0), w)), fa_generate_keys = (\<lambda>n w. (replicate n ''key'', w)),
     fa_encrypt_data = (\<lambda>k x. Some x), fa_encrypt_key = (\<lambda>g k. k), fa_upload = (\<lambda>g ds w. (Inr (map snd ds), w)),
     fa_create_draft = (\<lambda>d w. (Inr \<lparr>list_id = ''drafts'', element_id = ''e''\<rparr>, w)), fa_send_draft = (\<lambda>d w. (Inr ''srv'', w))\<rparr>"

definition sample_entry :: "string \<Rightarrow> string \<Rightarrow> set_entry" where
  "sample_entry k e = \<lparr>se_mail = \<lparr>list_id = ''l'', element_id = e\<rparr>, se_id = Some \<lparr>list_id = ''x'', element_id = k\<rparr>\<rparr>"

definition sample_client :: tuta_client where
  "sample_client = \<lparr>tc_email = ''me@tuta.io'', tc_self_send = [], tc_sent_ids = []\<rparr>"

definition sample_message :: "attachment list \<Rightarrow> parsed_message" where
  "sample_message atts = \<lparr>pm_from_address = ''me@tuta.io'', pm_from_name = [], pm_to = [([], ''me@tuta.io'')], pm_cc = [], pm_bcc = [],
     pm_reply_to = [], pm_subject = ''s'', pm_body_html = ''b'', pm_body_text = None, pm_is_plaintext = False,
     pm_message_id = Some ''sub@host'', pm_in_reply_to = None, pm_attachments = atts\<rparr>"


text \<open>
  A reply to a mail just sent threads. When a submission with a Message-ID was sent, then for an hour a reply to that
  id goes out as a reply to the id the server assigned, and the id of the sent mail is the one of its draft.
\<close>

theorem reply_to_sent_threads:
  assumes "send_mail fa u msg (c, w) = (Inr (), c2, w2)" "pm_message_id msg = Some sid" "fa_now fa w3 - fa_now fa w2 \<le> 3600"
  shows "\<exists>sd mid w1. fa_send_draft fa sd w1 = (Inr mid, w2)
    \<and> fst (resolve_previous_message fa sid c2 w3) = (Some mid, CONVERSATION_TYPE_REPLY)
    \<and> sent_mail_element_id (fa_now fa w3) sid c2 = Some (element_id (sd_mail sd))"
proof -
  from assms(1,2) obtain c1 sk mid draft wk
    where sub: "submit_draft fa c1 msg sk (pm_from_address msg) wk = (Inr (mid, draft), w2)"
      and c2: "c2 = remember_sent_message_id (fa_now fa w2) sid mid (element_id draft) c1"
    by (auto simp: send_mail_def Let_def split: prod.splits sum.splits)
  have "sent_entry (fa_now fa w3) sid c2 = Some \<lparr>si_stored_at = fa_now fa w2, si_tuta_message_id = mid, si_element_id = element_id draft\<rparr>"
    using assms(3) by (simp add: c2 sent_entry_def remember_sent_message_id_def sent_ids.insert_found SENT_ID_CACHE_TTL_def)
  then have "fst (resolve_previous_message fa sid c2 w3) = (Some mid, CONVERSATION_TYPE_REPLY)"
    "sent_mail_element_id (fa_now fa w3) sid c2 = Some (element_id draft)"
    by (simp_all add: resolve_previous_message_def lookup_sent_message_id_def sent_mail_element_id_def)
  with submit_draft_sent [OF sub] show ?thesis by blast
qed

theorem reply_to_sent_threads_witness:
  "\<exists>mid. fst (resolve_previous_message (sample_facade []) ''sub@host'' (fst (snd (send_mail (sample_facade []) ascii_unicode (sample_message []) (sample_client, 5)))) 100)
    = (Some mid, CONVERSATION_TYPE_REPLY)"
proof -
  let ?r = "send_mail (sample_facade []) ascii_unicode (sample_message []) (sample_client, 5)"
  have ok: "fst ?r = Inr ()"
    by (simp add: send_mail_def sample_facade_def sample_message_def sample_client_def submit_draft_def resolve_sender_def
        build_added_attachments_def eq_ignore_ascii_case_def)
  then obtain c2 w2 where r: "?r = (Inr (), c2, w2)" by (cases ?r) auto
  have "pm_message_id (sample_message []) = Some ''sub@host''" "fa_now (sample_facade []) 100 - fa_now (sample_facade []) w2 \<le> 3600"
    by (simp_all add: sample_message_def sample_facade_def)
  from reply_to_sent_threads [OF r this] show ?thesis unfolding r by auto
qed

text \<open>
  The sender is never swapped silently for another reason than asked. Whatever address a submission goes out as, the
  account was authorised for it in the call that gave its group; and it is the requested one, unless none was requested,
  the request was the account's own address, or the server said that it is no address of this account. Any other error
  ends the send.
\<close>

theorem sender_authorised:
  assumes "resolve_sender fa own requested w = (r, w2)"
  shows "case r of
      Inr (a, g) \<Rightarrow> (\<exists>w1. fa_group_id_for_mail_address fa a w1 = (Inr g, w2)) \<and> (a = requested \<or> a = own \<and>
        (requested = [] \<or> eq_ignore_ascii_case requested own \<or> fst (fa_group_id_for_mail_address fa requested w) = Inl (ServerResponseError NotFoundError)))
    | Inl e \<Rightarrow> \<exists>a w1. fa_group_id_for_mail_address fa a w1 = (Inl e, w2) \<and> (a = own \<or> a = requested \<and> e \<noteq> ServerResponseError NotFoundError)"
  using assms by (auto simp: resolve_sender_def Let_def split: if_splits sum.splits prod.splits)

theorem sender_authorised_witness:
  "\<exists>w1. fa_group_id_for_mail_address (sample_facade []) ''alias@tuta.io'' w1 = (Inr ''group'', 7)"
proof -
  have "resolve_sender (sample_facade []) ''me@tuta.io'' ''alias@tuta.io'' 7 = (Inr (''alias@tuta.io'', ''group''), 7)"
    by (simp add: resolve_sender_def sample_facade_def eq_ignore_ascii_case_def to_ascii_lowercase_def ascii_lower_char_def)
  from sender_authorised [OF this] show ?thesis by simp
qed

text \<open>
  Both copies of a mail to oneself show its attachments. For an hour after a submission with attachments to the own
  address, whether or not the send succeeded, loading the attachments of a mail with its subject, sender and recipient
  gives the submitted names, types and bytes without asking the server.
\<close>

theorem self_send_served:
  assumes "send_mail fa u msg (c, w) = (r, c2, w2)" "pm_attachments msg \<noteq> []" "is_self_recipient msg (tc_email c)"
    and "subject m = pm_subject msg" "addr_address (sender m) = pm_from_address msg" "first_recipient m = Some rc" "addr_address rc = tc_email c"
    and "length (attachments m) = length (pm_attachments msg)" "fa_now fa w3 - fa_now fa w \<le> 3600"
  shows "load_attachments fa u m (c2, w3) = (Inr (submitted_parts msg), c2, w3)"
proof (rule cached_then_loaded)
  show "tc_self_send c2 = tc_self_send (cache_self_send_attachments u (fa_now fa w) msg c)" "tc_email c2 = tc_email c"
    using assms(1-3) by (auto simp: send_mail_def Let_def remember_sent_message_id_def cache_self_send_attachments_def
        split: prod.splits sum.splits option.splits)
qed (use assms in \<open>auto simp: SELF_SEND_CACHE_TTL_def\<close>)

definition sample_copy :: mail where
  "sample_copy = \<lparr>mail_id = None, subject = ''s'', sender = \<lparr>addr_name = [], addr_address = ''me@tuta.io''\<rparr>, received_ms = 0, unread = True,
     first_recipient = Some \<lparr>addr_name = [], addr_address = ''me@tuta.io''\<rparr>, attachments = [\<lparr>list_id = ''f'', element_id = ''1''\<rparr>]\<rparr>"

definition sample_attachment :: "string \<Rightarrow> attachment" where
  "sample_attachment d = \<lparr>att_filename = ''a.txt'', att_mime_type = ''text/plain'', att_data = d\<rparr>"

theorem self_send_served_witness:
  "fst (load_attachments (sample_facade []) ascii_unicode sample_copy
     (fst (snd (send_mail (sample_facade []) ascii_unicode (sample_message [sample_attachment ''x'']) (sample_client, 5))), 60))
   = Inr (submitted_parts (sample_message [sample_attachment ''x'']))"
proof -
  let ?r = "send_mail (sample_facade []) ascii_unicode (sample_message [sample_attachment ''x'']) (sample_client, 5)"
  obtain r c2 w2 where r: "?r = (r, c2, w2)" by (cases ?r) auto
  have "is_self_recipient (sample_message [sample_attachment ''x'']) (tc_email sample_client)"
    by (simp add: is_self_recipient_def sample_message_def sample_client_def eq_ignore_ascii_case_def)
  from self_send_served [OF r _ this, of sample_copy _ 60] show ?thesis
    unfolding r by (simp add: sample_message_def sample_copy_def sample_client_def sample_facade_def)
qed

text \<open>
  The cache is keyed by subject, sender and recipient only: after a second mail to oneself with the same subject and as
  many attachments, the first mail shows the attachments of the second.
\<close>

theorem self_send_subject_collision:
  assumes "is_self_recipient msg2 (tc_email c)" "pm_subject msg2 = pm_subject msg1" "pm_from_address msg2 = pm_from_address msg1"
    and "subject m = pm_subject msg1" "addr_address (sender m) = pm_from_address msg1" "first_recipient m = Some rc" "addr_address rc = tc_email c"
    and "attachments m \<noteq> []" "length (attachments m) = length (pm_attachments msg2)" "fa_now fa w - now2 \<le> SELF_SEND_CACHE_TTL"
  shows "fst (load_attachments fa u m (cache_self_send_attachments u now2 msg2 (cache_self_send_attachments u now1 msg1 c), w))
    = Inr (submitted_parts msg2)"
proof -
  have "tc_email (cache_self_send_attachments u now1 msg1 c) = tc_email c" by (simp add: cache_self_send_attachments_def)
  then show ?thesis using assms
    by (subst cached_then_loaded [of msg2 "cache_self_send_attachments u now1 msg1 c" m rc fa w now2])
       (simp_all add: cache_self_send_attachments_def)
qed

text \<open>The ids the bridge mints for its messages are taken apart again.\<close>

lemma minted_id_parses:
  assumes "CHR ''.'' \<notin> set l" "l \<noteq> []" "e \<noteq> []"
  shows "parse_bridge_local_id (l @ ''.'' @ e @ ''@tutabridge.local'') = Some (l, e)"
proof -
  have "strip_suffix suf (s @ suf) = Some s" for suf s by (simp add: strip_suffix_def suffix_def)
  from this [of "''@tutabridge.local''" "l @ ''.'' @ e"] show ?thesis
    using assms split_once_append [of "CHR ''.''" l e] by (simp add: parse_bridge_local_id_def)
qed

end
