(* ===== verification/MailExt.thy ===== *)
theory MailExt
  imports TutaClient
begin

text \<open>
  \<open>crates/tuta/src/mail.rs\<close>, the mail operations on top of Tuta's SDK, and the methods of \<open>TutaSession\<close> in
  \<open>tuta.rs\<close> that call them: batched moves and deletions, the bodies of received mails and of drafts, attachments
  and entities that arrive inline. The SDK (entity client, crypto facade, blob facade, instance mapper) is a record
  of functions on an opaque world; \<open>'p\<close> is its type of parsed entities. A panic of \<open>load_attachments\<close> is the
  value \<open>None\<close>.
\<close>

datatype bucket_key_error = NoEntry | AmbiguousEntries | GroupReference | Resolution

record resolved_session_key =
  rk_session_key :: string
  rk_owner_enc_session_key :: string
  rk_owner_key_version :: nat

record sdk_mail = mail +
  ma_owner_group :: "string option"
  ma_owner_enc_session_key :: "string option"
  ma_owner_key_version :: "int option"
  ma_bucket_key :: "string option"
  ma_mail_details :: "id_tuple option"
  ma_mail_details_draft :: "id_tuple option"

record file_blob =
  bl_archive_id :: string
  bl_blob_id :: string

record sdk_file = tutanota_file +
  tf_id :: "id_tuple option"
  tf_blobs :: "file_blob list"
  tf_errors :: "string list"
  tf_owner_key_version :: "int option"
  tf_owner_enc_session_key :: "string option"

record ('p, 'w) mail_sdk =
  sk_post_move :: "id_tuple \<Rightarrow> id_tuple list \<Rightarrow> 'w \<Rightarrow> (api_call_error + unit) \<times> 'w"
  sk_delete :: "id_tuple \<Rightarrow> id_tuple list \<Rightarrow> 'w \<Rightarrow> (api_call_error + unit) \<times> 'w"
  sk_resolve_type :: "string \<Rightarrow> api_call_error + bool"
  sk_load_multiple :: "string \<Rightarrow> string list \<Rightarrow> 'w \<Rightarrow> (api_call_error + 'p list) \<times> 'w"
  sk_load_blob_element :: "id_tuple \<Rightarrow> 'w \<Rightarrow> (api_call_error + string) \<times> 'w"
  sk_load_draft :: "id_tuple \<Rightarrow> 'w \<Rightarrow> (api_call_error + 'p) \<times> 'w"
  sk_raw_entities :: "string \<Rightarrow> string list option"
  sk_raw_entity :: "string \<Rightarrow> string option"
  sk_parse_raw :: "string \<Rightarrow> string \<Rightarrow> api_call_error + 'p"
  sk_list_element_id :: "'p \<Rightarrow> id_tuple option"
  sk_has_own_key :: "'p \<Rightarrow> bool"
  sk_has_kdf_nonce :: "'p \<Rightarrow> bool"
  sk_owner_group :: "'p \<Rightarrow> string option"
  sk_needs_session_key :: "'p \<Rightarrow> api_call_error + bool"
  sk_load_group_key :: "string \<Rightarrow> nat \<Rightarrow> 'w \<Rightarrow> string option \<times> 'w"
  sk_decrypt_key :: "string \<Rightarrow> string \<Rightarrow> string option"
  sk_resolve_session_key :: "'p \<Rightarrow> 'w \<Rightarrow> (string + resolved_session_key option) \<times> 'w"
  sk_resolve_bucket :: "string \<Rightarrow> string \<Rightarrow> id_tuple list \<Rightarrow> 'w \<Rightarrow> (bucket_key_error + resolved_session_key list) \<times> 'w"
  sk_decrypt_parsed :: "'p \<Rightarrow> resolved_session_key option \<Rightarrow> 'w \<Rightarrow> (api_call_error + 'p) \<times> 'w"
  sk_decrypt_and_map :: "'p \<Rightarrow> resolved_session_key \<Rightarrow> api_call_error + 'p"
  sk_parse_details :: "'p \<Rightarrow> mail_details option"
  sk_parse_file :: "'p \<Rightarrow> sdk_file option"
  sk_download_blobs :: "string \<Rightarrow> id_tuple \<Rightarrow> string list \<Rightarrow> 'w \<Rightarrow> (api_call_error + (string \<times> string) list) \<times> 'w"
  sk_decrypt_data :: "string \<Rightarrow> string \<Rightarrow> string option"
  sk_hash_order :: "(string \<times> string list) list \<Rightarrow> (string \<times> string list) list"

section \<open>Moves and deletions\<close>

definition MAIL_BATCH_LIMIT :: nat where "MAIL_BATCH_LIMIT = 50"

text \<open>\<open>slice.chunks(n)\<close> for \<open>n > 0\<close>, and one request per chunk up to the first failure\<close>

function chunks_of :: "nat \<Rightarrow> 'a list \<Rightarrow> 'a list list" where
  "chunks_of n xs = (if xs = [] \<or> n = 0 then [] else take n xs # chunks_of n (drop n xs))"
  by pat_completeness auto

termination
  by (relation "measure (\<lambda>(n, xs). length xs)") (auto simp flip: length_greater_0_conv)

declare chunks_of.simps [simp del]

fun send_chunks :: "('a list \<Rightarrow> 'w \<Rightarrow> (api_call_error + unit) \<times> 'w) \<Rightarrow> 'a list list \<Rightarrow> 'w \<Rightarrow> (api_call_error + unit) \<times> 'w" where
  "send_chunks request [] w = (Inr (), w)"
| "send_chunks request (c # cs) w = (case request c w of (Inl e, w1) \<Rightarrow> (Inl e, w1) | (Inr _, w1) \<Rightarrow> send_chunks request cs w1)"

definition ext_move_mails :: "('p, 'w) mail_sdk \<Rightarrow> id_tuple list \<Rightarrow> id_tuple \<Rightarrow> 'w \<Rightarrow> (api_call_error + unit) \<times> 'w" where
  "ext_move_mails sdk mails target w = send_chunks (sk_post_move sdk target) (chunks_of MAIL_BATCH_LIMIT (remdups_adj mails)) w"

record mail_groups =
  mg_by_list :: "id_tuple list list"
  mg_list_indices :: "(string \<times> nat) list"
  mg_seen :: "(string \<times> string) list"

definition pair :: "id_tuple \<Rightarrow> string \<times> string" where
  "pair ident = (list_id ident, element_id ident)"

definition add_mail :: "id_tuple \<Rightarrow> mail_groups \<Rightarrow> mail_groups" where
  "add_mail m g = (if pair m \<in> set (mg_seen g) then g
     else let g1 = g\<lparr>mg_seen := pair m # mg_seen g\<rparr> in
     case map_of (mg_list_indices g1) (list_id m) of
       Some i \<Rightarrow> g1\<lparr>mg_by_list := (mg_by_list g1)[i := mg_by_list g1 ! i @ [m]]\<rparr>
     | None \<Rightarrow> g1\<lparr>mg_by_list := mg_by_list g1 @ [[m]], mg_list_indices := (list_id m, length (mg_by_list g1)) # mg_list_indices g1\<rparr>)"

definition group_mails :: "id_tuple list \<Rightarrow> id_tuple list list" where
  "group_mails mails = mg_by_list (fold add_mail mails \<lparr>mg_by_list = [], mg_list_indices = [], mg_seen = []\<rparr>)"

definition ext_delete_mails :: "('p, 'w) mail_sdk \<Rightarrow> id_tuple list \<Rightarrow> id_tuple \<Rightarrow> 'w \<Rightarrow> (api_call_error + unit) \<times> 'w" where
  "ext_delete_mails sdk mails folder w =
     send_chunks (sk_delete sdk folder) (concat (map (chunks_of MAIL_BATCH_LIMIT) (group_mails mails))) w"

definition folder_tuple :: "folder_info \<Rightarrow> id_tuple" where
  "folder_tuple f = \<lparr>list_id = fi_list_id f, element_id = fi_id f\<rparr>"

definition session_delete_mails :: "('p, 'w) mail_sdk \<Rightarrow> id_tuple list \<Rightarrow> folder_info \<Rightarrow> 'w \<Rightarrow> (api_call_error + unit) \<times> 'w" where
  "session_delete_mails sdk mails f w = ext_delete_mails sdk mails (folder_tuple f) w"

definition session_move_mails :: "('p, 'w) mail_sdk \<Rightarrow> id_tuple list \<Rightarrow> folder_info \<Rightarrow> 'w \<Rightarrow> (api_call_error + unit) \<times> 'w" where
  "session_move_mails sdk mails target w = ext_move_mails sdk mails (folder_tuple target) w"

section \<open>Bodies\<close>

datatype stored_body = Blob id_tuple | Draft id_tuple

definition owner_key :: "('p, 'w) mail_sdk \<Rightarrow> sdk_mail \<Rightarrow> 'w \<Rightarrow> (api_call_error + resolved_session_key) \<times> 'w" where
  "owner_key sdk m w = (case ma_owner_group m of None \<Rightarrow> (Inl InternalSdkError, w) | Some owner_group \<Rightarrow>
     case ma_owner_enc_session_key m of None \<Rightarrow> (Inl InternalSdkError, w) | Some encrypted \<Rightarrow>
     let version = nat \<bar>case ma_owner_key_version m of Some v \<Rightarrow> v | None \<Rightarrow> 0\<bar> in
     case sk_load_group_key sdk owner_group version w of (None, w1) \<Rightarrow> (Inl InternalSdkError, w1) | (Some gk, w1) \<Rightarrow>
     case sk_decrypt_key sdk gk encrypted of None \<Rightarrow> (Inl InternalSdkError, w1) | Some sk \<Rightarrow>
       (Inr \<lparr>rk_session_key = sk, rk_owner_enc_session_key = encrypted, rk_owner_key_version = version\<rparr>, w1))"

definition load_stored :: "('p, 'w) mail_sdk \<Rightarrow> string \<Rightarrow> stored_body \<Rightarrow> 'w \<Rightarrow> (api_call_error + 'p) \<times> 'w" where
  "load_stored sdk ty src w = (case src of
     Blob ident \<Rightarrow> (case sk_load_blob_element sdk ident w of (Inl e, w1) \<Rightarrow> (Inl e, w1) | (Inr body, w1) \<Rightarrow>
       (case sk_raw_entities sdk body of Some (raw # _) \<Rightarrow> (sk_parse_raw sdk ty raw, w1) | _ \<Rightarrow> (Inl InternalSdkError, w1)))
   | Draft ident \<Rightarrow> sk_load_draft sdk ident w)"

definition load_body :: "('p, 'w) mail_sdk \<Rightarrow> string \<Rightarrow> sdk_mail \<Rightarrow> stored_body \<Rightarrow> 'w \<Rightarrow> (api_call_error + mail_details) \<times> 'w" where
  "load_body sdk ty m src w = (case load_stored sdk ty src w of (Inl e, w1) \<Rightarrow> (Inl e, w1) | (Inr parsed, w1) \<Rightarrow>
     case sk_resolve_type sdk ty of Inl e \<Rightarrow> (Inl e, w1) | Inr _ \<Rightarrow>
     case sk_needs_session_key sdk parsed of Inl e \<Rightarrow> (Inl e, w1) | Inr needed \<Rightarrow>
     case (if needed then (case owner_key sdk m w1 of (Inl e, w2) \<Rightarrow> (Inl e, w2) | (Inr k, w2) \<Rightarrow> (Inr (Some k), w2)) else (Inr None, w1)) of
       (Inl e, w2) \<Rightarrow> (Inl e, w2) | (Inr key, w2) \<Rightarrow>
     case sk_decrypt_parsed sdk parsed key w2 of (Inl e, w3) \<Rightarrow> (Inl e, w3) | (Inr decrypted, w3) \<Rightarrow>
       ((case sk_parse_details sdk decrypted of Some d \<Rightarrow> Inr d | None \<Rightarrow> Inl InternalSdkError), w3))"

definition load_mail_details_blob :: "('p, 'w) mail_sdk \<Rightarrow> sdk_mail \<Rightarrow> 'w \<Rightarrow> (api_call_error + mail_details) \<times> 'w" where
  "load_mail_details_blob sdk m w = (if ma_mail_details_draft m \<noteq> None then (Inl InternalSdkError, w)
     else case ma_mail_details m of None \<Rightarrow> (Inl InternalSdkError, w)
     | Some ident \<Rightarrow> load_body sdk ''MailDetailsBlob'' m (Blob ident) w)"

definition load_mail_details_draft :: "('p, 'w) mail_sdk \<Rightarrow> sdk_mail \<Rightarrow> 'w \<Rightarrow> (api_call_error + mail_details) \<times> 'w" where
  "load_mail_details_draft sdk m w = (if ma_mail_details m \<noteq> None then (Inl InternalSdkError, w)
     else case ma_mail_details_draft m of None \<Rightarrow> (Inl InternalSdkError, w)
     | Some ident \<Rightarrow> load_body sdk ''MailDetailsDraft'' m (Draft ident) w)"

definition session_load_mail_details :: "('p, 'w) mail_sdk \<Rightarrow> sdk_mail \<Rightarrow> 'w \<Rightarrow> (api_call_error + mail_details option) \<times> 'w" where
  "session_load_mail_details sdk m w =
    (if ma_mail_details_draft m \<noteq> None then (case load_mail_details_draft sdk m w of (Inr d, w1) \<Rightarrow> (Inr (Some d), w1) | (Inl e, w1) \<Rightarrow> (Inl e, w1))
     else if ma_mail_details m \<noteq> None then (case load_mail_details_blob sdk m w of (Inr d, w1) \<Rightarrow> (Inr (Some d), w1) | (Inl e, w1) \<Rightarrow> (Inl e, w1))
     else (Inr None, w))"

section \<open>Inline entities\<close>

definition decrypt_inline :: "('p, 'w) mail_sdk \<Rightarrow> bool \<Rightarrow> 'p \<Rightarrow> 'w \<Rightarrow> (api_call_error + 'p option) \<times> 'w" where
  "decrypt_inline sdk encrypted parsed w =
    (if encrypted \<and> sk_has_kdf_nonce sdk parsed
     then (case sk_decrypt_parsed sdk parsed None w of (Inl e, w1) \<Rightarrow> (Inl e, w1) | (Inr p, w1) \<Rightarrow> (Inr (Some p), w1))
     else if encrypted
     then (case sk_resolve_session_key sdk parsed w of
         (Inr (Some key), w1) \<Rightarrow> (case sk_decrypt_and_map sdk parsed key of Inl e \<Rightarrow> (Inl e, w1) | Inr p \<Rightarrow> (Inr (Some p), w1))
       | (_, w1) \<Rightarrow> (Inr None, w1))
     else (Inr (Some parsed), w))"

definition decrypt_inline_and_parse :: "('p, 'w) mail_sdk \<Rightarrow> string \<Rightarrow> ('p \<Rightarrow> 'a option) \<Rightarrow> string \<Rightarrow> 'w \<Rightarrow> (api_call_error + 'a option) \<times> 'w" where
  "decrypt_inline_and_parse sdk ty parse_entity json w = (case sk_resolve_type sdk ty of Inl e \<Rightarrow> (Inl e, w) | Inr encrypted \<Rightarrow>
     case sk_raw_entity sdk json of None \<Rightarrow> (Inl InternalSdkError, w) | Some raw \<Rightarrow>
     case sk_parse_raw sdk ty raw of Inl e \<Rightarrow> (Inl e, w) | Inr parsed \<Rightarrow>
     case decrypt_inline sdk encrypted parsed w of (Inl e, w1) \<Rightarrow> (Inl e, w1) | (Inr None, w1) \<Rightarrow> (Inr None, w1)
     | (Inr (Some p), w1) \<Rightarrow> ((case parse_entity p of Some x \<Rightarrow> Inr (Some x) | None \<Rightarrow> Inl InternalSdkError), w1))"

section \<open>Attachments\<close>

definition classify :: "api_call_error \<Rightarrow> attachment_error" where
  "classify e = (case e of InternalSdkError \<Rightarrow> Indeterminate e | _ \<Rightarrow> Transport e)"

definition classify_bucket :: "bucket_key_error \<Rightarrow> attachment_error" where
  "classify_bucket e = (case e of NoEntry \<Rightarrow> Contract NoBucketEntry | AmbiguousEntries \<Rightarrow> Contract AmbiguousBucketEntries
     | GroupReference \<Rightarrow> Contract GroupReferenceUnsupported | Resolution \<Rightarrow> Indeterminate InternalSdkError)"

definition indeterminate :: attachment_error where
  "indeterminate = Indeterminate InternalSdkError"

fun store_chunks :: "('p, 'w) mail_sdk \<Rightarrow> string \<Rightarrow> string \<Rightarrow> (string \<times> string) list \<Rightarrow> (string \<times> string \<rightharpoonup> string)
    \<Rightarrow> api_call_error + (string \<times> string \<rightharpoonup> string)" where
  "store_chunks sdk key archive [] got = Inr got"
| "store_chunks sdk key archive ((ident, bytes) # rest) got = (case sk_decrypt_data sdk key bytes of None \<Rightarrow> Inl InternalSdkError
     | Some data \<Rightarrow> store_chunks sdk key archive rest (got((archive, ident) \<mapsto> data)))"

fun download_archives :: "('p, 'w) mail_sdk \<Rightarrow> id_tuple \<Rightarrow> string \<Rightarrow> (string \<times> string list) list \<Rightarrow> (string \<times> string \<rightharpoonup> string) \<Rightarrow> 'w
    \<Rightarrow> (api_call_error + (string \<times> string \<rightharpoonup> string)) \<times> 'w" where
  "download_archives sdk inst key [] got w = (Inr got, w)"
| "download_archives sdk inst key ((archive, ids) # rest) got w = (case sk_download_blobs sdk archive inst ids w of
     (Inl e, w1) \<Rightarrow> (Inl e, w1)
   | (Inr encrypted, w1) \<Rightarrow> (case store_chunks sdk key archive encrypted got of Inl e \<Rightarrow> (Inl e, w1)
      | Inr got1 \<Rightarrow> download_archives sdk inst key rest got1 w1))"

fun assemble :: "(string \<times> string \<rightharpoonup> string) \<Rightarrow> file_blob list \<Rightarrow> string option" where
  "assemble got [] = Some []"
| "assemble got (b # bs) = (case got (bl_archive_id b, bl_blob_id b) of None \<Rightarrow> None
     | Some data \<Rightarrow> map_option (append data) (assemble got bs))"

definition group_blobs :: "file_blob list \<Rightarrow> (string \<times> string list) list" where
  "group_blobs blobs = fold (\<lambda>b. push_group (bl_archive_id b) (bl_blob_id b)) blobs []"

definition load_file_attachment_data :: "('p, 'w) mail_sdk \<Rightarrow> sdk_file \<Rightarrow> string \<Rightarrow> 'w \<Rightarrow> (api_call_error + string) \<times> 'w" where
  "load_file_attachment_data sdk f key w = (if tf_blobs f = [] then (Inr [], w)
     else case tf_id f of None \<Rightarrow> (Inl InternalSdkError, w) | Some inst \<Rightarrow>
     case download_archives sdk inst key (sk_hash_order sdk (group_blobs (tf_blobs f))) Map.empty w of (Inl e, w1) \<Rightarrow> (Inl e, w1)
     | (Inr got, w1) \<Rightarrow> ((case assemble got (tf_blobs f) of Some data \<Rightarrow> Inr data | None \<Rightarrow> Inl InternalSdkError), w1))"

text \<open>One request per list; an attachment named twice is refused.\<close>

fun request_lists :: "id_tuple list \<Rightarrow> (string \<times> string list) list \<Rightarrow> attachment_error + (string \<times> string list) list" where
  "request_lists [] ls = Inr ls"
| "request_lists (i # ids) ls = (case map_of ls (list_id i) of
     Some elements \<Rightarrow> if element_id i \<in> set elements then Inl (Contract DuplicateInBatch)
       else request_lists ids (push_group (list_id i) (element_id i) ls)
   | None \<Rightarrow> request_lists ids (push_group (list_id i) (element_id i) ls))"

text \<open>The response to one request is checked against it, file by file.\<close>

fun accept_files :: "('p, 'w) mail_sdk \<Rightarrow> string \<Rightarrow> string list \<Rightarrow> 'p list \<Rightarrow> (string \<times> string \<rightharpoonup> 'p) \<Rightarrow> attachment_error + (string \<times> string \<rightharpoonup> 'p)" where
  "accept_files sdk l elements [] files = Inr files"
| "accept_files sdk l elements (p # ps) files = (case sk_list_element_id sdk p of None \<Rightarrow> Inl indeterminate | Some ident \<Rightarrow>
     if list_id ident \<noteq> l then Inl (Contract WrongList)
     else if element_id ident \<notin> set elements then Inl (Contract NotInMailAttachments)
     else if files (pair ident) \<noteq> None then Inl (Contract DuplicateInBatch)
     else accept_files sdk l elements ps (files(pair ident \<mapsto> p)))"

fun load_files :: "('p, 'w) mail_sdk \<Rightarrow> (string \<times> string list) list \<Rightarrow> (string \<times> string \<rightharpoonup> 'p) \<Rightarrow> 'w
    \<Rightarrow> (attachment_error + (string \<times> string \<rightharpoonup> 'p)) \<times> 'w" where
  "load_files sdk [] files w = (Inr files, w)"
| "load_files sdk ((l, elements) # ls) files w = (case sk_load_multiple sdk l elements w of
     (Inl e, w1) \<Rightarrow> (Inl (classify e), w1)
   | (Inr loaded, w1) \<Rightarrow> (case accept_files sdk l elements loaded files of Inl e \<Rightarrow> (Inl e, w1)
      | Inr files1 \<Rightarrow> load_files sdk ls files1 w1))"

text \<open>A file's own key first, the mail's bucket for the others.\<close>

fun own_keys :: "('p, 'w) mail_sdk \<Rightarrow> (string \<times> string \<rightharpoonup> 'p) \<Rightarrow> id_tuple list \<Rightarrow> (string \<times> string \<rightharpoonup> resolved_session_key) \<Rightarrow> id_tuple list \<Rightarrow> 'w
    \<Rightarrow> (attachment_error + (string \<times> string \<rightharpoonup> resolved_session_key) \<times> id_tuple list) \<times> 'w" where
  "own_keys sdk files [] keys from_bucket w = (Inr (keys, from_bucket), w)"
| "own_keys sdk files (i # ids) keys from_bucket w =
    (if sk_has_own_key sdk (the (files (pair i)))
     then (case sk_resolve_session_key sdk (the (files (pair i))) w of
         (Inr (Some key), w1) \<Rightarrow> own_keys sdk files ids (keys(pair i \<mapsto> key)) from_bucket w1
       | (_, w1) \<Rightarrow> (Inl indeterminate, w1))
     else own_keys sdk files ids keys (from_bucket @ [i]) w)"

definition bucket_keys :: "('p, 'w) mail_sdk \<Rightarrow> sdk_mail \<Rightarrow> (string \<times> string \<rightharpoonup> 'p) \<Rightarrow> (string \<times> string \<rightharpoonup> resolved_session_key) \<Rightarrow> id_tuple list \<Rightarrow> 'w
    \<Rightarrow> (attachment_error + (string \<times> string \<rightharpoonup> resolved_session_key)) \<times> 'w" where
  "bucket_keys sdk m files keys from_bucket w = (if from_bucket = [] then (Inr keys, w)
     else case ma_bucket_key m of None \<Rightarrow> (Inl (Contract KeyUnavailable), w) | Some bucket \<Rightarrow>
     case ma_owner_group m of None \<Rightarrow> (Inl indeterminate, w) | Some mail_group \<Rightarrow>
     if \<exists>i\<in>set from_bucket. sk_owner_group sdk (the (files (pair i))) \<noteq> Some mail_group then (Inl (Contract UnsupportedGroupContext), w)
     else case sk_resolve_bucket sdk bucket mail_group from_bucket w of (Inl e, w1) \<Rightarrow> (Inl (classify_bucket e), w1)
     | (Inr resolved, w1) \<Rightarrow> (Inr (fold (\<lambda>(i, k) ks. ks(pair i \<mapsto> k)) (zip from_bucket resolved) keys), w1))"

text \<open>One file: decrypted, mapped, stamped with its key's envelope, downloaded.\<close>

definition decrypt_file :: "('p, 'w) mail_sdk \<Rightarrow> 'p \<Rightarrow> resolved_session_key \<Rightarrow> 'w \<Rightarrow> (attachment_error + sdk_file \<times> string) \<times> 'w" where
  "decrypt_file sdk parsed key w = (case sk_decrypt_parsed sdk parsed (Some key) w of (Inl e, w1) \<Rightarrow> (Inl (classify e), w1) | (Inr decrypted, w1) \<Rightarrow>
     case sk_parse_file sdk decrypted of None \<Rightarrow> (Inl indeterminate, w1) | Some f \<Rightarrow>
     if tf_errors f \<noteq> [] then (Inl indeterminate, w1)
     else if 2 ^ 63 \<le> rk_owner_key_version key then (Inl indeterminate, w1)
     else let f1 = f\<lparr>tf_owner_key_version := Some (int (rk_owner_key_version key)), tf_owner_enc_session_key := Some (rk_owner_enc_session_key key)\<rparr> in
     case load_file_attachment_data sdk f1 (rk_session_key key) w1 of (Inl e, w2) \<Rightarrow> (Inl (classify e), w2) | (Inr data, w2) \<Rightarrow> (Inr (f1, data), w2))"

fun decrypt_files :: "('p, 'w) mail_sdk \<Rightarrow> id_tuple list \<Rightarrow> (string \<times> string \<rightharpoonup> 'p) \<Rightarrow> (string \<times> string \<rightharpoonup> resolved_session_key) \<Rightarrow> 'w
    \<Rightarrow> (attachment_error + (sdk_file \<times> string) list) option \<times> 'w" where
  "decrypt_files sdk [] files keys w = (Some (Inr []), w)"
| "decrypt_files sdk (i # ids) files keys w = (case (files (pair i), keys (pair i)) of
     (Some parsed, Some key) \<Rightarrow> (case decrypt_file sdk parsed key w of (Inl e, w1) \<Rightarrow> (Some (Inl e), w1)
       | (Inr out, w1) \<Rightarrow> (case decrypt_files sdk ids (files(pair i := None)) (keys(pair i := None)) w1 of
            (Some (Inr outs), w2) \<Rightarrow> (Some (Inr (out # outs)), w2)
          | (r, w2) \<Rightarrow> (r, w2)))
   | _ \<Rightarrow> (None, w))"

definition ext_load_attachments :: "('p, 'w) mail_sdk \<Rightarrow> sdk_mail \<Rightarrow> 'w \<Rightarrow> (attachment_error + (sdk_file \<times> string) list) option \<times> 'w" where
  "ext_load_attachments sdk m w = (if attachments m = [] then (Some (Inr []), w)
     else case sk_resolve_type sdk ''File'' of Inl e \<Rightarrow> (Some (Inl (Indeterminate e)), w) | Inr _ \<Rightarrow>
     case request_lists (attachments m) [] of Inl e \<Rightarrow> (Some (Inl e), w) | Inr ls \<Rightarrow>
     case load_files sdk ls Map.empty w of (Inl e, w1) \<Rightarrow> (Some (Inl e), w1) | (Inr files, w1) \<Rightarrow>
     if \<exists>i\<in>set (attachments m). files (pair i) = None then (Some (Inl (Contract IncompleteBatch)), w1)
     else case own_keys sdk files (attachments m) Map.empty [] w1 of (Inl e, w2) \<Rightarrow> (Some (Inl e), w2) | (Inr (keys, from_bucket), w2) \<Rightarrow>
     case bucket_keys sdk m files keys from_bucket w2 of (Inl e, w3) \<Rightarrow> (Some (Inl e), w3) | (Inr keys1, w3) \<Rightarrow>
       decrypt_files sdk (attachments m) files keys1 w3)"

section \<open>Batches\<close>

lemma chunks_of_batches:
  assumes "0 < n"
  shows "concat (chunks_of n xs) = xs" "c \<in> set (chunks_of n xs) \<Longrightarrow> c \<noteq> [] \<and> length c \<le> n \<and> set c \<subseteq> set xs"
  using assms
proof (induction n xs rule: chunks_of.induct)
  case (1 n xs)
  { case 1 with "1.IH" show ?case by (simp add: chunks_of.simps [of n xs]) }
  { case 2
    show ?case
    proof (cases "xs = []")
      case False
      with 2 have "c = take n xs \<or> c \<in> set (chunks_of n (drop n xs))" by (simp add: chunks_of.simps [of n xs])
      moreover have "set (take n xs) \<subseteq> set xs" "set (drop n xs) \<subseteq> set xs" by (simp_all add: set_take_subset set_drop_subset)
      ultimately show ?thesis using "1.IH"(2) False 2(2) by fastforce
    qed (use 2 in \<open>simp add: chunks_of.simps\<close>) }
qed

text \<open>The reference: each element at its first occurrence.\<close>

definition uniq :: "'a list \<Rightarrow> 'a list" where
  "uniq xs = rev (remdups (rev xs))"

lemma uniq_simps [simp]: "uniq [] = []" "uniq (xs @ [x]) = (if x \<in> set xs then uniq xs else uniq xs @ [x])"
  "set (uniq xs) = set xs" "distinct (uniq xs)"
  by (simp_all add: uniq_def)

lemma pair_inject [simp]: "pair a = pair b \<longleftrightarrow> a = b"
  by (auto simp: pair_def)

lemma pair_in_image [simp]: "pair m \<in> pair ` M \<longleftrightarrow> m \<in> M"
  by (auto simp: image_iff)

definition groups_of :: "id_tuple list \<Rightarrow> mail_groups \<Rightarrow> bool" where
  "groups_of mails g \<longleftrightarrow> mg_by_list g = map (\<lambda>l. filter (\<lambda>m. list_id m = l) (uniq mails)) (uniq (map list_id mails))
    \<and> set (mg_seen g) = pair ` set mails
    \<and> (\<forall>l i. map_of (mg_list_indices g) l = Some i \<longleftrightarrow> i < length (uniq (map list_id mails)) \<and> uniq (map list_id mails) ! i = l)"

lemma groups_of_add:
  assumes "groups_of mails g"
  shows "groups_of (mails @ [m]) (add_mail m g)"
proof -
  let ?L = "uniq (map list_id mails)" and ?l = "list_id m"
  have by_list: "mg_by_list g = map (\<lambda>l. filter (\<lambda>x. list_id x = l) (uniq mails)) ?L" and seen: "set (mg_seen g) = pair ` set mails"
    and ix: "\<And>l i. map_of (mg_list_indices g) l = Some i \<longleftrightarrow> i < length ?L \<and> ?L ! i = l"
    using assms by (auto simp: groups_of_def)
  show ?thesis
  proof (cases "m \<in> set mails")
    case True
    then have "add_mail m g = g" by (simp add: add_mail_def seen)
    with True assms show ?thesis by (simp add: groups_of_def insert_absorb)
  next
    case new: False
    show ?thesis
    proof (cases "map_of (mg_list_indices g) ?l")
      case None
      then have l: "?l \<notin> set ?L" using ix by (metis in_set_conv_nth option.distinct(1))
      then have "filter (\<lambda>x. list_id x = ?l) (uniq mails) = []" by (auto simp: filter_empty_conv image_iff)
      moreover have "?L ! i \<noteq> ?l" if "i < length ?L" for i using l nth_mem [OF that] by metis
      ultimately show ?thesis using l None new
        by (auto simp: groups_of_def add_mail_def seen by_list ix nth_append less_Suc_eq)
    next
      case (Some i)
      then have i: "i < length ?L" "?L ! i = ?l" using ix by auto
      then have l: "?l \<in> list_id ` set mails" by (metis list.set_map nth_mem uniq_simps(3))
      have "j = i" if "j < length ?L" "?L ! j = ?l" for j using that i by (metis nth_eq_iff_index_eq uniq_simps(4))
      then have "(mg_by_list g)[i := mg_by_list g ! i @ [m]] = map (\<lambda>l. filter (\<lambda>x. list_id x = l) (uniq mails @ [m])) ?L"
        by (intro nth_equalityI) (auto simp: by_list nth_list_update i)
      moreover have "add_mail m g = g\<lparr>mg_seen := pair m # mg_seen g, mg_by_list := (mg_by_list g)[i := mg_by_list g ! i @ [m]]\<rparr>"
        using Some new by (simp add: add_mail_def Let_def seen)
      ultimately show ?thesis using l new by (simp add: groups_of_def seen ix)
    qed
  qed
qed

lemma group_mails_reference:
  "group_mails mails = map (\<lambda>l. filter (\<lambda>m. list_id m = l) (uniq mails)) (uniq (map list_id mails))"
proof -
  have "groups_of mails (fold add_mail mails \<lparr>mg_by_list = [], mg_list_indices = [], mg_seen = []\<rparr>)"
    by (induction mails rule: rev_induct) (simp_all add: groups_of_add, simp add: groups_of_def)
  then show ?thesis by (simp add: groups_of_def group_mails_def)
qed

lemma group_mails_partition: "mset (concat (group_mails mails)) = mset (uniq mails)"
proof -
  have "mset (concat (map (\<lambda>l. filter (\<lambda>m. list_id m = l) xs) ls)) = mset (filter (\<lambda>m. list_id m \<in> set ls) xs)" if "distinct ls" for xs :: "id_tuple list" and ls
    using that
  proof (induction ls)
    case (Cons l ls)
    have "filter (\<lambda>m. list_id m = l) (filter (\<lambda>m. list_id m \<in> set (l # ls)) xs) = filter (\<lambda>m. list_id m = l) xs"
      "filter (\<lambda>m. list_id m \<noteq> l) (filter (\<lambda>m. list_id m \<in> set (l # ls)) xs) = filter (\<lambda>m. list_id m \<in> set ls) xs"
      using Cons.prems by (auto intro!: filter_cong)
    then have "mset (filter (\<lambda>m. list_id m \<in> set (l # ls)) xs) = mset (filter (\<lambda>m. list_id m = l) xs) + mset (filter (\<lambda>m. list_id m \<in> set ls) xs)"
      using multiset_partition [of "mset (filter (\<lambda>m. list_id m \<in> set (l # ls)) xs)" "\<lambda>m. list_id m = l"] by (simp only: mset_filter [symmetric])
    with Cons show ?case by simp
  qed simp
  from this [of "uniq (map list_id mails)" "uniq mails"] show ?thesis
    by (simp add: group_mails_reference filter_True)
qed

section \<open>Where the attachments of a mail come from\<close>

lemma push_group_keys: "distinct (map fst gs) \<Longrightarrow> distinct (map fst (push_group l e gs)) \<and> set (map fst (push_group l e gs)) = insert l (set (map fst gs))"
  by (induction l e gs rule: push_group.induct) auto

lemma in_group_ids: "distinct (map fst gs) \<Longrightarrow> (l, e) \<in> set (group_ids gs) \<longleftrightarrow> (\<exists>es. map_of gs l = Some es \<and> e \<in> set es)"
  by (force simp: group_ids_def)

lemma group_ids_push_set: "set (group_ids (push_group l e gs)) = insert (l, e) (set (group_ids gs))"
  using group_ids_push [of l e gs] by (metis set_mset_add_mset_insert set_mset_mset)

lemma request_lists_ok:
  assumes "request_lists ids gs = Inr gs2" "distinct (map fst gs)" "distinct (group_ids gs)"
  shows "distinct (map fst gs2) \<and> mset (group_ids gs2) = mset (group_ids gs) + mset (map pair ids) \<and> distinct (group_ids gs2)"
  using assms
proof (induction ids gs rule: request_lists.induct)
  case (2 i ids gs)
  let ?g = "push_group (list_id i) (element_id i) gs"
  have rec: "request_lists ids ?g = Inr gs2" and new: "pair i \<notin> set (group_ids gs)"
    using "2.prems"(1) in_group_ids [OF "2.prems"(2)] by (auto simp: pair_def split: option.splits if_splits)
  have keys: "distinct (map fst ?g)" using push_group_keys [OF "2.prems"(2)] by simp
  have ms: "mset (group_ids ?g) = add_mset (pair i) (mset (group_ids gs))" by (simp add: group_ids_push pair_def)
  have "distinct (pair i # group_ids gs)" using new "2.prems"(3) by simp
  then have d: "distinct (group_ids ?g)" using ms by (metis mset.simps(2) mset_eq_imp_distinct_iff)
  have "distinct (map fst gs2) \<and> mset (group_ids gs2) = mset (group_ids ?g) + mset (map pair ids) \<and> distinct (group_ids gs2)"
  proof (cases "map_of gs (list_id i)")
    case None
    then show ?thesis using "2.IH"(1) rec keys d by blast
  next
    case (Some es)
    moreover from this have "element_id i \<notin> set es" using "2.prems"(1) by auto
    ultimately show ?thesis using "2.IH"(2) rec keys d by blast
  qed
  then show ?case by (simp add: ms)
qed simp

lemma request_lists_distinct:
  assumes "request_lists ids [] = Inr gs"
  shows "distinct (map fst gs)" "mset (group_ids gs) = mset (map pair ids)" "distinct ids"
proof -
  show "distinct (map fst gs)" "mset (group_ids gs) = mset (map pair ids)"
    using request_lists_ok [OF assms] by (simp_all add: group_ids_def)
  then have "distinct (map pair ids)"
    using request_lists_ok [OF assms] mset_eq_imp_distinct_iff [of "group_ids gs" "map pair ids"] by (simp add: group_ids_def)
  then show "distinct ids" by (simp add: distinct_map)
qed

lemma accept_files_from:
  assumes "accept_files sdk l es ps files = Inr files2" "files2 k = Some p"
  shows "files k = Some p \<or> p \<in> set ps \<and> (\<exists>i. sk_list_element_id sdk p = Some i \<and> pair i = k \<and> list_id i = l)"
  using assms by (induction sdk l es ps files rule: accept_files.induct) (auto split: option.splits if_splits)

definition served_by :: "('p, 'w) mail_sdk \<Rightarrow> string \<times> string \<Rightarrow> 'p \<Rightarrow> bool" where
  "served_by sdk k p \<longleftrightarrow> (\<exists>es ps w w1. sk_load_multiple sdk (fst k) es w = (Inr ps, w1) \<and> p \<in> set ps)
    \<and> map_option pair (sk_list_element_id sdk p) = Some k"

lemma load_files_from:
  assumes "load_files sdk ls files w = (Inr files2, w2)" "files2 k = Some p"
  shows "files k = Some p \<or> served_by sdk k p"
  using assms
proof (induction sdk ls files w rule: load_files.induct)
  case (2 sdk l es ls files w)
  from "2.prems"(1) obtain ps w1 files1 where got: "sk_load_multiple sdk l es w = (Inr ps, w1)" "accept_files sdk l es ps files = Inr files1"
    "load_files sdk ls files1 w1 = (Inr files2, w2)" by (auto split: prod.splits sum.splits)
  from "2.IH" [OF got(1)[symmetric] refl got(2) got(3) "2.prems"(2)] accept_files_from [OF got(2), of k p] got(1)
  show ?case by (fastforce simp: served_by_def pair_def)
qed simp

definition own_key :: "('p, 'w) mail_sdk \<Rightarrow> 'p \<Rightarrow> resolved_session_key \<Rightarrow> bool" where
  "own_key sdk p key \<longleftrightarrow> sk_has_own_key sdk p \<and> (\<exists>w w1. sk_resolve_session_key sdk p w = (Inr (Some key), w1))"

definition bucket_key :: "('p, 'w) mail_sdk \<Rightarrow> sdk_mail \<Rightarrow> id_tuple \<Rightarrow> 'p \<Rightarrow> resolved_session_key \<Rightarrow> bool" where
  "bucket_key sdk m i p key \<longleftrightarrow> \<not> sk_has_own_key sdk p \<and> (\<exists>b g ids ks w w1. ma_bucket_key m = Some b \<and> ma_owner_group m = Some g
    \<and> sk_owner_group sdk p = Some g \<and> sk_resolve_bucket sdk b g ids w = (Inr ks, w1) \<and> (i, key) \<in> set (zip ids ks))"

lemma own_keys_ok:
  assumes "own_keys sdk files ids keys fb w = (Inr (keys2, fb2), w2)"
  shows "fb2 = fb @ filter (\<lambda>i. \<not> sk_has_own_key sdk (the (files (pair i)))) ids
    \<and> (\<forall>j key. keys2 (pair j) = Some key \<longrightarrow> keys (pair j) = Some key \<or> own_key sdk (the (files (pair j))) key)
    \<and> dom keys2 = dom keys \<union> pair ` {i \<in> set ids. sk_has_own_key sdk (the (files (pair i)))}"
  using assms
proof (induction ids arbitrary: keys fb w)
  case (Cons i ids)
  show ?case
  proof (cases "sk_has_own_key sdk (the (files (pair i)))")
    case True
    with Cons.prems obtain key w1 where key: "sk_resolve_session_key sdk (the (files (pair i))) w = (Inr (Some key), w1)"
      and rec: "own_keys sdk files ids (keys(pair i \<mapsto> key)) fb w1 = (Inr (keys2, fb2), w2)"
      by (auto split: prod.splits sum.splits option.splits)
    have "own_key sdk (the (files (pair i))) key" using True key by (auto simp: own_key_def)
    with Cons.IH [OF rec] True show ?thesis by (auto split: if_splits)
  next
    case False
    with Cons.prems have "own_keys sdk files ids keys (fb @ [i]) w = (Inr (keys2, fb2), w2)" by simp
    from Cons.IH [OF this] False show ?thesis by auto
  qed
qed simp

lemma fold_keys:
  assumes "distinct (map fst iks)"
  shows "fold (\<lambda>(i, k) ks. ks(pair i \<mapsto> k)) iks keys x = (case map_of (map (apfst pair) iks) x of Some k \<Rightarrow> Some k | None \<Rightarrow> keys x)"
  using assms
proof (induction iks arbitrary: keys)
  case (Cons a iks)
  obtain i k where a: "a = (i, k)" by fastforce
  then have "map_of (map (apfst pair) iks) (pair i) = None" using Cons.prems by (force simp: map_of_eq_None_iff)
  with Cons a show ?case by (auto split: option.split)
qed simp

lemma bucket_keys_ok:
  assumes "bucket_keys sdk m files keys fb w = (Inr keys2, w2)" "distinct fb" "\<forall>i\<in>set fb. \<not> sk_has_own_key sdk (the (files (pair i)))"
    "keys2 (pair i) = Some key"
  shows "keys (pair i) = Some key \<or> bucket_key sdk m i (the (files (pair i))) key"
proof (cases "fb = []")
  case False
  with assms(1) obtain b g ks where b: "ma_bucket_key m = Some b" and g: "ma_owner_group m = Some g"
    and own: "\<forall>i\<in>set fb. sk_owner_group sdk (the (files (pair i))) = Some g" and ks: "sk_resolve_bucket sdk b g fb w = (Inr ks, w2)"
    and k2: "keys2 = fold (\<lambda>(i, k) ks. ks(pair i \<mapsto> k)) (zip fb ks) keys"
    by (auto simp: bucket_keys_def split: option.splits prod.splits sum.splits if_splits)
  have "distinct (map fst (zip fb ks))" using assms(2) by (simp add: map_fst_zip_take)
  then have "keys (pair i) = Some key \<or> map_of (map (apfst pair) (zip fb ks)) (pair i) = Some key"
    using assms(4) by (simp add: k2 fold_keys split: option.splits)
  moreover have "(i, key) \<in> set (zip fb ks)" if "map_of (map (apfst pair) (zip fb ks)) (pair i) = Some key"
    using map_of_SomeD [OF that] by auto
  moreover have "i \<in> set fb" if "(i, key) \<in> set (zip fb ks)" using that by (rule set_zip_leftD)
  ultimately show ?thesis using b g own ks assms(3) by (auto simp: bucket_key_def)
qed (use assms in \<open>simp add: bucket_keys_def\<close>)

lemma decrypt_files_from:
  assumes "decrypt_files sdk ids files keys w = (Some (Inr outs), w2)"
  shows "list_all2 (\<lambda>i out. \<exists>p key w w1. files (pair i) = Some p \<and> keys (pair i) = Some key \<and> decrypt_file sdk p key w = (Inr out, w1)) ids outs"
  using assms
proof (induction ids arbitrary: files keys w outs)
  case (Cons i ids)
  from Cons.prems obtain p key out w1 os where fk: "files (pair i) = Some p" "keys (pair i) = Some key" "decrypt_file sdk p key w = (Inr out, w1)"
    and rec: "decrypt_files sdk ids (files(pair i := None)) (keys(pair i := None)) w1 = (Some (Inr os), w2)" and outs: "outs = out # os"
    by (auto split: prod.splits sum.splits option.splits)
  show ?case using list_all2_mono [OF Cons.IH [OF rec]] fk by (fastforce simp: outs split: if_splits)
qed simp

lemma decrypt_files_no_panic:
  assumes "distinct ids" "\<forall>i\<in>set ids. files (pair i) \<noteq> None \<and> keys (pair i) \<noteq> None"
  shows "fst (decrypt_files sdk ids files keys w) \<noteq> None"
  using assms
proof (induction ids arbitrary: files keys w)
  case (Cons i ids)
  then have "fst (decrypt_files sdk ids (files(pair i := None)) (keys(pair i := None)) w1) \<noteq> None" for w1 by (intro Cons.IH) auto
  then have "fst (decrypt_files sdk ids (files(pair i := None)) (keys(pair i := None)) w1) = None \<Longrightarrow> False" for w1 by blast
  with Cons.prems show ?case by (auto simp: case_prod_beta split: sum.splits option.splits)
qed simp

lemma bucket_keys_dom:
  assumes "bucket_keys sdk m files keys fb w = (Inr keys2, w2)" "distinct fb"
    "\<forall>b g ids w ks w1. sk_resolve_bucket sdk b g ids w = (Inr ks, w1) \<longrightarrow> length ks = length ids"
    "i \<in> set fb \<or> keys (pair i) \<noteq> None"
  shows "keys2 (pair i) \<noteq> None"
proof (cases "fb = []")
  case False
  with assms(1) obtain b g ks where ks: "sk_resolve_bucket sdk b g fb w = (Inr ks, w2)"
    and k2: "keys2 = fold (\<lambda>(i, k) ks. ks(pair i \<mapsto> k)) (zip fb ks) keys"
    by (auto simp: bucket_keys_def split: option.splits prod.splits sum.splits if_splits)
  have len: "length ks = length fb" using assms(3) ks by blast
  then have "distinct (map fst (zip fb ks))" using assms(2) by simp
  moreover have "map_of (map (apfst pair) (zip fb ks)) (pair i) \<noteq> None" if i: "i \<in> set fb"
  proof -
    obtain k where "(i, k) \<in> set (zip fb ks)" using len i by (metis in_set_impl_in_set_zip1)
    then have "(pair i, k) \<in> set (map (apfst pair) (zip fb ks))" by force
    then show ?thesis by (metis option.distinct(1) weak_map_of_SomeI)
  qed
  ultimately show ?thesis using assms(4) by (auto simp: k2 fold_keys split: option.splits)
qed (use assms in \<open>simp add: bucket_keys_def\<close>)

definition loaded_for :: "('p, 'w) mail_sdk \<Rightarrow> sdk_mail \<Rightarrow> id_tuple \<Rightarrow> sdk_file \<times> string \<Rightarrow> bool" where
  "loaded_for sdk m i out \<longleftrightarrow> (\<exists>p key w w1. served_by sdk (pair i) p \<and> (own_key sdk p key \<or> bucket_key sdk m i p key)
    \<and> decrypt_file sdk p key w = (Inr out, w1))"

lemma keyed_attachments:
  assumes "own_keys sdk files ids Map.empty [] w = (Inr (keys, fb), w1)" "bucket_keys sdk m files keys fb w1 = (Inr keys2, w2)" "distinct ids"
  shows "keys2 (pair i) = Some key \<Longrightarrow> own_key sdk (the (files (pair i))) key \<or> bucket_key sdk m i (the (files (pair i))) key"
    "\<forall>b g ids w ks w1. sk_resolve_bucket sdk b g ids w = (Inr ks, w1) \<longrightarrow> length ks = length ids \<Longrightarrow> i \<in> set ids \<Longrightarrow> keys2 (pair i) \<noteq> None"
proof -
  have fb: "fb = filter (\<lambda>i. \<not> sk_has_own_key sdk (the (files (pair i)))) ids"
    and own: "\<And>j key. keys (pair j) = Some key \<Longrightarrow> own_key sdk (the (files (pair j))) key"
    and dk: "dom keys = pair ` {i \<in> set ids. sk_has_own_key sdk (the (files (pair i)))}"
    using own_keys_ok [OF assms(1)] by auto
  have dfb: "distinct fb" using assms(3) by (simp add: fb)
  show "own_key sdk (the (files (pair i))) key \<or> bucket_key sdk m i (the (files (pair i))) key" if "keys2 (pair i) = Some key"
    using bucket_keys_ok [OF assms(2) dfb _ that] own by (auto simp: fb)
  have "i \<in> set fb \<or> keys (pair i) \<noteq> None" if "i \<in> set ids"
  proof (cases "sk_has_own_key sdk (the (files (pair i)))")
    case True
    then have "pair i \<in> dom keys" using that by (simp add: dk)
    then show ?thesis by blast
  qed (use that in \<open>simp add: fb\<close>)
  then show "\<forall>b g ids w ks w1. sk_resolve_bucket sdk b g ids w = (Inr ks, w1) \<longrightarrow> length ks = length ids \<Longrightarrow> i \<in> set ids \<Longrightarrow> keys2 (pair i) \<noteq> None"
    using bucket_keys_dom [OF assms(2) dfb] by blast
qed

lemma stages:
  assumes "ext_load_attachments sdk m w = (r, w2)" "attachments m \<noteq> []"
  obtains e where "r = Some (Inl e)"
  | gs files w1 keys fb wk keys2 wb where "request_lists (attachments m) [] = Inr gs" "load_files sdk gs Map.empty w = (Inr files, w1)"
      "\<forall>i\<in>set (attachments m). files (pair i) \<noteq> None" "own_keys sdk files (attachments m) Map.empty [] w1 = (Inr (keys, fb), wk)"
      "bucket_keys sdk m files keys fb wk = (Inr keys2, wb)" "decrypt_files sdk (attachments m) files keys2 wb = (r, w2)"
  using assms by (auto simp: ext_load_attachments_def split: sum.splits prod.splits if_splits)

lemma files_served:
  assumes "load_files sdk gs Map.empty w = (Inr files, w1)" "files (pair i) = Some p"
  shows "served_by sdk (pair i) p"
  using load_files_from [OF assms] by simp

section \<open>What an honest server delivers\<close>

definition unpair :: "string \<times> string \<Rightarrow> id_tuple" where
  "unpair k = \<lparr>list_id = fst k, element_id = snd k\<rparr>"

lemma unpair_pair [simp]: "unpair (pair i) = i" "pair (unpair k) = k" "list_id (unpair k) = fst k" "element_id (unpair k) = snd k"
  by (simp_all add: unpair_def pair_def)

definition blob_server :: "('p, 'w) mail_sdk \<Rightarrow> id_tuple \<Rightarrow> string \<Rightarrow> (string \<Rightarrow> string \<Rightarrow> string) \<Rightarrow> bool" where
  "blob_server sdk inst key plain \<longleftrightarrow> (\<forall>gs. mset (sk_hash_order sdk gs) = mset gs)
    \<and> (\<forall>a ids w. \<exists>r. fst (sk_download_blobs sdk a inst ids w) = Inr r \<and> fst ` set r = set ids
        \<and> (\<forall>x\<in>set r. sk_decrypt_data sdk key (snd x) = Some (plain a (fst x))))"

lemma store_chunks_all:
  assumes "\<forall>x\<in>set r. sk_decrypt_data sdk key (snd x) = Some (plain a (fst x))"
  shows "store_chunks sdk key a r got = Inr (\<lambda>k. if fst k = a \<and> snd k \<in> fst ` set r then Some (plain a (snd k)) else got k)"
  using assms by (induction sdk key a r got rule: store_chunks.induct) (auto intro!: ext)

lemma download_archives_all:
  assumes "blob_server sdk inst key plain"
  shows "\<exists>w2. download_archives sdk inst key gs got w = (Inr (\<lambda>k. if k \<in> set (group_ids gs) then Some (plain (fst k) (snd k)) else got k), w2)"
proof (induction gs arbitrary: got w)
  case (Cons g gs)
  obtain a ids where g: "g = (a, ids)" by fastforce
  obtain r w1 where r: "sk_download_blobs sdk a inst ids w = (Inr r, w1)" "fst ` set r = set ids"
    "\<forall>x\<in>set r. sk_decrypt_data sdk key (snd x) = Some (plain a (fst x))"
    using assms unfolding blob_server_def by (metis prod.collapse)
  from Cons.IH [of "\<lambda>k. if fst k = a \<and> snd k \<in> set ids then Some (plain a (snd k)) else got k" w1] obtain w2
    where "download_archives sdk inst key gs (\<lambda>k. if fst k = a \<and> snd k \<in> set ids then Some (plain a (snd k)) else got k) w1
      = (Inr (\<lambda>k. if k \<in> set (group_ids gs) then Some (plain (fst k) (snd k)) else if fst k = a \<and> snd k \<in> set ids then Some (plain a (snd k)) else got k), w2)" by blast
  then have "download_archives sdk inst key (g # gs) got w
      = (Inr (\<lambda>k. if k \<in> set (group_ids gs) then Some (plain (fst k) (snd k)) else if fst k = a \<and> snd k \<in> set ids then Some (plain a (snd k)) else got k), w2)"
    by (simp add: g r(1) r(2) store_chunks_all [where plain = plain, OF r(3)])
  moreover have "k \<in> set (group_ids (g # gs)) \<longleftrightarrow> k \<in> set (group_ids gs) \<or> fst k = a \<and> snd k \<in> set ids" for k
    by (cases k) (auto simp: g group_ids_def)
  ultimately show ?case by (auto intro!: exI [of _ w2] ext)
qed (simp add: group_ids_def)

lemma assemble_all: "\<forall>b\<in>set bs. got (bl_archive_id b, bl_blob_id b) = Some (plain (bl_archive_id b) (bl_blob_id b))
    \<Longrightarrow> assemble got bs = Some (concat (map (\<lambda>b. plain (bl_archive_id b) (bl_blob_id b)) bs))"
  by (induction bs) simp_all

lemma group_blobs_ids: "set (group_ids (group_blobs bs)) = (\<lambda>b. (bl_archive_id b, bl_blob_id b)) ` set bs"
proof -
  have "set (group_ids (fold (\<lambda>b. push_group (bl_archive_id b) (bl_blob_id b)) bs gs)) = (\<lambda>b. (bl_archive_id b, bl_blob_id b)) ` set bs \<union> set (group_ids gs)" for gs
    by (induction bs arbitrary: gs) (simp_all add: group_ids_push_set)
  then show ?thesis by (simp add: group_blobs_def group_ids_def)
qed

lemma blobs_in_order:
  assumes "blob_server sdk inst key plain" "tf_id f = Some inst"
  shows "fst (load_file_attachment_data sdk f key w) = Inr (concat (map (\<lambda>b. plain (bl_archive_id b) (bl_blob_id b)) (tf_blobs f)))"
proof -
  let ?gs = "sk_hash_order sdk (group_blobs (tf_blobs f))"
  have "mset ?gs = mset (group_blobs (tf_blobs f))" using assms(1) by (simp add: blob_server_def)
  then have ids: "set (group_ids ?gs) = (\<lambda>b. (bl_archive_id b, bl_blob_id b)) ` set (tf_blobs f)"
    using group_ids_perm group_blobs_ids by (metis set_mset_mset)
  obtain w2 where "download_archives sdk inst key ?gs Map.empty w = (Inr (\<lambda>k. if k \<in> set (group_ids ?gs) then Some (plain (fst k) (snd k)) else None), w2)"
    using download_archives_all [OF assms(1)] by blast
  then show ?thesis using assms(2) by (simp add: load_file_attachment_data_def assemble_all [where plain = plain] ids)
qed

definition serves_files :: "('p, 'w) mail_sdk \<Rightarrow> (id_tuple \<Rightarrow> 'p) \<Rightarrow> bool" where
  "serves_files sdk file \<longleftrightarrow> (\<forall>i. sk_list_element_id sdk (file i) = Some i)
    \<and> (\<forall>l es w. \<exists>ps. fst (sk_load_multiple sdk l es w) = Inr ps \<and> mset ps = mset (map (\<lambda>e. file (unpair (l, e))) es))"

lemma accept_files_all:
  assumes "\<forall>i. sk_list_element_id sdk (file i) = Some i" "set es0 \<subseteq> set es" "distinct es0" "\<forall>e\<in>set es0. files (l, e) = None"
  shows "accept_files sdk l es (map (\<lambda>e. file (unpair (l, e))) es0) files
    = Inr (\<lambda>k. if fst k = l \<and> snd k \<in> set es0 then Some (file (unpair k)) else files k)"
  using assms
proof (induction es0 arbitrary: files)
  case (Cons e es0)
  have "accept_files sdk l es (map (\<lambda>e. file (unpair (l, e))) es0) (files((l, e) \<mapsto> file (unpair (l, e))))
      = Inr (\<lambda>k. if fst k = l \<and> snd k \<in> set es0 then Some (file (unpair k)) else (files((l, e) \<mapsto> file (unpair (l, e)))) k)"
    using Cons.prems by (intro Cons.IH) auto
  with Cons.prems show ?case by (auto intro!: ext)
qed simp

lemma served_in_some_order:
  assumes "\<forall>i. sk_list_element_id sdk (file i) = Some i" "mset ps = mset (map (\<lambda>e. file (unpair (l, e))) es)"
  obtains es0 where "ps = map (\<lambda>e. file (unpair (l, e))) es0" "mset es0 = mset es"
proof
  let ?g = "\<lambda>p. element_id (the (sk_list_element_id sdk p))"
  have "set ps = (\<lambda>e. file (unpair (l, e))) ` set es" using assms(2) by (metis list.set_map set_mset_mset)
  then show "ps = map (\<lambda>e. file (unpair (l, e))) (map ?g ps)" using assms(1) by (auto intro!: map_idI [symmetric])
  have "mset (map ?g ps) = image_mset ?g (mset (map (\<lambda>e. file (unpair (l, e))) es))" using arg_cong [OF assms(2), of "image_mset ?g"] by (simp only: mset_map)
  then show "mset (map ?g ps) = mset es" using assms(1) by (simp add: image_mset.compositionality comp_def)
qed

lemma load_files_all:
  assumes "serves_files sdk file" "distinct (group_ids gs)" "\<forall>k\<in>set (group_ids gs). files k = None"
  shows "\<exists>w2. load_files sdk gs files w = (Inr (\<lambda>k. if k \<in> set (group_ids gs) then Some (file (unpair k)) else files k), w2)"
  using assms(2,3)
proof (induction gs arbitrary: files w)
  case (Cons g gs)
  obtain l es where g: "g = (l, es)" by fastforce
  have ids: "set (group_ids (g # gs)) = Pair l ` set es \<union> set (group_ids gs)" and dist: "distinct es" "distinct (group_ids gs)" "Pair l ` set es \<inter> set (group_ids gs) = {}"
    using Cons.prems(1) by (auto simp: g group_ids_def distinct_map)
  obtain ps w1 where ps: "sk_load_multiple sdk l es w = (Inr ps, w1)" "mset ps = mset (map (\<lambda>e. file (unpair (l, e))) es)"
    using assms(1) unfolding serves_files_def by (metis prod.collapse)
  have li: "\<forall>i. sk_list_element_id sdk (file i) = Some i" using assms(1) by (simp add: serves_files_def)
  obtain es0 where es0: "ps = map (\<lambda>e. file (unpair (l, e))) es0" "mset es0 = mset es" by (rule served_in_some_order [OF li ps(2)])
  have es0s: "set es0 = set es" "distinct es0" using es0(2) dist(1) by (metis set_mset_mset, metis mset_eq_imp_distinct_iff)
  let ?f1 = "\<lambda>k. if fst k = l \<and> snd k \<in> set es then Some (file (unpair k)) else files k"
  have acc: "accept_files sdk l es ps files = Inr ?f1"
    using accept_files_all [OF li, of es0 es files l] es0s Cons.prems(2) ids by (simp add: es0(1))
  have "\<forall>k\<in>set (group_ids gs). ?f1 k = None" using Cons.prems(2) ids dist(3) by (auto split: if_splits)
  from Cons.IH [OF dist(2) this, of w1] obtain w2 where "load_files sdk gs ?f1 w1 = (Inr (\<lambda>k. if k \<in> set (group_ids gs) then Some (file (unpair k)) else ?f1 k), w2)" by blast
  then have "load_files sdk (g # gs) files w = (Inr (\<lambda>k. if k \<in> set (group_ids gs) then Some (file (unpair k)) else ?f1 k), w2)"
    by (simp add: g ps(1) acc)
  moreover have "k \<in> set (group_ids (g # gs)) \<longleftrightarrow> k \<in> set (group_ids gs) \<or> fst k = l \<and> snd k \<in> set es" for k
    by (cases k) (auto simp: ids)
  ultimately show ?case by (auto intro!: exI [of _ w2] ext)
qed (simp add: group_ids_def)

definition serves_keys :: "('p, 'w) mail_sdk \<Rightarrow> sdk_mail \<Rightarrow> (id_tuple \<Rightarrow> 'p) \<Rightarrow> (id_tuple \<Rightarrow> resolved_session_key) \<Rightarrow> bool" where
  "serves_keys sdk m file key \<longleftrightarrow> (\<forall>i w. sk_has_own_key sdk (file i) \<longrightarrow> fst (sk_resolve_session_key sdk (file i) w) = Inr (Some (key i)))
    \<and> (\<forall>i. \<not> sk_has_own_key sdk (file i) \<longrightarrow> ma_bucket_key m \<noteq> None \<and> ma_owner_group m \<noteq> None \<and> sk_owner_group sdk (file i) = ma_owner_group m)
    \<and> (\<forall>b g ids w. fst (sk_resolve_bucket sdk b g ids w) = Inr (map key ids))"

lemma own_keys_all:
  assumes "serves_keys sdk m file key" "\<forall>i\<in>set ids. files (pair i) = Some (file i)"
  shows "\<exists>w2. own_keys sdk files ids keys fb w = (Inr ((\<lambda>k. if unpair k \<in> set ids \<and> sk_has_own_key sdk (file (unpair k)) then Some (key (unpair k)) else keys k),
     fb @ filter (\<lambda>i. \<not> sk_has_own_key sdk (file i)) ids), w2)"
  using assms(2)
proof (induction ids arbitrary: keys fb w)
  case (Cons i ids)
  have i: "files (pair i) = Some (file i)" using Cons.prems by simp
  show ?case
  proof (cases "sk_has_own_key sdk (file i)")
    case True
    then obtain w1 where k: "sk_resolve_session_key sdk (file i) w = (Inr (Some (key i)), w1)"
      using assms(1) unfolding serves_keys_def by (metis prod.collapse)
    have eq: "(\<lambda>k. if unpair k \<in> set ids \<and> sk_has_own_key sdk (file (unpair k)) then Some (key (unpair k)) else (keys(pair i \<mapsto> key i)) k)
        = (\<lambda>k. if unpair k \<in> set (i # ids) \<and> sk_has_own_key sdk (file (unpair k)) then Some (key (unpair k)) else keys k)"
      using True by (auto intro!: ext)
    have "\<exists>w2. own_keys sdk files ids (keys(pair i \<mapsto> key i)) fb w1 = (Inr ((\<lambda>k. if unpair k \<in> set (i # ids) \<and> sk_has_own_key sdk (file (unpair k))
        then Some (key (unpair k)) else keys k), fb @ filter (\<lambda>i. \<not> sk_has_own_key sdk (file i)) ids), w2)"
      unfolding eq [symmetric] by (rule Cons.IH) (use Cons.prems in simp)
    with True k show ?thesis by (simp add: i)
  next
    case False
    have eq: "(\<lambda>k. if unpair k \<in> set (i # ids) \<and> sk_has_own_key sdk (file (unpair k)) then Some (key (unpair k)) else keys k)
        = (\<lambda>k. if unpair k \<in> set ids \<and> sk_has_own_key sdk (file (unpair k)) then Some (key (unpair k)) else keys k)"
      using False by (auto intro!: ext)
    show ?thesis using Cons.IH [of keys "fb @ [i]" w] Cons.prems False unfolding eq by (simp add: i)
  qed
qed simp

lemma bucket_keys_all:
  assumes "serves_keys sdk m file key" "\<forall>i\<in>set fb. files (pair i) = Some (file i) \<and> \<not> sk_has_own_key sdk (file i)" "distinct fb"
  shows "\<exists>keys2 w2. bucket_keys sdk m files keys fb w = (Inr keys2, w2) \<and> (\<forall>i. keys2 (pair i) = (if i \<in> set fb then Some (key i) else keys (pair i)))"
proof (cases "fb = []")
  case False
  then have "\<not> sk_has_own_key sdk (file (hd fb))" using assms(2) by simp
  then obtain b g where bg: "ma_bucket_key m = Some b" "ma_owner_group m = Some g" using assms(1) unfolding serves_keys_def by blast
  obtain w2 where r: "sk_resolve_bucket sdk b g fb w = (Inr (map key fb), w2)" using assms(1) unfolding serves_keys_def by (metis prod.collapse)
  have own: "\<forall>i\<in>set fb. sk_owner_group sdk (the (files (pair i))) = Some g" using assms(1,2) bg by (simp add: serves_keys_def)
  have "bucket_keys sdk m files keys fb w = (Inr (fold (\<lambda>(i, k) ks. ks(pair i \<mapsto> k)) (zip fb (map key fb)) keys), w2)"
    using False bg own r by (simp add: bucket_keys_def)
  moreover have "map_of (map (apfst pair) (zip fb (map key fb))) (pair i) = (if i \<in> set fb then Some (key i) else None)" for i
    by (induction fb) auto
  ultimately show ?thesis using assms(3) by (simp add: fold_keys)
qed (simp add: bucket_keys_def)

lemma decrypt_files_all:
  assumes "\<forall>i w. fst (decrypt_file sdk (file i) (key i) w) = Inr (out i)" "distinct ids"
    "\<forall>i\<in>set ids. files (pair i) = Some (file i) \<and> keys (pair i) = Some (key i)"
  shows "fst (decrypt_files sdk ids files keys w) = Some (Inr (map out ids))"
  using assms(2,3)
proof (induction ids arbitrary: files keys w)
  case (Cons i ids)
  then have "fst (decrypt_files sdk ids (files(pair i := None)) (keys(pair i := None)) w1) = Some (Inr (map out ids))" for w1 by (intro Cons.IH) auto
  with Cons.prems assms(1) show ?case by (simp add: case_prod_beta)
qed simp

lemma request_lists_all:
  assumes "distinct (map fst gs)" "distinct ids" "\<forall>i\<in>set ids. pair i \<notin> set (group_ids gs)"
  shows "\<exists>gs2. request_lists ids gs = Inr gs2"
  using assms
proof (induction ids gs rule: request_lists.induct)
  case (2 i ids gs)
  let ?g = "push_group (list_id i) (element_id i) gs"
  have new: "element_id i \<notin> set es" if "map_of gs (list_id i) = Some es" for es
    using "2.prems"(1,3) that in_group_ids [OF "2.prems"(1), of "list_id i" "element_id i"] by (auto simp: pair_def)
  have p: "distinct (map fst ?g)" "distinct ids" "\<forall>j\<in>set ids. pair j \<notin> set (group_ids ?g)"
    using push_group_keys [OF "2.prems"(1)] "2.prems"(2,3) by (auto simp: group_ids_push_set simp flip: pair_def)
  show ?case
  proof (cases "map_of gs (list_id i)")
    case None
    then show ?thesis using "2.IH"(1) p by simp
  next
    case (Some es)
    then show ?thesis using "2.IH"(2) p new [OF Some] by simp
  qed
qed simp

definition stamped :: "resolved_session_key \<Rightarrow> sdk_file \<Rightarrow> sdk_file" where
  "stamped key f = f\<lparr>tf_owner_key_version := Some (int (rk_owner_key_version key)), tf_owner_enc_session_key := Some (rk_owner_enc_session_key key)\<rparr>"

definition serves_contents :: "('p, 'w) mail_sdk \<Rightarrow> (id_tuple \<Rightarrow> 'p) \<Rightarrow> (id_tuple \<Rightarrow> resolved_session_key) \<Rightarrow> (id_tuple \<Rightarrow> sdk_file)
    \<Rightarrow> (id_tuple \<Rightarrow> string \<Rightarrow> string \<Rightarrow> string) \<Rightarrow> bool" where
  "serves_contents sdk file key meta plain \<longleftrightarrow>
     (\<forall>i w. \<exists>d. fst (sk_decrypt_parsed sdk (file i) (Some (key i)) w) = Inr d \<and> sk_parse_file sdk d = Some (meta i))
   \<and> (\<forall>i. tf_errors (meta i) = [] \<and> tf_id (meta i) = Some i \<and> rk_owner_key_version (key i) < 2 ^ 63 \<and> blob_server sdk i (rk_session_key (key i)) (plain i))"

lemma decrypt_file_all:
  assumes "serves_contents sdk file key meta plain"
  shows "fst (decrypt_file sdk (file i) (key i) w)
    = Inr (stamped (key i) (meta i), concat (map (\<lambda>b. plain i (bl_archive_id b) (bl_blob_id b)) (tf_blobs (meta i))))"
proof -
  obtain d w1 where d: "sk_decrypt_parsed sdk (file i) (Some (key i)) w = (Inr d, w1)" "sk_parse_file sdk d = Some (meta i)"
    using assms unfolding serves_contents_def by (metis prod.collapse)
  have m: "tf_errors (meta i) = []" "tf_id (stamped (key i) (meta i)) = Some i" "tf_blobs (stamped (key i) (meta i)) = tf_blobs (meta i)"
    "\<not> 2 ^ 63 \<le> rk_owner_key_version (key i)" and bs: "blob_server sdk i (rk_session_key (key i)) (plain i)"
    using assms by (simp_all add: serves_contents_def stamped_def not_le)
  have "fst (load_file_attachment_data sdk (stamped (key i) (meta i)) (rk_session_key (key i)) w1)
      = Inr (concat (map (\<lambda>b. plain i (bl_archive_id b) (bl_blob_id b)) (tf_blobs (meta i))))"
    using blobs_in_order [OF bs m(2)] m(3) by simp
  then show ?thesis using m(1,4) by (simp add: decrypt_file_def d Let_def case_prod_beta flip: stamped_def)
qed

text \<open>
  A concrete SDK for examples: files are their ids, only the file \<open>a\<close> has a key of its own, responses come in
  reverse order.
\<close>

definition sample_key :: "id_tuple \<Rightarrow> resolved_session_key" where
  "sample_key i = \<lparr>rk_session_key = ''k'', rk_owner_enc_session_key = element_id i, rk_owner_key_version = 1\<rparr>"

definition sample_file :: "id_tuple \<Rightarrow> sdk_file" where
  "sample_file i = \<lparr>file_name = element_id i, file_mime = None, file_cid = None, tf_id = Some i,
     tf_blobs = [\<lparr>bl_archive_id = ''x'', bl_blob_id = ''1''\<rparr>, \<lparr>bl_archive_id = ''y'', bl_blob_id = ''2''\<rparr>, \<lparr>bl_archive_id = ''x'', bl_blob_id = ''3''\<rparr>],
     tf_errors = [], tf_owner_key_version = None, tf_owner_enc_session_key = None\<rparr>"

definition sample_sdk :: "(id_tuple, id_tuple list list) mail_sdk" where
  "sample_sdk = \<lparr>sk_post_move = (\<lambda>t ms w. (Inr (), w @ [ms])), sk_delete = (\<lambda>f ms w. (Inr (), w @ [ms])), sk_resolve_type = (\<lambda>_. Inr True),
     sk_load_multiple = (\<lambda>l es w. (Inr (map (\<lambda>e. unpair (l, e)) (rev es)), w)), sk_load_blob_element = (\<lambda>i w. (Inr [], w)),
     sk_load_draft = (\<lambda>i w. (Inr i, w)), sk_raw_entities = (\<lambda>b. Some [b]), sk_raw_entity = Some, sk_parse_raw = (\<lambda>t r. Inr (unpair (r, r))),
     sk_list_element_id = Some, sk_has_own_key = (\<lambda>i. element_id i = ''a''), sk_has_kdf_nonce = (\<lambda>_. False), sk_owner_group = (\<lambda>_. Some ''g''),
     sk_needs_session_key = (\<lambda>_. Inr True), sk_load_group_key = (\<lambda>g v w. (Some g, w)), sk_decrypt_key = (\<lambda>g e. Some e),
     sk_resolve_session_key = (\<lambda>p w. (Inr (Some (sample_key p)), w)), sk_resolve_bucket = (\<lambda>b g ids w. (Inr (map sample_key ids), w)),
     sk_decrypt_parsed = (\<lambda>p k w. (Inr p, w)), sk_decrypt_and_map = (\<lambda>p k. Inr p), sk_parse_details = (\<lambda>_. None), sk_parse_file = (\<lambda>p. Some (sample_file p)),
     sk_download_blobs = (\<lambda>a i ids w. (Inr (map (\<lambda>b. (b, a @ b)) (rev ids)), w)), sk_decrypt_data = (\<lambda>k b. Some b), sk_hash_order = rev\<rparr>"

definition sample_sdk_mail :: "string list \<Rightarrow> sdk_mail" where
  "sample_sdk_mail es = mail.extend (sample_mail ''m''\<lparr>attachments := map (\<lambda>e. unpair (''l'', e)) es\<rparr>)
     (sdk_mail.fields (Some ''g'') (Some ''e'') None (Some ''b'') None None)"

lemma sample_sdk_simps [simp]: "attachments (sample_sdk_mail es) = map (\<lambda>e. unpair (''l'', e)) es"
  by (simp add: sample_sdk_mail_def mail.defs sdk_mail.defs)

lemma sample_sdk_serves:
  "serves_files sample_sdk (\<lambda>i. i)" "serves_keys sample_sdk (sample_sdk_mail es) (\<lambda>i. i) sample_key"
  "serves_contents sample_sdk (\<lambda>i. i) sample_key sample_file (\<lambda>i a b. a @ b)"
  by (auto simp: serves_files_def serves_keys_def serves_contents_def blob_server_def sample_sdk_def sample_sdk_mail_def mail.defs sdk_mail.defs
      sample_file_def sample_key_def rev_map image_image)

section \<open>The properties\<close>

text \<open>
  C37: Deletions are batched. A deletion sends requests in order up to the first failure; each names at most 50 mails, all of one
  list; together they name every mail exactly once however often it was given; and the mails of a list keep their order.
\<close>

theorem deletions_batched:
  "\<exists>reqs. session_delete_mails sdk mails f w = send_chunks (sk_delete sdk (folder_tuple f)) reqs w
    \<and> (\<forall>r\<in>set reqs. 0 < length r \<and> length r \<le> 50 \<and> (\<exists>l. \<forall>m\<in>set r. list_id m = l))
    \<and> mset (concat reqs) = mset_set (set mails)
    \<and> (\<forall>l. filter (\<lambda>m. list_id m = l) (concat reqs) = filter (\<lambda>m. list_id m = l) (uniq mails))"
proof (intro exI conjI allI)
  let ?reqs = "concat (map (chunks_of MAIL_BATCH_LIMIT) (group_mails mails))"
  have n: "0 < MAIL_BATCH_LIMIT" by (simp add: MAIL_BATCH_LIMIT_def)
  show "session_delete_mails sdk mails f w = send_chunks (sk_delete sdk (folder_tuple f)) ?reqs w"
    by (simp add: session_delete_mails_def ext_delete_mails_def)
  show "\<forall>r\<in>set ?reqs. 0 < length r \<and> length r \<le> 50 \<and> (\<exists>l. \<forall>m\<in>set r. list_id m = l)"
  proof (rule ballI, intro conjI)
    fix r assume "r \<in> set ?reqs"
    then obtain g where g: "g \<in> set (group_mails mails)" "r \<in> set (chunks_of MAIL_BATCH_LIMIT g)" by auto
    from chunks_of_batches(2) [OF n g(2)] show "0 < length r" "length r \<le> 50" by (auto simp: MAIL_BATCH_LIMIT_def)
    from g(1) obtain l where "g = filter (\<lambda>m. list_id m = l) (uniq mails)" by (auto simp: group_mails_reference)
    with chunks_of_batches(2) [OF n g(2)] show "\<exists>l. \<forall>m\<in>set r. list_id m = l" by (intro exI [of _ l]) auto
  qed
next
  have cc: "concat (concat (map (chunks_of MAIL_BATCH_LIMIT) gs)) = concat gs" for gs :: "id_tuple list list"
    by (induction gs) (simp_all add: chunks_of_batches MAIL_BATCH_LIMIT_def)
  then show "mset (concat (concat (map (chunks_of MAIL_BATCH_LIMIT) (group_mails mails)))) = mset_set (set mails)"
    by (metis group_mails_partition mset_set_set uniq_simps(3) uniq_simps(4))
  fix l
  have "filter (\<lambda>m. list_id m = l) (concat (map (\<lambda>l. filter (\<lambda>m. list_id m = l) xs) ls)) = (if l \<in> set ls then filter (\<lambda>m. list_id m = l) xs else [])"
    if "distinct ls" for xs :: "id_tuple list" and ls using that by (induction ls) (auto simp: filter_empty_conv intro: filter_cong)
  from this [of "uniq (map list_id mails)" "uniq mails"] have "filter (\<lambda>m. list_id m = l) (concat (group_mails mails))
      = (if l \<in> list_id ` set mails then filter (\<lambda>m. list_id m = l) (uniq mails) else [])" by (simp add: group_mails_reference)
  moreover have "filter (\<lambda>m. list_id m = l) (uniq mails) = []" if "l \<notin> list_id ` set mails" using that by (auto simp: filter_empty_conv)
  ultimately show "filter (\<lambda>m. list_id m = l) (concat (concat (map (chunks_of MAIL_BATCH_LIMIT) (group_mails mails)))) = filter (\<lambda>m. list_id m = l) (uniq mails)"
    unfolding cc by (simp split: if_splits)
qed

theorem deletions_batched_witness:
  "\<exists>reqs. session_delete_mails sample_sdk [unpair (''l'', ''a''), unpair (''k'', ''b''), unpair (''l'', ''a''), unpair (''l'', ''c'')] (sample_folder ''f'') []
      = send_chunks (sk_delete sample_sdk (folder_tuple (sample_folder ''f''))) reqs []
    \<and> mset (concat reqs) = {# unpair (''l'', ''a''), unpair (''k'', ''b''), unpair (''l'', ''c'') #}"
proof -
  have "mset_set {unpair (''l'', ''a''), unpair (''k'', ''b''), unpair (''l'', ''c'')} = {# unpair (''l'', ''a''), unpair (''k'', ''b''), unpair (''l'', ''c'') #}"
    by (simp add: unpair_def)
  with deletions_batched [of sample_sdk "[unpair (''l'', ''a''), unpair (''k'', ''b''), unpair (''l'', ''a''), unpair (''l'', ''c'')]" "sample_folder ''f''" "[]"]
  show ?thesis by (auto simp: insert_commute)
qed

text \<open>
  C14: A mail's attachments come all or not at all, and are the mail's own. Whatever the server answers, a load that
  succeeds returns one file per attachment in the order of the mail, none named twice, each decrypted from an entity the server
  returned under exactly that attachment's id and list, with that entity's own key, or, when it has none, with the key the
  mail's bucket gives for that id and within the mail's group. As long as the SDK resolves one key per id it is asked for, the
  load does not panic.
\<close>

theorem attachments_all_or_nothing:
  assumes "\<forall>b g ids w ks w1. sk_resolve_bucket sdk b g ids w = (Inr ks, w1) \<longrightarrow> length ks = length ids"
  shows "case fst (ext_load_attachments sdk m w) of None \<Rightarrow> False | Some (Inl _) \<Rightarrow> True
    | Some (Inr out) \<Rightarrow> distinct (attachments m) \<and> list_all2 (loaded_for sdk m) (attachments m) out"
proof (cases "attachments m = []")
  case False
  obtain r w2 where r: "ext_load_attachments sdk m w = (r, w2)" by fastforce
  from stages [OF this False] show ?thesis
  proof cases
    case (2 gs files w1 keys fb wk keys2 wb)
    have d: "distinct (attachments m)" by (rule request_lists_distinct(3) [OF 2(1)])
    have "\<forall>i\<in>set (attachments m). files (pair i) \<noteq> None \<and> keys2 (pair i) \<noteq> None"
      using 2(3) keyed_attachments(2) [OF 2(4,5) d assms] by blast
    from decrypt_files_no_panic [OF d this, of sdk wb] have "r \<noteq> None" by (simp add: 2(6))
    moreover have "list_all2 (loaded_for sdk m) (attachments m) out" if "r = Some (Inr out)" for out
    proof (rule list_all2_mono [OF decrypt_files_from])
      show "decrypt_files sdk (attachments m) files keys2 wb = (Some (Inr out), w2)" using 2(6) that by simp
      fix i o1 assume "\<exists>p key w w1. files (pair i) = Some p \<and> keys2 (pair i) = Some key \<and> decrypt_file sdk p key w = (Inr o1, w1)"
      then show "loaded_for sdk m i o1"
        using files_served [OF 2(2)] keyed_attachments(1) [OF 2(4,5) d] unfolding loaded_for_def by (metis option.sel)
    qed
    ultimately show ?thesis using d by (auto simp: r split: option.split sum.split)
  qed (simp add: r)
qed (simp add: ext_load_attachments_def)

theorem attachments_all_or_nothing_witness:
  "case fst (ext_load_attachments sample_sdk (sample_sdk_mail [''a'', ''b'']) []) of None \<Rightarrow> False | Some (Inl _) \<Rightarrow> True
    | Some (Inr out) \<Rightarrow> distinct (attachments (sample_sdk_mail [''a'', ''b'']))
        \<and> list_all2 (loaded_for sample_sdk (sample_sdk_mail [''a'', ''b''])) (attachments (sample_sdk_mail [''a'', ''b''])) out"
  by (rule attachments_all_or_nothing) (simp add: sample_sdk_def)

text \<open>
  C36: Attachments are served. When the server answers each request with the files asked for in any order, every file has a key of
  its own or one in the bucket of the mail's group, and every blob downloads and decrypts, the load returns for every attachment
  of the mail, in order, its metadata stamped with its key's envelope and its contents: the blobs of all archives put together in
  the order of the file, whatever order archives and blobs were fetched in.
\<close>

theorem attachments_served:
  assumes "distinct (attachments m)" "sk_resolve_type sdk ''File'' = Inr enc" "serves_files sdk file" "serves_keys sdk m file key"
    "serves_contents sdk file key meta plain"
  shows "fst (ext_load_attachments sdk m w) = Some (Inr (map (\<lambda>i. (stamped (key i) (meta i),
      concat (map (\<lambda>b. plain i (bl_archive_id b) (bl_blob_id b)) (tf_blobs (meta i))))) (attachments m)))"
proof (cases "attachments m = []")
  case False
  let ?ids = "attachments m"
  obtain gs where gs: "request_lists ?ids [] = Inr gs" using request_lists_all [of "[]" ?ids] assms(1) by (auto simp: group_ids_def)
  have ids: "set (group_ids gs) = pair ` set ?ids" and dg: "distinct (group_ids gs)"
    using request_lists_distinct(2) [OF gs] request_lists_ok [OF gs] by (metis list.set_map set_mset_mset, simp add: group_ids_def)
  define files where "files = (\<lambda>k. if k \<in> set (group_ids gs) then Some (file (unpair k)) else None)"
  obtain w1 where lf: "load_files sdk gs Map.empty w = (Inr files, w1)"
    using load_files_all [OF assms(3) dg, of Map.empty w] unfolding files_def by auto
  have fi: "\<forall>i\<in>set ?ids. files (pair i) = Some (file i)" by (simp add: files_def ids)
  let ?fb = "filter (\<lambda>i. \<not> sk_has_own_key sdk (file i)) ?ids"
  define keys where "keys = (\<lambda>k. if unpair k \<in> set ?ids \<and> sk_has_own_key sdk (file (unpair k)) then Some (key (unpair k)) else None)"
  obtain wk where ok: "own_keys sdk files ?ids Map.empty [] w1 = (Inr (keys, ?fb), wk)"
    using own_keys_all [OF assms(4) fi, of Map.empty "[]" w1] unfolding keys_def by auto
  have "\<forall>i\<in>set ?fb. files (pair i) = Some (file i) \<and> \<not> sk_has_own_key sdk (file i)" "distinct ?fb" using fi assms(1) by auto
  from bucket_keys_all [OF assms(4) this, of keys wk] obtain keys2 wb where bk: "bucket_keys sdk m files keys ?fb wk = (Inr keys2, wb)"
    and k2: "\<forall>i. keys2 (pair i) = (if i \<in> set ?fb then Some (key i) else keys (pair i))" by blast
  have "\<forall>i\<in>set ?ids. files (pair i) = Some (file i) \<and> keys2 (pair i) = Some (key i)" using fi k2 by (auto simp: keys_def)
  from decrypt_files_all [OF _ assms(1) this, of sdk "\<lambda>i. (stamped (key i) (meta i), concat (map (\<lambda>b. plain i (bl_archive_id b) (bl_blob_id b)) (tf_blobs (meta i))))" wb]
  show ?thesis using False fi by (simp add: ext_load_attachments_def assms(2) gs lf ok bk decrypt_file_all [OF assms(5)])
qed (simp add: ext_load_attachments_def)

theorem attachments_served_witness:
  "map_option (map_sum id (map snd)) (fst (ext_load_attachments sample_sdk (sample_sdk_mail [''a'', ''b'']) [])) = Some (Inr [''x1y2x3'', ''x1y2x3''])"
  using attachments_served [of "sample_sdk_mail [''a'', ''b'']" sample_sdk True "\<lambda>i. i" sample_key sample_file "\<lambda>i a b. a @ b" "[]"] sample_sdk_serves
  by (simp add: sample_sdk_def sample_file_def unpair_def)

end
