(* ===== verification/MultipartRoundtrip.thy ===== *)
theory MultipartRoundtrip
  imports MessageRoundtrip
begin

text \<open>
  The body of a rendered message read back by the parser: the lines of the multipart container, its
  parts, their transfer encoding, and the attachments.
\<close>

section \<open>Parts as lines\<close>

lemma from_utf8_lossy_valid: "utf8_valid s \<Longrightarrow> from_utf8_lossy s = s"
proof (induction s rule: utf8_valid.induct)
  case (2 c s)
  let ?a = "byte_of c"
  consider (one) "?a < 128" | (two) "0xC2 \<le> ?a" "?a \<le> 0xDF" | (three) "0xE0 \<le> ?a" "?a \<le> 0xEF"
    | (four) "0xF0 \<le> ?a" "?a \<le> 0xF4" using "2.prems" by (auto simp: Let_def split: if_splits)
  then show ?case
  proof cases
    case one
    then show ?thesis using 2 by (simp add: from_utf8_lossy.simps(2))
  next
    case two
    then obtain c1 s1 where s: "s = c1 # s1" "second_ok ?a (byte_of c1)" "utf8_valid s1"
      using "2.prems" by (auto simp: Let_def split: list.splits if_splits)
    then have "from_utf8_lossy s1 = s1" using "2.IH"(2) [of ?a] two by simp
    then show ?thesis using s two by (simp add: from_utf8_lossy.simps(2))
  next
    case three
    then obtain c1 c2 s2 where s: "s = c1 # c2 # s2" "second_ok ?a (byte_of c1)" "cont_byte (byte_of c2)" "utf8_valid s2"
      using "2.prems" by (auto simp: Let_def split: list.splits if_splits)
    then have "from_utf8_lossy s2 = s2" using "2.IH"(3) [of ?a] three by simp
    then show ?thesis using s three by (simp add: from_utf8_lossy.simps(2))
  next
    case four
    then obtain c1 c2 c3 s3 where s: "s = c1 # c2 # c3 # s3" "second_ok ?a (byte_of c1)" "cont_byte (byte_of c2)"
        "cont_byte (byte_of c3)" "utf8_valid s3"
      using "2.prems" by (auto simp: Let_def split: list.splits if_splits)
    then have "from_utf8_lossy s3 = s3" using "2.IH"(4) [of ?a c1 "c2 # c3 # s3" c2 "c3 # s3" c3 s3] four by simp
    then show ?thesis using s four by (simp add: from_utf8_lossy.simps(2))
  qed
qed simp

definition b64_lines :: "base64 \<Rightarrow> string \<Rightarrow> string list" where
  "b64_lines b x = (if b64_encode b x = [] then [[]] else chunks 76 (b64_encode b x))"

lemma chunks_Nil: "0 < n \<Longrightarrow> chunks n s = [] \<longleftrightarrow> s = []"
  by (subst chunks.simps) auto

lemma b64_body_lines: "base64_encode_body b x @ [CR, LF] = lines_with [CR, LF] (b64_lines b x)"
  using lines_join [of "chunks 76 (b64_encode b x)" "[CR, LF]"] chunks_Nil [of 76]
  by (auto simp: base64_encode_body_def b64_lines_def chunks.simps [of _ "[]"])

lemma b64_lines_chars: "l \<in> set (b64_lines b x) \<Longrightarrow> set l \<subseteq> set (b64_encode b x)"
  using chunks_concat [of 76 "b64_encode b x"] by (auto simp: b64_lines_def split: if_splits) (metis UN_I set_concat zero_less_numeral)

lemma b64_lines_facts:
  assumes "b64_laws b"
  shows "list_all (\<lambda>l. no_line_break l \<and> \<not> starts_with (CHR ''-'' # p) l) (b64_lines b x)"
proof -
  have "no_line_break l \<and> CHR ''-'' \<notin> set l" if "l \<in> set (b64_lines b x)" for l
    using b64_lines_chars [OF that] b64_no_break [OF assms, of x] by (auto simp: no_line_break_def)
  moreover have "\<not> starts_with (CHR ''-'' # p) l" if "CHR ''-'' \<notin> set l" for l using that by (cases l) auto
  ultimately show ?thesis by (auto simp: list_all_iff)
qed

lemma concat_b64_lines: "concat (b64_lines b x) = b64_encode b x"
  by (simp add: b64_lines_def chunks_concat)

lemma without_ws_lines:
  assumes "b64_laws b"
  shows "without_whitespace (lines_with [LF] (b64_lines b x)) = b64_encode b x"
proof -
  have c: "b64_char c" if "c \<in> set l" "l \<in> set (b64_lines b x)" for c l
    using b64_lines_chars [OF that(2)] that(1) assms by (auto simp: b64_laws_def list_all_iff)
  have k: "byte_of c < 128 \<and> \<not> ascii_ws c" if "b64_char c" for c
    using that by (auto simp: b64_char_def ascii_alnum_def ascii_ws_def Let_def)
  have "is_ascii (lines_with [LF] (b64_lines b x))"
    using c k by (auto simp: is_ascii_def list_all_iff lines_with_def LF_def)
  then have "without_whitespace (lines_with [LF] (b64_lines b x)) = filter (\<lambda>c. \<not> ascii_ws c) (lines_with [LF] (b64_lines b x))"
    by (simp add: without_whitespace_def chars_of_ascii filter_map comp_def ws_len_def)
  also have "\<dots> = concat (b64_lines b x)"
    using c k break_is_ws(2)
    by (simp add: lines_with_def filter_concat comp_def) (auto intro!: arg_cong [where f = concat] map_idI simp: filter_id_conv)
  finally show ?thesis by (simp add: concat_b64_lines)
qed

lemma mime_loop_lines:
  "list_all (\<lambda>l. \<not> starts_with (''--'' @ bd) l) ls \<Longrightarrow>
   mime_loop bd True cur (ls @ rest) = mime_loop bd True (cur @ lines_with [LF] ls) rest"
proof (induction ls arbitrary: cur)
  case (Cons l ls)
  moreover have "\<not> starts_with (''--'' @ bd @ ''--'') l" using Cons.prems by (auto simp: starts_with_prefix prefix_def)
  ultimately show ?case by simp
qed simp

text \<open>A delimiter line ends the part before it; a boundary never runs into the closing delimiter.\<close>

lemma mime_loop_delimiter:
  assumes "\<not> starts_with ''--'' rest"
  shows "mime_loop bd in_part cur ((''--'' @ bd @ rest) # ls)
    = (if in_part \<and> cur \<noteq> [] then [finish_part cur] else []) @ mime_loop bd True [] ls"
  using assms by (auto simp: starts_with_prefix)

lemma mime_loop_end:
  "mime_loop bd in_part cur ((''--'' @ bd @ ''--'') # ls) = (if in_part \<and> cur \<noteq> [] then [finish_part cur] else [])"
  by (simp add: starts_with_prefix)

definition part_text :: "(string \<times> string) list \<Rightarrow> string list \<Rightarrow> string" where
  "part_text fs ks = lines_with [LF] (map field_line fs) @ [LF] @ lines_with [LF] ks"

lemma part_text_split:
  assumes "list_all field_ok fs" "fs \<noteq> []" "list_all no_line_break ks"
  shows "split_headers_body (part_text fs ks) = (join [LF] (map field_line fs), lines_with [LF] ks)"
    and "parse_headers u (join [LF] (map field_line fs)) = map parsed_field fs"
proof -
  have "list_all no_line_break (map field_line fs)" "[] \<notin> set (map field_line fs)"
    using assms(1) field_line_facts by (auto simp: list_all_iff) metis
  moreover have "CR \<notin> set (lines_with [LF] ks)" using assms(3) by (auto simp: lines_with_def list_all_iff no_line_break_def)
  ultimately show "split_headers_body (part_text fs ks) = (join [LF] (map field_line fs), lines_with [LF] ks)"
    unfolding part_text_def using assms(2) by (intro split_message(1)) auto
  show "parse_headers u (join [LF] (map field_line fs)) = map parsed_field fs"
    using assms(1, 2) by (intro parse_header_fields) (auto simp: line_end_def)
qed

lemma finish_part_text: "list_all field_ok fs \<Longrightarrow> fs \<noteq> [] \<Longrightarrow> finish_part (part_text fs ks) = part_text fs ks \<and> part_text fs ks \<noteq> []"
proof -
  assume "list_all field_ok fs" "fs \<noteq> []"
  then obtain n v gs where f: "fs = (n, v) # gs" "field_ok (n, v)" by (cases fs) auto
  then obtain c t where c: "n = c # t" "c \<noteq> CR" "c \<noteq> LF" by (cases n) (auto simp: field_ok_def edges_ok_def)
  then obtain d r where "part_text fs ks = c # d # r" using f by (cases t) (auto simp: part_text_def field_line_def)
  then show ?thesis using c by (simp add: finish_part_def)
qed

definition text_fields :: "string \<Rightarrow> (string \<times> string) list" where
  "text_fields kind = [(''Content-Type'', ''text/'' @ kind @ ''; charset=UTF-8''), (''Content-Transfer-Encoding'', ''base64'')]"

lemma text_fields_ok: "list_all field_ok (text_fields ''plain'')" "list_all field_ok (text_fields ''html'')"
  by code_simp+

lemma text_fields_ne: "text_fields k \<noteq> []"
  by (simp add: text_fields_def)

lemma decode_b64_lines:
  assumes "b64_laws b"
  shows "b64_decode b (without_whitespace (lines_with [LF] (b64_lines b x))) = Some x"
  using assms by (simp add: without_ws_lines b64_laws_def b64_inverse_def)

lemma no_break_b64_lines: "b64_laws b \<Longrightarrow> list_all no_line_break (b64_lines b x)"
  using b64_lines_facts [of b "[]" x] by (simp add: list_all_iff)

text \<open>A container is its blocks, each a delimiter line, header lines, a blank line and content lines.\<close>

type_synonym block = "(string \<times> string) list \<times> string list"

definition block_lines :: "string \<Rightarrow> block \<Rightarrow> string list" where
  "block_lines bd p = (case p of (fs, ks) \<Rightarrow> (''--'' @ bd) # map field_line fs @ [[]] @ ks)"

definition container_lines :: "string \<Rightarrow> block list \<Rightarrow> string list" where
  "container_lines bd ps = concat (map (block_lines bd) ps) @ [''--'' @ bd @ ''--'']"

definition block_ok :: "string \<Rightarrow> block \<Rightarrow> bool" where
  "block_ok bd p = (case p of (fs, ks) \<Rightarrow> list_all field_ok fs \<and> fs \<noteq> [] \<and> list_all no_line_break ks
     \<and> list_all (\<lambda>l. \<not> starts_with (''--'' @ bd) l) (map field_line fs @ [[]] @ ks))"

definition block_text :: "block \<Rightarrow> string" where
  "block_text p = (case p of (fs, ks) \<Rightarrow> part_text fs ks)"

lemma mime_loop_blocks:
  "list_all (block_ok bd) ps \<Longrightarrow> in_part \<or> cur = [] \<Longrightarrow>
   mime_loop bd in_part cur (container_lines bd ps) = (if in_part \<and> cur \<noteq> [] then [finish_part cur] else []) @ map block_text ps"
proof (induction ps arbitrary: in_part cur)
  case Nil
  then show ?case using mime_loop_end [of bd in_part cur "[]"] by (simp only: container_lines_def list.map concat.simps append_Nil) simp
next
  case (Cons p ps)
  obtain fs ks where p: "p = (fs, ks)" by (cases p)
  let ?ls = "map field_line fs @ [[]] @ ks"
  have ok: "list_all field_ok fs" "fs \<noteq> []" "list_all (\<lambda>l. \<not> starts_with (''--'' @ bd) l) ?ls"
    using Cons.prems p by (auto simp: block_ok_def)
  have "container_lines bd (p # ps) = (''--'' @ bd @ []) # ?ls @ container_lines bd ps"
    by (simp add: container_lines_def block_lines_def p)
  then have "mime_loop bd in_part cur (container_lines bd (p # ps))
      = (if in_part \<and> cur \<noteq> [] then [finish_part cur] else []) @ mime_loop bd True [] (?ls @ container_lines bd ps)"
    using mime_loop_delimiter [of "[]" bd in_part cur "?ls @ container_lines bd ps"] by (simp only:) simp
  also have "mime_loop bd True [] (?ls @ container_lines bd ps) = mime_loop bd True (part_text fs ks) (container_lines bd ps)"
    using mime_loop_lines [OF ok(3), of "[]" "container_lines bd ps"] by (simp add: part_text_def)
  also have "\<dots> = part_text fs ks # map block_text ps"
    using Cons finish_part_text [OF ok(1, 2), of ks] by simp
  finally show ?case by (simp add: p block_text_def)
qed

lemma mime_loop_preamble:
  "\<not> starts_with (''--'' @ bd) l \<Longrightarrow> mime_loop bd False [] (l # ls) = mime_loop bd False [] ls"
  by (auto simp: starts_with_prefix prefix_def)

lemma block_lines_no_break: "block_ok bd p \<Longrightarrow> no_line_break bd \<Longrightarrow> list_all no_line_break (block_lines bd p)"
  using field_line_facts by (auto simp: block_ok_def block_lines_def list_all_iff not_breaks)

lemma container_no_break: "list_all (block_ok bd) ps \<Longrightarrow> no_line_break bd \<Longrightarrow> list_all no_line_break (container_lines bd ps)"
proof -
  assume "list_all (block_ok bd) ps" "no_line_break bd"
  then have "\<forall>p \<in> set ps. \<forall>l \<in> set (block_lines bd p). no_line_break l" "no_line_break (''--'' @ bd @ ''--'')"
    using block_lines_no_break by (auto simp: list_all_iff not_breaks)
  then show ?thesis by (auto simp: container_lines_def list_all_iff)
qed

definition b64_block :: "base64 \<Rightarrow> (string \<times> string) list \<Rightarrow> string \<Rightarrow> block" where
  "b64_block b fs x = (fs, b64_lines b x)"

lemma b64_block_ok:
  assumes "list_all field_ok fs" "fs \<noteq> []" "list_all (\<lambda>f. \<not> starts_with ''--'' (field_line f)) fs" "b64_laws b"
  shows "block_ok bd (b64_block b fs x)"
proof -
  have "\<not> starts_with (''--'' @ bd) l" if "\<not> starts_with ''--'' l" for l using that by (auto simp: starts_with_prefix prefix_def)
  then have "list_all (\<lambda>l. \<not> starts_with (''--'' @ bd) l) (map field_line fs)" using assms(3) by (auto simp: list_all_iff)
  then show ?thesis using assms no_break_b64_lines b64_lines_facts [OF assms(4), of "CHR ''-'' # bd" x]
    by (auto simp: block_ok_def b64_block_def list_all_iff)
qed

definition alternative_blocks :: "base64 \<Rightarrow> string \<Rightarrow> string \<Rightarrow> block list" where
  "alternative_blocks b plain html = [b64_block b (text_fields ''plain'') plain, b64_block b (text_fields ''html'') html]"

lemma alternative_blocks_ok: "b64_laws b \<Longrightarrow> list_all (block_ok bd) (alternative_blocks b plain html)"
  using text_fields_ok text_fields_ne
  by (auto simp: alternative_blocks_def intro!: b64_block_ok) (auto simp: text_fields_def field_line_def)

lemma alternative_body_lines: "alternative_body b bd plain html = lines_with [CR, LF] (container_lines bd (alternative_blocks b plain html))"
proof -
  have "lines_with [CR, LF] (b64_lines b x) @ s = base64_encode_body b x @ CR # LF # s" for x s
    using b64_body_lines [of b x] by (metis append.assoc append_Cons append_Nil)
  then show ?thesis
    by (simp add: alternative_body_def container_lines_def alternative_blocks_def block_lines_def b64_block_def text_fields_def field_line_def)
qed

lemma container_parts:
  assumes "list_all (block_ok bd) ps" "no_line_break bd" "line_end e"
    "list_all (\<lambda>l. no_line_break l \<and> \<not> starts_with (''--'' @ bd) l) pre"
  shows "split_mime_parts (lines_with e (pre @ container_lines bd ps)) bd = map block_text ps"
proof -
  have "list_all no_line_break (pre @ container_lines bd ps)"
    using container_no_break [OF assms(1, 2)] assms(4) by (auto simp: list_all_iff)
  then have l: "str_lines (lines_with e (pre @ container_lines bd ps)) = pre @ container_lines bd ps"
    using str_lines_with assms(3) by blast
  have "mime_loop bd False [] (pre @ container_lines bd ps) = mime_loop bd False [] (container_lines bd ps)"
    using assms(4) by (induction pre) (simp_all add: mime_loop_preamble del: mime_loop.simps)
  then show ?thesis unfolding split_mime_parts_def l using mime_loop_blocks [OF assms(1), of False "[]"] by simp
qed

section \<open>Reading the parts\<close>

lemma text_type_facts:
  "trim ''text/plain; charset=UTF-8'' = ''text/plain; charset=UTF-8''" "trim ''text/html; charset=UTF-8'' = ''text/html; charset=UTF-8''"
  "trim ''base64'' = ''base64''"
  "to_ascii_lowercase ''text/plain; charset=UTF-8'' = ''text/plain; charset=utf-8''"
  "to_ascii_lowercase ''text/html; charset=UTF-8'' = ''text/html; charset=utf-8''" "to_ascii_lowercase ''base64'' = ''base64''"
  "to_ascii_lowercase ''name'' = ''name''" "to_ascii_lowercase ''filename'' = ''filename''" "to_ascii_lowercase [] = []"
  by code_simp+

lemma to_lowercase_ascii: "is_ascii s \<Longrightarrow> to_lowercase u s = to_ascii_lowercase s"
  by (simp add: to_lowercase_def)

text \<open>One turn of the loop over the parts, given the three header values it looks at.\<close>

lemma part_step:
  assumes "list_all field_ok fs" "fs \<noteq> []" "list_all no_line_break ks"
    "header_or_empty (map parsed_field fs) ''content-type'' = ct"
    "header_or_empty (map parsed_field fs) ''content-transfer-encoding'' = cte"
    "header_or_empty (map parsed_field fs) ''content-disposition'' = cd"
    "part_is_attachment u ct cd = Some is_att"
  shows "multipart_loop b u (part_text fs ks # parts) st =
    (if contains_sub (to_lowercase u ct) ''multipart/'' then
       (case extract_multipart_body_and_attachments b u (lines_with [LF] ks) ct of None \<Rightarrow> None
        | Some nested \<Rightarrow> multipart_loop b u parts (add_nested st nested))
     else if is_att then
       (case part_attachment b u ct (to_lowercase u cte) cd (lines_with [LF] ks) of None \<Rightarrow> None
        | Some a \<Rightarrow> multipart_loop b u parts (fst st, fst (snd st), snd (snd st) @ [a]))
     else multipart_loop b u parts (add_text b (to_lowercase u ct) (to_lowercase u cte) (lines_with [LF] ks) st))"
  using part_text_split [OF assms(1-3)] assms(4-7) by (simp add: Let_def)

lemma text_part_step:
  assumes "b64_laws b" "k = ''plain'' \<or> k = ''html''"
  shows "multipart_loop b u (block_text (b64_block b (text_fields k) x) # parts) (html, plain, atts)
    = multipart_loop b u parts (if k = ''html'' \<and> html = None then (Some (from_utf8_lossy x), plain, atts)
        else if k = ''plain'' \<and> html = None \<and> plain = None then (html, Some (from_utf8_lossy x), atts) else (html, plain, atts))"
proof -
  define ct where "ct = ''text/'' @ k @ ''; charset=UTF-8''"
  have ok: "list_all field_ok (text_fields k)" using assms(2) text_fields_ok by blast
  have h: "header_or_empty (map parsed_field (text_fields k)) ''content-type'' = ct"
      "header_or_empty (map parsed_field (text_fields k)) ''content-transfer-encoding'' = ''base64''"
      "header_or_empty (map parsed_field (text_fields k)) ''content-disposition'' = []"
    using assms(2) by (auto simp: ct_def text_fields_def header_or_empty_def get_header_fields text_type_facts)
  have "part_is_attachment u ct [] = Some False"
    using assms(2) by (auto simp: ct_def part_is_attachment_def extract_param_def contains_sub_def to_lowercase_ascii text_type_facts)
  note st = part_step [OF ok text_fields_ne no_break_b64_lines [OF assms(1)] h this, of b x parts "(html, plain, atts)"]
  have c: "\<not> contains_sub (to_lowercase u ct) ''multipart/''"
      "contains_sub (to_lowercase u ct) ''text/html'' \<longleftrightarrow> k = ''html''" "contains_sub (to_lowercase u ct) ''text/plain'' \<longleftrightarrow> k = ''plain''"
    using assms(2) by (auto simp: ct_def contains_sub_def to_lowercase_ascii text_type_facts)
  have "decode_transfer b (lines_with [LF] (b64_lines b x)) (to_lowercase u ''base64'') = from_utf8_lossy x"
    using decode_b64_lines [OF assms(1), of x] by (simp add: decode_transfer_def contains_sub_def to_lowercase_ascii text_type_facts)
  then have "add_text b (to_lowercase u ct) (to_lowercase u ''base64'') (lines_with [LF] (b64_lines b x)) (html, plain, atts)
      = (if k = ''html'' \<and> html = None then (Some (from_utf8_lossy x), plain, atts)
        else if k = ''plain'' \<and> html = None \<and> plain = None then (html, Some (from_utf8_lossy x), atts) else (html, plain, atts))"
    by (simp only: add_text_def prod.case c)
  then show ?thesis using st c(1) by (simp only: block_text_def b64_block_def prod.case if_False)
qed

section \<open>Containers\<close>

definition boundary_ok :: "string \<Rightarrow> bool" where
  "boundary_ok bd = (bd \<noteq> [] \<and> is_ascii bd \<and> DQUOTE \<notin> set bd \<and> no_line_break bd)"

lemma takeWhile_quote: "DQUOTE \<notin> set w \<Longrightarrow> takeWhile (\<lambda>c. c \<noteq> DQUOTE) (w @ [DQUOTE]) = w"
  by (induction w) auto

lemma to_ascii_lowercase_append: "to_ascii_lowercase (a @ b) = to_ascii_lowercase a @ to_ascii_lowercase b"
  by (simp add: to_ascii_lowercase_def)

lemma lower_multipart: "to_ascii_lowercase ''multipart/alternative; boundary='' = ''multipart/alternative; boundary=''"
    "to_ascii_lowercase ''multipart/mixed; boundary='' = ''multipart/mixed; boundary=''"
  by code_simp+

lemma container_type:
  assumes "boundary_ok bd" "kind = ''alternative'' \<or> kind = ''mixed''"
  shows "trim (quoted_boundary kind bd) = quoted_boundary kind bd"
    and "extract_boundary u (quoted_boundary kind bd) = Some (Some bd)"
    and "contains_sub (to_lowercase u (quoted_boundary kind bd)) ''multipart/''"
    and "is_ascii (quoted_boundary kind bd)"
proof -
  let ?q = "quoted_boundary kind bd" and ?pre = "''multipart/'' @ kind @ ''; boundary=''"
  have q: "?q = ?pre @ DQUOTE # bd @ [DQUOTE]" by (simp add: quoted_boundary_def)
  have "edges_ok ?q" by (simp add: quoted_boundary_def edges_ok_def edge_ok_def ascii_ws_def)
  then show "trim ?q = ?q" using edges_trim by blast
  show a: "is_ascii ?q" using assms by (auto simp: q boundary_ok_def)
  have "to_ascii_lowercase ?pre = ?pre" using assms(2) lower_multipart by auto
  then have l: "to_lowercase u ?q = ?pre @ to_ascii_lowercase (DQUOTE # bd @ [DQUOTE])"
    using a unfolding q by (simp only: to_lowercase_def to_ascii_lowercase_append if_True)
  then show "contains_sub (to_lowercase u ?q) ''multipart/''" by (simp add: contains_sub_def)
  have "find_sub ''boundary='' (?pre @ s) = Some (length ?pre - 9)" for s using assms(2) by auto
  then have f: "find_sub ''boundary='' (to_lowercase u ?q) = Some (length ?pre - 9)" unfolding l .
  have n: "length ?pre - 9 + 9 = length ?pre" by simp
  have "char_boundary ?q (length ?pre)" by (rule ascii_boundary [OF a]) (simp add: q)
  moreover have "param_value (drop (length ?pre) ?q) = Some bd"
    using assms(1) takeWhile_quote [of bd] unfolding q by (simp add: param_value_def boundary_ok_def)
  ultimately show "extract_boundary u ?q = Some (Some bd)" unfolding extract_boundary_def f option.case n by simp
qed

lemma boundaries_ok: "ids_ok m \<Longrightarrow> boundary_ok (build_boundary m) \<and> boundary_ok (build_alt_boundary m)"
proof -
  assume a: "ids_ok m"
  have i: "is_ascii s \<and> DQUOTE \<notin> set s" if "list_all id_char s" for s
    using that by (auto simp: is_ascii_def list_all_iff id_char_def ascii_alnum_def Let_def)
  show ?thesis
    using boundaries_no_break [OF a] a i
    by (auto simp: boundary_ok_def build_boundary_def build_alt_boundary_def ids_ok_def split: option.splits)
qed

lemma container_extract:
  assumes "list_all (block_ok bd) ps" "boundary_ok bd" "line_end e" "kind = ''alternative'' \<or> kind = ''mixed''"
    "list_all (\<lambda>l. no_line_break l \<and> \<not> starts_with (''--'' @ bd) l) pre"
  shows "extract_multipart_body_and_attachments b u (lines_with e (pre @ container_lines bd ps)) (quoted_boundary kind bd)
    = map_option (multipart_result (lines_with e (pre @ container_lines bd ps))) (multipart_loop b u (map block_text ps) (None, None, []))"
  using container_parts [OF assms(1) _ assms(3, 5)] container_type(2) [OF assms(2, 4), of u] assms(2)
  by (simp add: extract_multipart_body_and_attachments.simps boundary_ok_def)

lemma alternative_extract:
  assumes "b64_laws b" "boundary_ok bd" "line_end e" "utf8_valid html"
  shows "extract_multipart_body_and_attachments b u (lines_with e (container_lines bd (alternative_blocks b plain html))) (quoted_boundary ''alternative'' bd)
    = Some (html, [], None)"
proof -
  have "multipart_loop b u (map block_text (alternative_blocks b plain html)) (None, None, []) = Some (Some html, Some (from_utf8_lossy plain), [])"
    using text_part_step [OF assms(1)] from_utf8_lossy_valid [OF assms(4)] by (simp add: alternative_blocks_def del: multipart_loop.simps(2))
  then show ?thesis
    using container_extract [OF alternative_blocks_ok [OF assms(1)] assms(2, 3), of "''alternative''" "[]"] by (simp add: multipart_result_def)
qed

section \<open>Attachments\<close>

definition mime_of :: "tutanota_file \<Rightarrow> string" where
  "mime_of f = (case file_mime f of Some x \<Rightarrow> x | None \<Rightarrow> ''application/octet-stream'')"

definition attachment_fields :: "base64 \<Rightarrow> tutanota_file \<Rightarrow> (string \<times> string) list" where
  "attachment_fields b f =
     (let name = [DQUOTE] @ encode_header_value b (file_name f) @ [DQUOTE] in
      [(''Content-Type'', mime_of f @ ''; name='' @ name), (''Content-Transfer-Encoding'', ''base64''),
       (''Content-Disposition'', ''attachment; filename='' @ name)]
      @ (case file_cid f of Some cid \<Rightarrow> [(''Content-ID'', ''<'' @ cid @ ''>'')] | None \<Rightarrow> []))"

definition attachment_block :: "base64 \<Rightarrow> attachment_part \<Rightarrow> block" where
  "attachment_block b a = (case a of (f, x) \<Rightarrow> b64_block b (attachment_fields b f) x)"

lemma render_attachment_lines: "render_attachment b bd a = lines_with [CR, LF] (block_lines bd (attachment_block b a))"
proof -
  have "lines_with [CR, LF] (b64_lines b x) = base64_encode_body b x @ [CR, LF]" for x using b64_body_lines by simp
  then show ?thesis
    by (auto simp: render_attachment_def attachment_block_def block_lines_def b64_block_def attachment_fields_def mime_of_def
        field_line_def Let_def split: prod.split option.split)
qed

text \<open>
  The files that are read back: the name survives its quoting in the header, the MIME type is one token
  that is not a multipart type, and the header does not read as a multipart one.
\<close>

definition attachment_ok :: "base64 \<Rightarrow> attachment_part \<Rightarrow> bool" where
  "attachment_ok b a = (case a of (f, x) \<Rightarrow> file_name f \<noteq> [] \<and> utf8_valid (file_name f)
     \<and> (is_ascii (file_name f) \<and> no_line_break (file_name f)
          \<longrightarrow> trim (file_name f) = file_name f \<and> \<not> contains_sub (file_name f) ''=?'' \<and> DQUOTE \<notin> set (file_name f))
     \<and> \<not> contains_sub (to_ascii_lowercase (mime_of f @ ''; name='' @ [DQUOTE] @ encode_header_value b (file_name f) @ [DQUOTE])) ''multipart/''
     \<and> edges_ok (mime_of f) \<and> is_ascii (mime_of f) \<and> CHR '';'' \<notin> set (mime_of f) \<and> no_line_break (mime_of f)
     \<and> (case file_cid f of Some cid \<Rightarrow> no_line_break cid | None \<Rightarrow> True))"

definition parsed_attachment :: "attachment_part \<Rightarrow> attachment" where
  "parsed_attachment a = (case a of (f, x) \<Rightarrow>
     \<lparr>att_filename = file_name f, att_mime_type = to_ascii_lowercase (mime_of f), att_data = x\<rparr>)"

lemma encode_ascii: "b64_laws b \<Longrightarrow> is_ascii (encode_header_value b n)"
proof -
  assume "b64_laws b"
  then have "b64_char c" if "c \<in> set (b64_encode b n)" for c using that by (auto simp: b64_laws_def list_all_iff)
  moreover have "byte_of c < 128" if "b64_char c" for c using that by (auto simp: b64_char_def ascii_alnum_def Let_def)
  ultimately have "byte_of c < 128" if "c \<in> set (b64_encode b n)" for c using that by blast
  then show ?thesis by (auto simp: encode_header_value_def is_ascii_def list_all_iff)
qed

lemma encode_name:
  assumes "b64_laws b" "n \<noteq> []" "utf8_valid n"
    "is_ascii n \<and> no_line_break n \<Longrightarrow> trim n = n \<and> \<not> contains_sub n ''=?'' \<and> DQUOTE \<notin> set n"
  shows "decode_header_value b u (encode_header_value b n) = n" "DQUOTE \<notin> set (encode_header_value b n)" "encode_header_value b n \<noteq> []"
  using assms b64_plain [OF assms(1), of n] decode_encoded_word [OF assms(1, 3), of u]
  by (auto simp: encode_header_value_def no_line_break_def decode_header_value_def plain_char_def list_all_iff)

lemma lower_attachment: "to_ascii_lowercase ''attachment; filename='' = ''attachment; filename=''"
  by code_simp

lemma filename_param:
  assumes "is_ascii v" "DQUOTE \<notin> set v" "v \<noteq> []"
  shows "extract_param u (''attachment; filename='' @ [DQUOTE] @ v @ [DQUOTE]) ''filename'' = Some (Some v)"
    and "contains_sub (to_lowercase u (''attachment; filename='' @ [DQUOTE] @ v @ [DQUOTE])) ''attachment''"
proof -
  let ?pre = "''attachment; filename=''" and ?cd = "''attachment; filename='' @ [DQUOTE] @ v @ [DQUOTE]"
  have a: "is_ascii ?cd" using assms(1) by simp
  have l: "to_lowercase u ?cd = ?pre @ to_ascii_lowercase ([DQUOTE] @ v @ [DQUOTE])"
    using a by (simp only: to_lowercase_def to_ascii_lowercase_append lower_attachment if_True)
  then show "contains_sub (to_lowercase u ?cd) ''attachment''" by (simp add: contains_sub_def)
  have f: "find_sub ''filename='' (to_lowercase u ?cd) = Some 12" unfolding l by simp
  have n: "to_lowercase u ''filename'' @ ''='' = ''filename=''" by (simp add: to_lowercase_ascii text_type_facts)
  have b: "char_boundary ?cd 21" by (rule ascii_boundary [OF a]) simp
  have d: "param_value (drop 21 ?cd) = Some v"
    using takeWhile_quote [OF assms(2)] assms(3) by (simp add: param_value_def)
  have k: "12 + length ''filename='' = 21" by simp
  show "extract_param u ?cd ''filename'' = Some (Some v)"
    unfolding extract_param_def Let_def n f option.case k using b d by simp
qed

lemma attachment_fields_ok:
  assumes "attachment_ok b (f, x)" "b64_laws b"
  shows "list_all field_ok (attachment_fields b f)"
proof -
  have c: "case file_cid f of Some cid \<Rightarrow> no_line_break cid | None \<Rightarrow> True" and m: "no_line_break (mime_of f)"
    using assms(1) by (auto simp: attachment_ok_def)
  have "no_line_break (encode_header_value b (file_name f))" by (rule encode_header_value_no_break [OF assms(2)])
  then show ?thesis using c m field_names_ok
    by (auto simp: attachment_fields_def Let_def not_breaks intro!: field_okI split: option.splits)
qed

lemma attachment_block_ok: "attachment_ok b a \<Longrightarrow> b64_laws b \<Longrightarrow> block_ok bd (attachment_block b a)"
proof -
  assume o: "attachment_ok b a" "b64_laws b"
  obtain f x where a: "a = (f, x)" by (cases a)
  have "block_ok bd (b64_block b (attachment_fields b f) x)"
    using attachment_fields_ok o a
    by (intro b64_block_ok) (auto simp: attachment_fields_def field_line_def Let_def split: option.splits)
  then show ?thesis by (simp add: a attachment_block_def)
qed

lemma attachment_headers:
  assumes "edges_ok (mime_of f)"
  shows "header_or_empty (map parsed_field (attachment_fields b f)) ''content-type''
      = mime_of f @ ''; name='' @ [DQUOTE] @ encode_header_value b (file_name f) @ [DQUOTE]"
    "header_or_empty (map parsed_field (attachment_fields b f)) ''content-transfer-encoding'' = ''base64''"
    "header_or_empty (map parsed_field (attachment_fields b f)) ''content-disposition''
      = ''attachment; filename='' @ [DQUOTE] @ encode_header_value b (file_name f) @ [DQUOTE]"
proof -
  let ?q = "[DQUOTE] @ encode_header_value b (file_name f) @ [DQUOTE]"
  have "edges_ok (mime_of f @ ''; name='' @ ?q)" "edges_ok (''attachment; filename='' @ ?q)"
    using assms by (auto simp: edges_ok_def edge_ok_def ascii_ws_def)
  then have "trim (mime_of f @ ''; name='' @ ?q) = mime_of f @ ''; name='' @ ?q" "trim (''attachment; filename='' @ ?q) = ''attachment; filename='' @ ?q"
    using edges_trim by blast+
  then show "header_or_empty (map parsed_field (attachment_fields b f)) ''content-type'' = mime_of f @ ''; name='' @ ?q"
    "header_or_empty (map parsed_field (attachment_fields b f)) ''content-transfer-encoding'' = ''base64''"
    "header_or_empty (map parsed_field (attachment_fields b f)) ''content-disposition'' = ''attachment; filename='' @ ?q"
    by (simp_all add: header_or_empty_def attachment_fields_def get_header_fields text_type_facts Let_def)
qed

lemma attachment_step:
  assumes "attachment_ok b a" "b64_laws b"
  shows "multipart_loop b u (block_text (attachment_block b a) # parts) (html, plain, atts)
    = multipart_loop b u parts (html, plain, atts @ [parsed_attachment a])"
proof -
  obtain f x where a: "a = (f, x)" by (cases a)
  define enc where "enc = encode_header_value b (file_name f)"
  define ct where "ct = mime_of f @ ''; name='' @ [DQUOTE] @ enc @ [DQUOTE]"
  define cd where "cd = ''attachment; filename='' @ [DQUOTE] @ enc @ [DQUOTE]"
  have m: "edges_ok (mime_of f)" "is_ascii (mime_of f)" "CHR '';'' \<notin> set (mime_of f)"
    and np: "\<not> contains_sub (to_ascii_lowercase ct) ''multipart/''"
    using assms(1) by (auto simp: attachment_ok_def a ct_def enc_def)
  have n: "decode_header_value b u enc = file_name f" "DQUOTE \<notin> set enc" "enc \<noteq> []"
    using encode_name [OF assms(2)] assms(1) by (auto simp: enc_def attachment_ok_def a)
  have e: "is_ascii enc" using encode_ascii [OF assms(2)] by (simp add: enc_def)
  note fp = filename_param [OF e n(2, 3), of u, folded cd_def]
  have lct: "to_lowercase u ct = to_ascii_lowercase ct" using m(2) e by (simp add: to_lowercase_ascii ct_def)
  have mime: "attachment_mime u ct = to_ascii_lowercase (mime_of f)"
    using split_on_append [OF m(3), of "'' name='' @ [DQUOTE] @ enc @ [DQUOTE]"] edges_trim [OF m(1)] m(1, 2)
    by (simp add: attachment_mime_def ct_def to_lowercase_ascii Let_def edges_ok_def to_ascii_lowercase_def)
  have "attachment_data b (to_lowercase u ''base64'') (lines_with [LF] (b64_lines b x)) = x"
    using decode_b64_lines [OF assms(2), of x] by (simp add: attachment_data_def contains_sub_def to_lowercase_ascii text_type_facts)
  then have pa: "part_attachment b u ct (to_lowercase u ''base64'') cd (lines_with [LF] (b64_lines b x)) = Some (parsed_attachment a)"
    using fp(1) n(1) mime by (simp add: part_attachment_def attachment_filename_def parsed_attachment_def a)
  have "part_is_attachment u ct cd = Some True" using fp(2) by (simp add: part_is_attachment_def)
  from part_step [OF attachment_fields_ok [OF assms(1) [unfolded a] assms(2)] _ no_break_b64_lines [OF assms(2)]
      attachment_headers [OF m(1), of b, folded enc_def, folded ct_def cd_def] this, of b x parts "(html, plain, atts)"]
  show ?thesis using np pa by (simp add: lct a attachment_block_def block_text_def b64_block_def attachment_fields_def Let_def del: multipart_loop.simps(2))
qed

section \<open>The whole message\<close>

definition mixed_blocks :: "base64 \<Rightarrow> string \<Rightarrow> string \<Rightarrow> string \<Rightarrow> attachment_part list \<Rightarrow> block list" where
  "mixed_blocks b alt plain html atts =
     ([(''Content-Type'', quoted_boundary ''alternative'' alt)], container_lines alt (alternative_blocks b plain html))
     # map (attachment_block b) atts"

definition preamble :: "string list" where
  "preamble = [''This is a multi-part message in MIME format.'']"

lemma message_body_lines:
  "message_body b m d atts =
     (let html = body_source (Some d); plain = html_to_text html in
      if atts = [] then lines_with [CR, LF] (container_lines (build_alt_boundary m) (alternative_blocks b plain html))
      else lines_with [CR, LF] (preamble @ container_lines (build_boundary m) (mixed_blocks b (build_alt_boundary m) plain html atts)))"
proof -
  have "concat (map (render_attachment b bd) as) = lines_with [CR, LF] (concat (map (block_lines bd) (map (attachment_block b) as)))" for bd as
    by (induction as) (simp_all add: render_attachment_lines)
  then show ?thesis
    by (simp add: message_body_def alternative_body_lines push_alternative_split mixed_blocks_def container_lines_def [of _ "_ # _"]
        preamble_def block_lines_def [of _ "(_, _)"] Let_def)
qed

lemma alt_lines_not_delimiter:
  assumes "b64_laws b" "bd = build_boundary m" "alt = build_alt_boundary m"
  shows "list_all (\<lambda>l. \<not> starts_with (''--'' @ bd) l) (container_lines alt (alternative_blocks b plain html))"
proof -
  have d: "\<not> starts_with (''--'' @ bd) (''--'' @ alt @ s)" for s
    by (simp add: assms build_boundary_def build_alt_boundary_def split: option.split)
  moreover have "list_all (\<lambda>l. \<not> starts_with (''--'' @ bd) l) (map field_line fs @ [[]] @ ks)"
    if "(fs, ks) \<in> set (alternative_blocks b plain html)" for fs ks
    using alternative_blocks_ok [OF assms(1), of bd plain html] that by (auto simp: list_all_iff block_ok_def)
  ultimately have "list_all (\<lambda>l. \<not> starts_with (''--'' @ bd) l) (block_lines alt p)"
    if "p \<in> set (alternative_blocks b plain html)" for p
    using that d [of "[]"] unfolding block_lines_def by (cases p) (simp only: prod.case list.pred_inject append_Nil2 simp_thms)
  then show ?thesis using d [of "''--''"] unfolding container_lines_def list_all_iff by (auto simp del: append_Cons)
qed

lemma type_field_ok: "boundary_ok bd \<Longrightarrow> field_ok (''Content-Type'', quoted_boundary ''alternative'' bd)"
  using field_names_ok by (intro field_okI [of "''Content-Type''" "quoted_boundary _ _"]) (simp_all add: quoted_boundary_def boundary_ok_def not_breaks)

lemma mixed_blocks_ok:
  assumes "b64_laws b" "ids_ok m" "list_all (attachment_ok b) atts"
  shows "list_all (block_ok (build_boundary m)) (mixed_blocks b (build_alt_boundary m) plain html atts)"
proof -
  let ?alt = "build_alt_boundary m" and ?bd = "build_boundary m"
  have bd: "boundary_ok ?alt" using boundaries_ok [OF assms(2)] by blast
  have "field_ok (''Content-Type'', quoted_boundary ''alternative'' ?alt)"
    by (rule type_field_ok [OF bd])
  moreover have "\<not> starts_with (''--'' @ ?bd) (field_line (''Content-Type'', quoted_boundary ''alternative'' ?alt))" by (simp add: field_line_def)
  moreover have "list_all no_line_break (container_lines ?alt (alternative_blocks b plain html))"
    using container_no_break alternative_blocks_ok [OF assms(1)] bd by (simp add: boundary_ok_def)
  ultimately show ?thesis
    using alt_lines_not_delimiter [OF assms(1) refl refl] attachment_block_ok [OF _ assms(1)] assms(3)
    by (auto simp: mixed_blocks_def block_ok_def [of _ "(_, _)"] list_all_iff)
qed

lemma attachments_loop:
  assumes "list_all (attachment_ok b) as" "b64_laws b"
  shows "multipart_loop b u (map block_text (map (attachment_block b) as)) (html, plain, atts) = Some (html, plain, atts @ map parsed_attachment as)"
  using assms(1)
proof (induction as arbitrary: atts)
  case (Cons a as)
  then show ?case using attachment_step [of b a u _ html plain atts] assms(2) by (simp del: multipart_loop.simps(2))
qed simp

lemma nested_step:
  assumes "b64_laws b" "boundary_ok alt" "utf8_valid html"
  shows "multipart_loop b u (part_text [(''Content-Type'', quoted_boundary ''alternative'' alt)] (container_lines alt (alternative_blocks b plain html)) # parts) (None, None, [])
    = multipart_loop b u parts (if html = [] then None else Some html, None, [])"
proof -
  define ct where "ct = quoted_boundary ''alternative'' alt"
  note t = container_type [OF assms(2), of "''alternative''", simplified, folded ct_def]
  have f: "list_all field_ok [(''Content-Type'', ct)]"
    using type_field_ok [OF assms(2)] by (simp add: ct_def)
  have h: "header_or_empty (map parsed_field [(''Content-Type'', ct)]) ''content-type'' = ct"
      "header_or_empty (map parsed_field [(''Content-Type'', ct)]) ''content-transfer-encoding'' = []"
      "header_or_empty (map parsed_field [(''Content-Type'', ct)]) ''content-disposition'' = []"
    using t(1) by (simp_all add: header_or_empty_def get_header_fields)
  obtain a where "part_is_attachment u ct [] = Some a" using part_is_attachment_ascii t(4) by blast
  moreover have "list_all no_line_break (container_lines alt (alternative_blocks b plain html))"
    using container_no_break alternative_blocks_ok [OF assms(1)] assms(2) by (simp add: boundary_ok_def)
  ultimately show ?thesis
    using part_step [OF f _ _ h, of "container_lines alt (alternative_blocks b plain html)" u a b parts "(None, None, [])"] alternative_extract [OF assms(1, 2) _ assms(3), of "[LF]" u plain] t(3) assms(2)
    by (simp add: ct_def boundary_ok_def line_end_def add_nested_def del: multipart_loop.simps(2))
qed

lemma message_extract:
  assumes "b64_laws b" "ids_ok m" "list_all (attachment_ok b) atts" "utf8_valid (body_source (Some d))"
  shows "extract_multipart_body_and_attachments b u (message_body b m d atts) (message_type m atts)
    = Some (if atts = [] \<or> body_source (Some d) \<noteq> [] then body_source (Some d) else message_body b m d atts, map parsed_attachment atts, None)"
proof (cases "atts = []")
  case True
  then show ?thesis
    using alternative_extract [OF assms(1) _ _ assms(4), of "build_alt_boundary m" "[CR, LF]"] boundaries_ok [OF assms(2)]
    by (simp add: message_body_lines message_type_def line_end_def Let_def)
next
  case False
  let ?html = "body_source (Some d)" and ?bd = "build_boundary m" and ?alt = "build_alt_boundary m"
  let ?ps = "mixed_blocks b ?alt (html_to_text ?html) ?html atts" and ?h = "if ?html = [] then None else Some ?html"
  have "multipart_loop b u (map block_text ?ps) (None, None, []) = Some (?h, None, map parsed_attachment atts)"
    using nested_step [OF assms(1) _ assms(4), of ?alt u "html_to_text ?html"] boundaries_ok [OF assms(2)] False
      attachments_loop [OF assms(3, 1), of u ?h None "[]"]
    by (simp add: mixed_blocks_def block_text_def del: multipart_loop.simps(2) map_map)
  moreover have "list_all (\<lambda>l. no_line_break l \<and> \<not> starts_with (''--'' @ ?bd) l) preamble" by (simp add: preamble_def not_breaks)
  ultimately show ?thesis
    using container_extract [OF mixed_blocks_ok [OF assms(1-3)], of "[CR, LF]" "''mixed''" preamble b u] boundaries_ok [OF assms(2)] False
    by (simp add: message_body_lines message_type_def line_end_def multipart_result_def Let_def)
qed

definition subject_ok :: "string \<Rightarrow> bool" where
  "subject_ok s = (utf8_valid s \<and> (is_ascii s \<and> no_line_break s \<longrightarrow> trim s = s \<and> \<not> contains_sub s ''=?''))"

lemma subject_decodes: "subject_ok s \<Longrightarrow> b64_laws b \<Longrightarrow> decode_header_value b u (trim (encode_header_value b s)) = s"
proof (cases "is_ascii s \<and> no_line_break s")
  case True
  assume "subject_ok s" "b64_laws b"
  then show ?thesis using True by (simp add: subject_ok_def encode_header_value_def no_line_break_def decode_header_value_def)
next
  case False
  assume a: "subject_ok s" "b64_laws b"
  have e: "encode_header_value b s = ''=?UTF-8?B?'' @ b64_encode b s @ ''?=''" using False by (auto simp: encode_header_value_def no_line_break_def)
  have "edges_ok (encode_header_value b s)" unfolding e by (simp add: edges_ok_def edge_ok_def ascii_ws_def)
  then show ?thesis using edges_trim decode_encoded_word [OF a(2)] a(1) e by (simp add: subject_ok_def)
qed

definition message_id_of :: "mail \<Rightarrow> string option" where
  "message_id_of m = map_option (\<lambda>i. list_id i @ ''.'' @ element_id i @ ''@tutabridge.local'') (mail_id m)"

lemma id_field_parsed:
  assumes "ids_ok m"
  shows "Option.bind (get_header (map parsed_field (id_field m)) ''message-id'') first_msg_id = message_id_of m"
proof (cases "mail_id m")
  case None
  then show ?thesis by (simp add: id_field_def message_id_of_def get_header_fields)
next
  case (Some i)
  let ?id = "list_id i @ ''.'' @ element_id i @ ''@tutabridge.local''"
  have k: "edge_ok c \<and> c \<noteq> CHR ''>''" if "id_char c" for c
    using that by (auto simp: id_char_def ascii_alnum_def edge_ok_def ascii_ws_def Let_def)
  have ids: "\<forall>c \<in> set (list_id i) \<union> set (element_id i). edge_ok c \<and> c \<noteq> CHR ''>''"
    using assms Some k by (auto simp: ids_ok_def list_all_iff)
  have "edge_ok (hd ?id)" using ids by (cases "list_id i") (auto simp: edge_ok_def ascii_ws_def)
  then have t: "trim ?id = ?id" using edges_trim by (simp add: edges_ok_def edge_ok_def ascii_ws_def)
  have tw: "trim (''<'' @ ?id @ ''>'') = ''<'' @ ?id @ ''>''"
    using edges_trim by (simp add: edges_ok_def edge_ok_def ascii_ws_def)
  have "split_once (CHR ''>'') (?id @ ''>'') = Some (?id, [])"
    using split_once_append [of "CHR ''>''" ?id "[]"] ids by auto
  then have "bracket_ids (''<'' @ ?id @ ''>'') = [?id]"
    using t by (subst bracket_ids.simps) (simp add: bracket_ids.simps [of "[]"])
  then show ?thesis using tw Some
    by (simp add: id_field_def message_id_of_def get_header_fields first_msg_id_def msg_ids_def)
qed

text \<open>
  C6: A rendered message is parsed back whole. For a mail with its details and attachments, \<open>parse_rfc2822\<close>
  of \<open>mail_to_rfc2822\<close> returns, without panicking, the sender, the recipients, the subject, the HTML body
  and every attachment with its name, type and bytes, whatever the nesting of the two containers.
\<close>

theorem rendered_message_parses:
  assumes "message_ok m d" "b64_laws b" "subject_ok (subject m)" "list_all (attachment_ok b) atts"
    "utf8_valid (body_source (Some d))" "atts = [] \<or> body_source (Some d) \<noteq> []"
  shows "parse_rfc2822 b u (mail_to_rfc2822 b m (Some d) atts) = Some
    \<lparr>pm_from_address = clean_address (addr_address (sender m)), pm_from_name = addr_name (sender m),
     pm_to = cleaned (mailboxes (to_recipients d)), pm_cc = cleaned (mailboxes (cc_recipients d)), pm_bcc = [],
     pm_reply_to = cleaned (reply_to_addresses d), pm_subject = subject m,
     pm_body_html = body_source (Some d), pm_body_text = None, pm_is_plaintext = False,
     pm_message_id = message_id_of m, pm_in_reply_to = None, pm_attachments = map parsed_attachment atts\<rparr>"
proof -
  let ?hs = "map parsed_field (message_fields b m d atts)"
  have ids: "ids_ok m" and snd_ok: "mailbox_ok (addr_name (sender m), addr_address (sender m))" using assms(1) by (auto simp: message_ok_def)
  note r = rendered_split [OF assms(1, 2)]
  have from_: "parse_address_single b u (header_or_empty ?hs ''from'') = (addr_name (sender m), clean_address (addr_address (sender m)))"
    using single_roundtrip [OF snd_ok assms(2)] format_trim [OF snd_ok, of b]
    by (simp add: header_or_empty_def message_header_lookup format_address_def)
  have bd: "boundary_ok (build_boundary m)" "boundary_ok (build_alt_boundary m)" using boundaries_ok [OF ids] by auto
  have ct: "header_or_empty ?hs ''content-type'' = message_type m atts" "contains_sub (to_lowercase u (message_type m atts)) ''multipart/''"
    using container_type(1, 3) [OF bd(1)] container_type(1, 3) [OF bd(2)]
    by (simp_all add: header_or_empty_def message_header_lookup message_type_def)
  have "message_content b u (message_body b m d atts) (message_type m atts) cte = Some (body_source (Some d), map parsed_attachment atts, None)" for cte
    using message_extract [OF assms(2) ids assms(4, 5)] ct(2) assms(6) by (auto simp: message_content_def)
  moreover have "reply_parent ?hs = None" by (simp add: reply_parent_def message_header_lookup)
  ultimately show ?thesis
    using r from_ ct(1) rendered_addresses [OF assms(1, 2), of u atts] id_field_parsed [OF ids] subject_decodes [OF assms(3, 2)]
    by (simp add: parse_rfc2822_def message_header_lookup Let_def)
qed

definition rendered_file :: attachment_part where
  "rendered_file = (\<lparr>file_name = ''r.pdf'', file_mime = Some ''application/pdf'', file_cid = None\<rparr>, [CHR 0x00, CHR 0xFF])"

theorem rendered_message_parses_witness:
  "map_option (\<lambda>pm. (pm_subject pm, pm_body_html pm, pm_attachments pm))
     (parse_rfc2822 rfc4648 ascii_unicode (mail_to_rfc2822 rfc4648 rendered_mail (Some (rendered_details ''<p>hi</p>'')) [rendered_file]))
   = Some (''Hi'', ''<p>hi</p>'', [\<lparr>att_filename = ''r.pdf'', att_mime_type = ''application/pdf'', att_data = [CHR 0x00, CHR 0xFF]\<rparr>])"
proof -
  have "subject_ok ''Hi''" by code_simp
  moreover have "list_all (attachment_ok rfc4648) [rendered_file]" by code_simp
  moreover have "utf8_valid ''<p>hi</p>''" by code_simp
  moreover have "body_source (Some (rendered_details ''<p>hi</p>'')) = ''<p>hi</p>''" by (simp add: body_source_def rendered_details_def)
  moreover have "parsed_attachment rendered_file = \<lparr>att_filename = ''r.pdf'', att_mime_type = ''application/pdf'', att_data = [CHR 0x00, CHR 0xFF]\<rparr>"
    by code_simp
  ultimately show ?thesis
    using rendered_message_parses [OF rendered_sample_ok rfc4648_laws, of "[rendered_file]" "''<p>hi</p>''" ascii_unicode]
    by (simp add: rendered_mail_def)
qed

text \<open>
  The condition on an empty HTML body with attachments is needed: the nested container then yields no
  body, and the raw MIME source of the message becomes its HTML.
\<close>

theorem empty_body_with_attachment:
  assumes "b64_laws b" "ids_ok m" "list_all (attachment_ok b) atts" "atts \<noteq> []" "body_source (Some d) = []"
  shows "map_option fst (extract_multipart_body_and_attachments b u (message_body b m d atts) (message_type m atts)) = Some (message_body b m d atts)"
  using message_extract [OF assms(1-3), of d u] assms(4, 5) by simp

end
