(* ===== verification/Smtp.thy ===== *)
theory Smtp
  imports MultipartRoundtrip
begin

text \<open>
  The SMTP server (\<open>crates/bridge/src/smtp/mod.rs\<close>): reading capped lines from a stream that arrives in chunks, the
  authentication exchange, the envelope, and the DATA phase that hands a parsed message to the
  backend. The stream is the list of chunks the buffered reader delivers, its end the end of the
  connection (a read error ends the connection the same way); replies collect what is written.
\<close>

section \<open>Limits and lines\<close>

record smtp_limits =
  max_message_bytes :: nat
  max_line_bytes :: nat

definition default_limits :: smtp_limits where
  "default_limits = \<lparr>max_message_bytes = 26214400, max_line_bytes = 1048576\<rparr>"

datatype line_outcome = Line string | Eof | TooLong

definition finish_line :: "string \<Rightarrow> nat \<Rightarrow> line_outcome" where
  "finish_line raw max_bytes = (if max_bytes < length raw then TooLong else Line (from_utf8_lossy raw))"

text \<open>\<open>fill_buf\<close> delivers the next chunk, empty at the end of the stream; what a line leaves of it stays buffered.\<close>

fun read_line_capped :: "nat \<Rightarrow> string \<Rightarrow> string list \<Rightarrow> line_outcome \<times> string list" where
  "read_line_capped max_bytes raw [] = ((if raw = [] then Eof else finish_line raw max_bytes), [])"
| "read_line_capped max_bytes raw (available # stream) =
     (if available = [] then ((if raw = [] then Eof else finish_line raw max_bytes), available # stream)
      else case position (\<lambda>b. b = LF) available of
        Some pos \<Rightarrow> (finish_line (raw @ take (pos + 1) available) max_bytes,
          (if drop (pos + 1) available = [] then stream else drop (pos + 1) available # stream))
      | None \<Rightarrow> if max_bytes < length (raw @ available) then (TooLong, stream)
          else read_line_capped max_bytes (raw @ available) stream)"

definition size_param_exceeds :: "string \<Rightarrow> nat \<Rightarrow> bool" where
  "size_param_exceeds mail_line mx = list_ex (\<lambda>tok. 5 \<le> length tok \<and> eq_ignore_ascii_case (take 5 tok) ''SIZE=''
     \<and> (case parse_u64 (drop 5 tok) of Some n \<Rightarrow> mx < n | None \<Rightarrow> False)) (split_whitespace mail_line)"

definition extract_address :: "string \<Rightarrow> string" where
  "extract_address line =
     (let fallback = (case split_on CHR '':'' line of _ # x # _ \<Rightarrow> trim x | _ \<Rightarrow> [])
      in case (find_sub ''<'' line, find_sub ''>'' line) of
           (Some start, Some end_at) \<Rightarrow> if start < end_at then take (end_at - (start + 1)) (drop (start + 1) line) else fallback
         | _ \<Rightarrow> fallback)"

section \<open>State\<close>

datatype smtp_state = SInit | SGreeted | SMailFrom string | SRcptTo string "string list" | SData string "string list" | SQuit

datatype auth_step = AuthNone | WaitPlainData | WaitLoginUser | WaitLoginPass

definition smtp_redact_credentials :: "string \<Rightarrow> auth_step \<Rightarrow> string" where
  "smtp_redact_credentials line step = (if step \<noteq> AuthNone then ''<credentials>''
     else case split_whitespace line of
       verb # mechanism # _ # _ \<Rightarrow> if eq_ignore_ascii_case verb ''AUTH'' then verb @ '' '' @ mechanism @ '' <credentials>'' else line
     | _ \<Rightarrow> line)"

text \<open>The variables of \<open>handle_connection\<close>.\<close>

record smtp_conn =
  sc_state :: smtp_state
  sc_data_buf :: string
  sc_in_data :: bool
  sc_too_large :: bool
  sc_auth :: auth_step
  sc_authenticated :: bool

text \<open>The engines, the password, the limits and the backend's \<open>send_mail\<close>.\<close>

record 'w smtp_env =
  se_b64 :: base64
  se_uni :: unicode
  se_send :: "parsed_message \<Rightarrow> 'w \<Rightarrow> (string + unit) \<times> 'w"
  se_password :: "string option"
  se_limits :: smtp_limits

definition smtp_start :: "'w smtp_env \<Rightarrow> smtp_conn" where
  "smtp_start env = \<lparr>sc_state = SInit, sc_data_buf = [], sc_in_data = False, sc_too_large = False, sc_auth = AuthNone,
     sc_authenticated = (se_password env = None)\<rparr>"

section \<open>Authentication\<close>

definition auth_succeeded :: string where
  "auth_succeeded = ''235 2.7.0 Authentication successful'' @ CRLF"

definition verify_smtp_password :: "string \<Rightarrow> string option \<Rightarrow> string" where
  "verify_smtp_password password expected = (case expected of
     Some expected_pw \<Rightarrow> if password = expected_pw then auth_succeeded else ''535 5.7.8 Authentication failed'' @ CRLF
   | None \<Rightarrow> auth_succeeded)"

definition smtp_plain_password :: "base64 \<Rightarrow> string \<Rightarrow> string" where
  "smtp_plain_password b data = (case splitn 3 (CHR 0x00) (case b64_decode b (trim data) of Some d \<Rightarrow> d | None \<Rightarrow> []) of
     [_, _, p] \<Rightarrow> from_utf8_lossy p | _ \<Rightarrow> [])"

definition verify_smtp_plain_data :: "base64 \<Rightarrow> string \<Rightarrow> string option \<Rightarrow> string" where
  "verify_smtp_plain_data b data expected = verify_smtp_password (smtp_plain_password b data) expected"

definition smtp_login_password :: "base64 \<Rightarrow> string \<Rightarrow> string" where
  "smtp_login_password b data = (case b64_decode b (trim data) of Some d \<Rightarrow> if utf8_valid d then d else [] | None \<Rightarrow> [])"

text \<open>\<open>if response.starts_with("235")\<close>\<close>

definition note_auth :: "string \<Rightarrow> smtp_conn \<Rightarrow> smtp_conn" where
  "note_auth response c = (if starts_with ''235'' response then c\<lparr>sc_authenticated := True\<rparr> else c)"

definition auth_line :: "'w smtp_env \<Rightarrow> string \<Rightarrow> smtp_conn \<Rightarrow> string \<times> smtp_conn" where
  "auth_line env trimmed c =
     (let (response, step) = (case sc_auth c of
        WaitPlainData \<Rightarrow> (verify_smtp_plain_data (se_b64 env) trimmed (se_password env), AuthNone)
      | WaitLoginUser \<Rightarrow> (''334 UGFzc3dvcmQ6'' @ CRLF, WaitLoginPass)
      | _ \<Rightarrow> (verify_smtp_password (smtp_login_password (se_b64 env) trimmed) (se_password env), AuthNone))
      in (response, note_auth response (c\<lparr>sc_auth := step\<rparr>)))"

definition cmd_auth :: "'w smtp_env \<Rightarrow> string \<Rightarrow> smtp_conn \<Rightarrow> string \<times> smtp_conn" where
  "cmd_auth env trimmed c =
     (let parts = splitn 3 CHR '' '' trimmed; auth_type = to_uppercase (se_uni env) (if 2 \<le> length parts then parts ! 1 else []);
          (response, step) = (if auth_type = ''PLAIN'' then
              (if 3 \<le> length parts then (verify_smtp_plain_data (se_b64 env) (parts ! 2) (se_password env), AuthNone)
               else (''334 '' @ CRLF, WaitPlainData))
            else if auth_type = ''LOGIN'' then (''334 VXNlcm5hbWU6'' @ CRLF, WaitLoginUser)
            else (''504 Unrecognized auth type'' @ CRLF, AuthNone))
      in (response, note_auth response (c\<lparr>sc_auth := step\<rparr>)))"

section \<open>DATA\<close>

text \<open>Envelope recipients that no header names become blind copies, in their order.\<close>

definition header_addrs :: "unicode \<Rightarrow> parsed_message \<Rightarrow> string set" where
  "header_addrs u pm = (\<lambda>(_, addr). to_lowercase u addr) ` set (pm_to pm @ pm_cc pm @ pm_bcc pm)"

definition complete_recipients :: "unicode \<Rightarrow> string list \<Rightarrow> parsed_message \<Rightarrow> parsed_message" where
  "complete_recipients u envelope_to pm = pm\<lparr>pm_bcc := pm_bcc pm
     @ map (\<lambda>rcpt. ([], rcpt)) (filter (\<lambda>rcpt. to_lowercase u rcpt \<notin> header_addrs u pm) envelope_to)\<rparr>"

definition unstuffed :: "string \<Rightarrow> string" where
  "unstuffed line = (if starts_with ''..'' line then drop 1 line else line)"

text \<open>What one line does: replies, the connection after, the world after; \<open>None\<close> when the message parser panics.\<close>

type_synonym 'w smtp_reply = "(string list \<times> smtp_conn \<times> 'w) option"

definition end_of_data :: "'w smtp_env \<Rightarrow> smtp_conn \<Rightarrow> 'w \<Rightarrow> 'w smtp_reply" where
  "end_of_data env c0 w = (let c = c0\<lparr>sc_in_data := False\<rparr> in
     if sc_too_large c then Some ([''552 5.3.4 message size exceeds limit'' @ CRLF], c\<lparr>sc_too_large := False, sc_data_buf := [], sc_state := SGreeted\<rparr>, w)
     else
       let envelope_to = (case sc_state c of SData _ rcpts \<Rightarrow> rcpts | _ \<Rightarrow> []) in
       case parse_rfc2822 (se_b64 env) (se_uni env) (sc_data_buf c) of None \<Rightarrow> None
       | Some parsed \<Rightarrow> (case se_send env (complete_recipients (se_uni env) envelope_to parsed) w of (res, w1) \<Rightarrow>
           Some ([(case res of Inr _ \<Rightarrow> ''250 OK message sent'' | Inl _ \<Rightarrow> ''451 Temporary failure'') @ CRLF],
             c\<lparr>sc_state := SGreeted, sc_data_buf := []\<rparr>, w1)))"

definition data_line :: "'w smtp_env \<Rightarrow> string \<Rightarrow> smtp_conn \<Rightarrow> 'w \<Rightarrow> 'w smtp_reply" where
  "data_line env line c w =
     (if trim_end line = ''.'' then end_of_data env c w
      else if sc_too_large c then Some ([], c, w)
      else if max_message_bytes (se_limits env) < length (sc_data_buf c) + length (unstuffed line)
      then Some ([], c\<lparr>sc_too_large := True, sc_data_buf := []\<rparr>, w)
      else Some ([], c\<lparr>sc_data_buf := sc_data_buf c @ unstuffed line\<rparr>, w))"

section \<open>Commands\<close>

definition smtp_ehlo :: string where
  "smtp_ehlo = ''250-TutaBridge'' @ CRLF @ ''250-AUTH PLAIN LOGIN'' @ CRLF @ ''250-8BITMIME'' @ CRLF @ ''250 SIZE 26214400'' @ CRLF"

definition smtp_command :: "'w smtp_env \<Rightarrow> string \<Rightarrow> smtp_conn \<Rightarrow> string \<times> smtp_conn" where
  "smtp_command env trimmed c =
     (let cmd = to_uppercase (se_uni env) (case split_whitespace trimmed of v # _ \<Rightarrow> v | [] \<Rightarrow> []) in
      if \<not> sc_authenticated c \<and> (cmd = ''MAIL'' \<or> cmd = ''RCPT'' \<or> cmd = ''DATA'')
      then (''530 5.7.0 Authentication required'' @ CRLF, c)
      else if cmd = ''EHLO'' \<or> cmd = ''HELO'' then (smtp_ehlo, c\<lparr>sc_state := SGreeted\<rparr>)
      else if cmd = ''AUTH'' then cmd_auth env trimmed c
      else if cmd = ''MAIL'' then
        (if size_param_exceeds trimmed (max_message_bytes (se_limits env)) then (''552 5.3.4 message size exceeds limit'' @ CRLF, c)
         else (''250 OK'' @ CRLF, c\<lparr>sc_state := SMailFrom (extract_address trimmed)\<rparr>))
      else if cmd = ''RCPT'' then
        (case sc_state c of
           SMailFrom from \<Rightarrow> (''250 OK'' @ CRLF, c\<lparr>sc_state := SRcptTo from [extract_address trimmed]\<rparr>)
         | SRcptTo from rcpts \<Rightarrow> (''250 OK'' @ CRLF, c\<lparr>sc_state := SRcptTo from (rcpts @ [extract_address trimmed])\<rparr>)
         | _ \<Rightarrow> (''503 Bad sequence'' @ CRLF, c))
      else if cmd = ''DATA'' then
        (case sc_state c of
           SRcptTo from rcpts \<Rightarrow> (''354 Start mail input; end with <CRLF>.<CRLF>'' @ CRLF, c\<lparr>sc_state := SData from rcpts, sc_in_data := True\<rparr>)
         | _ \<Rightarrow> (''503 Bad sequence'' @ CRLF, c))
      else if cmd = ''RSET'' then (''250 OK'' @ CRLF, c\<lparr>sc_state := SGreeted\<rparr>)
      else if cmd = ''QUIT'' then (''221 BYE'' @ CRLF, c\<lparr>sc_state := SQuit\<rparr>)
      else if cmd = ''NOOP'' then (''250 OK'' @ CRLF, c)
      else (''502 Command not implemented'' @ CRLF, c))"

definition smtp_line :: "'w smtp_env \<Rightarrow> string \<Rightarrow> smtp_conn \<Rightarrow> 'w \<Rightarrow> 'w smtp_reply" where
  "smtp_line env line c w =
     (if sc_auth c \<noteq> AuthNone then (case auth_line env (trim_end line) c of (r, c1) \<Rightarrow> Some ([r], c1, w))
      else if sc_in_data c then data_line env line c w
      else case smtp_command env (trim_end line) c of (r, c1) \<Rightarrow> Some ([r], c1, w))"

section \<open>The connection\<close>

definition chunk_bytes :: "string list \<Rightarrow> nat" where
  "chunk_bytes stream = length (concat stream)"

lemma finish_line_Eof [simp]: "finish_line raw mx \<noteq> Eof"
  by (simp add: finish_line_def)

lemma read_line_consumes:
  "read_line_capped mx raw stream = (Line l, rest) \<Longrightarrow> chunk_bytes rest + (if raw = [] then 1 else 0) \<le> chunk_bytes stream"
  by (induction mx raw stream rule: read_line_capped.induct)
     (auto simp: chunk_bytes_def position_Some neq_Nil_conv split: if_splits option.splits)

text \<open>
  The loop: \<open>None\<close> is a panic of the connection's task. A panic loses nothing the backend did before, but
  the client sees the connection close.
\<close>

function smtp_loop :: "'w smtp_env \<Rightarrow> string list \<Rightarrow> smtp_conn \<Rightarrow> 'w \<Rightarrow> 'w smtp_reply" where
  "smtp_loop env stream c w = (case read_line_capped (max_line_bytes (se_limits env)) [] stream of
     (Eof, _) \<Rightarrow> Some ([], c, w)
   | (TooLong, _) \<Rightarrow> Some ([''500 5.5.2 line too long'' @ CRLF], c, w)
   | (Line line, rest) \<Rightarrow> (case smtp_line env line c w of
       None \<Rightarrow> None
     | Some (r, c1, w1) \<Rightarrow> if sc_state c1 = SQuit then Some (r, c1, w1)
         else map_option (apfst (append r)) (smtp_loop env rest c1 w1)))"
  by pat_completeness auto
termination
  by (relation "measure (\<lambda>(_, stream, _). chunk_bytes stream)") (auto dest: read_line_consumes [OF sym])

declare smtp_loop.simps [simp del]

definition smtp_session :: "'w smtp_env \<Rightarrow> string list \<Rightarrow> 'w \<Rightarrow> 'w smtp_reply" where
  "smtp_session env stream w = map_option (apfst (Cons (''220 TutaBridge SMTP ready'' @ CRLF))) (smtp_loop env stream (smtp_start env) w)"

end
