(* ===== verification/SmtpSafety.thy ===== *)
theory SmtpSafety
  imports Smtp
begin

text \<open>
  What the SMTP server guarantees: the way the bytes arrive in chunks does not matter, nothing is sent
  without the password, what is buffered is bounded, and a submitted message reaches the backend
  exactly as the client wrote it, with every envelope recipient.
\<close>

section \<open>The reference: a session over the bytes\<close>

definition first_line :: "string \<Rightarrow> string" where
  "first_line s = (case position (\<lambda>b. b = LF) s of Some i \<Rightarrow> take (i + 1) s | None \<Rightarrow> s)"

lemma first_line_ne: "s \<noteq> [] \<Longrightarrow> first_line s \<noteq> []"
  by (auto simp: first_line_def split: option.split)

lemma first_line_simps [simp]:
  "first_line [] = []" "first_line (c # s) = (if c = LF then [c] else c # first_line s)"
  by (auto simp: first_line_def split: option.splits)

lemma first_line_append: "LF \<notin> set a \<Longrightarrow> first_line (a @ s) = a @ first_line s"
  by (induction a) auto

lemma first_line_found:
  "position (\<lambda>b. b = LF) a = Some i \<Longrightarrow> first_line (a @ s) = take (i + 1) a"
  by (induction a arbitrary: i) (auto split: if_splits)

function smtp_flat :: "'w smtp_env \<Rightarrow> string \<Rightarrow> smtp_conn \<Rightarrow> 'w \<Rightarrow> 'w smtp_reply" where
  "smtp_flat env s c w = (if s = [] then Some ([], c, w)
     else if max_line_bytes (se_limits env) < length (first_line s) then Some ([''500 5.5.2 line too long'' @ CRLF], c, w)
     else case smtp_line env (from_utf8_lossy (first_line s)) c w of
       None \<Rightarrow> None
     | Some (r, c1, w1) \<Rightarrow> if sc_state c1 = SQuit then Some (r, c1, w1)
         else map_option (apfst (append r)) (smtp_flat env (drop (length (first_line s)) s) c1 w1))"
  by pat_completeness auto
termination
  by (relation "measure (\<lambda>(_, s, _). length s)") (auto simp: first_line_ne)

declare smtp_flat.simps [simp del]

lemma smtp_flat_Nil [simp]: "smtp_flat env [] c w = Some ([], c, w)"
  by (simp add: smtp_flat.simps)

lemma read_line_flat:
  assumes "LF \<notin> set raw" "length raw \<le> mx" "[] \<notin> set stream" "read_line_capped mx raw stream = (out, rest)"
  shows "out = (if raw @ concat stream = [] then Eof else finish_line (first_line (raw @ concat stream)) mx)
    \<and> (\<forall>l. out = Line l \<longrightarrow> concat rest = drop (length (first_line (raw @ concat stream))) (raw @ concat stream) \<and> [] \<notin> set rest)"
  using assms
proof (induction mx raw stream rule: read_line_capped.induct)
  case (1 mx raw)
  then show ?case using first_line_append [of raw "[]"] by auto
next
  case (2 mx raw a stream)
  show ?case
  proof (cases "position (\<lambda>b. b = LF) a")
    case None
    then have a: "LF \<notin> set a" by (auto simp: position_None)
    have f: "first_line (raw @ a @ concat stream) = raw @ a @ first_line (concat stream)"
      using first_line_append [of "raw @ a"] a 2(2) by simp
    then show ?thesis using 2 None a by (auto simp: finish_line_def split: if_splits)
  next
    case (Some i)
    have f: "first_line (raw @ a @ concat stream) = raw @ take (i + 1) a"
      using first_line_append [OF 2(2)] first_line_found [OF Some] by simp
    have "i < length a" using Some by (simp add: position_Some)
    then show ?thesis using 2 Some f by (auto split: if_splits)
  qed
qed

lemma smtp_loop_flat: "[] \<notin> set stream \<Longrightarrow> smtp_loop env stream c w = smtp_flat env (concat stream) c w"
proof (induction env stream c w rule: smtp_loop.induct)
  case (1 env stream c w)
  obtain out rest where r: "read_line_capped (max_line_bytes (se_limits env)) [] stream = (out, rest)" by fastforce
  note f = read_line_flat [OF _ _ 1(2) r, simplified]
  show ?case
  proof (cases "concat stream = []")
    case True
    then have "out = Eof" using f by (simp add: concat_eq_Nil_conv)
    then show ?thesis using True r by (simp add: smtp_loop.simps [of env stream] smtp_flat.simps [of env "concat stream"] del: concat_eq_Nil_conv)
  next
    case ne: False
    then have o: "out = finish_line (first_line (concat stream)) (max_line_bytes (se_limits env))" using f by auto
    show ?thesis
    proof (cases "max_line_bytes (se_limits env) < length (first_line (concat stream))")
      case True
      then show ?thesis using ne o r
        by (simp add: smtp_loop.simps [of env stream] smtp_flat.simps [of env "concat stream"] finish_line_def del: concat_eq_Nil_conv)
    next
      case False
      let ?l = "from_utf8_lossy (first_line (concat stream))"
      have l: "out = Line ?l" using o False by (simp add: finish_line_def)
      then have rest: "concat rest = drop (length (first_line (concat stream))) (concat stream)" "[] \<notin> set rest" using f by auto
      have "smtp_loop env rest c1 w1 = smtp_flat env (concat rest) c1 w1"
        if "smtp_line env ?l c w = Some (x, c1, w1)" "sc_state c1 \<noteq> SQuit" for x c1 w1
        using 1(1) [OF r [symmetric] l that(1) refl refl that(2) rest(2)] by simp
      then show ?thesis using ne False l r rest(1)
        by (auto simp: smtp_loop.simps [of env stream] smtp_flat.simps [of env "concat stream"] split: option.split simp del: concat_eq_Nil_conv)
    qed
  qed
qed

text \<open>
  C31: How the network cuts the client's bytes into segments changes nothing: two streams of the same bytes give
  the same replies, the same final state and the same messages sent. In particular the cap on the
  length of a line cannot be evaded, nor a line split in two, by the arrival of the bytes.
\<close>

theorem segmentation_irrelevant:
  assumes "concat stream1 = concat stream2" "[] \<notin> set stream1" "[] \<notin> set stream2"
  shows "smtp_session env stream1 w = smtp_session env stream2 w"
  using assms by (simp add: smtp_session_def smtp_loop_flat)

text \<open>A sample server keeps the messages sent as its world; its credentials are not encoded.\<close>

definition plain_base64 :: base64 where
  "plain_base64 = \<lparr>b64_encode = (\<lambda>s. s), b64_decode = Some\<rparr>"

definition sample_smtp :: "parsed_message list smtp_env" where
  "sample_smtp = \<lparr>se_b64 = plain_base64, se_uni = ascii_unicode, se_send = (\<lambda>pm w. (Inr (), w @ [pm])), se_password = Some ''secret'',
     se_limits = default_limits\<rparr>"

theorem segmentation_irrelevant_witness:
  "smtp_session sample_smtp [''QU'', ''IT'' @ [LF]] [] = smtp_session sample_smtp [''QUIT'' @ [LF]] []"
  by (rule segmentation_irrelevant) simp_all

section \<open>Nothing without the password\<close>

function smtp_lines :: "string \<Rightarrow> string list" where
  "smtp_lines s = (if s = [] then [] else from_utf8_lossy (first_line s) # smtp_lines (drop (length (first_line s)) s))"
  by pat_completeness auto
termination
  by (relation "measure length") (auto simp: first_line_ne)

declare smtp_lines.simps [simp del]

text \<open>A line that presents a password, in any of the forms the server reads one from.\<close>

definition smtp_offers :: "base64 \<Rightarrow> string \<Rightarrow> string \<Rightarrow> bool" where
  "smtp_offers b p line = (let t = trim_end line in smtp_plain_password b t = p \<or> smtp_login_password b t = p
     \<or> (case splitn 3 CHR '' '' t of [_, _, d] \<Rightarrow> smtp_plain_password b d = p | _ \<Rightarrow> False))"

lemma not_235 [simp]:
  "\<not> starts_with ''235'' (''334 UGFzc3dvcmQ6'' @ CRLF)" "\<not> starts_with ''235'' (''334 '' @ CRLF)"
  "\<not> starts_with ''235'' (''334 VXNlcm5hbWU6'' @ CRLF)" "\<not> starts_with ''235'' (''504 Unrecognized auth type'' @ CRLF)"
  by simp_all

lemma verify_wrong: "q \<noteq> p \<Longrightarrow> \<not> starts_with ''235'' (verify_smtp_password q (Some p))"
  by (simp add: verify_smtp_password_def)

lemma splitn_parts: "3 \<le> length (splitn 3 c s) \<Longrightarrow> \<exists>a m d. splitn 3 c s = [a, m, d]"
  by (auto simp: numeral_3_eq_3 split: option.splits prod.splits)

definition smtp_locked :: "smtp_conn \<Rightarrow> bool" where
  "smtp_locked c = (\<not> sc_authenticated c \<and> \<not> sc_in_data c)"

lemma locked_smtp_line:
  assumes "se_password env = Some p" "smtp_locked c" "\<not> smtp_offers (se_b64 env) p line"
  shows "\<exists>r c1. smtp_line env line c w = Some (r, c1, w) \<and> smtp_locked c1"
proof (cases "sc_auth c = AuthNone")
  case False
  then have "smtp_locked (snd (auth_line env (trim_end line) c))"
    using assms verify_wrong [of _ p]
    by (auto simp: smtp_locked_def auth_line_def note_auth_def verify_smtp_plain_data_def smtp_offers_def Let_def split: auth_step.splits prod.splits)
  then show ?thesis using False by (simp add: smtp_line_def case_prod_beta)
next
  case True
  have "\<not> starts_with ''235'' (verify_smtp_plain_data (se_b64 env) (splitn 3 CHR '' '' (trim_end line) ! 2) (Some p))"
    if three: "3 \<le> length (splitn 3 CHR '' '' (trim_end line))"
  proof -
    obtain a m d where "splitn 3 CHR '' '' (trim_end line) = [a, m, d]" using splitn_parts [OF three] by blast
    then show ?thesis using assms(3) verify_wrong [of _ p] by (auto simp: smtp_offers_def verify_smtp_plain_data_def Let_def)
  qed
  then have "smtp_locked (snd (cmd_auth env (trim_end line) c))"
    using assms(1, 2) by (auto simp: smtp_locked_def cmd_auth_def note_auth_def Let_def)
  then have "smtp_locked (snd (smtp_command env (trim_end line) c))"
    using assms(2) by (auto simp: smtp_command_def smtp_locked_def Let_def)
  then show ?thesis using True assms(2) by (simp add: smtp_line_def smtp_locked_def case_prod_beta)
qed

lemma locked_flat:
  assumes "se_password env = Some p" "smtp_locked c" "list_all (\<lambda>l. \<not> smtp_offers (se_b64 env) p l) (smtp_lines s)"
  shows "\<exists>r c2. smtp_flat env s c w = Some (r, c2, w) \<and> smtp_locked c2"
  using assms
proof (induction env s c w rule: smtp_flat.induct)
  case (1 env s c w)
  show ?case
  proof (cases "s = [] \<or> max_line_bytes (se_limits env) < length (first_line s)")
    case True
    then show ?thesis using 1(3) by (auto simp: smtp_flat.simps [of env s])
  next
    case False
    let ?l = "from_utf8_lossy (first_line s)" and ?rest = "drop (length (first_line s)) s"
    have ls: "\<not> smtp_offers (se_b64 env) p ?l" "list_all (\<lambda>l. \<not> smtp_offers (se_b64 env) p l) (smtp_lines ?rest)"
      using 1(4) False by (simp_all add: smtp_lines.simps [of s])
    obtain r c1 where r: "smtp_line env ?l c w = Some (r, c1, w)" "smtp_locked c1" using locked_smtp_line [OF 1(2, 3) ls(1)] by blast
    show ?thesis
    proof (cases "sc_state c1 = SQuit")
      case True
      then show ?thesis using r False by (simp add: smtp_flat.simps [of env s])
    next
      case go: False
      obtain r2 c2 where "smtp_flat env ?rest c1 w = Some (r2, c2, w)" "smtp_locked c2"
        using 1(1) [OF _ _ r(1) refl refl go 1(2) r(2) ls(2)] False by auto
      then show ?thesis using r False go by (simp add: smtp_flat.simps [of env s])
    qed
  qed
qed

text \<open>
  C3: No mail leaves the bridge without its password. When no line of the client presents the password, in an
  AUTH command or as the answer to a challenge, the session runs to its end without a panic, calls the
  backend not once and is still not authenticated.
\<close>

theorem password_required:
  assumes "se_password env = Some p" "list_all (\<lambda>l. \<not> smtp_offers (se_b64 env) p l) (smtp_lines (concat stream))" "[] \<notin> set stream"
  shows "\<exists>r c. smtp_session env stream w = Some (r, c, w) \<and> \<not> sc_authenticated c"
proof -
  have "smtp_locked (smtp_start env)" using assms(1) by (simp add: smtp_locked_def smtp_start_def)
  then obtain r c where "smtp_flat env (concat stream) (smtp_start env) w = Some (r, c, w)" "smtp_locked c"
    using locked_flat [OF assms(1) _ assms(2)] by blast
  then show ?thesis using assms(3) by (simp add: smtp_session_def smtp_loop_flat smtp_locked_def)
qed

theorem password_required_witness:
  "\<exists>r c. smtp_session sample_smtp [''AUTH PLAIN guess'' @ [LF], ''MAIL FROM:<a@b>'' @ [LF]] [] = Some (r, c, []) \<and> \<not> sc_authenticated c"
proof (rule password_required [of _ "''secret''"])
  have "smtp_lines (concat [''AUTH PLAIN guess'' @ [LF], ''MAIL FROM:<a@b>'' @ [LF]]) = [''AUTH PLAIN guess'' @ [LF], ''MAIL FROM:<a@b>'' @ [LF]]"
    by code_simp
  moreover have "\<not> smtp_offers plain_base64 ''secret'' (''AUTH PLAIN guess'' @ [LF])" by code_simp
  moreover have "\<not> smtp_offers plain_base64 ''secret'' (''MAIL FROM:<a@b>'' @ [LF])" by code_simp
  ultimately show "list_all (\<lambda>l. \<not> smtp_offers (se_b64 sample_smtp) ''secret'' l) (smtp_lines (concat [''AUTH PLAIN guess'' @ [LF], ''MAIL FROM:<a@b>'' @ [LF]]))"
    by (simp add: sample_smtp_def del: concat.simps)
qed (simp_all add: sample_smtp_def)

section \<open>The envelope state machine\<close>

definition in_transaction :: "smtp_state \<Rightarrow> bool" where
  "in_transaction st = (case st of SMailFrom _ \<Rightarrow> True | SRcptTo _ rcpts \<Rightarrow> rcpts \<noteq> [] | SData _ rcpts \<Rightarrow> rcpts \<noteq> [] | _ \<Rightarrow> False)"

definition smtp_ok :: "'w smtp_env \<Rightarrow> smtp_conn \<Rightarrow> bool" where
  "smtp_ok env c = (length (sc_data_buf c) \<le> max_message_bytes (se_limits env)
     \<and> (sc_state c \<in> {SInit, SGreeted, SQuit} \<or> in_transaction (sc_state c) \<and> sc_authenticated c)
     \<and> (sc_in_data c \<longleftrightarrow> (\<exists>from rcpts. sc_state c = SData from rcpts))
     \<and> (sc_in_data c \<longrightarrow> sc_auth c = AuthNone)
     \<and> (\<not> sc_in_data c \<or> sc_too_large c \<longrightarrow> sc_data_buf c = []) \<and> (sc_too_large c \<longrightarrow> sc_in_data c))"

lemma smtp_ok_auth:
  "smtp_ok env c \<Longrightarrow> \<not> sc_in_data c \<Longrightarrow> smtp_ok env (note_auth r (c\<lparr>sc_auth := step\<rparr>))"
  by (auto simp: smtp_ok_def note_auth_def)

lemma smtp_ok_command:
  assumes "smtp_ok env c" "\<not> sc_in_data c" "sc_auth c = AuthNone"
  shows "smtp_ok env (snd (smtp_command env t c))"
proof -
  have "smtp_ok env (snd (cmd_auth env t c))" using assms by (auto simp: cmd_auth_def Let_def smtp_ok_auth)
  then show ?thesis using assms
    by (auto simp: smtp_command_def Let_def smtp_ok_def in_transaction_def split: smtp_state.splits)
qed

lemma smtp_ok_line:
  assumes "smtp_line env line c w = Some (r, c1, w1)" "smtp_ok env c"
  shows "smtp_ok env c1"
proof (cases "sc_in_data c")
  case True
  then have "data_line env line c w = Some (r, c1, w1)" using assms by (simp add: smtp_line_def smtp_ok_def)
  then show ?thesis using True assms(2)
    by (auto simp: data_line_def end_of_data_def Let_def smtp_ok_def split: if_splits option.splits prod.splits)
next
  case False
  have "smtp_ok env (snd (auth_line env t c))" for t
    using assms(2) False by (auto simp: auth_line_def Let_def smtp_ok_auth split: prod.splits)
  then show ?thesis using assms False smtp_ok_command [OF assms(2) False]
   
    by (auto simp: smtp_line_def split: if_splits prod.splits) (metis snd_conv)+
qed

text \<open>
  The state of every SMTP connection is consistent after any input: the message buffered never exceeds the
  limit and exists only during DATA, DATA is reached only with a sender and at least one recipient, and
  a transaction is open only on an authenticated connection. Every prefix of a stream is a stream, so
  this is the state after each line as well.
\<close>

theorem smtp_invariant:
  assumes "smtp_session env stream w = Some (r, c, w2)"
  shows "smtp_ok env c"
proof -
  have "smtp_ok env c2" if "smtp_loop env stream c w = Some (r, c2, w2)" "smtp_ok env c" for c r c2 w2
    using that
  proof (induction env stream c w arbitrary: r c2 w2 rule: smtp_loop.induct)
    case (1 env stream c w)
    obtain out rest where o: "read_line_capped (max_line_bytes (se_limits env)) [] stream = (out, rest)" by fastforce
    show ?case
    proof (cases out)
      case (Line line)
      then obtain x c1 w1 where l: "smtp_line env line c w = Some (x, c1, w1)" using 1(2) o by (auto simp: smtp_loop.simps [of env stream] split: option.splits)
      have ok: "smtp_ok env c1" using smtp_ok_line [OF l 1(3)] .
      show ?thesis
      proof (cases "sc_state c1 = SQuit")
        case True
        then show ?thesis using 1(2) o Line l ok by (simp add: smtp_loop.simps [of env stream])
      next
        case False
        then show ?thesis using 1(1) [OF o [symmetric] Line l refl refl False _ ok] 1(2) o Line l
          by (auto simp: smtp_loop.simps [of env stream])
      qed
    qed (use 1(2, 3) o in \<open>auto simp: smtp_loop.simps [of env stream]\<close>)
  qed
  moreover have "smtp_ok env (smtp_start env)" by (simp add: smtp_ok_def smtp_start_def)
  ultimately show ?thesis using assms by (auto simp: smtp_session_def)
qed

definition small_smtp :: "parsed_message list smtp_env" where
  "small_smtp = \<lparr>se_b64 = plain_base64, se_uni = ascii_unicode, se_send = (\<lambda>pm w. (Inr (), w @ [pm])), se_password = None,
     se_limits = \<lparr>max_message_bytes = 9, max_line_bytes = 20\<rparr>\<rparr>"

theorem smtp_invariant_witness:
  "smtp_ok small_smtp \<lparr>sc_state = SData ''a'' [''b''], sc_data_buf = ''hi'' @ [LF], sc_in_data = True, sc_too_large = False,
     sc_auth = AuthNone, sc_authenticated = True\<rparr>"
proof -
  have "smtp_session small_smtp [''MAIL FROM:<a>'' @ [LF] @ ''RCPT TO:<b>'' @ [LF], ''DATA'' @ [LF], ''hi'' @ [LF]] []
    = Some ([''220 TutaBridge SMTP ready'' @ CRLF, ''250 OK'' @ CRLF, ''250 OK'' @ CRLF, ''354 Start mail input; end with <CRLF>.<CRLF>'' @ CRLF],
        \<lparr>sc_state = SData ''a'' [''b''], sc_data_buf = ''hi'' @ [LF], sc_in_data = True, sc_too_large = False, sc_auth = AuthNone, sc_authenticated = True\<rparr>, [])"
    by code_simp
  from smtp_invariant [OF this] show ?thesis .
qed

section \<open>Delivery\<close>

text \<open>A client sends each line of its message with a leading dot doubled, and ends with a lone dot.\<close>

definition stuff :: "string \<Rightarrow> string" where
  "stuff l = (if starts_with ''.'' l then CHR ''.'' # l else l)"

definition is_line :: "string \<Rightarrow> bool" where
  "is_line l = (l \<noteq> [] \<and> last l = LF \<and> LF \<notin> set (butlast l) \<and> utf8_valid l)"

lemma is_line_iff: "is_line l \<longleftrightarrow> (\<exists>b. l = b @ [LF] \<and> LF \<notin> set b \<and> utf8_valid l)"
proof
  assume "is_line l"
  then show "\<exists>b. l = b @ [LF] \<and> LF \<notin> set b \<and> utf8_valid l"
    by (intro exI [of _ "butlast l"]) (simp add: is_line_def, metis append_butlast_last_id)
qed (auto simp: is_line_def)

lemma unstuffed_stuff [simp]: "unstuffed (stuff l) = l"
  by (cases l) (auto simp: unstuffed_def stuff_def)

lemma stuff_lossy: "is_line l \<Longrightarrow> from_utf8_lossy (stuff l) = stuff l"
  by (auto simp: is_line_iff stuff_def intro!: from_utf8_lossy_valid)

lemma dot_not_LF [simp]: "CHR ''.'' \<noteq> LF" "LF \<noteq> CHR ''.''"
  by (simp_all add: LF_def)

lemma first_line_stuff: "is_line l \<Longrightarrow> first_line (stuff l @ s) = stuff l"
  by (auto simp: is_line_iff stuff_def first_line_append)

lemma trim_start_rev_dropped: "\<exists>pre. s = pre @ trim_start_rev s \<and> CHR ''.'' \<notin> set pre"
proof (induction s rule: trim_start_rev.induct)
  case (1 s)
  have d: "\<not> ascii_ws CHR ''.''" "\<not> ws2 x 46" "\<not> ws2 46 x" "\<not> ws3 x y 46" "\<not> ws3 x 46 y" "\<not> ws3 46 x y" for x y
    by (auto simp: ascii_ws_def ws2_def ws3_def)
  have "byte_of CHR ''.'' = 46" by simp
  then have w: "CHR ''.'' \<notin> set (take (ws_len_rev s) s)"
    using d by (auto simp: ws_len_rev_def split: list.split)
  show ?case
  proof (cases "ws_len_rev s = 0")
    case False
    then obtain pre where "drop (ws_len_rev s) s = pre @ trim_start_rev s" "CHR ''.'' \<notin> set pre"
      using 1 by (metis trim_start_rev.simps)
    then show ?thesis using w by (intro exI [of _ "take (ws_len_rev s) s @ pre"]) (simp, metis append_take_drop_id)
  qed (simp add: trim_start_rev.simps)
qed

lemma trim_end_dropped: "\<exists>post. s = trim_end s @ post \<and> CHR ''.'' \<notin> set post"
proof -
  obtain pre where "rev s = pre @ trim_start_rev (rev s)" "CHR ''.'' \<notin> set pre" using trim_start_rev_dropped by blast
  then show ?thesis by (intro exI [of _ "rev pre"]) (simp add: trim_end_def, metis rev_append rev_rev_ident)
qed

lemma stuffed_not_end: "trim_end (stuff l) \<noteq> ''.''"
proof
  assume "trim_end (stuff l) = ''.''"
  then obtain post where "stuff l = ''.'' @ post" "CHR ''.'' \<notin> set post" using trim_end_dropped [of "stuff l"] by metis
  then show False by (cases l) (auto simp: stuff_def split: if_splits)
qed

lemma flat_quiet:
  assumes "is_line l" "length (stuff l) \<le> max_line_bytes (se_limits env)" "smtp_line env (stuff l) c w = Some ([], c1, w)" "sc_state c1 \<noteq> SQuit"
  shows "smtp_flat env (stuff l @ s) c w = smtp_flat env s c1 w"
proof -
  have "stuff l \<noteq> []" using assms(1) by (auto simp: is_line_iff stuff_def)
  moreover have "map_option (apfst (append [])) x = x" for x :: "(string list \<times> smtp_conn \<times> 'a) option"
    by (cases x) auto
  ultimately show ?thesis
    using assms(2, 3, 4) first_line_stuff [OF assms(1), of s] stuff_lossy [OF assms(1)]
    by (subst smtp_flat.simps) simp
qed

definition buffered :: "'w smtp_env \<Rightarrow> string \<Rightarrow> smtp_conn \<Rightarrow> smtp_conn" where
  "buffered env text c = (if sc_too_large c \<or> max_message_bytes (se_limits env) < length (sc_data_buf c) + length text
     then c\<lparr>sc_too_large := True, sc_data_buf := []\<rparr> else c\<lparr>sc_data_buf := sc_data_buf c @ text\<rparr>)"

lemma buffered_Nil: "smtp_ok env c \<Longrightarrow> buffered env [] c = c"
  by (cases c) (auto simp: buffered_def smtp_ok_def)

lemma buffered_append: "buffered env b (buffered env a c) = buffered env (a @ b) c"
  by (auto simp: buffered_def)

lemma data_line_stuffed:
  assumes "smtp_ok env c" "sc_in_data c"
  shows "smtp_line env (stuff l) c w = Some ([], buffered env l c, w)"
  using assms stuffed_not_end [of l] by (cases c) (auto simp: smtp_line_def data_line_def buffered_def smtp_ok_def)

lemma data_phase:
  assumes "smtp_ok env c" "sc_in_data c" "list_all is_line ls" "list_all (\<lambda>l. length (stuff l) \<le> max_line_bytes (se_limits env)) ls"
  shows "smtp_flat env (concat (map stuff ls) @ s) c w = smtp_flat env s (buffered env (concat ls) c) w"
  using assms
proof (induction ls arbitrary: c)
  case (Cons l ls)
  have i: "sc_in_data (buffered env l c)" "sc_state (buffered env l c) = sc_state c" using Cons.prems(2) by (simp_all add: buffered_def)
  have q: "sc_state c \<noteq> SQuit" using Cons.prems(1, 2) by (auto simp: smtp_ok_def)
  have line: "smtp_line env (stuff l) c w = Some ([], buffered env l c, w)" using data_line_stuffed [OF Cons.prems(1, 2)] .
  then have "smtp_flat env (stuff l @ concat (map stuff ls) @ s) c w = smtp_flat env (concat (map stuff ls) @ s) (buffered env l c) w"
    using Cons.prems(3, 4) i(2) q by (intro flat_quiet) simp_all
  moreover have "smtp_flat env (concat (map stuff ls) @ s) (buffered env l c) w = smtp_flat env s (buffered env (concat ls) (buffered env l c)) w"
    using Cons.IH [OF smtp_ok_line [OF line Cons.prems(1)] i(1)] Cons.prems(3, 4) by simp
  ultimately show ?case by (simp add: buffered_append)
qed (simp add: buffered_Nil)

lemma complete_recipients_covers:
  "header_addrs u (complete_recipients u rcpts pm) = header_addrs u pm \<union> to_lowercase u ` set rcpts"
proof -
  have "header_addrs u (complete_recipients u rcpts pm) = header_addrs u pm \<union> to_lowercase u ` {r \<in> set rcpts. to_lowercase u r \<notin> header_addrs u pm}"
    by (simp add: complete_recipients_def header_addrs_def image_Un image_image Un_assoc)
  then show ?thesis by blast
qed

lemma end_line: "first_line (''.'' @ CRLF) = ''.'' @ CRLF" "from_utf8_lossy (''.'' @ CRLF) = ''.'' @ CRLF" "trim_end (''.'' @ CRLF) = ''.''"
  by code_simp+

text \<open>
  C2: A submitted message is delivered as written. Whatever its lines are, dots included, and however the
  bytes arrive: when it fits the limit, the backend is called once, with the parse of exactly the text
  the client wrote and with every envelope recipient added that its headers do not name; the client
  gets 250 if and only if the backend accepted it. When it does not fit, the backend is not called and
  the client gets 552. Either way the connection is ready for the next transaction.
\<close>

theorem message_delivered:
  assumes "smtp_ok env c" "sc_state c = SData from rcpts" "sc_data_buf c = []" "\<not> sc_too_large c"
    and "list_all is_line ls" "list_all (\<lambda>l. length (stuff l) \<le> max_line_bytes (se_limits env)) ls" "3 \<le> max_line_bytes (se_limits env)"
    and "concat stream = concat (map stuff ls) @ ''.'' @ CRLF" "[] \<notin> set stream"
    and "parse_rfc2822 (se_b64 env) (se_uni env) (concat ls) = Some pm"
  shows "smtp_loop env stream c w =
      (if max_message_bytes (se_limits env) < length (concat ls)
       then Some ([''552 5.3.4 message size exceeds limit'' @ CRLF], c\<lparr>sc_state := SGreeted, sc_in_data := False\<rparr>, w)
       else case se_send env (complete_recipients (se_uni env) rcpts pm) w of (res, w1) \<Rightarrow>
         Some ([(case res of Inr _ \<Rightarrow> ''250 OK message sent'' | Inl _ \<Rightarrow> ''451 Temporary failure'') @ CRLF],
           c\<lparr>sc_state := SGreeted, sc_in_data := False\<rparr>, w1))
    \<and> header_addrs (se_uni env) (complete_recipients (se_uni env) rcpts pm) = header_addrs (se_uni env) pm \<union> to_lowercase (se_uni env) ` set rcpts"
proof
  let ?b = "buffered env (concat ls) c"
  have d: "sc_in_data c" "sc_auth c = AuthNone" using assms(1, 2) by (auto simp: smtp_ok_def)
  define dot where "dot = ''.'' @ CRLF"
  have dot: "first_line dot = dot" "from_utf8_lossy dot = dot" "trim_end dot = ''.''" "dot \<noteq> []" "length dot = 3"
    using end_line by (simp_all only: dot_def) (simp_all add: CRLF_def)
  have "smtp_loop env stream c w = smtp_flat env dot ?b w"
    using data_phase [OF assms(1) d(1) assms(5, 6)] assms(8, 9) by (simp add: smtp_loop_flat dot_def)
  also have "\<dots> = (case smtp_line env dot ?b w of None \<Rightarrow> None
      | Some (r, c1, w1) \<Rightarrow> if sc_state c1 = SQuit then Some (r, c1, w1) else map_option (apfst (append r)) (smtp_flat env [] c1 w1))"
    using assms(7) dot by (subst smtp_flat.simps) (simp split: option.split)
  also have "smtp_line env dot ?b w = end_of_data env ?b w"
    using d dot(3) by (simp add: smtp_line_def data_line_def buffered_def)
  finally have "smtp_loop env stream c w = (case end_of_data env ?b w of None \<Rightarrow> None
      | Some (r, c1, w1) \<Rightarrow> if sc_state c1 = SQuit then Some (r, c1, w1) else Some (r, c1, w1))"
    by (auto split: option.split)
  then show "smtp_loop env stream c w = (if max_message_bytes (se_limits env) < length (concat ls)
       then Some ([''552 5.3.4 message size exceeds limit'' @ CRLF], c\<lparr>sc_state := SGreeted, sc_in_data := False\<rparr>, w)
       else case se_send env (complete_recipients (se_uni env) rcpts pm) w of (res, w1) \<Rightarrow>
         Some ([(case res of Inr _ \<Rightarrow> ''250 OK message sent'' | Inl _ \<Rightarrow> ''451 Temporary failure'') @ CRLF],
           c\<lparr>sc_state := SGreeted, sc_in_data := False\<rparr>, w1))"
    using assms(2, 3, 4, 10) by (cases c) (auto simp: end_of_data_def buffered_def Let_def split: prod.split sum.split)
  show "header_addrs (se_uni env) (complete_recipients (se_uni env) rcpts pm) = header_addrs (se_uni env) pm \<union> to_lowercase (se_uni env) ` set rcpts"
    by (rule complete_recipients_covers)
qed

text \<open>A message whose body is a line with a lone dot, for one recipient it does not name.\<close>

theorem message_delivered_witness:
  "\<exists>pm. parse_rfc2822 plain_base64 ascii_unicode (''To: a@b'' @ CRLF @ CRLF @ ''.'' @ CRLF) = Some pm
     \<and> smtp_loop sample_smtp [''To: a@b'' @ CRLF @ CRLF, ''..'' @ CRLF @ ''.'', CRLF]
         \<lparr>sc_state = SData ''me@b'' [''x@y''], sc_data_buf = [], sc_in_data = True, sc_too_large = False, sc_auth = AuthNone, sc_authenticated = True\<rparr> []
       = Some ([''250 OK message sent'' @ CRLF],
           \<lparr>sc_state = SGreeted, sc_data_buf = [], sc_in_data = False, sc_too_large = False, sc_auth = AuthNone, sc_authenticated = True\<rparr>,
           [complete_recipients ascii_unicode [''x@y''] pm])"
proof -
  let ?c = "\<lparr>sc_state = SData ''me@b'' [''x@y''], sc_data_buf = [], sc_in_data = True, sc_too_large = False, sc_auth = AuthNone, sc_authenticated = True\<rparr>"
  let ?ls = "[''To: a@b'' @ CRLF, CRLF, ''.'' @ CRLF]"
  have "is_ascii (concat ?ls)" by code_simp
  then obtain pm where pm: "parse_rfc2822 plain_base64 ascii_unicode (concat ?ls) = Some pm"
    using parse_ascii_total by blast
  have ok: "smtp_ok sample_smtp ?c" by (simp add: smtp_ok_def in_transaction_def)
  have ls: "list_all is_line ?ls" by code_simp
  have len: "list_all (\<lambda>l. length (stuff l) \<le> max_line_bytes (se_limits sample_smtp)) ?ls" by (simp add: sample_smtp_def default_limits_def stuff_def)
  have s: "concat [''To: a@b'' @ CRLF @ CRLF, ''..'' @ CRLF @ ''.'', CRLF] = concat (map stuff ?ls) @ ''.'' @ CRLF" by (simp add: stuff_def CR_def)
  have "smtp_loop sample_smtp [''To: a@b'' @ CRLF @ CRLF, ''..'' @ CRLF @ ''.'', CRLF] ?c []
      = Some ([''250 OK message sent'' @ CRLF], ?c\<lparr>sc_state := SGreeted, sc_in_data := False\<rparr>, [complete_recipients ascii_unicode [''x@y''] pm])"
    using message_delivered [OF ok _ _ _ ls len _ s, of "''me@b''" "[''x@y'']" pm "[]"] pm
    by (simp add: sample_smtp_def default_limits_def)
  then show ?thesis using pm by (intro exI [of _ pm]) simp
qed

end
