(* ===== verification/Supervisor.thy ===== *)
theory Supervisor
  imports RustStr Prelude
begin

text \<open>
  The service supervisor (\<open>src/service.rs\<close>, \<open>supervise\<close>) and its policy (\<open>src/service/policy.rs\<close>): it takes the
  volume lock, runs a worker process, and decides from the worker's exit code how long to wait, when to retry and
  when only a repair or a new version helps. One pass of its loop is a step; what the pass sees of the outside (stop
  requests, the lock, the fingerprint of the local session, the worker's outcome) is its input. Durations are in
  seconds.
\<close>

section \<open>Policy\<close>

datatype service_state = Configuration | Session | Storage | Rejected | Version | Occupied | Starting | Network | Failed | Stopping | Initialization

definition POLL_DELAY :: nat where "POLL_DELAY = 10"
definition LOG_INTERVAL :: nat where "LOG_INTERVAL = 300"
definition MAX_BACKOFF :: nat where "MAX_BACKOFF = 300"

definition reason :: "service_state \<Rightarrow> string" where
  "reason st = (case st of
     Configuration \<Rightarrow> ''Waiting for configuration; run tutabridge init (Docker: docker exec -it <container> init)''
   | Session \<Rightarrow> ''Waiting for a saved session; run tutabridge init (Docker: docker exec -it <container> init)''
   | Storage \<Rightarrow> ''Session storage unavailable; check volume permissions, GPG key and pass store''
   | Rejected \<Rightarrow> ''Saved session rejected; run tutabridge init (existing entry preserved)''
   | Version \<Rightarrow> ''Tuta rejects this version; update the image: docker compose pull && docker compose up -d''
   | Occupied \<Rightarrow> ''Data volume occupied by another init or service''
   | Starting \<Rightarrow> ''Starting IMAP and SMTP''
   | Network \<Rightarrow> ''Tuta temporarily unavailable; retrying with backoff''
   | Failed \<Rightarrow> ''Service failed; inspect startup diagnostics''
   | Stopping \<Rightarrow> ''Stopping''
   | Initialization \<Rightarrow> ''Initialization failed or cancelled; inspect diagnostics and saved session state'')"

definition from_exit_code :: "int \<Rightarrow> service_state" where
  "from_exit_code code = (if code = 10 then Configuration else if code = 11 then Session else if code = 12 then Storage
     else if code = 13 then Rejected else if code = 14 then Version else if code = 17 then Network
     else if code = 20 then Initialization else Failed)"

definition awaits_repair :: "service_state \<Rightarrow> string option \<Rightarrow> string option \<Rightarrow> bool" where
  "awaits_repair st previous current = (st = Version \<or> (st = Rejected \<and> previous = current))"

definition retry_delay :: "service_state \<Rightarrow> nat \<Rightarrow> nat \<times> nat" where
  "retry_delay st backoff = (if st = Failed \<or> st = Network then (backoff, min (backoff * 2) MAX_BACKOFF) else (POLL_DELAY, POLL_DELAY))"

definition should_log :: "service_state \<Rightarrow> service_state \<Rightarrow> nat \<Rightarrow> bool" where
  "should_log st previous elapsed = (st \<noteq> previous \<or> LOG_INTERVAL \<le> elapsed)"

section \<open>The loop\<close>

record attempt =
  at_stopping :: bool
  at_lock :: "string + bool"
  at_stopping_locked :: bool
  at_fingerprint :: "string option"
  at_worker :: "string + (int \<times> string) option"
  at_elapsed :: nat
  at_stopped_waiting :: bool

record supervisor =
  sv_blocked :: "(service_state \<times> string option) option"
  sv_state :: service_state
  sv_backoff :: nat

datatype sv_event = Launched | Published service_state | Logged string | Waited nat

datatype 'a flow = Continue 'a | Return "string + unit"

definition with_detail :: "service_state \<Rightarrow> string \<Rightarrow> string" where
  "with_detail st detail = reason st @ (if detail = [] then [] else '': '') @ detail"

text \<open>The attempt under the lock: blocked, or one run of the worker.\<close>

definition attempt_result :: "bool \<Rightarrow> attempt \<Rightarrow> supervisor \<Rightarrow> sv_event list \<times> (service_state \<times> string \<times> supervisor) flow" where
  "attempt_result init a sv =
    (case at_lock a of
       Inl kind \<Rightarrow> ([], Continue (Storage, ''Cannot acquire volume lock ('' @ kind @ '')'', sv))
     | Inr False \<Rightarrow> ([], Continue (Occupied, [], sv))
     | Inr True \<Rightarrow>
        (case (case sv_blocked sv of Some (st, old) \<Rightarrow> if awaits_repair st old (at_fingerprint a) then Some st else None | None \<Rightarrow> None) of
           Some st \<Rightarrow> ([], Continue (st, [], sv))
         | None \<Rightarrow> ([Published Starting, Launched],
             (case at_worker a of
                Inl e \<Rightarrow> Return (Inl e)
              | Inr None \<Rightarrow> Return (if init then Inl (reason Initialization) else Inr ())
              | Inr (Some (code, diagnostic)) \<Rightarrow> if code = 0 then Return (Inr ()) else
                  (let st = from_exit_code code in
                   Continue (st, diagnostic, if st = Rejected \<or> st = Version then sv\<lparr>sv_blocked := Some (st, at_fingerprint a)\<rparr> else sv))))))"

definition supervise_step :: "bool \<Rightarrow> bool \<Rightarrow> attempt \<Rightarrow> supervisor \<Rightarrow> sv_event list \<times> supervisor flow" where
  "supervise_step init waiting a sv =
    (if at_stopping a then ([], Return (if init then Inl (reason Initialization) else Inr ()))
     else if init \<and> at_stopping_locked a then ([], Return (Inl (reason Initialization)))
     else case attempt_result init a sv of
       (evs, Return r) \<Rightarrow> (evs, Return r)
     | (evs, Continue (st, detail, sv1)) \<Rightarrow>
         if \<not> waiting then (evs @ [Published st], Return (Inl (with_detail st detail)))
         else (let logs = (if should_log st (sv_state sv1) (at_elapsed a) then [Logged (with_detail st detail)] else []);
                   (delay, next) = retry_delay st (sv_backoff sv1)
               in if at_stopped_waiting a
                  then (evs @ [Published st] @ logs @ [Published Stopping], Return (Inr ()))
                  else (evs @ [Published st] @ logs @ [Waited delay], Continue (sv1\<lparr>sv_state := st, sv_backoff := next\<rparr>))))"

definition new_supervisor :: supervisor where
  "new_supervisor = \<lparr>sv_blocked = None, sv_state = Starting, sv_backoff = POLL_DELAY\<rparr>"

fun supervise :: "bool \<Rightarrow> bool \<Rightarrow> attempt list \<Rightarrow> supervisor \<Rightarrow> sv_event list \<times> supervisor flow" where
  "supervise init waiting [] sv = ([], Continue sv)"
| "supervise init waiting (a # rest) sv = (case supervise_step init waiting a sv of
     (evs, Return r) \<Rightarrow> (evs, Return r)
   | (evs, Continue sv2) \<Rightarrow> (case supervise init waiting rest sv2 of (evs2, r) \<Rightarrow> (evs @ evs2, r)))"

section \<open>Steps\<close>

primrec launched :: "sv_event \<Rightarrow> bool" where
  "launched Launched = True" | "launched (Published st) = False" | "launched (Logged t) = False" | "launched (Waited n) = False"

definition delays :: "sv_event list \<Rightarrow> nat list" where
  "delays evs = List.map_filter (\<lambda>e. case e of Waited n \<Rightarrow> Some n | _ \<Rightarrow> None) evs"

lemma delays_simps [simp]: "delays [] = []" "delays (Waited n # es) = n # delays es" "delays (Launched # es) = delays es"
  "delays (Published st # es) = delays es" "delays (Logged t # es) = delays es" "delays (es @ es2) = delays es @ delays es2"
  by (simp_all add: delays_def List.map_filter_def)

lemma attempt_blocked:
  assumes "sv_blocked sv = Some (st, old)" "awaits_repair st old (at_fingerprint a)" "attempt_result init a sv = (evs, x)"
  shows "evs = [] \<and> (\<exists>st2 detail. x = Continue (st2, detail, sv))"
  using assms by (auto simp: attempt_result_def split: sum.splits bool.splits)

lemma step_blocked:
  assumes "sv_blocked sv = Some (st, old)" "awaits_repair st old (at_fingerprint a)" "supervise_step init waiting a sv = (evs, x)"
  shows "\<not> list_ex launched evs \<and> (\<forall>sv2. x = Continue sv2 \<longrightarrow> sv_blocked sv2 = sv_blocked sv)"
proof -
  obtain evs1 y where at: "attempt_result init a sv = (evs1, y)" by fastforce
  from attempt_blocked [OF assms(1,2) at] obtain st2 detail where "evs1 = []" "y = Continue (st2, detail, sv)" by blast
  then show ?thesis using assms(3) at by (auto simp: supervise_step_def Let_def split: if_splits prod.splits)
qed

text \<open>Waiting for a repair is an invariant: it lasts while every fingerprint seen is the one of the rejection.\<close>

lemma supervise_blocked:
  assumes "sv_blocked sv = Some (st, old)" "\<forall>a \<in> set as. awaits_repair st old (at_fingerprint a)"
  shows "\<not> list_ex launched (fst (supervise init waiting as sv))"
  using assms
proof (induction as arbitrary: sv)
  case (Cons a as)
  obtain evs x where step: "supervise_step init waiting a sv = (evs, x)" by fastforce
  have b: "awaits_repair st old (at_fingerprint a)" using Cons.prems(2) by simp
  show ?case
  proof (cases x)
    case (Continue sv2)
    with step_blocked [OF Cons.prems(1) b step] Cons.IH [of sv2] Cons.prems step show ?thesis
      by (auto simp: split: prod.split)
  qed (use step_blocked [OF Cons.prems(1) b step] step in simp)
qed simp

text \<open>The backoff stays between ten seconds and five minutes.\<close>

definition backoff_ok :: "supervisor \<Rightarrow> bool" where
  "backoff_ok sv = (POLL_DELAY \<le> sv_backoff sv \<and> sv_backoff sv \<le> MAX_BACKOFF)"

lemma retry_delay_ok:
  "POLL_DELAY \<le> b \<Longrightarrow> b \<le> MAX_BACKOFF \<Longrightarrow> retry_delay st b = (d, n) \<Longrightarrow> POLL_DELAY \<le> d \<and> d \<le> MAX_BACKOFF \<and> POLL_DELAY \<le> n \<and> n \<le> MAX_BACKOFF"
  by (auto simp: retry_delay_def POLL_DELAY_def MAX_BACKOFF_def split: if_splits)

lemma attempt_keeps_backoff:
  "attempt_result init a sv = (evs, x) \<Longrightarrow> delays evs = [] \<and> (\<forall>st d sv2. x = Continue (st, d, sv2) \<longrightarrow> sv_backoff sv2 = sv_backoff sv)"
  by (auto simp: attempt_result_def Let_def split: sum.splits bool.splits option.splits if_splits prod.splits)

lemma step_backoff:
  assumes "backoff_ok sv" "supervise_step init waiting a sv = (evs, x)"
  shows "(\<forall>d \<in> set (delays evs). POLL_DELAY \<le> d \<and> d \<le> MAX_BACKOFF) \<and> (\<forall>sv2. x = Continue sv2 \<longrightarrow> backoff_ok sv2)"
proof -
  obtain evs1 y where at: "attempt_result init a sv = (evs1, y)" by fastforce
  have none: "delays evs1 = []" "\<And>st d sv2. y = Continue (st, d, sv2) \<Longrightarrow> sv_backoff sv2 = sv_backoff sv"
    using attempt_keeps_backoff [OF at] by auto
  show ?thesis
  proof (cases y)
    case (Continue r)
    obtain st d sv2 where r: "r = (st, d, sv2)" by (cases r)
    obtain dl nx where rd: "retry_delay st (sv_backoff sv) = (dl, nx)" by fastforce
    have "POLL_DELAY \<le> dl \<and> dl \<le> MAX_BACKOFF \<and> POLL_DELAY \<le> nx \<and> nx \<le> MAX_BACKOFF"
      using retry_delay_ok [OF _ _ rd] assms(1) by (simp add: backoff_ok_def)
    then show ?thesis using assms at none Continue r rd
      by (auto simp: supervise_step_def backoff_ok_def Let_def split: if_splits)
  qed (use assms at none in \<open>auto simp: supervise_step_def split: if_splits\<close>)
qed

lemma supervise_backoff:
  "backoff_ok sv \<Longrightarrow> d \<in> set (delays (fst (supervise init waiting as sv))) \<Longrightarrow> POLL_DELAY \<le> d \<and> d \<le> MAX_BACKOFF"
proof (induction as arbitrary: sv)
  case (Cons a as)
  obtain evs x where step: "supervise_step init waiting a sv = (evs, x)" by fastforce
  with step_backoff [OF Cons.prems(1) step] Cons.prems(2) Cons.IH show ?case
    by (cases x) (auto simp: case_prod_beta)
qed simp

definition transient_failure :: "attempt \<Rightarrow> bool" where
  "transient_failure a = (\<not> at_stopping a \<and> \<not> at_stopping_locked a \<and> at_lock a = Inr True \<and> \<not> at_stopped_waiting a \<and>
     (case at_worker a of Inr (Some (code, _)) \<Rightarrow> code \<noteq> 0 \<and> (from_exit_code code = Failed \<or> from_exit_code code = Network) | _ \<Rightarrow> False))"

lemma transient_step:
  assumes "transient_failure a" "sv_blocked sv = None"
  shows "\<exists>evs st. supervise_step init True a sv = (evs, Continue (sv\<lparr>sv_state := st, sv_backoff := min (sv_backoff sv * 2) MAX_BACKOFF\<rparr>))
    \<and> delays evs = [sv_backoff sv]"
  using assms by (auto simp: transient_failure_def supervise_step_def attempt_result_def retry_delay_def Let_def
      split: sum.splits option.splits prod.splits)

lemma min_scaled: "min (min a m * 2 ^ n) m = min (a * 2 ^ n) (m :: nat)"
proof (cases "a \<le> m")
  case False
  have "m * 1 \<le> m * 2 ^ n" "m * 1 \<le> a * 2 ^ n" using False by (intro mult_le_mono; simp)+
  then show ?thesis using False by simp
qed (simp add: min_def)

lemma transient_schedule:
  "\<forall>a \<in> set as. transient_failure a \<Longrightarrow> sv_blocked sv = None \<Longrightarrow> sv_backoff sv \<le> MAX_BACKOFF \<Longrightarrow>
    delays (fst (supervise init True as sv)) = map (\<lambda>n. min (sv_backoff sv * 2 ^ n) MAX_BACKOFF) [0..<length as]"
proof (induction as arbitrary: sv)
  case (Cons a as)
  obtain evs st where step: "supervise_step init True a sv = (evs, Continue (sv\<lparr>sv_state := st, sv_backoff := min (sv_backoff sv * 2) MAX_BACKOFF\<rparr>))"
      "delays evs = [sv_backoff sv]" using transient_step [of a sv init] Cons.prems by auto
  let ?sv2 = "sv\<lparr>sv_state := st, sv_backoff := min (sv_backoff sv * 2) MAX_BACKOFF\<rparr>"
  have "delays (fst (supervise init True as ?sv2)) = map (\<lambda>n. min (sv_backoff ?sv2 * 2 ^ n) MAX_BACKOFF) [0..<length as]"
    using Cons.IH [of ?sv2] Cons.prems by simp
  also have "\<dots> = map (\<lambda>n. min (sv_backoff sv * 2 ^ Suc n) MAX_BACKOFF) [0..<length as]"
    by (simp add: min_scaled mult.assoc)
  finally show ?case using step Cons.prems(3) by (simp add: case_prod_beta map_upt_Suc del: upt_Suc)
qed simp

lemma attempt_launches:
  assumes "attempt_result init a sv = (evs, Continue (st, d, sv2))" "Launched \<in> set evs" "at_worker a = Inr (Some (code, diagnostic))"
    and "from_exit_code code = Rejected \<or> from_exit_code code = Version"
  shows "sv_blocked sv2 = Some (from_exit_code code, at_fingerprint a)"
  using assms by (auto simp: attempt_result_def Let_def split: sum.splits bool.splits option.splits if_splits)

lemma step_continues:
  assumes "supervise_step init waiting a sv = (evs, Continue sv2)"
  shows "\<exists>evs1 st d sv1. attempt_result init a sv = (evs1, Continue (st, d, sv1)) \<and> sv_blocked sv2 = sv_blocked sv1
    \<and> (Launched \<in> set evs \<longrightarrow> Launched \<in> set evs1)"
proof -
  obtain evs1 y where at: "attempt_result init a sv = (evs1, y)" by fastforce
  with assms obtain st d sv1 where "y = Continue (st, d, sv1)" by (cases y) (auto simp: supervise_step_def split: if_splits)
  with assms at show ?thesis by (auto simp: supervise_step_def Let_def split: if_splits prod.splits)
qed

section \<open>Properties\<close>

text \<open>
  C34: A rejected worker is not run again until something was repaired. After a worker exits with the code for a
  rejected session, no worker is launched as long as the local fingerprint is the one of that attempt; after the code
  for a rejected version none is launched at all, whatever changes locally.
\<close>

theorem rejection_waits_for_repair:
  assumes "supervise_step init True a sv = (evs, Continue sv2)" "Launched \<in> set evs" "at_worker a = Inr (Some (code, diagnostic))"
    and "code = 14 \<or> code = 13 \<and> (\<forall>b \<in> set as. at_fingerprint b = at_fingerprint a)"
  shows "\<not> list_ex launched (fst (supervise init waiting as sv2))"
proof -
  have "from_exit_code code = Rejected \<or> from_exit_code code = Version" using assms(4) by (auto simp: from_exit_code_def)
  then have "sv_blocked sv2 = Some (from_exit_code code, at_fingerprint a)"
    using step_continues [OF assms(1)] assms(2,3) attempt_launches by metis
  moreover have "\<forall>b \<in> set as. awaits_repair (from_exit_code code) (at_fingerprint a) (at_fingerprint b)"
    using assms(4) by (auto simp: awaits_repair_def from_exit_code_def)
  ultimately show ?thesis by (rule supervise_blocked)
qed

definition sample_attempt :: "int \<Rightarrow> string \<Rightarrow> attempt" where
  "sample_attempt code fp = \<lparr>at_stopping = False, at_lock = Inr True, at_stopping_locked = False, at_fingerprint = Some fp,
     at_worker = Inr (Some (code, [])), at_elapsed = 0, at_stopped_waiting = False\<rparr>"

theorem rejection_waits_for_repair_witness:
  "\<not> list_ex launched (fst (supervise False True [sample_attempt 0 ''old'', sample_attempt 0 ''old'']
     \<lparr>sv_blocked = Some (Rejected, Some ''old''), sv_state = Rejected, sv_backoff = 10\<rparr>))"
proof -
  have "\<exists>evs. supervise_step False True (sample_attempt 13 ''old'') new_supervisor
      = (evs, Continue \<lparr>sv_blocked = Some (Rejected, Some ''old''), sv_state = Rejected, sv_backoff = 10\<rparr>) \<and> Launched \<in> set evs"
    by (simp add: supervise_step_def attempt_result_def sample_attempt_def new_supervisor_def from_exit_code_def retry_delay_def
        POLL_DELAY_def should_log_def)
  then obtain evs where "supervise_step False True (sample_attempt 13 ''old'') new_supervisor
      = (evs, Continue \<lparr>sv_blocked = Some (Rejected, Some ''old''), sv_state = Rejected, sv_backoff = 10\<rparr>)" "Launched \<in> set evs" by blast
  from rejection_waits_for_repair [OF this, of 13 "[]" "[sample_attempt 0 ''old'', sample_attempt 0 ''old'']"]
  show ?thesis by (simp add: sample_attempt_def del: supervise.simps)
qed

text \<open>
  The retry cadence. Every wait of the supervisor is between ten seconds and five minutes, and failures in a row
  wait 10, 20, 40, 80, 160, 300, 300, \<open>\<dots>\<close> seconds.
\<close>

theorem retry_cadence:
  "(\<forall>d \<in> set (delays (fst (supervise init waiting as new_supervisor))). 10 \<le> d \<and> d \<le> 300)
   \<and> ((\<forall>a \<in> set as. transient_failure a) \<longrightarrow>
       delays (fst (supervise init True as new_supervisor)) = map (\<lambda>n. min (10 * 2 ^ n) 300) [0..<length as])"
proof -
  have "backoff_ok new_supervisor" "sv_blocked new_supervisor = None" "sv_backoff new_supervisor = 10"
    by (simp_all add: backoff_ok_def new_supervisor_def POLL_DELAY_def MAX_BACKOFF_def)
  then show ?thesis using supervise_backoff [of new_supervisor] transient_schedule [of as new_supervisor init]
    by (auto simp: POLL_DELAY_def MAX_BACKOFF_def)
qed

theorem retry_cadence_witness:
  "delays (fst (supervise False True [sample_attempt 17 ''f'', sample_attempt 1 ''f'', sample_attempt 17 ''f''] new_supervisor)) = [10, 20, 40]"
proof -
  have "\<forall>a \<in> set [sample_attempt 17 ''f'', sample_attempt 1 ''f'', sample_attempt 17 ''f'']. transient_failure a"
    by (simp add: transient_failure_def sample_attempt_def from_exit_code_def)
  with retry_cadence [of False True "[sample_attempt 17 ''f'', sample_attempt 1 ''f'', sample_attempt 17 ''f'']"]
  have "delays (fst (supervise False True [sample_attempt 17 ''f'', sample_attempt 1 ''f'', sample_attempt 17 ''f''] new_supervisor))
      = map (\<lambda>n. min (10 * 2 ^ n) 300) [0..<length [sample_attempt 17 ''f'', sample_attempt 1 ''f'', sample_attempt 17 ''f'']]" by blast
  then show ?thesis by (simp add: upt_rec del: supervise.simps)
qed

end
